(* ===== verification/GoPrelude.thy ===== *)
theory GoPrelude
  imports Main "HOL-Library.Multiset" "HOL-Library.Word"
begin

text \<open>
  What every component shares: three-way comparators in the style of Go's
  \<open>cmp.Compare\<close> and \<open>strings.Compare\<close>, sorting by a comparator, the binary
  search of \<open>sort.Search\<close>, and the wrap-around of Go's 64-bit \<open>int\<close>.
\<close>

named_theorems cmp_laws \<open>laws of the comparators of the development\<close>

named_theorems go_simps \<open>unfoldings of the small helpers of the development\<close>

type_synonym 'a comparator = "'a \<Rightarrow> 'a \<Rightarrow> int"

section \<open>Machine integers\<close>

text \<open>Go's \<open>int\<close> and \<open>int64\<close> have 64 bits; sums and differences wrap around.\<close>

definition wrap64 :: "int \<Rightarrow> int" where
  "wrap64 n = (n + 2 ^ 63) mod 2 ^ 64 - 2 ^ 63"

definition max_int :: int where
  "max_int = 2 ^ 63 - 1"

definition min_int :: int where
  "min_int = - (2 ^ 63)"

definition int64_ok :: "int \<Rightarrow> bool" where
  "int64_ok n \<longleftrightarrow> min_int \<le> n \<and> n \<le> max_int"

lemma wrap64_id [simp]: "int64_ok n \<Longrightarrow> wrap64 n = n"
  by (simp add: wrap64_def int64_ok_def min_int_def max_int_def)

lemma wrap64_bounds: "int64_ok (wrap64 n)"
proof -
  have "0 \<le> (n + 2 ^ 63) mod 2 ^ 64" and "(n + 2 ^ 63) mod 2 ^ 64 < 2 ^ 64"
    by (rule pos_mod_sign pos_mod_bound, simp)+
  then show ?thesis by (simp add: wrap64_def int64_ok_def min_int_def max_int_def)
qed

lemma nth_not_mem: "x \<notin> set xs \<Longrightarrow> k < length xs \<Longrightarrow> xs ! k \<noteq> x"
  by (metis nth_mem)

section \<open>Comparators\<close>

text \<open>\<open>cmp.Compare\<close> on an ordered type, and \<open>cmp.Or\<close> on two results.\<close>

definition cmp_compare :: "('a::linorder) comparator" where
  "cmp_compare x y = (if x < y then -1 else if x > y then 1 else 0)"

definition cmp_or :: "int \<Rightarrow> int \<Rightarrow> int" where
  "cmp_or a b = (if a \<noteq> 0 then a else b)"

locale comparator =
  fixes cmp :: "'a \<Rightarrow> 'a \<Rightarrow> int"
  assumes cmp_flip: "cmp x y \<le> 0 \<longleftrightarrow> 0 \<le> cmp y x"
    and cmp_chain: "cmp x y \<le> 0 \<Longrightarrow> cmp y z \<le> 0 \<Longrightarrow> cmp x z \<le> 0"

text \<open>A comparator that tells any two values apart: a linear order.\<close>

locale linear_comparator = comparator +
  assumes cmp_eq: "cmp x y = 0 \<Longrightarrow> x = y"

section \<open>Sorting by a comparator\<close>

text \<open>
  The stable sort \<open>slices.SortStableFunc\<close>. The unstable \<open>slices.SortFunc\<close> returns
  some sorted permutation, which is this one where the comparator is linear on the
  values sorted (\<open>sort_by_unique\<close> below); every use of it in the modelled code has
  such a comparator, or one whose ties are between values that are equal in all the
  code reads of them.
\<close>

fun insert_by :: "('a \<Rightarrow> 'a \<Rightarrow> int) \<Rightarrow> 'a \<Rightarrow> 'a list \<Rightarrow> 'a list" where
  "insert_by cmp x [] = [x]"
| "insert_by cmp x (y # ys) = (if cmp x y \<le> 0 then x # y # ys else y # insert_by cmp x ys)"

definition sort_by :: "('a \<Rightarrow> 'a \<Rightarrow> int) \<Rightarrow> 'a list \<Rightarrow> 'a list" where
  "sort_by cmp xs = foldr (insert_by cmp) xs []"

lemma sort_by_simps [simp]:
  "sort_by cmp [] = []"
  "sort_by cmp (x # xs) = insert_by cmp x (sort_by cmp xs)"
  by (simp_all add: sort_by_def)

abbreviation sorted_by :: "('a \<Rightarrow> 'a \<Rightarrow> int) \<Rightarrow> 'a list \<Rightarrow> bool" where
  "sorted_by cmp \<equiv> sorted_wrt (\<lambda>x y. cmp x y \<le> 0)"

lemma mset_insert_by [simp]: "mset (insert_by cmp x xs) = add_mset x (mset xs)"
  by (induction xs) auto

lemma mset_sort_by [simp]: "mset (sort_by cmp xs) = mset xs"
  by (induction xs) auto

lemma set_sort_by [simp]: "set (sort_by cmp xs) = set xs"
  by (metis mset_sort_by set_mset_mset)

lemma length_sort_by [simp]: "length (sort_by cmp xs) = length xs"
  by (metis mset_sort_by size_mset)

lemma sort_by_Nil_iff [simp]: "sort_by cmp xs = [] \<longleftrightarrow> xs = []"
  by (metis length_0_conv length_sort_by)

lemma distinct_sort_by [simp]: "distinct (sort_by cmp xs) = distinct xs"
  by (metis mset_eq_imp_distinct_iff mset_sort_by)

lemma set_insert_by [simp]: "set (insert_by cmp x xs) = insert x (set xs)"
  by (metis mset_insert_by set_mset_add_mset_insert set_mset_mset)

context comparator
begin

lemma cmp_refl: "cmp x x \<le> 0"
  using cmp_flip [of x x] by linarith

lemma cmp_self: "cmp x x = 0"
  using cmp_flip [of x x] by linarith

lemma cmp_zero_flip: "cmp x y = 0 \<longleftrightarrow> cmp y x = 0"
  using cmp_flip [of x y] cmp_flip [of y x] by linarith

lemma cmp_total: "cmp x y \<le> 0 \<or> cmp y x \<le> 0"
  using cmp_flip [of x y] by linarith

lemma cmp_less_flip: "cmp x y < 0 \<longleftrightarrow> 0 < cmp y x"
  using cmp_flip [of y x] by linarith

lemma sorted_insert_by: "sorted_by cmp xs \<Longrightarrow> sorted_by cmp (insert_by cmp x xs)"
proof (induction xs)
  case Nil
  then show ?case by simp
next
  case (Cons y ys)
  show ?case
  proof (cases "cmp x y \<le> 0")
    case True
    with Cons.prems show ?thesis by (auto intro: cmp_chain)
  next
    case False
    then have "cmp y x \<le> 0" using cmp_total by blast
    with Cons False show ?thesis by auto
  qed
qed

lemma sorted_sort_by: "sorted_by cmp (sort_by cmp xs)"
  by (induction xs) (auto intro: sorted_insert_by)

lemma sort_by_sorted: "sorted_by cmp xs \<Longrightarrow> sort_by cmp xs = xs"
proof (induction xs)
  case Nil
  then show ?case by simp
next
  case (Cons x xs)
  then show ?case by (cases xs) auto
qed

text \<open>Two sorted lists of the same elements are equal where only equal elements tie.\<close>

lemma sorted_unique:
  assumes "sorted_by cmp ys" and "sorted_by cmp zs" and "mset ys = mset zs"
    and "\<And>x y. x \<in> set ys \<Longrightarrow> y \<in> set ys \<Longrightarrow> cmp x y = 0 \<Longrightarrow> x = y"
  shows "ys = zs"
  using assms
proof (induction ys arbitrary: zs)
  case Nil
  then show ?case by simp
next
  case (Cons y ys)
  then obtain z zs' where zs: "zs = z # zs'"
    by (cases zs) auto
  have yz: "y \<in> set zs" "z \<in> set (y # ys)"
    using Cons.prems(3) zs by (metis list.set_intros(1) mset_eq_setD)+
  then have "cmp y z \<le> 0" and "cmp z y \<le> 0"
    using Cons.prems(1,2) zs by (auto simp: cmp_refl)
  then have "cmp y z = 0" using cmp_flip [of z y] by linarith
  then have "y = z" using Cons.prems(4) [of y z] yz(2) by simp
  then show ?case using Cons zs by auto
qed

lemma sort_by_perm_on:
  assumes "mset xs = mset ys"
    and "\<And>x y. x \<in> set xs \<Longrightarrow> y \<in> set xs \<Longrightarrow> cmp x y = 0 \<Longrightarrow> x = y"
  shows "sort_by cmp xs = sort_by cmp ys"
  by (rule sorted_unique) (use assms in \<open>auto simp: sorted_sort_by\<close>)

end

context linear_comparator
begin

lemma cmp_zero_iff: "cmp x y = 0 \<longleftrightarrow> x = y"
  using cmp_eq cmp_self by blast

lemma cmp_antisym: "cmp x y \<le> 0 \<Longrightarrow> cmp y x \<le> 0 \<Longrightarrow> x = y"
  using cmp_flip [of x y] cmp_eq by fastforce

text \<open>Any sorted permutation of the input is the one this sort returns.\<close>

lemma sort_by_unique:
  assumes "sorted_by cmp ys" and "mset ys = mset xs"
  shows "ys = sort_by cmp xs"
  by (rule sorted_unique) (use assms in \<open>auto simp: sorted_sort_by cmp_eq\<close>)

lemma sort_by_perm: "mset xs = mset ys \<Longrightarrow> sort_by cmp xs = sort_by cmp ys"
  by (rule sort_by_unique) (auto simp: sorted_sort_by)

end

lemma cmp_compare_simps [go_simps]:
  "cmp_compare x y \<le> 0 \<longleftrightarrow> x \<le> y"
  "0 \<le> cmp_compare x y \<longleftrightarrow> y \<le> x"
  "cmp_compare x y < 0 \<longleftrightarrow> x < y"
  "0 < cmp_compare x y \<longleftrightarrow> y < x"
  "cmp_compare x y = 0 \<longleftrightarrow> x = y"
  by (auto simp: cmp_compare_def)

interpretation cmp_ord: linear_comparator "cmp_compare :: ('a::linorder) comparator"
  by unfold_locales (auto simp: go_simps)

text \<open>Comparing by one key and then another, as \<open>cmp.Or\<close> chains do.\<close>

lemma comparator_on: "comparator cmp \<Longrightarrow> comparator (\<lambda>x y. cmp (f x) (f y))"
  unfolding comparator_def by blast

lemma comparator_converse: "comparator cmp \<Longrightarrow> comparator (\<lambda>x y. cmp y x)"
  unfolding comparator_def by (metis linorder_le_cases)

lemma comparator_or:
  assumes a: "comparator a" and b: "comparator b"
  shows "comparator (\<lambda>x y. cmp_or (a x y) (b x y))"
proof
  note af = comparator.cmp_flip [OF a] and ac = comparator.cmp_chain [OF a]
    and bf = comparator.cmp_flip [OF b] and bc = comparator.cmp_chain [OF b]
  fix x y z
  show "cmp_or (a x y) (b x y) \<le> 0 \<longleftrightarrow> 0 \<le> cmp_or (a y x) (b y x)"
    using af [of x y] af [of y x] bf [of x y] by (auto simp: cmp_or_def)
  assume 1: "cmp_or (a x y) (b x y) \<le> 0" and 2: "cmp_or (a y z) (b y z) \<le> 0"
  have axy: "a x y \<le> 0" and ayz: "a y z \<le> 0"
    using 1 2 by (auto simp: cmp_or_def split: if_splits)
  have axz: "a x z \<le> 0" by (rule ac [OF axy ayz])
  show "cmp_or (a x z) (b x z) \<le> 0"
  proof (cases "a x z = 0")
    case True
    then have zx: "a z x \<le> 0" using af [of z x] by simp
    have "a y x \<le> 0" and "a z y \<le> 0"
      using ac [OF ayz zx] ac [OF zx axy] by auto
    then have "a x y = 0" and "a y z = 0"
      using axy ayz af [of y x] af [of z y] by linarith+
    then have "b x z \<le> 0"
      using 1 2 bc by (auto simp: cmp_or_def)
    with True show ?thesis by (simp add: cmp_or_def)
  next
    case False
    with axz show ?thesis by (simp add: cmp_or_def)
  qed
qed

lemma cmp_or_zero [simp]: "cmp_or a b = 0 \<longleftrightarrow> a = 0 \<and> b = 0"
  by (auto simp: cmp_or_def)

section \<open>Binary search\<close>

text \<open>
  \<open>sort.Search(n, f)\<close>: the loop of the library on the half-open range \<open>[i, j)\<close>.
\<close>

function search_loop :: "(nat \<Rightarrow> bool) \<Rightarrow> nat \<Rightarrow> nat \<Rightarrow> nat" where
  "search_loop f i j =
     (if i < j then
        (let h = (i + j) div 2
         in if \<not> f h then search_loop f (h + 1) j else search_loop f i h)
      else i)"
  by pat_completeness auto
termination
  by (relation "measure (\<lambda>(f, i, j). j - i)") auto

declare search_loop.simps [simp del]

definition sort_search :: "nat \<Rightarrow> (nat \<Rightarrow> bool) \<Rightarrow> nat" where
  "sort_search n f = search_loop f 0 n"

lemma search_loop_spec:
  assumes "i \<le> j" and "j \<le> n"
    and "\<And>k. k < i \<Longrightarrow> \<not> f k"
    and "\<And>k. j \<le> k \<Longrightarrow> k < n \<Longrightarrow> f k"
    and mono: "\<And>k l. k \<le> l \<Longrightarrow> l < n \<Longrightarrow> f k \<Longrightarrow> f l"
  shows "search_loop f i j \<le> n \<and> (\<forall>k < search_loop f i j. \<not> f k)
    \<and> (\<forall>k. search_loop f i j \<le> k \<and> k < n \<longrightarrow> f k)"
  using assms(1-4)
proof (induction "j - i" arbitrary: i j rule: less_induct)
  case less
  show ?case
  proof (cases "i < j")
    case False
    then have eq: "search_loop f i j = i" by (subst search_loop.simps) simp
    show ?thesis unfolding eq using less.prems False by simp
  next
    case True
    define h where "h = (i + j) div 2"
    have h: "i \<le> h" "h < j" using True by (auto simp: h_def)
    show ?thesis
    proof (cases "f h")
      case fh: True
      have eq: "search_loop f i j = search_loop f i h"
        using True fh by (simp add: search_loop.simps [of f i j] h_def Let_def)
      show ?thesis unfolding eq
      proof (rule less.hyps)
        fix k assume "h \<le> k" "k < n"
        then show "f k" using mono fh by blast
      qed (use h less.prems in auto)
    next
      case fh: False
      have eq: "search_loop f i j = search_loop f (h + 1) j"
        using True fh by (simp add: search_loop.simps [of f i j] h_def Let_def)
      show ?thesis unfolding eq
      proof (rule less.hyps)
        fix k assume "k < h + 1"
        then have "k \<le> h" by simp
        then show "\<not> f k" using mono [of k h] fh h less.prems by force
      qed (use h less.prems in auto)
    qed
  qed
qed

text \<open>On a predicate that stays true, the search returns its first index.\<close>

lemma sort_search_spec:
  assumes "\<And>k l. k \<le> l \<Longrightarrow> l < n \<Longrightarrow> f k \<Longrightarrow> f l"
  shows "sort_search n f \<le> n" and "k < sort_search n f \<Longrightarrow> \<not> f k"
    and "sort_search n f \<le> k \<Longrightarrow> k < n \<Longrightarrow> f k"
proof -
  have "search_loop f 0 n \<le> n \<and> (\<forall>k < search_loop f 0 n. \<not> f k)
    \<and> (\<forall>k. search_loop f 0 n \<le> k \<and> k < n \<longrightarrow> f k)"
    by (rule search_loop_spec) (use assms in auto)
  then show "sort_search n f \<le> n" and "k < sort_search n f \<Longrightarrow> \<not> f k"
    and "sort_search n f \<le> k \<Longrightarrow> k < n \<Longrightarrow> f k"
    by (auto simp: sort_search_def)
qed

lemma sort_search_exists:
  assumes mono: "\<And>k l. k \<le> l \<Longrightarrow> l < n \<Longrightarrow> f k \<Longrightarrow> f l"
  shows "sort_search n f < n \<longleftrightarrow> (\<exists>k < n. f k)"
proof
  assume lt: "sort_search n f < n"
  have "f (sort_search n f)"
    by (rule sort_search_spec(3) [where n = n]) (use mono lt in auto)
  with lt show "\<exists>k < n. f k" by blast
next
  assume "\<exists>k < n. f k"
  then obtain k where k: "k < n" "f k" by blast
  have "\<not> k < sort_search n f"
  proof
    assume "k < sort_search n f"
    then have "\<not> f k" by (rule sort_search_spec(2) [rotated]) (use mono in auto)
    with k show False by simp
  qed
  with k show "sort_search n f < n" by simp
qed

end
