(* ===== verification/GoStrings.thy ===== *)
theory GoStrings
  imports GoPrelude
begin

text \<open>
  The functions of Go's \<open>strings\<close> and \<open>strconv\<close> packages that the modelled code
  calls. A Go string is a sequence of bytes, and so is a \<open>string\<close> here: a \<open>char\<close>
  is eight bits, and text beyond ASCII is its UTF-8 bytes.
\<close>

section \<open>Prefixes, suffixes, searching\<close>

definition has_prefix :: "string \<Rightarrow> string \<Rightarrow> bool" where
  "has_prefix s p \<longleftrightarrow> take (length p) s = p"

definition has_suffix :: "string \<Rightarrow> string \<Rightarrow> bool" where
  "has_suffix s p \<longleftrightarrow> length p \<le> length s \<and> drop (length s - length p) s = p"

definition cut_prefix :: "string \<Rightarrow> string \<Rightarrow> string option" where
  "cut_prefix s p = (if has_prefix s p then Some (drop (length p) s) else None)"

definition trim_prefix :: "string \<Rightarrow> string \<Rightarrow> string" where
  "trim_prefix s p = (if has_prefix s p then drop (length p) s else s)"

definition trim_suffix :: "string \<Rightarrow> string \<Rightarrow> string" where
  "trim_suffix s p = (if has_suffix s p then take (length s - length p) s else s)"

text \<open>\<open>strings.Cut(s, sep)\<close>: the text before and after the first \<open>sep\<close>.\<close>

fun go_cut :: "string \<Rightarrow> string \<Rightarrow> (string \<times> string) option" where
  "go_cut [] sep = (if sep = [] then Some ([], []) else None)"
| "go_cut (c # cs) sep =
     (if has_prefix (c # cs) sep then Some ([], drop (length sep) (c # cs))
      else map_option (\<lambda>(a, b). (c # a, b)) (go_cut cs sep))"

definition contains_any :: "string \<Rightarrow> string \<Rightarrow> bool" where
  "contains_any s chars \<longleftrightarrow> list_ex (\<lambda>c. c \<in> set chars) s"

text \<open>\<open>strings.LastIndexByte\<close>; \<open>-1\<close> is None.\<close>

fun last_index_byte :: "string \<Rightarrow> char \<Rightarrow> nat option" where
  "last_index_byte [] c = None"
| "last_index_byte (x # xs) c =
     (case last_index_byte xs c of
        Some i \<Rightarrow> Some (Suc i)
      | None \<Rightarrow> if x = c then Some 0 else None)"

definition count_byte :: "string \<Rightarrow> char \<Rightarrow> nat" where
  "count_byte s c = length (filter (\<lambda>x. x = c) s)"

section \<open>Splitting and joining\<close>

fun split_on :: "char \<Rightarrow> string \<Rightarrow> string list" where
  "split_on c [] = [[]]"
| "split_on c (x # xs) =
     (if x = c then [] # split_on c xs
      else (case split_on c xs of [] \<Rightarrow> [[x]] | w # ws \<Rightarrow> (x # w) # ws))"

fun join_with :: "string \<Rightarrow> string list \<Rightarrow> string" where
  "join_with sep [] = []"
| "join_with sep [w] = w"
| "join_with sep (w # ws) = w @ sep @ join_with sep ws"

text \<open>\<open>strings.TrimRight(s, cutset)\<close> for an ASCII cutset.\<close>

definition trim_right :: "string \<Rightarrow> string \<Rightarrow> string" where
  "trim_right s cutset = rev (dropWhile (\<lambda>c. c \<in> set cutset) (rev s))"

definition chr :: "nat \<Rightarrow> char" where
  "chr n = char_of n"

definition nl :: char where "nl = chr 10"
definition cr :: char where "cr = chr 13"
definition tab :: char where "tab = chr 9"

text \<open>
  Unicode white space in UTF-8 (\<open>unicode.IsSpace\<close>): the six ASCII ones, U+0085,
  U+00A0, U+1680, U+2000 to U+200A, U+2028, U+2029, U+202F, U+205F and U+3000.
\<close>

definition space_codes :: "nat list list" where
  "space_codes =
     [[9], [10], [11], [12], [13], [32], [194, 133], [194, 160], [225, 154, 128],
      [226, 128, 128], [226, 128, 129], [226, 128, 130], [226, 128, 131], [226, 128, 132],
      [226, 128, 133], [226, 128, 134], [226, 128, 135], [226, 128, 136], [226, 128, 137],
      [226, 128, 138], [226, 128, 168], [226, 128, 169], [226, 128, 175], [226, 129, 159],
      [227, 128, 128]]"

definition go_spaces :: "string list" where
  "go_spaces = map (map chr) space_codes"

text \<open>How many bytes of white space the text starts with, at its first character.\<close>

definition space_len :: "string list \<Rightarrow> string \<Rightarrow> nat" where
  "space_len spaces s =
     (case find (has_prefix s) spaces of None \<Rightarrow> 0 | Some w \<Rightarrow> length w)"

function trim_left_by :: "string list \<Rightarrow> string \<Rightarrow> string" where
  "trim_left_by spaces s =
     (if s \<noteq> [] \<and> 0 < space_len spaces s then trim_left_by spaces (drop (space_len spaces s) s) else s)"
  by pat_completeness auto
termination
  by (relation "measure (\<lambda>(spaces, s). length s)") auto

declare trim_left_by.simps [simp del]

definition trim_space :: "string \<Rightarrow> string" where
  "trim_space s =
     rev (trim_left_by (map rev go_spaces) (rev (trim_left_by go_spaces s)))"

text \<open>
  \<open>strings.Fields\<close>: the maximal runs of text between white space. The first argument
  is the field being read, in reverse.
\<close>

function fields_from :: "string \<Rightarrow> string \<Rightarrow> string list" where
  "fields_from w [] = (if w = [] then [] else [rev w])"
| "fields_from w (c # cs) =
     (let n = space_len go_spaces (c # cs)
      in if 0 < n
         then (if w = [] then [] else [rev w]) @ fields_from [] (drop n (c # cs))
         else fields_from (c # w) cs)"
  by pat_completeness auto
termination
  by (relation "measure (\<lambda>(w, s). length s)") auto

definition go_fields :: "string \<Rightarrow> string list" where
  "go_fields s = fields_from [] s"

section \<open>Numbers as text\<close>

definition digit_of :: "nat \<Rightarrow> char" where
  "digit_of d = chr (48 + d)"

fun digits_of :: "nat \<Rightarrow> string" where
  "digits_of n = (if n < 10 then [digit_of n] else digits_of (n div 10) @ [digit_of (n mod 10)])"

declare digits_of.simps [simp del]

text \<open>\<open>strconv.Itoa\<close>.\<close>

definition itoa :: "int \<Rightarrow> string" where
  "itoa n = (if n < 0 then CHR ''-'' # digits_of (nat (- n)) else digits_of (nat n))"

definition ord :: "char \<Rightarrow> nat" where
  "ord c = of_char c"

definition is_digit :: "char \<Rightarrow> bool" where
  "is_digit c \<longleftrightarrow> 48 \<le> ord c \<and> ord c \<le> 57"

definition digit_val :: "char \<Rightarrow> nat" where
  "digit_val c = ord c - 48"

fun number_from :: "nat \<Rightarrow> nat \<Rightarrow> string \<Rightarrow> nat option" where
  "number_from base n [] = Some n"
| "number_from base n (c # cs) =
     (if is_digit c \<and> digit_val c < base then number_from base (n * base + digit_val c) cs else None)"

text \<open>\<open>strconv.ParseUint(s, base, bits)\<close> for a base up to ten: no sign, no empty text.\<close>

definition parse_uint :: "string \<Rightarrow> nat \<Rightarrow> nat \<Rightarrow> nat option" where
  "parse_uint s base bits =
     (if s = [] then None
      else case number_from base 0 s of
             None \<Rightarrow> None
           | Some n \<Rightarrow> if n < 2 ^ bits then Some n else None)"

text \<open>\<open>strconv.Atoi\<close>: an optional sign, decimal digits, and a value that fits an \<open>int\<close>.\<close>

definition atoi :: "string \<Rightarrow> int option" where
  "atoi s =
     (let (neg, ds) =
        (case s of
           [] \<Rightarrow> (False, [])
         | c # cs \<Rightarrow> if c = CHR ''-'' then (True, cs)
                     else if c = CHR ''+'' then (False, cs) else (False, c # cs))
      in if ds = [] then None
         else case number_from 10 0 ds of
                None \<Rightarrow> None
              | Some n \<Rightarrow>
                  (let v = (if neg then - int n else int n)
                   in if int64_ok v then Some v else None))"

section \<open>Comparing\<close>

text \<open>\<open>strings.Compare\<close>: bytewise, a proper prefix first.\<close>

fun cmp_str :: "string \<Rightarrow> string \<Rightarrow> int" where
  "cmp_str [] [] = 0"
| "cmp_str [] (y # ys) = -1"
| "cmp_str (x # xs) [] = 1"
| "cmp_str (x # xs) (y # ys) = (if ord x < ord y then -1 else if ord y < ord x then 1 else cmp_str xs ys)"

section \<open>Lemmas\<close>

lemma has_prefix_Nil [simp]: "has_prefix s []"
  by (simp add: has_prefix_def)

lemma has_prefix_append [simp]: "has_prefix (p @ s) p"
  by (simp add: has_prefix_def)

lemma has_prefix_iff: "has_prefix s p \<longleftrightarrow> (\<exists>t. s = p @ t)"
  unfolding has_prefix_def by (metis append_eq_conv_conj append_take_drop_id)

lemma has_prefix_Cons [simp]:
  "has_prefix (x # xs) (y # ys) \<longleftrightarrow> x = y \<and> has_prefix xs ys"
  by (auto simp: has_prefix_def)

lemma has_prefix_Nil_left [simp]: "has_prefix [] p \<longleftrightarrow> p = []"
  by (auto simp: has_prefix_def)

lemma cut_prefix_Some: "cut_prefix s p = Some t \<longleftrightarrow> s = p @ t"
  by (auto simp: cut_prefix_def has_prefix_iff)

lemma split_on_nonempty [simp]: "split_on c s \<noteq> []"
  by (induction s) (auto split: list.splits)

lemma join_with_Cons: "ws \<noteq> [] \<Longrightarrow> join_with sep (w # ws) = w @ sep @ join_with sep ws"
  by (cases ws) auto

lemma join_split_on [simp]: "join_with [c] (split_on c s) = s"
proof (induction s)
  case Nil
  then show ?case by simp
next
  case (Cons x xs)
  obtain w ws where ws: "split_on c xs = w # ws"
    using split_on_nonempty by (meson neq_Nil_conv)
  with Cons show ?case by (cases ws) auto
qed

lemma split_on_no_sep: "w \<in> set (split_on c s) \<Longrightarrow> c \<notin> set w"
proof (induction s arbitrary: w)
  case Nil
  then show ?case by simp
next
  case (Cons x xs)
  obtain v vs where ws: "split_on c xs = v # vs"
    using split_on_nonempty by (meson neq_Nil_conv)
  with Cons show ?case by (auto split: if_splits)
qed

lemma split_on_single: "c \<notin> set w \<Longrightarrow> split_on c w = [w]"
  by (induction w) auto

lemma split_on_append: "c \<notin> set w \<Longrightarrow> split_on c (w @ c # s) = w # split_on c s"
  by (induction w) auto

lemma split_on_snoc: "split_on c (t @ [c]) = split_on c t @ [[]]"
proof (induction t)
  case Nil
  then show ?case by simp
next
  case (Cons x xs)
  obtain v vs where "split_on c xs = v # vs"
    using split_on_nonempty by (meson neq_Nil_conv)
  with Cons show ?case by simp
qed

lemma split_on_join:
  assumes "ws \<noteq> []" and "\<And>w. w \<in> set ws \<Longrightarrow> c \<notin> set w"
  shows "split_on c (join_with [c] ws) = ws"
  using assms
proof (induction ws rule: list_nonempty_induct)
  case (single x)
  then show ?case by (simp add: split_on_single)
next
  case (cons x xs)
  then show ?case by (simp add: join_with_Cons split_on_append)
qed

lemma set_split_on: "w \<in> set (split_on c s) \<Longrightarrow> set w \<subseteq> set s"
proof (induction s arbitrary: w)
  case Nil
  then show ?case by simp
next
  case (Cons x xs)
  obtain v vs where ws: "split_on c xs = v # vs"
    using split_on_nonempty by (meson neq_Nil_conv)
  with Cons show ?case by (fastforce split: if_splits)
qed

lemma go_cut_Some: "go_cut s sep = Some (a, b) \<Longrightarrow> s = a @ sep @ b"
  by (induction s arbitrary: a b) (auto simp: has_prefix_iff split: if_splits)

lemma go_cut_char:
  "c \<notin> set a \<Longrightarrow> go_cut (a @ c # b) [c] = Some (a, b)"
  by (induction a) auto

lemma go_cut_char_None: "go_cut s [c] = None \<longleftrightarrow> c \<notin> set s"
  by (induction s) auto

lemma ord_chr [simp]: "n < 256 \<Longrightarrow> ord (chr n) = n"
  by (simp add: ord_def chr_def)

lemma chr_ord [simp]: "chr (ord c) = c"
  by (simp add: ord_def chr_def)

lemma ord_inject [simp]: "ord a = ord b \<longleftrightarrow> a = b"
  by (metis chr_ord)

lemma ord_bound: "ord c < 256"
  by (simp add: ord_def)

lemma digit_of_simps [simp]:
  "d < 10 \<Longrightarrow> is_digit (digit_of d)" "d < 10 \<Longrightarrow> digit_val (digit_of d) = d"
  by (simp_all add: is_digit_def digit_val_def digit_of_def)

lemma number_from_append:
  "number_from base n (xs @ ys) = Option.bind (number_from base n xs) (\<lambda>m. number_from base m ys)"
  by (induction xs arbitrary: n) auto

lemma number_from_digits: "number_from 10 0 (digits_of n) = Some n"
proof (induction n rule: digits_of.induct)
  case (1 n)
  show ?case
  proof (cases "n < 10")
    case True
    then show ?thesis by (subst digits_of.simps) simp
  next
    case False
    with 1 show ?thesis
      by (subst digits_of.simps) (simp add: number_from_append)
  qed
qed

lemma digits_of_nonempty [simp]: "digits_of n \<noteq> []"
  by (subst digits_of.simps) simp

lemma digits_of_digits: "c \<in> set (digits_of n) \<Longrightarrow> is_digit c"
proof (induction n rule: digits_of.induct)
  case (1 n)
  then show ?case by (cases "n < 10") (auto simp: digits_of.simps [of n])
qed

lemma digits_of_inject [simp]: "digits_of m = digits_of n \<longleftrightarrow> m = n"
  by (metis number_from_digits option.inject)

lemma not_digit [simp]: "\<not> is_digit CHR ''-''" "\<not> is_digit CHR ''+''"
  by (simp_all add: is_digit_def ord_def)

lemma atoi_itoa [simp]: assumes "int64_ok n" shows "atoi (itoa n) = Some n"
proof (cases "n < 0")
  case True
  then show ?thesis using assms
    by (simp add: atoi_def itoa_def number_from_digits)
next
  case False
  obtain c cs where d: "digits_of (nat n) = c # cs"
    using digits_of_nonempty by (meson neq_Nil_conv)
  then have "is_digit c" by (metis digits_of_digits list.set_intros(1))
  then have "c \<noteq> CHR ''-''" and "c \<noteq> CHR ''+''" by auto
  then show ?thesis using assms False d number_from_digits [of "nat n"]
    by (auto simp: atoi_def itoa_def)
qed

lemma atoi_bounds: "atoi s = Some n \<Longrightarrow> int64_ok n"
  by (auto simp: atoi_def Let_def split: list.splits if_splits option.splits)

lemma itoa_inject: "itoa m = itoa n \<longleftrightarrow> m = n"
proof
  assume eq: "itoa m = itoa n"
  have head: "hd (digits_of k) \<noteq> CHR ''-''" for k
    by (metis digits_of_digits digits_of_nonempty list.set_sel(1) not_digit(1))
  show "m = n"
    using eq head [of "nat m"] head [of "nat n"]
    by (auto simp: itoa_def split: if_splits) (metis list.sel(1))+
qed simp

lemma parse_uint_digits: "n < 2 ^ bits \<Longrightarrow> parse_uint (digits_of n) 10 bits = Some n"
  by (simp add: parse_uint_def number_from_digits)

lemma parse_uint_bound: "parse_uint s base bits = Some n \<Longrightarrow> n < 2 ^ bits"
  by (auto simp: parse_uint_def split: if_splits option.splits)

section \<open>Plain text\<close>

text \<open>The lines of a text: each ends before a newline or at the end, and an empty rest is none.\<close>

definition raw_lines :: "string \<Rightarrow> string list" where
  "raw_lines s = (let ws = split_on nl s in if last ws = [] then butlast ws else ws)"

text \<open>Printable ASCII without blanks, which no white space starts or ends with.\<close>

definition plain_char :: "char \<Rightarrow> bool" where
  "plain_char c \<longleftrightarrow> 33 \<le> ord c \<and> ord c \<le> 126"

lemma space_bytes: "w \<in> set go_spaces \<Longrightarrow> w \<noteq> [] \<and> (\<forall>c \<in> set w. \<not> plain_char c)"
proof -
  have "list_all (\<lambda>w. w \<noteq> [] \<and> list_all (\<lambda>n. n < 256 \<and> \<not> (33 \<le> n \<and> n \<le> 126)) w) space_codes"
    by code_simp
  then show "w \<in> set go_spaces \<Longrightarrow> w \<noteq> [] \<and> (\<forall>c \<in> set w. \<not> plain_char c)"
    by (auto simp: go_spaces_def list_all_iff plain_char_def)
qed

lemma space_len_plain:
  assumes "plain_char c" and "\<And>w. w \<in> set spaces \<Longrightarrow> w \<noteq> [] \<and> (\<forall>c \<in> set w. \<not> plain_char c)"
  shows "space_len spaces (c # cs) = 0"
proof -
  have "\<not> has_prefix (c # cs) w" if "w \<in> set spaces" for w
    using assms(2) [OF that] assms(1) by (cases w) auto
  then have "find (has_prefix (c # cs)) spaces = None" by (simp add: find_None_iff)
  then show ?thesis by (simp add: space_len_def)
qed

lemma rev_spaces: "w \<in> set (map rev go_spaces) \<Longrightarrow> w \<noteq> [] \<and> (\<forall>c \<in> set w. \<not> plain_char c)"
  using space_bytes by auto

lemma trim_left_keeps:
  assumes sp: "\<And>w. w \<in> set spaces \<Longrightarrow> w \<noteq> [] \<and> (\<forall>c \<in> set w. \<not> plain_char c)" and c: "plain_char c"
  shows "c \<in> set s \<Longrightarrow> c \<in> set (trim_left_by spaces s)"
proof (induction s rule: measure_induct_rule [of length])
  case (less s)
  show ?case
  proof (cases "s \<noteq> [] \<and> 0 < space_len spaces s")
    case False
    then show ?thesis using less.prems by (subst trim_left_by.simps) auto
  next
    case True
    then obtain w where w: "find (has_prefix s) spaces = Some w" "space_len spaces s = length w"
      by (auto simp: space_len_def split: option.splits)
    then have ws: "w \<in> set spaces" "has_prefix s w"
      using find_Some_iff [of "has_prefix s" spaces w] by auto
    then obtain t where t: "s = w @ t" by (auto simp: has_prefix_iff)
    have "c \<in> set t" using less.prems t sp [OF ws(1)] c by auto
    moreover have "length t < length s" using t sp [OF ws(1)] by simp
    ultimately have "c \<in> set (trim_left_by spaces t)" by (rule less.IH [rotated])
    then show ?thesis using True w(2) t by (subst trim_left_by.simps) simp
  qed
qed

lemma trim_space_keeps: "plain_char c \<Longrightarrow> c \<in> set s \<Longrightarrow> trim_space s \<noteq> []"
proof -
  assume c: "plain_char c" "c \<in> set s"
  then have "c \<in> set (trim_left_by go_spaces s)" using trim_left_keeps space_bytes by blast
  then have "c \<in> set (rev (trim_left_by go_spaces s))" by simp
  then have "c \<in> set (trim_left_by (map rev go_spaces) (rev (trim_left_by go_spaces s)))"
    using trim_left_keeps [OF rev_spaces c(1)] by blast
  then show ?thesis by (auto simp: trim_space_def)
qed

lemma trim_left_plain:
  assumes "\<And>w. w \<in> set spaces \<Longrightarrow> w \<noteq> [] \<and> (\<forall>c \<in> set w. \<not> plain_char c)" and "list_all plain_char s"
  shows "trim_left_by spaces s = s"
  using assms space_len_plain [OF _ assms(1)]
  by (subst trim_left_by.simps) (cases s; simp)

lemma trim_space_plain: assumes "list_all plain_char s" shows "trim_space s = s"
proof -
  have "list_all plain_char (rev s)" using assms by (simp add: list_all_iff)
  then have "trim_left_by (map rev go_spaces) (rev s) = rev s"
    by (intro trim_left_plain [of "map rev go_spaces"] rev_spaces)
  moreover have "trim_left_by go_spaces s = s"
    by (intro trim_left_plain [of go_spaces] space_bytes assms)
  ultimately show ?thesis by (simp add: trim_space_def)
qed

lemma chr_eq: "n < 256 \<Longrightarrow> c = chr n \<longleftrightarrow> ord c = n"
  by (metis chr_ord ord_chr)

lemma ord_chars: "ord CHR '' '' = 32" "ord CHR ''.'' = 46" "ord CHR '','' = 44" "ord CHR '':'' = 58"
  by code_simp+

lemma space_len_blank: "space_len go_spaces (CHR '' '' # s) = 1"
  by (simp add: go_spaces_def space_codes_def space_len_def chr_eq ord_chars)

lemma fields_from_plain:
  "list_all plain_char w \<Longrightarrow> fields_from acc (w @ s) = fields_from (rev w @ acc) s"
proof (induction w arbitrary: acc)
  case (Cons c w)
  then have "space_len go_spaces (c # w @ s) = 0" by (intro space_len_plain space_bytes) auto
  with Cons show ?case by (simp add: Let_def)
qed simp

lemma fields_from_blank: "acc \<noteq> [] \<Longrightarrow> fields_from acc (CHR '' '' # s) = rev acc # fields_from [] s"
  by (simp add: space_len_blank)

lemma go_fields_words:
  assumes "list_all (\<lambda>w. w \<noteq> [] \<and> list_all plain_char w) ws"
  shows "go_fields (join_with '' '' ws) = ws"
proof -
  have "fields_from [] (join_with '' '' ws) = ws"
    using assms
  proof (induction ws)
    case Nil
    then show ?case by simp
  next
    case (Cons w ws)
    then have w: "list_all plain_char w" "rev w \<noteq> []" by auto
    show ?case
    proof (cases ws)
      case Nil
      then show ?thesis using w fields_from_plain [OF w(1), of "[]" "[]"] by simp
    next
      case (Cons v vs)
      then have "join_with '' '' (w # ws) = w @ CHR '' '' # join_with '' '' ws" by simp
      then show ?thesis
        using Cons.IH Cons.prems w fields_from_blank [OF w(2), of "join_with '' '' ws"]
        unfolding fields_from_plain [OF w(1)] by (simp del: fields_from.simps add: fields_from_plain [OF w(1)])
    qed
  qed
  then show ?thesis by (simp add: go_fields_def)
qed

lemma plain_digit: "is_digit c \<Longrightarrow> plain_char c"
  by (simp add: is_digit_def plain_char_def)

lemma plain_itoa: assumes "0 \<le> n" shows "itoa n \<noteq> []" "list_all plain_char (itoa n)" "list_all is_digit (itoa n)"
  using assms digits_of_digits [of _ "nat n"] by (auto simp: itoa_def list_all_iff intro: plain_digit)

lemma last_index_byte_append: "c \<notin> set t \<Longrightarrow> last_index_byte (s @ c # t) c = Some (length s)"
proof (induction s)
  case Nil
  have "c \<notin> set t \<Longrightarrow> last_index_byte t c = None" by (induction t) auto
  with Nil show ?case by simp
qed simp

lemma digits_no: "list_all is_digit w \<Longrightarrow> \<not> is_digit c \<Longrightarrow> c \<notin> set w"
  by (auto simp: list_all_iff)

lemma not_digit_marks: "\<not> is_digit CHR '':''" "\<not> is_digit CHR ''.''" "\<not> is_digit CHR '',''" "\<not> is_digit CHR '' ''"
  by (simp_all add: is_digit_def ord_chars)

lemma split_on_lines:
  "(\<And>l. l \<in> set ls \<Longrightarrow> c \<notin> set l) \<Longrightarrow> split_on c (concat (map (\<lambda>l. l @ [c]) ls)) = ls @ [[]]"
  by (induction ls) (auto simp: split_on_append)

lemma trim_right_plain: "s \<noteq> [] \<Longrightarrow> last s \<noteq> cr \<Longrightarrow> trim_right s [cr] = s"
  by (cases s rule: rev_cases) (auto simp: trim_right_def)

lemma plain_not: "plain_char c \<Longrightarrow> c \<noteq> nl \<and> c \<noteq> cr"
  by (auto simp: plain_char_def nl_def cr_def)

section \<open>The order of strings\<close>

lemma cmp_str_eq: "cmp_str x y = 0 \<longleftrightarrow> x = y"
  by (induction x y rule: cmp_str.induct) auto

lemma cmp_str_flip: "cmp_str y x = - cmp_str x y"
  by (induction x y rule: cmp_str.induct) auto

lemma cmp_str_trans: "cmp_str x y \<le> 0 \<Longrightarrow> cmp_str y z \<le> 0 \<Longrightarrow> cmp_str x z \<le> 0"
proof (induction x z arbitrary: y rule: cmp_str.induct)
  case (3 x xs)
  then show ?case by (cases y) (auto split: if_splits)
next
  case (4 x xs z zs)
  show ?case
  proof (cases y)
    case Nil
    with 4 show ?thesis by simp
  next
    case (Cons a as)
    with 4 show ?thesis by (auto split: if_splits)
  qed
qed auto

interpretation cmp_string: linear_comparator cmp_str
proof
  show "cmp_str x y \<le> 0 \<longleftrightarrow> 0 \<le> cmp_str y x" for x y
    using cmp_str_flip [of x y] by linarith
qed (auto simp: cmp_str_eq intro: cmp_str_trans)

end
