(* ===== verification/Spans.thy ===== *)
theory Spans
  imports GoStrings
begin

text \<open>
  Byte spans (\<open>internal/mutation/span.go\<close>): half-open ranges of 32-bit offsets, their
  tests, their order, and the bytes they cut out of a source.
\<close>

type_synonym u32 = "32 word"

record span =
  StartByte :: u32
  EndByte :: u32

datatype span_error = ErrSpanReversed | ErrSpanOutOfRange

definition span_validate :: "span \<Rightarrow> span_error option" where
  "span_validate s = (if EndByte s < StartByte s then Some ErrSpanReversed else None)"

definition new_span :: "u32 \<Rightarrow> u32 \<Rightarrow> span_error + span" where
  "new_span start end =
     (let s = \<lparr>StartByte = start, EndByte = end\<rparr>
      in case span_validate s of Some err \<Rightarrow> Inl err | None \<Rightarrow> Inr s)"

definition span_len :: "span \<Rightarrow> u32" where
  "span_len s = (if EndByte s < StartByte s then 0 else EndByte s - StartByte s)"

definition span_is_empty :: "span \<Rightarrow> bool" where
  "span_is_empty s \<longleftrightarrow> span_len s = 0"

definition span_contains :: "span \<Rightarrow> span \<Rightarrow> bool" where
  "span_contains s other \<longleftrightarrow> StartByte s \<le> StartByte other \<and> EndByte other \<le> EndByte s"

definition strictly_contains :: "span \<Rightarrow> span \<Rightarrow> bool" where
  "strictly_contains s other \<longleftrightarrow> span_contains s other \<and> s \<noteq> other"

definition span_overlaps :: "span \<Rightarrow> span \<Rightarrow> bool" where
  "span_overlaps s other \<longleftrightarrow> StartByte s < EndByte other \<and> StartByte other < EndByte s"

definition span_compare :: "span \<Rightarrow> span \<Rightarrow> int" where
  "span_compare s other =
     (if StartByte s \<noteq> StartByte other then (if StartByte s < StartByte other then -1 else 1)
      else if EndByte s \<noteq> EndByte other then (if EndByte s < EndByte other then -1 else 1)
      else 0)"

definition span_slice :: "span \<Rightarrow> 'a list \<Rightarrow> span_error + 'a list" where
  "span_slice s src =
     (case span_validate s of
        Some err \<Rightarrow> Inl err
      | None \<Rightarrow>
          if unat (EndByte s) > length src then Inl ErrSpanOutOfRange
          else Inr (take (unat (EndByte s) - unat (StartByte s)) (drop (unat (StartByte s)) src)))"

definition span_string :: "span \<Rightarrow> string" where
  "span_string s = ''['' @ itoa (uint (StartByte s)) @ '','' @ itoa (uint (EndByte s)) @ '')''"

section \<open>Facts about spans\<close>

lemma span_eq_iff: "(s :: span) = t \<longleftrightarrow> StartByte s = StartByte t \<and> EndByte s = EndByte t"
  by (metis (full_types) old.unit.exhaust span.surjective)

lemma span_validate_None [simp]: "span_validate s = None \<longleftrightarrow> StartByte s \<le> EndByte s"
  by (auto simp: span_validate_def)

lemma span_is_empty_iff [simp]: "span_is_empty s \<longleftrightarrow> EndByte s \<le> StartByte s"
  by (auto simp: span_is_empty_def span_len_def not_less)

lemma unat_span_len: "StartByte s \<le> EndByte s \<Longrightarrow> unat (span_len s) = unat (EndByte s) - unat (StartByte s)"
  by (simp add: span_len_def unat_sub)

interpretation span_order: linear_comparator span_compare
  by unfold_locales (auto simp: span_compare_def span_eq_iff split: if_splits)

lemma span_slice_Inr:
  "span_slice s src = Inr b \<longleftrightarrow>
     StartByte s \<le> EndByte s \<and> unat (EndByte s) \<le> length src
     \<and> b = take (unat (EndByte s) - unat (StartByte s)) (drop (unat (StartByte s)) src)"
  by (auto simp: span_slice_def span_validate_def)

text \<open>The offsets a span covers.\<close>

definition span_bytes :: "span \<Rightarrow> u32 set" where
  "span_bytes s = {StartByte s ..< EndByte s}"

lemma span_bytes_empty: "span_bytes s = {} \<longleftrightarrow> span_is_empty s"
  by (simp add: span_bytes_def not_less)

lemma span_bytes_subset:
  "\<not> span_is_empty t \<Longrightarrow> span_bytes t \<subseteq> span_bytes s \<longleftrightarrow> span_contains s t"
  by (auto simp: span_bytes_def span_contains_def ivl_subset)

lemma span_bytes_disjoint:
  "\<not> span_is_empty s \<Longrightarrow> \<not> span_is_empty t \<Longrightarrow> span_bytes s \<inter> span_bytes t = {} \<longleftrightarrow> \<not> span_overlaps s t"
  by (auto simp: span_bytes_def span_overlaps_def not_less disjoint_iff)

text \<open>
  Cutting a span out of a source never reads out of range: \<open>Slice\<close> succeeds exactly on
  a span that is not reversed and ends within the source, and then returns the bytes at the
  span's offsets, as many as \<open>Len\<close> says.
\<close>

theorem span_slice_exact:
  "(case span_slice s src of
      Inr b \<Rightarrow> StartByte s \<le> EndByte s \<and> unat (EndByte s) \<le> length src
        \<and> length b = unat (span_len s)
        \<and> b = map (\<lambda>i. src ! i) [unat (StartByte s) ..< unat (EndByte s)]
    | Inl ErrSpanReversed \<Rightarrow> EndByte s < StartByte s
    | Inl ErrSpanOutOfRange \<Rightarrow> StartByte s \<le> EndByte s \<and> length src < unat (EndByte s))"
proof (cases "StartByte s \<le> EndByte s \<and> unat (EndByte s) \<le> length src")
  case True
  then have le: "unat (StartByte s) \<le> unat (EndByte s)" by (simp add: word_le_nat_alt)
  with True have "take (unat (EndByte s) - unat (StartByte s)) (drop (unat (StartByte s)) src)
      = map (\<lambda>i. src ! i) [unat (StartByte s) ..< unat (EndByte s)]"
    by (intro nth_equalityI) auto
  with True show ?thesis
    by (auto simp: span_slice_def span_validate_def unat_span_len)
next
  case False
  then show ?thesis by (auto simp: span_slice_def span_validate_def)
qed

end
