(* ===== verification/IntervalForest.thy ===== *)
theory IntervalForest
  imports Spans
begin

text \<open>
  The forest of nested sites (\<open>internal/interval\<close>): how two spans relate, the one-pass
  construction of the forest with a stack of open sites, and its two traversals.
\<close>

section \<open>How two spans relate\<close>

datatype relation = Disjoint | Identical | Contains | ContainedBy | PartialOverlap

definition relation_string :: "relation \<Rightarrow> string" where
  "relation_string r =
     (case r of
        Disjoint \<Rightarrow> ''disjoint''
      | Identical \<Rightarrow> ''identical''
      | Contains \<Rightarrow> ''contains''
      | ContainedBy \<Rightarrow> ''contained-by''
      | PartialOverlap \<Rightarrow> ''partial-overlap'')"

definition relate :: "span \<Rightarrow> span \<Rightarrow> relation" where
  "relate a b =
     (if a = b then Identical
      else if strictly_contains a b then Contains
      else if strictly_contains b a then ContainedBy
      else if \<not> span_overlaps a b then Disjoint
      else PartialOverlap)"

section \<open>Building the forest\<close>

record 'a item =
  item_span :: span
  payload :: 'a

datatype 'a node = Node (node_span: span) (alternatives: "'a list") (children: "'a node list")

datatype reason = ReasonPartialOverlap | ReasonEmptySpan

record 'a conflict =
  conflict_item :: "'a item"
  conflict_reason :: reason
  against :: span

text \<open>
  The state of the loop of \<open>Build\<close>. The Go code links a new node into its parent and
  goes on changing it through the pointer on the stack; here the open nodes live on the
  stack only (innermost first), and a node is put last among its parent's children when it
  leaves the stack. No sibling is linked in between, so the order of the children is the same.
\<close>

record 'a building =
  roots :: "'a node list"
  stack :: "'a node list"
  conflicts :: "'a conflict list"

definition item_compare :: "'a item list \<Rightarrow> nat \<Rightarrow> nat \<Rightarrow> int" where
  "item_compare items x y =
     (let a = item_span (items ! x); b = item_span (items ! y)
      in cmp_or (cmp_compare (StartByte a) (StartByte b))
           (cmp_or (cmp_compare (EndByte b) (EndByte a)) (cmp_compare x y)))"

definition add_child :: "'a node \<Rightarrow> 'a node \<Rightarrow> 'a node" where
  "add_child p n = Node (node_span p) (alternatives p) (children p @ [n])"

definition add_alternative :: "'a node \<Rightarrow> 'a \<Rightarrow> 'a node" where
  "add_alternative p x = Node (node_span p) (alternatives p @ [x]) (children p)"

text \<open>Link the node that leaves the stack to its parent, or to the roots.\<close>

definition link :: "'a node list \<Rightarrow> 'a node list \<Rightarrow> 'a node \<Rightarrow> 'a node list \<times> 'a node list" where
  "link rs st n =
     (case st of [] \<Rightarrow> (rs @ [n], []) | p # st' \<Rightarrow> (rs, add_child p n # st'))"

text \<open>The inner loop: sites that end before the offset leave the stack.\<close>

function pop_ended :: "u32 \<Rightarrow> 'a node list \<Rightarrow> 'a node list \<Rightarrow> 'a node list \<times> 'a node list" where
  "pop_ended start rs [] = (rs, [])"
| "pop_ended start rs (n # st) =
     (if EndByte (node_span n) \<le> start
      then (let (rs', st') = link rs st n in pop_ended start rs' st')
      else (rs, n # st))"
  by pat_completeness auto
termination
  by (relation "measure (\<lambda>(start, rs, st). length st)") (auto simp: link_def split: list.splits)

definition build_step :: "'a building \<Rightarrow> 'a item \<Rightarrow> 'a building" where
  "build_step b item =
     (if span_is_empty (item_span item) then
        b\<lparr>conflicts := conflicts b @ [\<lparr>conflict_item = item, conflict_reason = ReasonEmptySpan,
            against = \<lparr>StartByte = 0, EndByte = 0\<rparr>\<rparr>]\<rparr>
      else
        (let (rs, st) = pop_ended (StartByte (item_span item)) (roots b) (stack b);
             node = Node (item_span item) [payload item] []
         in case st of
              [] \<Rightarrow> b\<lparr>roots := rs, stack := [node]\<rparr>
            | enclosing # st' \<Rightarrow>
                if EndByte (item_span item) > EndByte (node_span enclosing) then
                  b\<lparr>roots := rs, stack := st,
                    conflicts := conflicts b @ [\<lparr>conflict_item = item,
                      conflict_reason = ReasonPartialOverlap, against = node_span enclosing\<rparr>]\<rparr>
                else if node_span enclosing = item_span item then
                  b\<lparr>roots := rs, stack := add_alternative enclosing (payload item) # st'\<rparr>
                else b\<lparr>roots := rs, stack := node # st\<rparr>))"

text \<open>What is still open at the end belongs to the forest as it stands.\<close>

function close_all :: "'a node list \<Rightarrow> 'a node list \<Rightarrow> 'a node list" where
  "close_all rs [] = rs"
| "close_all rs (n # st) = (let (rs', st') = link rs st n in close_all rs' st')"
  by pat_completeness auto
termination
  by (relation "measure (\<lambda>(rs, st). length st)") (auto simp: link_def split: list.splits)

definition build_order :: "'a item list \<Rightarrow> 'a item list" where
  "build_order items = map (\<lambda>i. items ! i) (sort_by (item_compare items) [0 ..< length items])"

definition build_forest :: "'a item list \<Rightarrow> 'a node list \<times> 'a conflict list" where
  "build_forest items =
     (let b = foldl build_step \<lparr>roots = [], stack = [], conflicts = []\<rparr> (build_order items)
      in (close_all (roots b) (stack b), conflicts b))"

section \<open>Traversals\<close>

text \<open>
  \<open>InnerFirst\<close>: frames of a node and the index of its next child, innermost first. The
  result is the order in which the callback sees the nodes.
\<close>

fun node_weight :: "'a node \<Rightarrow> nat" where
  "node_weight (Node s as cs) = 2 + sum_list (map node_weight cs)"

definition frame_weight :: "'a node \<times> nat \<Rightarrow> nat" where
  "frame_weight f = 1 + sum_list (map node_weight (drop (snd f) (children (fst f))))"

lemma node_weight_children: "node_weight n = 2 + sum_list (map node_weight (children n))"
  by (cases n) simp

lemma frame_weight_next:
  "k < length (children n) \<Longrightarrow>
     frame_weight (n, k) = node_weight (children n ! k) + frame_weight (n, Suc k)"
  by (simp add: frame_weight_def Cons_nth_drop_Suc [symmetric])

lemma frame_weight_new: "frame_weight (c, 0) < node_weight c"
  by (simp add: frame_weight_def node_weight_children)

function inner_frames :: "('a node \<times> nat) list \<Rightarrow> 'a node list" where
  "inner_frames [] = []"
| "inner_frames ((n, k) # fs) =
     (if k < length (children n)
      then inner_frames ((children n ! k, 0) # (n, Suc k) # fs)
      else n # inner_frames fs)"
  by pat_completeness auto
termination
proof (relation "measure (\<lambda>fs. sum_list (map frame_weight fs))", goal_cases)
  case (2 n k fs)
  then show ?case using frame_weight_new [of "children n ! k"] frame_weight_next [of k n] by simp
next
  case (3 n k fs)
  then show ?case by (simp add: frame_weight_def)
qed simp

definition inner_first :: "'a node list \<Rightarrow> 'a node list" where
  "inner_first rs = concat (map (\<lambda>root. inner_frames [(root, 0)]) rs)"

definition walk_push :: "'a node list \<Rightarrow> 'a node list \<Rightarrow> 'a node list" where
  "walk_push nodes st = foldl (\<lambda>acc n. n # acc) st (rev nodes)"

lemma walk_push [simp]: "walk_push nodes st = nodes @ st"
  by (induction nodes arbitrary: st) (auto simp: walk_push_def)

function walk_loop :: "'a node list \<Rightarrow> 'a node list" where
  "walk_loop [] = []"
| "walk_loop (n # st) = n # walk_loop (walk_push (children n) st)"
  by pat_completeness auto
termination
  by (relation "measure (\<lambda>st. sum_list (map node_weight st))") (auto simp: node_weight_children)

definition walk :: "'a node list \<Rightarrow> 'a node list" where
  "walk rs = walk_loop (walk_push rs [])"


section \<open>The relation of two spans\<close>

text \<open>
  \<open>Relate\<close> classifies two non-empty spans by the bytes they cover.
\<close>

theorem relate_exact:
  assumes "\<not> span_is_empty a" and "\<not> span_is_empty b"
  shows "relate a b =
    (if span_bytes a = span_bytes b then Identical
     else if span_bytes b \<subset> span_bytes a then Contains
     else if span_bytes a \<subset> span_bytes b then ContainedBy
     else if span_bytes a \<inter> span_bytes b = {} then Disjoint
     else PartialOverlap)"
proof -
  note sub = span_bytes_subset [OF assms(1), of b] span_bytes_subset [OF assms(2), of a]
  have eq: "span_bytes a = span_bytes b \<longleftrightarrow> a = b"
  proof
    assume "span_bytes a = span_bytes b"
    then have "span_contains a b" "span_contains b a" using sub by blast+
    then show "a = b" by (auto simp: span_contains_def span_eq_iff)
  qed simp
  have "span_bytes b \<subset> span_bytes a \<longleftrightarrow> strictly_contains a b"
    and "span_bytes a \<subset> span_bytes b \<longleftrightarrow> strictly_contains b a"
    by (metis psubset_eq sub eq strictly_contains_def)+
  then show ?thesis
    using span_bytes_disjoint [OF assms] by (simp only: relate_def eq)
qed

theorem relate_exact_witness:
  "relate \<lparr>StartByte = 0, EndByte = 10\<rparr> \<lparr>StartByte = 5, EndByte = 15\<rparr> = PartialOverlap
   \<and> \<not> span_bytes \<lparr>StartByte = 5, EndByte = 15\<rparr> \<subseteq> span_bytes \<lparr>StartByte = 0, EndByte = 10\<rparr>"
proof -
  let ?a = "\<lparr>StartByte = 0, EndByte = 10\<rparr>" and ?b = "\<lparr>StartByte = 5, EndByte = 15\<rparr>"
  have e: "\<not> span_is_empty ?a" "\<not> span_is_empty ?b" by simp_all
  have r: "relate ?a ?b = PartialOverlap"
    by (simp add: relate_def strictly_contains_def span_contains_def span_overlaps_def)
  show ?thesis using r relate_exact [OF e] by (metis psubsetI relation.distinct)
qed

section \<open>The order in which Build reads the items\<close>

lemma item_compare_comparator: "comparator (item_compare items)"
  unfolding item_compare_def Let_def
  by (rule comparator_or [OF comparator_on [OF cmp_ord.comparator_axioms]
        comparator_or [OF comparator_converse [OF comparator_on [OF cmp_ord.comparator_axioms]]
          cmp_ord.comparator_axioms]])

lemma item_compare_eq: "item_compare items x y = 0 \<Longrightarrow> x = y"
  by (simp add: item_compare_def Let_def cmp_compare_simps(5))

interpretation item_order: linear_comparator "item_compare items"
  by (intro linear_comparator.intro linear_comparator_axioms.intro)
    (rule item_compare_comparator item_compare_eq)+

text \<open>Outer spans come before the spans they contain.\<close>

definition before :: "span \<Rightarrow> span \<Rightarrow> bool" where
  "before a b \<longleftrightarrow> StartByte a < StartByte b \<or> StartByte a = StartByte b \<and> EndByte b \<le> EndByte a"

lemma before_start: "before a b \<Longrightarrow> StartByte a \<le> StartByte b"
  by (auto simp: before_def)

lemma before_trans: "before a b \<Longrightarrow> before b c \<Longrightarrow> before a c"
  by (auto simp: before_def)

lemma build_order_sorted: "sorted_wrt (\<lambda>a b. before (item_span a) (item_span b)) (build_order items)"
proof -
  have "sorted_by (item_compare items) (sort_by (item_compare items) [0 ..< length items])"
    by (rule item_order.sorted_sort_by)
  then show ?thesis unfolding build_order_def sorted_wrt_map
    by (rule sorted_wrt_mono_rel [rotated])
      (auto simp: item_compare_def Let_def cmp_or_def go_simps before_def split: if_splits)
qed

lemma mset_build_order: "mset (build_order items) = mset items"
proof -
  have "mset (build_order items) = image_mset (\<lambda>i. items ! i) (mset [0 ..< length items])"
    by (simp add: build_order_def)
  also have "\<dots> = mset (map ((!) items) [0 ..< length items])" by simp
  finally show ?thesis by (simp add: map_nth)
qed

section \<open>Well-nested forests\<close>

definition siblings :: "'a node list \<Rightarrow> bool" where
  "siblings ns \<longleftrightarrow> sorted_wrt (\<lambda>a b. EndByte (node_span a) \<le> StartByte (node_span b)) ns"

fun well_nested :: "'a node \<Rightarrow> bool" where
  "well_nested (Node s as cs) \<longleftrightarrow>
     \<not> span_is_empty s \<and> as \<noteq> [] \<and> siblings cs
     \<and> (\<forall>c \<in> set cs. strictly_contains s (node_span c) \<and> well_nested c)"

definition well_nested_forest :: "'a node list \<Rightarrow> bool" where
  "well_nested_forest rs \<longleftrightarrow> siblings rs \<and> (\<forall>r \<in> set rs. well_nested r)"

lemma siblings_snoc:
  "siblings (ns @ [n]) \<longleftrightarrow> siblings ns \<and> (\<forall>m \<in> set ns. EndByte (node_span m) \<le> StartByte (node_span n))"
  by (simp add: siblings_def sorted_wrt_append)

lemma node_sel [simp]:
  "node_span (add_child p n) = node_span p"
  "alternatives (add_child p n) = alternatives p"
  "children (add_child p n) = children p @ [n]"
  "node_span (add_alternative p x) = node_span p"
  "alternatives (add_alternative p x) = alternatives p @ [x]"
  "children (add_alternative p x) = children p"
  by (simp_all add: add_child_def add_alternative_def)

lemma well_nested_add_child:
  "well_nested (add_child p n) \<longleftrightarrow> well_nested p
     \<and> (\<forall>m \<in> set (children p). EndByte (node_span m) \<le> StartByte (node_span n))
     \<and> strictly_contains (node_span p) (node_span n) \<and> well_nested n"
  by (cases p) (auto simp: add_child_def siblings_snoc)

lemma well_nested_add_alternative: "well_nested p \<Longrightarrow> well_nested (add_alternative p x)"
  by (cases p) (simp add: add_alternative_def)

text \<open>Each open site lies in the next one and after all that is already linked into it.\<close>

fun chain :: "'a node list \<Rightarrow> 'a node list \<Rightarrow> bool" where
  "chain rs [] \<longleftrightarrow> True"
| "chain rs [n] \<longleftrightarrow> (\<forall>r \<in> set rs. EndByte (node_span r) \<le> StartByte (node_span n))"
| "chain rs (n # p # st) \<longleftrightarrow>
     strictly_contains (node_span p) (node_span n)
     \<and> (\<forall>c \<in> set (children p). EndByte (node_span c) \<le> StartByte (node_span n))
     \<and> chain rs (p # st)"

definition open_ok :: "'a node list \<Rightarrow> 'a node list \<Rightarrow> bool" where
  "open_ok rs st \<longleftrightarrow> well_nested_forest rs \<and> (\<forall>n \<in> set st. well_nested n) \<and> chain rs st"

definition closed_by :: "u32 \<Rightarrow> 'a node list \<Rightarrow> 'a node list \<Rightarrow> bool" where
  "closed_by t rs st \<longleftrightarrow>
     (\<forall>r \<in> set rs. EndByte (node_span r) \<le> t)
     \<and> (\<forall>p \<in> set st. \<forall>c \<in> set (children p). EndByte (node_span c) \<le> t)"

lemma closed_by_mono: "closed_by t rs st \<Longrightarrow> t \<le> u \<Longrightarrow> closed_by u rs st"
  unfolding closed_by_def by force

lemma chain_update [simp]:
  "chain rs (add_child p n # st) = chain rs (p # st)"
  "chain rs (add_alternative p x # st) = chain rs (p # st)"
  by (cases st; simp)+

lemma chain_tl: "chain rs (n # p # st) \<Longrightarrow> chain rs (p # st)"
  by simp

lemma link_open_ok: "open_ok rs (n # st) \<Longrightarrow> link rs st n = (rs', st') \<Longrightarrow> open_ok rs' st'"
proof (cases st)
  case Nil
  assume "open_ok rs (n # st)" "link rs st n = (rs', st')"
  then show ?thesis
    using Nil by (auto simp: open_ok_def link_def well_nested_forest_def siblings_snoc)
next
  case (Cons p ps)
  assume ok: "open_ok rs (n # st)" and l: "link rs st n = (rs', st')"
  have "well_nested (add_child p n)"
    using ok Cons by (simp add: open_ok_def well_nested_add_child)
  moreover have "chain rs (add_child p n # ps)"
    using ok Cons by (simp add: open_ok_def)
  ultimately show ?thesis
    using ok l Cons by (auto simp: open_ok_def link_def)
qed

lemma link_closed_by:
  "closed_by t rs (n # st) \<Longrightarrow> EndByte (node_span n) \<le> t \<Longrightarrow> link rs st n = (rs', st') \<Longrightarrow> closed_by t rs' st'"
  by (auto simp: closed_by_def link_def split: list.splits)

lemma link_spans:
  "link rs st n = (rs', st') \<Longrightarrow> node_span ` set st' = node_span ` set st"
  by (auto simp: link_def split: list.splits)

lemma pop_ended_invar:
  assumes "pop_ended t rs st = (rs', st')" and "open_ok rs st" and "closed_by t rs st"
  shows "open_ok rs' st' \<and> closed_by t rs' st' \<and> node_span ` set st' \<subseteq> node_span ` set st
    \<and> (\<forall>n ns. st' = n # ns \<longrightarrow> t < EndByte (node_span n))"
  using assms
proof (induction t rs st arbitrary: rs' st' rule: pop_ended.induct)
  case (1 t rs)
  then show ?case by simp
next
  case (2 t rs n st)
  show ?case
  proof (cases "EndByte (node_span n) \<le> t")
    case True
    obtain rs1 st1 where l: "link rs st n = (rs1, st1)" by fastforce
    have pop: "pop_ended t rs1 st1 = (rs', st')" using 2(2) True l by simp
    have "open_ok rs' st' \<and> closed_by t rs' st' \<and> node_span ` set st' \<subseteq> node_span ` set st1
      \<and> (\<forall>n ns. st' = n # ns \<longrightarrow> t < EndByte (node_span n))"
      using "2.IH" [OF True l [symmetric] refl pop] link_open_ok [OF 2(3) l]
        link_closed_by [OF 2(4) True l] by blast
    then show ?thesis using link_spans [OF l] by auto
  next
    case False
    with 2 show ?thesis by auto
  qed
qed

lemma close_all_well_nested: "open_ok rs st \<Longrightarrow> well_nested_forest (close_all rs st)"
proof (induction rs st rule: close_all.induct)
  case (1 rs)
  then show ?case by (simp add: open_ok_def)
next
  case (2 rs n st)
  obtain rs1 st1 where l: "link rs st n = (rs1, st1)" by fastforce
  with 2 link_open_ok [OF 2(2) l] show ?case by simp
qed

text \<open>The invariant of the loop, for the last span it has read.\<close>

definition build_invar :: "'a building \<Rightarrow> span \<Rightarrow> bool" where
  "build_invar b s \<longleftrightarrow> open_ok (roots b) (stack b) \<and> closed_by (StartByte s) (roots b) (stack b)
     \<and> (\<forall>n \<in> set (stack b). before (node_span n) s)"

lemma build_invar_later: "build_invar b s \<Longrightarrow> before s t \<Longrightarrow> build_invar b t"
  by (auto simp: build_invar_def intro: closed_by_mono before_start before_trans)

lemma open_push:
  assumes "open_ok rs st" and "closed_by (StartByte s) rs st" and "\<not> span_is_empty s"
    and "\<forall>p ps. st = p # ps \<longrightarrow> strictly_contains (node_span p) s"
  shows "open_ok rs (Node s [x] [] # st)"
proof -
  have "well_nested (Node s [x] [])"
    using assms(3) by (simp add: siblings_def)
  moreover have "chain rs (Node s [x] [] # st)"
    using assms(1,2,4) by (cases st) (auto simp: open_ok_def closed_by_def)
  ultimately show ?thesis using assms(1) by (simp add: open_ok_def)
qed

lemma build_step_invar:
  assumes inv: "build_invar b s" and bef: "before s (item_span item)"
  shows "build_invar (build_step b item) (item_span item)"
proof (cases "span_is_empty (item_span item)")
  case True
  then show ?thesis
    using build_invar_later [OF inv bef] by (simp add: build_step_def build_invar_def)
next
  case ne: False
  let ?s = "item_span item"
  have inv': "build_invar b ?s" by (rule build_invar_later [OF inv bef])
  obtain rs st where pop: "pop_ended (StartByte ?s) (roots b) (stack b) = (rs, st)" by fastforce
  have p: "open_ok rs st" "closed_by (StartByte ?s) rs st"
    and sub: "node_span ` set st \<subseteq> node_span ` set (stack b)"
    and top: "\<And>n ns. st = n # ns \<Longrightarrow> StartByte ?s < EndByte (node_span n)"
    using pop_ended_invar [OF pop] inv' by (auto simp: build_invar_def)
  have bst: "before (node_span n) ?s" if "n \<in> set st" for n
    using that sub inv' unfolding build_invar_def
    by (metis (no_types, lifting) image_iff subsetD)
  have self: "before ?s ?s" by (simp add: before_def)
  show ?thesis
  proof (cases st)
    case Nil
    then show ?thesis
      using ne pop p self open_push [OF p ne, of "payload item"]
      by (simp add: build_step_def build_invar_def closed_by_def)
  next
    case (Cons e st')
    consider (over) "EndByte ?s > EndByte (node_span e)"
      | (same) "\<not> EndByte ?s > EndByte (node_span e)" "node_span e = ?s"
      | (inner) "\<not> EndByte ?s > EndByte (node_span e)" "node_span e \<noteq> ?s" by blast
    then show ?thesis
    proof cases
      case over
      then show ?thesis using ne pop Cons p bst
        by (auto simp: build_step_def build_invar_def)
    next
      case same
      have "well_nested (add_alternative e (payload item))"
        using p(1) Cons by (simp add: open_ok_def well_nested_add_alternative)
      moreover have "chain rs (add_alternative e (payload item) # st')"
        using p(1) Cons by (simp add: open_ok_def)
      ultimately have "open_ok rs (add_alternative e (payload item) # st')"
        using p(1) Cons by (auto simp: open_ok_def)
      then show ?thesis using ne pop Cons same p bst self
        by (auto simp: build_step_def build_invar_def closed_by_def)
    next
      case inner
      then have "strictly_contains (node_span e) ?s"
        using bst [of e] Cons before_start by (auto simp: strictly_contains_def span_contains_def)
      then have "open_ok rs (Node ?s [payload item] [] # st)"
        using p ne Cons by (intro open_push) auto
      then show ?thesis using ne pop Cons inner p bst self
        by (auto simp: build_step_def build_invar_def closed_by_def)
    qed
  qed
qed

lemma build_fold_invar:
  assumes "build_invar b s" and "sorted_wrt (\<lambda>a b. before (item_span a) (item_span b)) is"
    and "\<forall>i \<in> set is. before s (item_span i)"
  shows "\<exists>t. build_invar (foldl build_step b is) t"
  using assms
proof (induction "is" arbitrary: b s)
  case Nil
  then show ?case by auto
next
  case (Cons i "is")
  then show ?case using build_step_invar [of b s i] by auto
qed

abbreviation start_building :: "'a building" where
  "start_building \<equiv> \<lparr>roots = [], stack = [], conflicts = []\<rparr>"

definition first_span :: span where
  "first_span = \<lparr>StartByte = 0, EndByte = - 1\<rparr>"

lemma before_first: "before first_span s"
  by (auto simp: before_def first_span_def word_neq_0_conv)

lemma start_building_invar: "build_invar start_building first_span"
  by (simp add: build_invar_def open_ok_def closed_by_def well_nested_forest_def siblings_def)

text \<open>
  C30. Whatever items it is given, \<open>Build\<close> returns a well-nested forest: no site is empty
  or without an alternative, siblings are disjoint and in order, and every child lies
  strictly inside its parent.
\<close>

theorem build_well_nested: "well_nested_forest (fst (build_forest items))"
proof -
  obtain t where "build_invar (foldl build_step start_building (build_order items)) t"
    using build_fold_invar [OF start_building_invar build_order_sorted] before_first by blast
  then show ?thesis
    by (simp add: build_forest_def Let_def build_invar_def close_all_well_nested)
qed

section \<open>Every item is accounted for\<close>

fun node_items :: "'a node \<Rightarrow> (span \<times> 'a) list" where
  "node_items (Node s as cs) = map (Pair s) as @ concat (map node_items cs)"

definition forest_items :: "'a node list \<Rightarrow> (span \<times> 'a) list" where
  "forest_items rs = concat (map node_items rs)"

definition item_pair :: "'a item \<Rightarrow> span \<times> 'a" where
  "item_pair i = (item_span i, payload i)"

definition building_items :: "'a building \<Rightarrow> (span \<times> 'a) multiset" where
  "building_items b = mset (forest_items (roots b)) + mset (forest_items (stack b))
     + mset (map (item_pair \<circ> conflict_item) (conflicts b))"

lemma forest_items_simps [simp]:
  "forest_items [] = []"
  "forest_items (n # ns) = node_items n @ forest_items ns"
  "forest_items (ns @ ms) = forest_items ns @ forest_items ms"
  by (simp_all add: forest_items_def)

lemma node_items_add [simp]:
  "mset (node_items (add_child p n)) = mset (node_items p) + mset (node_items n)"
  "mset (node_items (add_alternative p x)) = add_mset (node_span p, x) (mset (node_items p))"
  by (cases p; simp add: add_child_def add_alternative_def)+

lemma link_items:
  "link rs st n = (rs', st') \<Longrightarrow>
     mset (forest_items rs') + mset (forest_items st')
       = mset (forest_items rs) + mset (node_items n) + mset (forest_items st)"
  by (auto simp: link_def split: list.splits)

lemma pop_ended_items:
  "pop_ended t rs st = (rs', st') \<Longrightarrow>
     mset (forest_items rs') + mset (forest_items st') = mset (forest_items rs) + mset (forest_items st)"
proof (induction t rs st arbitrary: rs' st' rule: pop_ended.induct)
  case (1 t rs)
  then show ?case by simp
next
  case (2 t rs n st)
  obtain rs1 st1 where l: "link rs st n = (rs1, st1)" by fastforce
  show ?case
  proof (cases "EndByte (node_span n) \<le> t")
    case True
    with 2 l have "mset (forest_items rs') + mset (forest_items st')
        = mset (forest_items rs1) + mset (forest_items st1)" by simp
    with link_items [OF l] show ?thesis by simp
  next
    case False
    with 2 show ?thesis by simp
  qed
qed

lemma close_all_items:
  "mset (forest_items (close_all rs st)) = mset (forest_items rs) + mset (forest_items st)"
proof (induction rs st rule: close_all.induct)
  case (1 rs)
  then show ?case by simp
next
  case (2 rs n st)
  obtain rs1 st1 where l: "link rs st n = (rs1, st1)" by fastforce
  with 2 link_items [OF l] show ?case by simp
qed

lemma build_step_items:
  "building_items (build_step b i) = add_mset (item_pair i) (building_items b)"
proof (cases "span_is_empty (item_span i)")
  case True
  then show ?thesis by (simp add: build_step_def building_items_def)
next
  case False
  obtain rs st where pop: "pop_ended (StartByte (item_span i)) (roots b) (stack b) = (rs, st)"
    by fastforce
  note items = pop_ended_items [OF pop]
  have eq: "building_items b = mset (forest_items rs) + mset (forest_items st)
      + mset (map (item_pair \<circ> conflict_item) (conflicts b))"
    by (simp add: building_items_def items)
  show ?thesis unfolding eq
    using False pop by (cases st) (auto simp: build_step_def building_items_def item_pair_def)
qed

lemma build_fold_items:
  "building_items (foldl build_step b is) = building_items b + mset (map item_pair is)"
  by (induction "is" arbitrary: b) (simp_all add: build_step_items)

text \<open>
  \<open>Build\<close> loses nothing and invents nothing: every item is an alternative of exactly
  one site with its span, or is reported in exactly one conflict.
\<close>

theorem build_accounts:
  "mset (forest_items (fst (build_forest items)))
     + mset (map (item_pair \<circ> conflict_item) (snd (build_forest items)))
   = mset (map item_pair items)"
proof -
  let ?b = "foldl build_step start_building (build_order items)"
  have "building_items ?b = mset (map item_pair (build_order items))"
    by (simp add: build_fold_items) (simp add: building_items_def)
  also have "\<dots> = mset (map item_pair items)"
    by (simp add: mset_build_order)
  finally show ?thesis
    by (simp add: build_forest_def Let_def close_all_items building_items_def)
qed

section \<open>Conflicts\<close>

fun node_spans :: "'a node \<Rightarrow> span set" where
  "node_spans (Node s as cs) = insert s (\<Union> (set (map node_spans cs)))"

definition forest_spans :: "'a node list \<Rightarrow> span set" where
  "forest_spans rs = \<Union> (node_spans ` set rs)"

lemma forest_spans_simps [simp]:
  "forest_spans [] = {}"
  "forest_spans (n # ns) = node_spans n \<union> forest_spans ns"
  "forest_spans (ns @ ms) = forest_spans ns \<union> forest_spans ms"
  by (auto simp: forest_spans_def)

lemma node_spans_add [simp]:
  "node_spans (add_child p n) = node_spans p \<union> node_spans n"
  "node_spans (add_alternative p x) = node_spans p"
  by (cases p; auto simp: add_child_def add_alternative_def)+

lemma node_span_in_spans: "node_span n \<in> node_spans n"
  by (cases n) simp

lemma link_forest_spans:
  "link rs st n = (rs', st') \<Longrightarrow>
     forest_spans rs' \<union> forest_spans st' = forest_spans rs \<union> node_spans n \<union> forest_spans st"
  by (auto simp: link_def split: list.splits)

lemma pop_ended_spans:
  "pop_ended t rs st = (rs', st') \<Longrightarrow>
     forest_spans rs' \<union> forest_spans st' = forest_spans rs \<union> forest_spans st"
proof (induction t rs st arbitrary: rs' st' rule: pop_ended.induct)
  case (1 t rs)
  then show ?case by simp
next
  case (2 t rs n st)
  obtain rs1 st1 where l: "link rs st n = (rs1, st1)" by fastforce
  show ?case
  proof (cases "EndByte (node_span n) \<le> t")
    case True
    with 2 l have "forest_spans rs' \<union> forest_spans st' = forest_spans rs1 \<union> forest_spans st1" by simp
    with link_forest_spans [OF l] show ?thesis by auto
  next
    case False
    with 2 show ?thesis by simp
  qed
qed

lemma close_all_spans: "forest_spans (close_all rs st) = forest_spans rs \<union> forest_spans st"
proof (induction rs st rule: close_all.induct)
  case (1 rs)
  then show ?case by simp
next
  case (2 rs n st)
  obtain rs1 st1 where l: "link rs st n = (rs1, st1)" by fastforce
  with 2 link_forest_spans [OF l] show ?case by auto
qed

definition genuine :: "span set \<Rightarrow> 'a conflict \<Rightarrow> bool" where
  "genuine sites c \<longleftrightarrow>
     (case conflict_reason c of
        ReasonEmptySpan \<Rightarrow> span_is_empty (item_span (conflict_item c))
      | ReasonPartialOverlap \<Rightarrow>
          against c \<in> sites \<and> relate (against c) (item_span (conflict_item c)) = PartialOverlap)"

definition building_spans :: "'a building \<Rightarrow> span set" where
  "building_spans b = forest_spans (roots b) \<union> forest_spans (stack b)"

lemma genuine_mono: "genuine A c \<Longrightarrow> A \<subseteq> B \<Longrightarrow> genuine B c"
  by (auto simp: genuine_def split: reason.splits)

lemma relate_overlap:
  assumes "before e s" and "StartByte s < EndByte e" and "EndByte e < EndByte s"
  shows "relate e s = PartialOverlap"
  using assms
  by (auto simp: relate_def strictly_contains_def span_contains_def span_overlaps_def before_def)

lemma build_step_conflicts:
  assumes inv: "build_invar b s" and bef: "before s (item_span i)"
    and gen: "\<forall>c \<in> set (conflicts b). genuine (building_spans b) c"
  shows "\<forall>c \<in> set (conflicts (build_step b i)). genuine (building_spans (build_step b i)) c"
    and "building_spans (build_step b i) \<subseteq> insert (item_span i) (building_spans b)"
proof -
  let ?s = "item_span i"
  have inv': "build_invar b ?s" by (rule build_invar_later [OF inv bef])
  obtain rs st where pop: "pop_ended (StartByte ?s) (roots b) (stack b) = (rs, st)" by fastforce
  have sp: "building_spans b = forest_spans rs \<union> forest_spans st"
    using pop_ended_spans [OF pop] by (simp add: building_spans_def)
  have sub: "node_span ` set st \<subseteq> node_span ` set (stack b)"
    and top: "\<And>n ns. st = n # ns \<Longrightarrow> StartByte ?s < EndByte (node_span n)"
    using pop_ended_invar [OF pop] inv' by (auto simp: build_invar_def)
  have bst: "before (node_span n) ?s" if "n \<in> set st" for n
    using that sub inv' unfolding build_invar_def by (metis (no_types, lifting) image_iff subsetD)
  have spans: "building_spans (build_step b i) \<subseteq> insert ?s (building_spans b)
      \<and> building_spans b \<subseteq> building_spans (build_step b i)"
  proof (cases "span_is_empty ?s")
    case True
    then show ?thesis by (auto simp: build_step_def building_spans_def)
  next
    case False
    then show ?thesis unfolding sp
      using pop by (cases st) (auto simp: build_step_def building_spans_def)
  qed
  then show "building_spans (build_step b i) \<subseteq> insert ?s (building_spans b)" by blast
  have old: "\<forall>c \<in> set (conflicts b). genuine (building_spans (build_step b i)) c"
    using gen spans genuine_mono by blast
  show "\<forall>c \<in> set (conflicts (build_step b i)). genuine (building_spans (build_step b i)) c"
  proof (cases "span_is_empty ?s")
    case True
    then have "conflicts (build_step b i) = conflicts b @ [\<lparr>conflict_item = i,
        conflict_reason = ReasonEmptySpan, against = \<lparr>StartByte = 0, EndByte = 0\<rparr>\<rparr>]"
      by (simp add: build_step_def)
    with True old show ?thesis by (auto simp: genuine_def)
  next
    case False
    show ?thesis
    proof (cases st)
      case Nil
      then have "conflicts (build_step b i) = conflicts b"
        using False pop by (simp add: build_step_def)
      with old show ?thesis by simp
    next
      case (Cons e st')
      show ?thesis
      proof (cases "EndByte ?s > EndByte (node_span e)")
        case True
        have eq: "conflicts (build_step b i) = conflicts b @ [\<lparr>conflict_item = i,
            conflict_reason = ReasonPartialOverlap, against = node_span e\<rparr>]"
          using True False pop Cons by (simp add: build_step_def)
        have "node_span e \<in> building_spans (build_step b i)"
          using spans sp Cons node_span_in_spans [of e] by auto
        moreover have "relate (node_span e) ?s = PartialOverlap"
          using relate_overlap [OF bst top True] Cons by simp
        ultimately show ?thesis using old unfolding eq by (auto simp: genuine_def)
      next
        case nover: False
        have "conflicts (build_step b i) = conflicts b"
          using False pop Cons nover by (auto simp: build_step_def)
        with old show ?thesis by simp
      qed
    qed
  qed
qed

lemma build_fold_conflicts:
  assumes "build_invar b s" and "sorted_wrt (\<lambda>a b. before (item_span a) (item_span b)) is"
    and "\<forall>i \<in> set is. before s (item_span i)"
    and "\<forall>c \<in> set (conflicts b). genuine (building_spans b) c"
  shows "(\<forall>c \<in> set (conflicts (foldl build_step b is)). genuine (building_spans (foldl build_step b is)) c)
    \<and> building_spans (foldl build_step b is) \<subseteq> item_span ` set is \<union> building_spans b"
  using assms
proof (induction "is" arbitrary: b s)
  case Nil
  then show ?case by simp
next
  case (Cons i "is")
  have bef: "before s (item_span i)" using Cons.prems by simp
  note step = build_step_conflicts [OF Cons.prems(1) bef Cons.prems(4)]
  have "build_invar (build_step b i) (item_span i)"
    by (rule build_step_invar [OF Cons.prems(1) bef])
  with Cons.IH [of "build_step b i" "item_span i"] Cons.prems(2) step show ?case by auto
qed

lemma build_conflicts:
  "(\<forall>c \<in> set (snd (build_forest items)). genuine (forest_spans (fst (build_forest items))) c)
   \<and> forest_spans (fst (build_forest items)) \<subseteq> item_span ` set items"
proof -
  have "set (build_order items) = set items"
    by (metis mset_build_order set_mset_mset)
  then show ?thesis
    using build_fold_conflicts [OF start_building_invar build_order_sorted, of items] before_first
    by (simp add: build_forest_def Let_def close_all_spans building_spans_def)
qed

text \<open>
  An item is evicted only for a reason that holds: an item reported as empty covers no
  byte, and an item reported as overlapping partially overlaps the site it is reported
  against, which is a site of the forest returned.
\<close>

theorem build_conflicts_genuine:
  "list_all (genuine (forest_spans (fst (build_forest items)))) (snd (build_forest items))"
  using build_conflicts [of items] by (simp add: list_all_iff)

text \<open>
  Items whose spans are not empty and do not partially overlap are never evicted.
\<close>

theorem build_laminar_no_conflict:
  assumes "\<And>i. i \<in> set items \<Longrightarrow> \<not> span_is_empty (item_span i)"
    and "\<And>i j. i \<in> set items \<Longrightarrow> j \<in> set items \<Longrightarrow> relate (item_span i) (item_span j) \<noteq> PartialOverlap"
  shows "snd (build_forest items) = []"
proof (rule ccontr)
  assume "snd (build_forest items) \<noteq> []"
  then obtain c where c: "c \<in> set (snd (build_forest items))" by (meson list.set_sel(1))
  have "set_mset (mset (map item_pair items)) = item_pair ` set items" by simp
  then have "item_pair (conflict_item c) \<in> item_pair ` set items"
    using c unfolding build_accounts [symmetric] by auto
  then obtain i where i: "i \<in> set items" "item_span (conflict_item c) = item_span i"
    by (auto simp: item_pair_def)
  have "genuine (item_span ` set items) c"
    using build_conflicts [of items] c genuine_mono by blast
  then show False using assms i by (fastforce simp: genuine_def split: reason.splits)
qed

theorem build_laminar_no_conflict_witness:
  "snd (build_forest [\<lparr>item_span = \<lparr>StartByte = 2, EndByte = 8\<rparr>, payload = (1::nat)\<rparr>,
      \<lparr>item_span = \<lparr>StartByte = 0, EndByte = 10\<rparr>, payload = 2\<rparr>]) = []"
  by (rule build_laminar_no_conflict)
    (auto simp: relate_def strictly_contains_def span_contains_def span_overlaps_def)

section \<open>The traversals are the recursive ones\<close>

fun postorder :: "'a node \<Rightarrow> 'a node list" where
  "postorder (Node s as cs) = concat (map postorder cs) @ [Node s as cs]"

fun preorder :: "'a node \<Rightarrow> 'a node list" where
  "preorder (Node s as cs) = Node s as cs # concat (map preorder cs)"

lemma postorder_children: "postorder n = concat (map postorder (children n)) @ [n]"
  by (cases n) simp

lemma preorder_children: "preorder n = n # concat (map preorder (children n))"
  by (cases n) simp

lemma inner_frames_eq:
  "inner_frames fs = concat (map (\<lambda>(n, k). concat (map postorder (drop k (children n))) @ [n]) fs)"
proof (induction fs rule: inner_frames.induct)
  case 1
  then show ?case by simp
next
  case (2 n k fs)
  show ?case
  proof (cases "k < length (children n)")
    case True
    then have "drop k (children n) = children n ! k # drop (Suc k) (children n)"
      by (simp add: Cons_nth_drop_Suc)
    with 2 True show ?thesis by (simp add: postorder_children [of "children n ! k"])
  next
    case False
    with 2 show ?thesis by simp
  qed
qed

lemma walk_loop_eq: "walk_loop st = concat (map preorder st)"
proof (induction st rule: walk_loop.induct)
  case (2 n st)
  then show ?case by (cases n) simp
qed simp

text \<open>
  The two iterative traversals visit the forest as the recursive ones would:
  \<open>InnerFirst\<close> is the post-order and \<open>Walk\<close> the pre-order, left to right.
\<close>

theorem traversals_recursive:
  "inner_first rs = concat (map postorder rs) \<and> walk rs = concat (map preorder rs)"
proof -
  have "inner_frames [(root, 0)] = postorder root" for root :: "'a node"
    by (cases root) (simp add: inner_frames_eq)
  then show ?thesis by (simp add: inner_first_def walk_def walk_loop_eq)
qed

end
