(* ===== verification/Glob.thy ===== *)
theory Glob
  imports GoStrings
begin

text \<open>
  Path patterns (\<open>internal/glob/glob.go\<close>): compiling a pattern, and the two dynamic
  programs that match a path against it, with their two buffers as the code has them.
\<close>

datatype glob_message = EmptyPattern | LeadingSlash | TrailingSlash | EmptyPathElement

record syntax_error =
  err_pattern :: string
  err_column :: nat
  err_message :: glob_message

datatype element_kind = KindLiteral | KindWildcard | KindDoubleStar

record element =
  elem_kind :: element_kind
  elem_text :: string

record pattern =
  source :: string
  elements :: "element list"

section \<open>Compiling\<close>

definition classify :: "string \<Rightarrow> element" where
  "classify part =
     (if part = ''**'' then \<lparr>elem_kind = KindDoubleStar, elem_text = []\<rparr>
      else if contains_any part ''*?'' then \<lparr>elem_kind = KindWildcard, elem_text = part\<rparr>
      else \<lparr>elem_kind = KindLiteral, elem_text = part\<rparr>)"

text \<open>The loop over the parts, with the column of the next part.\<close>

fun compile_parts :: "string \<Rightarrow> nat \<Rightarrow> string list \<Rightarrow> syntax_error + element list" where
  "compile_parts pat column [] = Inr []"
| "compile_parts pat column (part # parts) =
     (if part = [] then
        Inl \<lparr>err_pattern = pat, err_column = column, err_message = EmptyPathElement\<rparr>
      else
        (case compile_parts pat (column + length part + 1) parts of
           Inl e \<Rightarrow> Inl e
         | Inr es \<Rightarrow> Inr (classify part # es)))"

definition compile :: "string \<Rightarrow> syntax_error + pattern" where
  "compile pat =
     (if pat = [] then
        Inl \<lparr>err_pattern = pat, err_column = 1, err_message = EmptyPattern\<rparr>
      else if hd pat = CHR ''/'' then
        Inl \<lparr>err_pattern = pat, err_column = 1, err_message = LeadingSlash\<rparr>
      else if last pat = CHR ''/'' then
        Inl \<lparr>err_pattern = pat, err_column = length pat, err_message = TrailingSlash\<rparr>
      else
        (case compile_parts pat 1 (split_on CHR ''/'' pat) of
           Inl e \<Rightarrow> Inl e
         | Inr es \<Rightarrow> Inr \<lparr>source = pat, elements = es\<rparr>))"

section \<open>Matching one segment\<close>

text \<open>
  The inner loop of \<open>matchWildcard\<close>, from index \<open>j\<close> up: the row of the pattern's
  prefix that ends with \<open>b\<close>, from the row of the prefix before it.
\<close>

function wild_fill :: "char \<Rightarrow> string \<Rightarrow> nat \<Rightarrow> bool list \<Rightarrow> bool list \<Rightarrow> bool list" where
  "wild_fill b segment j previous current =
     (if j \<le> length segment then
        wild_fill b segment (j + 1) previous
          (current[j :=
             (if b = CHR ''*'' then previous ! j \<or> current ! (j - 1)
              else if b = CHR ''?'' then previous ! (j - 1)
              else previous ! (j - 1) \<and> segment ! (j - 1) = b)])
      else current)"
  by pat_completeness auto
termination
  by (relation "measure (\<lambda>(b, segment, j, previous, current). Suc (length segment) - j)") auto

declare wild_fill.simps [simp del]

fun wild_rows :: "string \<Rightarrow> string \<Rightarrow> bool list \<Rightarrow> bool list \<Rightarrow> bool list" where
  "wild_rows [] segment previous current = previous"
| "wild_rows (b # bs) segment previous current =
     wild_rows bs segment
       (wild_fill b segment 1 previous (current[0 := (b = CHR ''*'' \<and> previous ! 0)])) previous"

text \<open>A buffer of \<open>n + 1\<close> cells with one of them set.\<close>

definition one_hot :: "nat \<Rightarrow> nat \<Rightarrow> bool list" where
  "one_hot n i = (replicate (n + 1) False)[i := True]"

definition match_wildcard :: "string \<Rightarrow> string \<Rightarrow> bool" where
  "match_wildcard pat segment =
     (let n = length segment
      in wild_rows pat segment (one_hot n 0) (replicate (n + 1) False) ! n)"

definition element_match :: "element \<Rightarrow> string \<Rightarrow> bool" where
  "element_match e segment =
     (if elem_kind e = KindLiteral then elem_text e = segment else match_wildcard (elem_text e) segment)"

section \<open>Matching a path\<close>

text \<open>The two inner loops of \<open>Match\<close>, from the index below the given one down to 0.\<close>

fun star_fill :: "nat \<Rightarrow> bool list \<Rightarrow> bool list \<Rightarrow> bool list" where
  "star_fill 0 nxt current = current"
| "star_fill (Suc j) nxt current = star_fill j nxt (current[j := nxt ! j \<or> current ! (j + 1)])"

fun element_fill :: "element \<Rightarrow> string list \<Rightarrow> nat \<Rightarrow> bool list \<Rightarrow> bool list \<Rightarrow> bool list" where
  "element_fill e segments 0 nxt current = current"
| "element_fill e segments (Suc j) nxt current =
     element_fill e segments j nxt (current[j := nxt ! (j + 1) \<and> element_match e (segments ! j)])"

text \<open>The outer loop, over the elements from the last to the first.\<close>

fun match_rows :: "element list \<Rightarrow> string list \<Rightarrow> bool list \<Rightarrow> bool list \<Rightarrow> bool list" where
  "match_rows [] segments nxt current = nxt"
| "match_rows (e # es) segments nxt current =
     (let count = length segments;
          row = (if elem_kind e = KindDoubleStar
                 then star_fill count nxt (current[count := nxt ! count])
                 else element_fill e segments count nxt (current[count := False]))
      in match_rows es segments row nxt)"

definition glob_match :: "pattern \<Rightarrow> string \<Rightarrow> bool" where
  "glob_match p path =
     (let segments = split_on CHR ''/'' path; count = length segments
      in if list_ex (\<lambda>s. s = []) segments then False
         else match_rows (rev (elements p)) segments
                (one_hot count count) (replicate (count + 1) False) ! 0)"

section \<open>What a pattern means\<close>

text \<open>
  A wildcard pattern matches the text that falls into pieces, one for each of its bytes:
  any text for a star, one byte for a question mark, the byte itself otherwise.
\<close>

definition piece_ok :: "char \<Rightarrow> string \<Rightarrow> bool" where
  "piece_ok b w \<longleftrightarrow>
     (if b = CHR ''*'' then True else if b = CHR ''?'' then length w = 1 else w = [b])"

definition wildcard_spec :: "string \<Rightarrow> string \<Rightarrow> bool" where
  "wildcard_spec pat s \<longleftrightarrow> (\<exists>ws. list_all2 piece_ok pat ws \<and> concat ws = s)"

text \<open>
  A path pattern matches the path whose segments fall into groups, one for each element:
  any segments for a double star, one segment that the element matches otherwise.
\<close>

definition group_ok :: "element \<Rightarrow> string list \<Rightarrow> bool" where
  "group_ok e g \<longleftrightarrow>
     (case elem_kind e of
        KindDoubleStar \<Rightarrow> True
      | KindLiteral \<Rightarrow> g = [elem_text e]
      | KindWildcard \<Rightarrow> (\<exists>s. g = [s] \<and> wildcard_spec (elem_text e) s))"

definition path_spec :: "element list \<Rightarrow> string list \<Rightarrow> bool" where
  "path_spec es segments \<longleftrightarrow> (\<exists>gs. list_all2 group_ok es gs \<and> concat gs = segments)"

section \<open>Splitting a list into pieces\<close>

definition pieces :: "('a \<Rightarrow> 'b list \<Rightarrow> bool) \<Rightarrow> 'a list \<Rightarrow> 'b list \<Rightarrow> bool" where
  "pieces ok ps xs \<longleftrightarrow> (\<exists>ws. list_all2 ok ps ws \<and> concat ws = xs)"

lemma pieces_Nil [simp]: "pieces ok [] xs \<longleftrightarrow> xs = []"
  by (auto simp: pieces_def)

lemma pieces_Cons: "pieces ok (p # ps) xs \<longleftrightarrow> (\<exists>u v. xs = u @ v \<and> ok p u \<and> pieces ok ps v)"
  by (fastforce simp: pieces_def list_all2_Cons1)

lemma pieces_snoc: "pieces ok (ps @ [p]) xs \<longleftrightarrow> (\<exists>u v. xs = u @ v \<and> pieces ok ps u \<and> ok p v)"
proof (induction ps arbitrary: xs)
  case Nil
  then show ?case by (auto simp: pieces_Cons)
next
  case (Cons q qs)
  show ?case unfolding append_Cons pieces_Cons Cons.IH
    by (metis (no_types, opaque_lifting) append.assoc)
qed

lemma wildcard_spec_pieces: "wildcard_spec = pieces piece_ok"
  by (simp add: fun_eq_iff wildcard_spec_def pieces_def)

lemma path_spec_pieces: "path_spec = pieces group_ok"
  by (simp add: fun_eq_iff path_spec_def pieces_def)

lemma length_one_hot [simp]: "length (one_hot n i) = Suc n"
  by (simp add: one_hot_def del: replicate.simps list_update.simps)

lemma nth_one_hot [simp]: "i \<le> n \<Longrightarrow> k \<le> n \<Longrightarrow> one_hot n i ! k \<longleftrightarrow> k = i"
  by (auto simp: one_hot_def nth_list_update simp del: replicate.simps list_update.simps)

section \<open>The row of a wildcard\<close>

lemma wild_step_star:
  "wildcard_spec (p @ [CHR ''*'']) (take (Suc j) s)
     \<longleftrightarrow> wildcard_spec p (take (Suc j) s) \<or> wildcard_spec (p @ [CHR ''*'']) (take j s)"
  if "j < length s"
proof -
  have star: "wildcard_spec (p @ [CHR ''*'']) t \<longleftrightarrow> (\<exists>u v. t = u @ v \<and> wildcard_spec p u)" for t
    by (simp add: wildcard_spec_pieces pieces_snoc piece_ok_def)
  have t: "take (Suc j) s = take j s @ [s ! j]" using that by (simp add: take_Suc_conv_app_nth)
  show ?thesis unfolding star t
  proof
    assume "\<exists>u v. take j s @ [s ! j] = u @ v \<and> wildcard_spec p u"
    then obtain u v where uv: "take j s @ [s ! j] = u @ v" "wildcard_spec p u" by blast
    show "wildcard_spec p (take j s @ [s ! j]) \<or> (\<exists>u v. take j s = u @ v \<and> wildcard_spec p u)"
      using uv by (cases v rule: rev_cases) auto
  next
    assume "wildcard_spec p (take j s @ [s ! j]) \<or> (\<exists>u v. take j s = u @ v \<and> wildcard_spec p u)"
    then show "\<exists>u v. take j s @ [s ! j] = u @ v \<and> wildcard_spec p u"
      by (metis append.assoc append_Nil2)
  qed
qed

lemma wild_step_byte:
  assumes "b \<noteq> CHR ''*''" and "j < length s"
  shows "wildcard_spec (p @ [b]) (take (Suc j) s)
     \<longleftrightarrow> wildcard_spec p (take j s) \<and> (b = CHR ''?'' \<or> s ! j = b)"
proof -
  have t: "take (Suc j) s = take j s @ [s ! j]"
    using assms(2) by (simp add: take_Suc_conv_app_nth)
  have "wildcard_spec (p @ [b]) (take (Suc j) s)
      \<longleftrightarrow> (\<exists>u v. take j s @ [s ! j] = u @ v \<and> wildcard_spec p u \<and> piece_ok b v)"
    by (simp add: wildcard_spec_pieces pieces_snoc t)
  also have "\<dots> \<longleftrightarrow> (\<exists>u c. take j s @ [s ! j] = u @ [c] \<and> wildcard_spec p u \<and> (b = CHR ''?'' \<or> c = b))"
    using assms(1) by (auto simp: piece_ok_def length_Suc_conv split: if_splits)
  finally show ?thesis by auto
qed

lemma wild_step_zero:
  "wildcard_spec (p @ [b]) [] \<longleftrightarrow> b = CHR ''*'' \<and> wildcard_spec p []"
  by (auto simp: wildcard_spec_pieces pieces_snoc piece_ok_def)

definition row_of :: "string \<Rightarrow> string \<Rightarrow> bool list \<Rightarrow> bool" where
  "row_of p s row \<longleftrightarrow> length row = Suc (length s) \<and> (\<forall>k \<le> length s. row ! k \<longleftrightarrow> wildcard_spec p (take k s))"

lemma wild_fill_row:
  assumes "row_of p s previous" and "length current = Suc (length s)" and "1 \<le> j"
    and "\<forall>k < j. k \<le> length s \<longrightarrow> (current ! k \<longleftrightarrow> wildcard_spec (p @ [b]) (take k s))"
  shows "row_of (p @ [b]) s (wild_fill b s j previous current)"
  using assms(2-4)
proof (induction "Suc (length s) - j" arbitrary: j current)
  case 0
  then show ?case by (subst wild_fill.simps) (auto simp: row_of_def)
next
  case (Suc n)
  then have j: "j \<le> length s" by simp
  then obtain i where i: "j = Suc i" using Suc.prems by (cases j) auto
  let ?v = "if b = CHR ''*'' then previous ! j \<or> current ! (j - 1)
      else if b = CHR ''?'' then previous ! (j - 1)
      else previous ! (j - 1) \<and> s ! (j - 1) = b"
  have v: "?v \<longleftrightarrow> wildcard_spec (p @ [b]) (take j s)"
    using Suc.prems assms(1) i j
    by (cases "b = CHR ''*''") (auto simp: row_of_def wild_step_star wild_step_byte)
  have "row_of (p @ [b]) s (wild_fill b s (j + 1) previous (current[j := ?v]))"
    unfolding v
    by (rule Suc.hyps(1)) (use Suc.hyps(2) Suc.prems j in \<open>auto simp: nth_list_update less_Suc_eq_le\<close>)
  with j show ?case by (subst wild_fill.simps) (simp only: if_True)
qed

lemma wild_rows_row:
  "row_of p s previous \<Longrightarrow> length current = Suc (length s) \<Longrightarrow>
     row_of (p @ bs) s (wild_rows bs s previous current)"
proof (induction bs arbitrary: p previous current)
  case Nil
  then show ?case by simp
next
  case (Cons b bs)
  have "row_of (p @ [b]) s
      (wild_fill b s 1 previous (current[0 := (b = CHR ''*'' \<and> previous ! 0)]))"
    by (rule wild_fill_row [OF Cons.prems(1)])
      (use Cons.prems in \<open>auto simp: row_of_def wild_step_zero\<close>)
  moreover have "length previous = Suc (length s)" using Cons.prems(1) by (simp add: row_of_def)
  ultimately show ?case using Cons.IH [of "p @ [b]"] by simp
qed

text \<open>
  The dynamic program for wildcards decides the declarative meaning: the segment falls
  into pieces that the bytes of the pattern match in turn.
\<close>

theorem match_wildcard_spec: "match_wildcard pat segment \<longleftrightarrow> wildcard_spec pat segment"
proof -
  have "row_of [] segment (one_hot (length segment) 0)"
    by (auto simp: row_of_def wildcard_spec_pieces)
  then have "row_of pat segment (wild_rows pat segment
      (one_hot (length segment) 0) (replicate (length segment + 1) False))"
    using wild_rows_row [of "[]"] by simp
  then show ?thesis by (simp add: match_wildcard_def row_of_def)
qed

section \<open>The row of a path\<close>

lemma element_match_group:
  "elem_kind e \<noteq> KindDoubleStar \<Longrightarrow> group_ok e g \<longleftrightarrow> (\<exists>s. g = [s] \<and> element_match e s)"
  using match_wildcard_spec
  by (cases "elem_kind e") (auto simp: group_ok_def element_match_def)

lemma path_spec_star:
  assumes "elem_kind e = KindDoubleStar" and "j < length segs"
  shows "path_spec (e # es) (drop j segs) \<longleftrightarrow>
    path_spec es (drop j segs) \<or> path_spec (e # es) (drop (Suc j) segs)"
proof -
  have star: "path_spec (e # es) t \<longleftrightarrow> (\<exists>u v. t = u @ v \<and> path_spec es v)" for t
    using assms(1) by (simp add: path_spec_pieces pieces_Cons group_ok_def)
  have d: "drop j segs = segs ! j # drop (Suc j) segs"
    using assms(2) by (simp add: Cons_nth_drop_Suc)
  show ?thesis unfolding star d by (auto simp: Cons_eq_append_conv)
qed

lemma path_spec_star_end:
  "elem_kind e = KindDoubleStar \<Longrightarrow> path_spec (e # es) [] \<longleftrightarrow> path_spec es []"
  by (simp add: path_spec_pieces pieces_Cons group_ok_def)

lemma path_spec_element:
  assumes "elem_kind e \<noteq> KindDoubleStar" and "j < length segs"
  shows "path_spec (e # es) (drop j segs) \<longleftrightarrow>
    path_spec es (drop (Suc j) segs) \<and> element_match e (segs ! j)"
proof -
  have d: "drop j segs = segs ! j # drop (Suc j) segs"
    using assms(2) by (simp add: Cons_nth_drop_Suc)
  show ?thesis unfolding d path_spec_pieces pieces_Cons element_match_group [OF assms(1)]
    by (metis append_Cons append_Nil list.inject)
qed

lemma path_spec_element_end: "elem_kind e \<noteq> KindDoubleStar \<Longrightarrow> \<not> path_spec (e # es) []"
  by (auto simp: path_spec_pieces pieces_Cons element_match_group)

definition path_row :: "element list \<Rightarrow> string list \<Rightarrow> bool list \<Rightarrow> bool" where
  "path_row es segs row \<longleftrightarrow>
     length row = Suc (length segs) \<and> (\<forall>k \<le> length segs. row ! k \<longleftrightarrow> path_spec es (drop k segs))"

lemma star_fill_row:
  assumes "path_row es segs nxt" and "elem_kind e = KindDoubleStar"
    and "length current = Suc (length segs)" and "j \<le> length segs"
    and "\<forall>k. j \<le> k \<and> k \<le> length segs \<longrightarrow> (current ! k \<longleftrightarrow> path_spec (e # es) (drop k segs))"
  shows "path_row (e # es) segs (star_fill j nxt current)"
  using assms(3-5)
proof (induction j arbitrary: current)
  case 0
  then show ?case by (simp add: path_row_def)
next
  case (Suc j)
  have "path_spec (e # es) (drop j segs) \<longleftrightarrow> nxt ! j \<or> current ! (j + 1)"
    using Suc.prems assms(1) path_spec_star [OF assms(2)] by (simp add: path_row_def)
  then have "path_row (e # es) segs (star_fill j nxt (current[j := nxt ! j \<or> current ! (j + 1)]))"
    by (intro Suc.IH) (use Suc.prems in \<open>auto simp: nth_list_update Suc_le_eq\<close>)
  then show ?case by simp
qed

lemma element_fill_row:
  assumes "path_row es segs nxt" and "elem_kind e \<noteq> KindDoubleStar"
    and "length current = Suc (length segs)" and "j \<le> length segs"
    and "\<forall>k. j \<le> k \<and> k \<le> length segs \<longrightarrow> (current ! k \<longleftrightarrow> path_spec (e # es) (drop k segs))"
  shows "path_row (e # es) segs (element_fill e segs j nxt current)"
  using assms(3-5)
proof (induction j arbitrary: current)
  case 0
  then show ?case by (simp add: path_row_def)
next
  case (Suc j)
  have "path_spec (e # es) (drop j segs) \<longleftrightarrow> nxt ! (j + 1) \<and> element_match e (segs ! j)"
    using Suc.prems assms(1) path_spec_element [OF assms(2)] by (simp add: path_row_def)
  then have "path_row (e # es) segs (element_fill e segs j nxt
      (current[j := nxt ! (j + 1) \<and> element_match e (segs ! j)]))"
    by (intro Suc.IH) (use Suc.prems in \<open>auto simp: nth_list_update Suc_le_eq\<close>)
  then show ?case by simp
qed

lemma match_rows_row:
  "path_row done segs nxt \<Longrightarrow> length current = Suc (length segs) \<Longrightarrow>
     path_row (rev es @ done) segs (match_rows es segs nxt current)"
proof (induction es arbitrary: "done" nxt current)
  case Nil
  then show ?case by simp
next
  case (Cons e es)
  let ?c = "length segs"
  define row where "row = (if elem_kind e = KindDoubleStar
      then star_fill ?c nxt (current[?c := nxt ! ?c])
      else element_fill e segs ?c nxt (current[?c := False]))"
  have "path_row (e # done) segs row"
  proof (cases "elem_kind e = KindDoubleStar")
    case True
    have "path_row (e # done) segs (star_fill ?c nxt (current[?c := nxt ! ?c]))"
      by (rule star_fill_row [OF Cons.prems(1) True])
        (use Cons.prems True in \<open>auto simp: path_row_def path_spec_star_end\<close>)
    with True show ?thesis by (simp add: row_def)
  next
    case False
    have "path_row (e # done) segs (element_fill e segs ?c nxt (current[?c := False]))"
      by (rule element_fill_row [OF Cons.prems(1) False])
        (use Cons.prems False in \<open>auto simp: path_spec_element_end\<close>)
    with False show ?thesis by (simp add: row_def)
  qed
  moreover have "length nxt = Suc ?c" using Cons.prems(1) by (simp add: path_row_def)
  ultimately have "path_row (rev es @ e # done) segs (match_rows es segs row nxt)"
    by (rule Cons.IH)
  then show ?case by (simp add: row_def Let_def)
qed

text \<open>
  C39. A pattern matches a path exactly when no segment of the path is empty and the
  segments fall into groups that the elements of the pattern match in turn.
\<close>

theorem glob_match_spec:
  "glob_match p path \<longleftrightarrow>
     [] \<notin> set (split_on CHR ''/'' path) \<and> path_spec (elements p) (split_on CHR ''/'' path)"
proof -
  let ?segs = "split_on CHR ''/'' path"
  let ?c = "length ?segs"
  have "path_row [] ?segs (one_hot ?c ?c)"
    by (auto simp: path_row_def path_spec_pieces)
  then have "path_row (rev (rev (elements p)) @ []) ?segs (match_rows (rev (elements p)) ?segs
      (one_hot ?c ?c) (replicate (?c + 1) False))"
    by (rule match_rows_row) simp
  then show ?thesis by (auto simp: glob_match_def Let_def path_row_def list_ex_iff)
qed

section \<open>Compiling is exact\<close>

lemma compile_parts_Inr:
  "compile_parts pat col parts = Inr es \<longleftrightarrow> [] \<notin> set parts \<and> es = map classify parts"
proof (induction parts arbitrary: col es)
  case Nil
  then show ?case by auto
next
  case (Cons p ps)
  note IH = Cons [of "col + length p + 1"]
  show ?case
  proof (cases "compile_parts pat (col + length p + 1) ps")
    case (Inl e)
    with IH [of "map classify ps"] show ?thesis by auto
  next
    case (Inr es')
    with IH [of es'] show ?thesis by auto
  qed
qed

lemma compile_parts_Inl:
  "compile_parts pat col parts = Inl e \<Longrightarrow>
     \<exists>as bs. parts = as @ [] # bs \<and> [] \<notin> set as
       \<and> e = \<lparr>err_pattern = pat, err_column = col + length (concat as) + length as,
               err_message = EmptyPathElement\<rparr>"
proof (induction parts arbitrary: col)
  case Nil
  then show ?case by simp
next
  case (Cons p ps)
  show ?case
  proof (cases "p = []")
    case True
    with Cons.prems show ?thesis by (intro exI [of _ "[]"] exI [of _ ps]) simp
  next
    case False
    with Cons.prems have "compile_parts pat (col + length p + 1) ps = Inl e"
      by (auto split: sum.splits)
    from Cons.IH [OF this] obtain as bs where "ps = as @ [] # bs" "[] \<notin> set as"
      "e = \<lparr>err_pattern = pat, err_column = col + length p + 1 + length (concat as) + length as,
            err_message = EmptyPathElement\<rparr>" by blast
    with False show ?thesis by (intro exI [of _ "p # as"] exI [of _ bs]) simp
  qed
qed

lemma join_prefix_slash:
  assumes "as \<noteq> []"
  shows "join_with [c] (as @ [] # bs) = join_with [c] as @ [c] @ (if bs = [] then [] else c # join_with [c] bs)"
  using assms
proof (induction as rule: list_nonempty_induct)
  case (single a)
  then show ?case by (cases bs) auto
next
  case (cons a as)
  then show ?case by (simp add: join_with_Cons)
qed

lemma length_join: "as \<noteq> [] \<Longrightarrow> Suc (length (join_with [c] as)) = length (concat as) + length as"
  by (induction as rule: list_nonempty_induct) (auto simp: join_with_Cons)

text \<open>
  \<open>Compile\<close> accepts exactly the patterns that are not empty and have no empty path
  element, and its elements are the classified parts. A refused pattern is reported at the
  column of the slash to blame: the leading one, the trailing one, or the second of two in
  a row.
\<close>

theorem compile_exact:
  "(case compile pat of
      Inr p \<Rightarrow> [] \<notin> set (split_on CHR ''/'' pat) \<and> source p = pat
        \<and> elements p = map classify (split_on CHR ''/'' pat)
    | Inl e \<Rightarrow> [] \<in> set (split_on CHR ''/'' pat) \<and> err_pattern e = pat
        \<and> (if pat = [] then err_column e = 1
             else 1 \<le> err_column e \<and> err_column e \<le> length pat
               \<and> pat ! (err_column e - 1) = CHR ''/'')
        \<and> (if err_message e = EmptyPathElement
             then 2 \<le> err_column e \<and> pat ! (err_column e - 2) = CHR ''/'' else True))"
proof -
  let ?parts = "split_on CHR ''/'' pat"
  consider (empty) "pat = []" | (lead) "pat \<noteq> []" "hd pat = CHR ''/''"
    | (trail) "pat \<noteq> []" "hd pat \<noteq> CHR ''/''" "last pat = CHR ''/''"
    | (inner) "pat \<noteq> []" "hd pat \<noteq> CHR ''/''" "last pat \<noteq> CHR ''/''" by blast
  then show ?thesis
  proof cases
    case empty
    then show ?thesis by (simp add: compile_def)
  next
    case lead
    then obtain t where "pat = CHR ''/'' # t" by (cases pat) auto
    then show ?thesis by (simp add: compile_def)
  next
    case trail
    then obtain t where t: "pat = t @ [CHR ''/'']" by (cases pat rule: rev_cases) auto
    with trail show ?thesis by (auto simp: compile_def nth_append split_on_snoc)
  next
    case inner
    show ?thesis
    proof (cases "compile_parts pat 1 ?parts")
      case (Inr es)
      then have "[] \<notin> set ?parts" and "es = map classify ?parts"
        by (simp_all add: compile_parts_Inr)
      with inner Inr show ?thesis by (simp add: compile_def)
    next
      case (Inl e)
      then obtain as bs where s: "?parts = as @ [] # bs"
        and e: "e = \<lparr>err_pattern = pat, err_column = 1 + length (concat as) + length as,
               err_message = EmptyPathElement\<rparr>"
        using compile_parts_Inl by blast
      have j: "pat = join_with [CHR ''/''] (as @ [] # bs)"
        by (metis s join_split_on)
      have as: "as \<noteq> []"
      proof
        assume "as = []"
        with j inner show False by (cases bs) auto
      qed
      note j' = j [unfolded join_prefix_slash [OF as]] and len = length_join [OF as]
      have bs: "bs \<noteq> []" using j' inner(3) by auto
      have "length pat \<ge> Suc (Suc (length (join_with [CHR ''/''] as)))"
        and "pat ! length (join_with [CHR ''/''] as) = CHR ''/''"
        and "pat ! Suc (length (join_with [CHR ''/''] as)) = CHR ''/''"
        using bs by (subst j', simp add: nth_append)+
      moreover have "err_column e = Suc (Suc (length (join_with [CHR ''/''] as)))"
        using e len by simp
      ultimately show ?thesis
        using inner Inl e s by (simp add: compile_def)
    qed
  qed
qed

end
