(* ===== verification/Float64.thy ===== *)
theory Float64
  imports Complex_Main GoStrings
begin

text \<open>
  The part of IEEE 754 double precision that Go's \<open>float64\<close> arithmetic uses here: a finite
  double is the rational it stands for, and an operation rounds the exact result to the
  nearest double, ties to even. The values are quotients and percentages far inside the
  range of normal doubles, so there is no overflow and no subnormal to model.
\<close>

fun bit_len :: "nat \<Rightarrow> nat" where
  "bit_len n = (if n = 0 then 0 else Suc (bit_len (n div 2)))"

declare bit_len.simps [simp del]

definition round_even :: "rat \<Rightarrow> int" where
  "round_even x =
     (let f = \<lfloor>x\<rfloor>; d = x - of_int f
      in if d < 1 / 2 then f else if 1 / 2 < d then f + 1 else if even f then f else f + 1)"

text \<open>The power of two at or below a positive rational: its exponent.\<close>

definition exponent :: "rat \<Rightarrow> int" where
  "exponent x =
     (let (p, q) = quotient_of x; k = int (bit_len (nat p)) - int (bit_len (nat q))
      in if x < 2 powi k then k - 1 else k)"

definition float64 :: "rat \<Rightarrow> rat" where
  "float64 x =
     (if x = 0 then 0
      else (let ulp = 2 powi (exponent \<bar>x\<bar> - 52) in sgn x * of_int (round_even (\<bar>x\<bar> / ulp)) * ulp))"

text \<open>
  \<open>strconv.FormatFloat(x, 'f', 2, 64)\<close> of a number that is not negative: the exact value
  rounded to two decimals, ties to even.
\<close>

definition pad2 :: "nat \<Rightarrow> string" where
  "pad2 n = digit_of (n div 10) # digit_of (n mod 10) # []"

definition format2 :: "rat \<Rightarrow> string" where
  "format2 x = (let n = nat (round_even (x * 100)) in digits_of (n div 100) @ ''.'' @ pad2 (n mod 100))"

section \<open>Rounding is monotone\<close>

lemma round_even_bounds: "\<lfloor>x\<rfloor> \<le> round_even x" "round_even x \<le> \<lfloor>x\<rfloor> + 1"
  by (simp_all add: round_even_def Let_def)

lemma round_even_int [simp]: "round_even (of_int n) = n"
  by (simp add: round_even_def Let_def)

lemma round_even_mono: "x \<le> y \<Longrightarrow> round_even x \<le> round_even y"
proof -
  assume le: "x \<le> y"
  then have f: "\<lfloor>x\<rfloor> \<le> \<lfloor>y\<rfloor>" by (rule floor_mono)
  show ?thesis
  proof (cases "\<lfloor>x\<rfloor> = \<lfloor>y\<rfloor>")
    case True
    with le show ?thesis by (auto simp: round_even_def Let_def)
  next
    case False
    with f have "\<lfloor>x\<rfloor> + 1 \<le> \<lfloor>y\<rfloor>" by simp
    with round_even_bounds [of x] round_even_bounds [of y] show ?thesis by linarith
  qed
qed

lemma round_even_ge: "of_int n \<le> x \<Longrightarrow> n \<le> round_even x"
  using round_even_mono [of "of_int n" x] by simp

lemma round_even_le: "x \<le> of_int n \<Longrightarrow> round_even x \<le> n"
  using round_even_mono [of x "of_int n"] by simp

lemma bit_len_bounds: "0 < n \<Longrightarrow> 2 ^ (bit_len n - 1) \<le> n \<and> n < 2 ^ bit_len n \<and> 0 < bit_len n"
proof (induction n rule: bit_len.induct)
  case (1 n)
  show ?case
  proof (cases "n div 2 = 0")
    case True
    with 1 have "n = 1" by simp
    moreover have "bit_len 1 = 1" by (subst bit_len.simps, subst bit_len.simps) simp
    ultimately show ?thesis by simp
  next
    case False
    with 1 have IH: "2 ^ (bit_len (n div 2) - 1) \<le> n div 2" "n div 2 < 2 ^ bit_len (n div 2)"
      "0 < bit_len (n div 2)" by auto
    have len: "bit_len n = Suc (bit_len (n div 2))" using 1 by (simp add: bit_len.simps [of n])
    have two: "(2::nat) ^ bit_len (n div 2) = 2 * 2 ^ (bit_len (n div 2) - 1)"
      using IH(3) by (metis power_eq_if less_not_refl)
    have n: "2 * (n div 2) \<le> n" "n < 2 * (n div 2) + 2" by auto
    have "2 ^ bit_len (n div 2) \<le> n" unfolding two using IH(1) n(1) by linarith
    moreover have "n < 2 * 2 ^ bit_len (n div 2)" using IH(2) n(2) by linarith
    ultimately show ?thesis by (simp add: len)
  qed
qed

lemma bit_len_powi:
  assumes "0 < n"
  shows "2 powi (int (bit_len (nat n)) - 1) \<le> (of_int n :: rat)
    \<and> (of_int n :: rat) < 2 powi int (bit_len (nat n))"
proof -
  let ?k = "bit_len (nat n)"
  have k: "2 ^ (?k - 1) \<le> nat n" "nat n < 2 ^ ?k" "0 < ?k"
    using bit_len_bounds [of "nat n"] assms by (metis zero_less_nat_eq)+
  have "(of_nat (2 ^ (?k - 1)) :: rat) \<le> of_nat (nat n)" "(of_nat (nat n) :: rat) < of_nat (2 ^ ?k)"
    using k(1,2) by (simp_all only: of_nat_le_iff of_nat_less_iff)
  moreover have "int ?k - 1 = int (?k - 1)" using k(3) by simp
  moreover have "(of_nat (nat n) :: rat) = of_int n" using assms by (simp add: of_nat_nat)
  ultimately show ?thesis
    by (simp only: power_int_of_nat of_nat_power of_nat_numeral)
qed

lemma exponent_bounds:
  assumes "0 < x"
  shows "2 powi exponent x \<le> x \<and> x < 2 powi (exponent x + 1)"
proof -
  obtain p q where pq: "quotient_of x = (p, q)" by fastforce
  then have q: "0 < q" by (rule quotient_of_denom_pos)
  have x: "x = of_int p / of_int q" using pq by (rule quotient_of_div)
  then have p: "0 < p" using assms q by (simp add: zero_less_divide_iff)
  define a where "a = int (bit_len (nat p))"
  define b where "b = int (bit_len (nat q))"
  have ab: "2 powi (a - 1) \<le> (of_int p :: rat)" "(of_int p :: rat) < 2 powi a"
    "2 powi (b - 1) \<le> (of_int q :: rat)" "(of_int q :: rat) < 2 powi b"
    using bit_len_powi [OF p] bit_len_powi [OF q] by (simp_all add: a_def b_def)
  have lo: "2 powi (a - b - 1) \<le> x"
  proof -
    have "2 powi (a - b - 1) * of_int q \<le> 2 powi (a - b - 1) * (2 powi b :: rat)"
      using ab(4) by (intro mult_left_mono) auto
    also have "\<dots> = 2 powi (a - 1)"
      by (simp add: power_int_add [symmetric])
    also have "\<dots> \<le> of_int p" by (rule ab(1))
    finally show ?thesis using q by (simp add: x field_simps)
  qed
  have hi: "x < 2 powi (a - b + 1)"
  proof -
    have "(of_int p :: rat) < 2 powi a" by (rule ab(2))
    also have "\<dots> = 2 powi (a - b + 1) * 2 powi (b - 1)"
      by (simp add: power_int_add [symmetric])
    also have "\<dots> \<le> 2 powi (a - b + 1) * of_int q"
      using ab(3) by (intro mult_left_mono) auto
    finally show ?thesis using q by (simp add: x field_simps)
  qed
  have e: "exponent x = (if x < 2 powi (a - b) then a - b - 1 else a - b)"
    by (simp add: exponent_def pq a_def b_def Let_def)
  show ?thesis using lo hi by (auto simp: e)
qed

lemma float64_pos:
  assumes "0 < x"
  shows "float64 x = of_int (round_even (x / 2 powi (exponent x - 52))) * 2 powi (exponent x - 52)"
  using assms by (simp add: float64_def Let_def)

lemma powi_split: "2 powi (e + k) = (2 powi (e - 52) * 2 powi (k + 52) :: rat)"
  by (simp add: power_int_add [symmetric])

lemma float64_range:
  assumes "0 < x"
  shows "2 powi exponent x \<le> float64 x \<and> float64 x \<le> 2 powi (exponent x + 1)"
proof -
  let ?u = "2 powi (exponent x - 52) :: rat"
  have u: "0 < ?u" by simp
  have lo: "2 powi exponent x = ?u * of_int (2 ^ 52)"
    using powi_split [of "exponent x" 0] by simp
  have hi: "2 powi (exponent x + 1) = ?u * of_int (2 ^ 53)"
    using powi_split [of "exponent x" 1] by simp
  have "of_int (2 ^ 52) \<le> x / ?u" and "x / ?u \<le> of_int (2 ^ 53)"
    using exponent_bounds [OF assms] u unfolding lo hi by (simp_all add: field_simps)
  then have "2 ^ 52 \<le> round_even (x / ?u)" and "round_even (x / ?u) \<le> 2 ^ 53"
    by (blast intro: round_even_ge round_even_le)+
  then have "(of_int (2 ^ 52) :: rat) \<le> of_int (round_even (x / ?u))"
    and "(of_int (round_even (x / ?u)) :: rat) \<le> of_int (2 ^ 53)"
    by (simp_all only: of_int_le_iff)
  then show ?thesis unfolding float64_pos [OF assms] lo hi using u
    by (simp add: mult.commute mult_right_mono)
qed

lemma float64_zero [simp]: "float64 0 = 0"
  by (simp add: float64_def)

lemma float64_nonneg: "0 \<le> x \<Longrightarrow> 0 \<le> float64 x"
proof (cases "x = 0")
  case False
  assume "0 \<le> x"
  with False have "2 powi exponent x \<le> float64 x" using float64_range [of x] by simp
  moreover have "(0::rat) < 2 powi exponent x" by simp
  ultimately show ?thesis by linarith
qed simp

lemma float64_mono: "0 \<le> x \<Longrightarrow> x \<le> y \<Longrightarrow> float64 x \<le> float64 y"
proof (cases "x = 0")
  case True
  assume "x \<le> y"
  with True show ?thesis by (simp add: float64_nonneg)
next
  case False
  assume xy: "0 \<le> x" "x \<le> y"
  with False have x: "0 < x" and y: "0 < y" by auto
  show ?thesis
  proof (cases "exponent x = exponent y")
    case True
    have "round_even (x / 2 powi (exponent y - 52)) \<le> round_even (y / 2 powi (exponent y - 52))"
      using xy by (intro round_even_mono divide_right_mono) auto
    then show ?thesis unfolding float64_pos [OF x] float64_pos [OF y] True
      by (intro mult_right_mono) (simp_all only: of_int_le_iff, simp)
  next
    case False
    have "2 powi exponent x < (2 powi (exponent y + 1) :: rat)"
      using exponent_bounds [OF x] exponent_bounds [OF y] xy by linarith
    then have "\<not> exponent y + 1 \<le> exponent x"
      using power_int_increasing [of "exponent y + 1" "exponent x" "2::rat"] by force
    with False have "exponent x + 1 \<le> exponent y" by simp
    then have "2 powi (exponent x + 1) \<le> (2 powi exponent y :: rat)"
      by (intro power_int_increasing) auto
    then show ?thesis using float64_range [OF x] float64_range [OF y] by linarith
  qed
qed

lemma float64_exact:
  assumes "0 < x" and "x = of_int n * 2 powi (exponent x - 52)"
  shows "float64 x = x"
proof -
  have "x / 2 powi (exponent x - 52) = of_int n"
    using assms(2) by (metis nonzero_mult_div_cancel_right power_int_eq_0_iff zero_neq_numeral)
  then show ?thesis unfolding float64_pos [OF assms(1)] using assms(2) by simp
qed

lemma float64_one [simp]: "float64 1 = 1"
proof (rule float64_exact)
  have "exponent 1 = 0"
    by (simp add: exponent_def bit_len.simps)
  then show "(1::rat) = of_int (2 ^ 52) * 2 powi (exponent 1 - 52)"
    by (simp add: power_int_def field_simps)
qed simp

lemma float64_hundred [simp]: "float64 100 = 100"
proof (rule float64_exact)
  have "exponent 100 = 6"
    by (simp add: exponent_def bit_len.simps power_int_def)
  then show "(100::rat) = of_int (100 * 2 ^ 46) * 2 powi (exponent 100 - 52)"
    by (simp add: power_int_def field_simps)
qed simp

end
