(* ===== verification/Outcomes.thy ===== *)
theory Outcomes
  imports Float64
begin

text \<open>
  Outcomes, the score and the verdict on a run (\<open>outcome.go\<close>, \<open>score.go\<close> and
  \<open>exitpolicy.go\<close> of \<open>internal/mutation\<close>). An outcome is a \<open>uint8\<close>, so that a value
  outside the six names exists and has its branch.
\<close>

section \<open>Outcomes\<close>

type_synonym u8 = "8 word"
type_synonym outcome = u8

definition OutcomeNotRun :: outcome where "OutcomeNotRun = 0"
definition OutcomeKilled :: outcome where "OutcomeKilled = 1"
definition OutcomeSurvived :: outcome where "OutcomeSurvived = 2"
definition OutcomeTimedOut :: outcome where "OutcomeTimedOut = 3"
definition OutcomeInconclusive :: outcome where "OutcomeInconclusive = 4"
definition OutcomeErrored :: outcome where "OutcomeErrored = 5"

lemmas outcome_defs = OutcomeNotRun_def OutcomeKilled_def OutcomeSurvived_def
  OutcomeTimedOut_def OutcomeInconclusive_def OutcomeErrored_def

datatype outcome_error = ErrUnknownOutcome

definition outcome_names :: "outcome \<rightharpoonup> string" where
  "outcome_names = map_of
     [(OutcomeNotRun, ''not_run''), (OutcomeKilled, ''killed''), (OutcomeSurvived, ''survived''),
      (OutcomeTimedOut, ''timed_out''), (OutcomeInconclusive, ''inconclusive''),
      (OutcomeErrored, ''errored'')]"

definition outcomes :: "outcome list" where
  "outcomes = [OutcomeNotRun, OutcomeKilled, OutcomeSurvived, OutcomeTimedOut,
     OutcomeInconclusive, OutcomeErrored]"

definition outcome_string :: "outcome \<Rightarrow> string" where
  "outcome_string c =
     (case outcome_names c of
        Some name \<Rightarrow> name
      | None \<Rightarrow> ''outcome('' @ itoa (uint c) @ '')'')"

definition outcome_valid :: "outcome \<Rightarrow> bool" where
  "outcome_valid c = (case outcome_names c of Some _ \<Rightarrow> True | None \<Rightarrow> False)"

definition outcome_detected :: "outcome \<Rightarrow> bool" where
  "outcome_detected c \<longleftrightarrow> c = OutcomeKilled \<or> c = OutcomeTimedOut"

text \<open>The error comes with the value the Go function returns beside it.\<close>

definition parse_outcome :: "string \<Rightarrow> outcome_error + outcome" where
  "parse_outcome s =
     (case find (\<lambda>c. outcome_string c = s) outcomes of
        Some c \<Rightarrow> Inr c
      | None \<Rightarrow> Inl ErrUnknownOutcome)"

definition marshal_text :: "outcome \<Rightarrow> outcome_error + string" where
  "marshal_text c = (if \<not> outcome_valid c then Inl ErrUnknownOutcome else Inr (outcome_string c))"

text \<open>\<open>UnmarshalText\<close>: the receiver keeps its value on an error.\<close>

definition unmarshal_text :: "outcome \<Rightarrow> string \<Rightarrow> outcome_error option \<times> outcome" where
  "unmarshal_text c text' =
     (case parse_outcome text' of Inl err \<Rightarrow> (Some err, c) | Inr parsed \<Rightarrow> (None, parsed))"

section \<open>The tally and the score\<close>

record result =
  Outcome :: outcome
  ExpectedSurvivor :: bool

record tally =
  Killed :: int
  TimedOut :: int
  UnexpectedSurvivors :: int
  ExpectedSurvivors :: int
  Inconclusive :: int
  Errored :: int
  NotRun :: int

definition empty_tally :: tally where
  "empty_tally = \<lparr>Killed = 0, TimedOut = 0, UnexpectedSurvivors = 0, ExpectedSurvivors = 0,
     Inconclusive = 0, Errored = 0, NotRun = 0\<rparr>"

definition tally_record :: "tally \<Rightarrow> result \<Rightarrow> outcome_error + tally" where
  "tally_record t r =
     (if Outcome r = OutcomeKilled then Inr (t\<lparr>Killed := Killed t + 1\<rparr>)
      else if Outcome r = OutcomeTimedOut then Inr (t\<lparr>TimedOut := TimedOut t + 1\<rparr>)
      else if Outcome r = OutcomeSurvived then
        (if ExpectedSurvivor r then Inr (t\<lparr>ExpectedSurvivors := ExpectedSurvivors t + 1\<rparr>)
         else Inr (t\<lparr>UnexpectedSurvivors := UnexpectedSurvivors t + 1\<rparr>))
      else if Outcome r = OutcomeInconclusive then Inr (t\<lparr>Inconclusive := Inconclusive t + 1\<rparr>)
      else if Outcome r = OutcomeErrored then Inr (t\<lparr>Errored := Errored t + 1\<rparr>)
      else if Outcome r = OutcomeNotRun then Inr (t\<lparr>NotRun := NotRun t + 1\<rparr>)
      else Inl ErrUnknownOutcome)"

text \<open>The loop of \<open>TallyOf\<close>; an error carries the index of its result.\<close>

fun tally_from :: "nat \<Rightarrow> tally \<Rightarrow> result list \<Rightarrow> (nat \<times> outcome_error) + tally" where
  "tally_from i t [] = Inr t"
| "tally_from i t (r # rs) =
     (case tally_record t r of
        Inl err \<Rightarrow> Inl (i, err)
      | Inr t' \<Rightarrow> tally_from (Suc i) t' rs)"

definition tally_of :: "result list \<Rightarrow> (nat \<times> outcome_error) + tally" where
  "tally_of rs = tally_from 0 empty_tally rs"

definition tally_detected :: "tally \<Rightarrow> int" where
  "tally_detected t = Killed t + TimedOut t"

definition tally_survived :: "tally \<Rightarrow> int" where
  "tally_survived t = UnexpectedSurvivors t + ExpectedSurvivors t"

definition tally_denominator :: "tally \<Rightarrow> int" where
  "tally_denominator t = tally_detected t + UnexpectedSurvivors t"

definition tally_total :: "tally \<Rightarrow> int" where
  "tally_total t = tally_detected t + tally_survived t + Inconclusive t + Errored t + NotRun t"

record score =
  Detected :: int
  Denominator :: int

definition NoScore :: score where
  "NoScore = \<lparr>Detected = 0, Denominator = 0\<rparr>"

definition score_of :: "tally \<Rightarrow> score" where
  "score_of t = \<lparr>Detected = tally_detected t, Denominator = tally_denominator t\<rparr>"

definition score_defined :: "score \<Rightarrow> bool" where
  "score_defined s \<longleftrightarrow> Denominator s > 0"

definition percent :: "score \<Rightarrow> rat option" where
  "percent s =
     (if \<not> score_defined s then None
      else Some (float64 (float64 (float64 (of_int (Detected s)) / float64 (of_int (Denominator s))) * 100)))"

definition score_string :: "score \<Rightarrow> string" where
  "score_string s = (case percent s of None \<Rightarrow> ''n/a'' | Some p \<Rightarrow> format2 p @ ''%'')"

datatype score_error = NegativeComponents | DetectsMore

definition score_validate :: "score \<Rightarrow> score_error option" where
  "score_validate s =
     (if Detected s < 0 \<or> Denominator s < 0 then Some NegativeComponents
      else if Detected s > Denominator s then Some DetectsMore
      else None)"

section \<open>The verdict\<close>

type_synonym exit_code = int

definition ExitOK :: exit_code where "ExitOK = 0"
definition ExitPolicyFailure :: exit_code where "ExitPolicyFailure = 1"
definition ExitInfrastructure :: exit_code where "ExitInfrastructure = 2"
definition ExitInterrupted :: exit_code where "ExitInterrupted = 130"
definition ExitTerminated :: exit_code where "ExitTerminated = 143"

lemmas exit_defs = ExitOK_def ExitPolicyFailure_def ExitInfrastructure_def

record policy =
  Strict :: bool
  MinimumScore :: rat
  RequireMutants :: bool

definition default_policy :: policy where
  "default_policy = \<lparr>Strict = False, MinimumScore = 0, RequireMutants = True\<rparr>"

text \<open>True is the error: a minimum score outside 0 to 100.\<close>

definition policy_invalid :: "policy \<Rightarrow> bool" where
  "policy_invalid p \<longleftrightarrow> MinimumScore p < 0 \<or> MinimumScore p > 100"

record signals =
  InfrastructureError :: bool
  ExpectationFailure :: bool

datatype failure_reason =
    ReasonInfrastructure | ReasonErroredMutants | ReasonExpectationFailure
  | ReasonUnexpectedSurvivors | ReasonBelowMinimumScore | ReasonNoMutants

definition reason_string :: "failure_reason \<Rightarrow> string" where
  "reason_string r =
     (case r of
        ReasonInfrastructure \<Rightarrow> ''infrastructure-error''
      | ReasonErroredMutants \<Rightarrow> ''errored-mutants''
      | ReasonExpectationFailure \<Rightarrow> ''expectation-failure''
      | ReasonUnexpectedSurvivors \<Rightarrow> ''unexpected-survivors''
      | ReasonBelowMinimumScore \<Rightarrow> ''below-minimum-score''
      | ReasonNoMutants \<Rightarrow> ''no-mutants'')"

record failure =
  Reason :: failure_reason
  Detail :: string

record verdict =
  Code :: exit_code
  Failures :: "failure list"
  Score :: score

definition verdict_ok :: "verdict \<Rightarrow> bool" where
  "verdict_ok v \<longleftrightarrow> Code v = ExitOK \<and> length (Failures v) = 0"

definition verdict_reasons :: "verdict \<Rightarrow> failure_reason list" where
  "verdict_reasons v = map Reason (Failures v)"

definition verdict_has :: "verdict \<Rightarrow> failure_reason \<Rightarrow> bool" where
  "verdict_has v r \<longleftrightarrow> list_ex (\<lambda>f. Reason f = r) (Failures v)"

definition count_noun :: "int \<Rightarrow> string \<Rightarrow> string" where
  "count_noun n noun = (if n = 1 then ''1 '' @ noun else itoa n @ '' '' @ noun @ ''s'')"

definition format_percent :: "rat \<Rightarrow> string" where
  "format_percent p = format2 p @ ''%''"

text \<open>The failures \<open>Decide\<close> looks for first, and those it looks for when there are none.\<close>

definition blocking_failures :: "tally \<Rightarrow> signals \<Rightarrow> failure list" where
  "blocking_failures t s =
     (if InfrastructureError s then
        [\<lparr>Reason = ReasonInfrastructure,
          Detail = ''the run hit an infrastructure, configuration, or baseline failure''\<rparr>] else [])
   @ (if Errored t > 0 then
        [\<lparr>Reason = ReasonErroredMutants,
          Detail = count_noun (Errored t) ''mutant'' @ '' could not be executed by the harness''\<rparr>] else [])
   @ (if ExpectationFailure s then
        [\<lparr>Reason = ReasonExpectationFailure,
          Detail = ''an expectation is unfulfilled or stale''\<rparr>] else [])"

definition policy_failures :: "tally \<Rightarrow> policy \<Rightarrow> failure list" where
  "policy_failures t p =
     (if Strict p \<and> UnexpectedSurvivors t > 0 then
        [\<lparr>Reason = ReasonUnexpectedSurvivors,
          Detail = ''policy.strict is set and '' @ count_noun (UnexpectedSurvivors t) ''mutant''
            @ '' survived unexpectedly''\<rparr>] else [])
   @ (case percent (score_of t) of
        None \<Rightarrow> []
      | Some pc \<Rightarrow>
          if MinimumScore p > 0 \<and> pc < MinimumScore p then
            [\<lparr>Reason = ReasonBelowMinimumScore,
              Detail = ''score '' @ format_percent pc @ '' is below policy.minimum_score ''
                @ format_percent (MinimumScore p)\<rparr>] else [])
   @ (if RequireMutants p \<and> tally_total t = 0 then
        [\<lparr>Reason = ReasonNoMutants,
          Detail = ''policy.require_mutants is set and the run produced no mutants''\<rparr>] else [])"

definition decide :: "tally \<Rightarrow> policy \<Rightarrow> signals \<Rightarrow> verdict" where
  "decide t p s =
     (let score = score_of t; blocking = blocking_failures t s in
      if length blocking > 0 then
        \<lparr>Code = ExitInfrastructure, Failures = blocking, Score = score\<rparr>
      else
        (let failures = policy_failures t p
         in \<lparr>Code = (if length failures > 0 then ExitPolicyFailure else ExitOK),
              Failures = failures, Score = score\<rparr>))"

definition decide_results :: "result list \<Rightarrow> policy \<Rightarrow> signals \<Rightarrow> (nat \<times> outcome_error) + verdict" where
  "decide_results rs p s =
     (case tally_of rs of Inl err \<Rightarrow> Inl err | Inr t \<Rightarrow> Inr (decide t p s))"

section \<open>Names of outcomes\<close>

lemma outcome_valid_iff: "outcome_valid c \<longleftrightarrow> c \<in> set outcomes"
  by (auto simp: outcome_valid_def outcome_names_def outcomes_def outcome_defs)

lemma outcome_strings:
  "outcome_string OutcomeNotRun = ''not_run''" "outcome_string OutcomeKilled = ''killed''"
  "outcome_string OutcomeSurvived = ''survived''" "outcome_string OutcomeTimedOut = ''timed_out''"
  "outcome_string OutcomeInconclusive = ''inconclusive''" "outcome_string OutcomeErrored = ''errored''"
  by (simp_all add: outcome_string_def outcome_names_def outcome_defs)

lemma parse_outcome_string: "c \<in> set outcomes \<Longrightarrow> parse_outcome (outcome_string c) = Inr c"
  unfolding outcomes_def by (simp, elim disjE; simp add: parse_outcome_def outcomes_def outcome_strings)

text \<open>
  Names and outcomes correspond: a text parses to an outcome exactly when the outcome is
  one of the six and the text is its name; marshalling and unmarshalling are inverse, and a
  text that is no name leaves the receiver as it was.
\<close>

theorem outcome_names_roundtrip:
  "(parse_outcome s = Inr c \<longleftrightarrow> outcome_valid c \<and> outcome_string c = s)
   \<and> (marshal_text c = Inr s \<longleftrightarrow> unmarshal_text d s = (None, c))
   \<and> fst (unmarshal_text d s) \<in> {None, Some ErrUnknownOutcome}
   \<and> (fst (unmarshal_text d s) = None \<or> snd (unmarshal_text d s) = d)"
proof -
  have parse: "parse_outcome s = Inr c \<longleftrightarrow> outcome_valid c \<and> outcome_string c = s"
  proof
    assume "parse_outcome s = Inr c"
    then have "find (\<lambda>c. outcome_string c = s) outcomes = Some c"
      by (auto simp: parse_outcome_def split: option.splits)
    then show "outcome_valid c \<and> outcome_string c = s"
      unfolding outcome_valid_iff by (auto simp: find_Some_iff)
  next
    assume "outcome_valid c \<and> outcome_string c = s"
    then show "parse_outcome s = Inr c" using parse_outcome_string outcome_valid_iff by blast
  qed
  have err: "parse_outcome s = Inl e \<Longrightarrow> e = ErrUnknownOutcome" for e
    by (cases e) simp
  show ?thesis using parse err
    by (auto simp: marshal_text_def unmarshal_text_def split: sum.splits)
qed

section \<open>The tally counts\<close>

definition count_outcome :: "outcome \<Rightarrow> result list \<Rightarrow> int" where
  "count_outcome c rs = int (length (filter (\<lambda>r. Outcome r = c) rs))"

definition count_survivors :: "bool \<Rightarrow> result list \<Rightarrow> int" where
  "count_survivors expected rs =
     int (length (filter (\<lambda>r. Outcome r = OutcomeSurvived \<and> ExpectedSurvivor r = expected) rs))"

definition counts :: "tally \<Rightarrow> result list \<Rightarrow> tally \<Rightarrow> bool" where
  "counts t rs t' \<longleftrightarrow>
     Killed t' = Killed t + count_outcome OutcomeKilled rs
     \<and> TimedOut t' = TimedOut t + count_outcome OutcomeTimedOut rs
     \<and> UnexpectedSurvivors t' = UnexpectedSurvivors t + count_survivors False rs
     \<and> ExpectedSurvivors t' = ExpectedSurvivors t + count_survivors True rs
     \<and> Inconclusive t' = Inconclusive t + count_outcome OutcomeInconclusive rs
     \<and> Errored t' = Errored t + count_outcome OutcomeErrored rs
     \<and> NotRun t' = NotRun t + count_outcome OutcomeNotRun rs"

lemma tally_record_fields:
  assumes "tally_record t r = Inr t'"
  shows "Killed t' = Killed t + (if Outcome r = OutcomeKilled then 1 else 0)"
    and "TimedOut t' = TimedOut t + (if Outcome r = OutcomeTimedOut then 1 else 0)"
    and "UnexpectedSurvivors t' = UnexpectedSurvivors t
      + (if Outcome r = OutcomeSurvived \<and> \<not> ExpectedSurvivor r then 1 else 0)"
    and "ExpectedSurvivors t' = ExpectedSurvivors t
      + (if Outcome r = OutcomeSurvived \<and> ExpectedSurvivor r then 1 else 0)"
    and "Inconclusive t' = Inconclusive t + (if Outcome r = OutcomeInconclusive then 1 else 0)"
    and "Errored t' = Errored t + (if Outcome r = OutcomeErrored then 1 else 0)"
    and "NotRun t' = NotRun t + (if Outcome r = OutcomeNotRun then 1 else 0)"
  using assms unfolding tally_record_def outcome_defs by (simp_all split: if_split_asm, safe, simp_all)

lemma tally_record_counts: "tally_record t r = Inr t' \<Longrightarrow> counts t [r] t'"
  by (simp add: tally_record_fields counts_def count_outcome_def count_survivors_def)

lemma tally_record_valid:
  "tally_record t r = Inl err \<Longrightarrow> \<not> outcome_valid (Outcome r)"
  "tally_record t r = Inr t' \<Longrightarrow> outcome_valid (Outcome r)"
proof -
  have "isl (tally_record t r) \<longleftrightarrow> Outcome r \<notin> set outcomes"
    unfolding outcomes_def tally_record_def by simp
  then show "tally_record t r = Inl err \<Longrightarrow> \<not> outcome_valid (Outcome r)"
    and "tally_record t r = Inr t' \<Longrightarrow> outcome_valid (Outcome r)"
    by (auto simp: outcome_valid_iff)
qed

lemma count_Cons:
  "count_outcome c (r # rs) = count_outcome c [r] + count_outcome c rs"
  "count_survivors b (r # rs) = count_survivors b [r] + count_survivors b rs"
  by (simp_all add: count_outcome_def count_survivors_def)

lemma counts_trans: "counts t [r] u \<Longrightarrow> counts u rs v \<Longrightarrow> counts t (r # rs) v"
  unfolding counts_def count_Cons [of _ r rs] by linarith

lemma tally_from_Inr:
  "tally_from i t rs = Inr t' \<Longrightarrow> list_all (outcome_valid \<circ> Outcome) rs \<and> counts t rs t'"
proof (induction rs arbitrary: i t)
  case Nil
  then show ?case by (simp add: counts_def count_outcome_def count_survivors_def)
next
  case (Cons r rs)
  then obtain u where u: "tally_record t r = Inr u" "tally_from (Suc i) u rs = Inr t'"
    by (auto split: sum.splits)
  from Cons.IH [OF u(2)] tally_record_valid(2) [OF u(1)] tally_record_counts [OF u(1)]
  show ?case by (auto intro: counts_trans)
qed

lemma tally_from_Inl:
  "tally_from i t rs = Inl (j, err) \<Longrightarrow>
     i \<le> j \<and> j - i < length rs \<and> \<not> outcome_valid (Outcome (rs ! (j - i)))
     \<and> list_all (outcome_valid \<circ> Outcome) (take (j - i) rs)"
proof (induction rs arbitrary: i t)
  case Nil
  then show ?case by simp
next
  case (Cons r rs)
  show ?case
  proof (cases "tally_record t r")
    case (Inl e)
    with Cons.prems tally_record_valid(1) [OF Inl] show ?thesis by auto
  next
    case (Inr u)
    with Cons.prems have "tally_from (Suc i) u rs = Inl (j, err)" by simp
    from Cons.IH [OF this] tally_record_valid(2) [OF Inr] show ?thesis
      by (cases "j - i") (auto simp: Suc_diff_Suc diff_Suc split: nat.splits)
  qed
qed

lemma count_total:
  "list_all (outcome_valid \<circ> Outcome) rs \<Longrightarrow>
     count_outcome OutcomeKilled rs + count_outcome OutcomeTimedOut rs + count_survivors False rs
     + count_survivors True rs + count_outcome OutcomeInconclusive rs
     + count_outcome OutcomeErrored rs + count_outcome OutcomeNotRun rs = int (length rs)"
proof (induction rs)
  case Nil
  then show ?case by (simp add: count_outcome_def count_survivors_def)
next
  case (Cons r rs)
  then have "Outcome r \<in> set outcomes" by (simp add: outcome_valid_iff)
  with Cons show ?case
    by (auto simp: outcomes_def count_outcome_def count_survivors_def outcome_defs)
qed

lemma tally_of_Inr:
  "tally_of rs = Inr t \<Longrightarrow> list_all (outcome_valid \<circ> Outcome) rs"
  "tally_of rs = Inr t \<Longrightarrow> counts empty_tally rs t"
  using tally_from_Inr [of 0 empty_tally rs t] by (simp_all add: tally_of_def)

text \<open>
  A tally counts every result once: when \<open>TallyOf\<close> succeeds, each field is the number of
  results of its kind and the total is the number of results; when it fails, it names the
  first result whose outcome is none of the six.
\<close>

theorem tally_of_counts:
  "(case tally_of rs of
      Inr t \<Rightarrow> list_all (outcome_valid \<circ> Outcome) rs \<and> counts empty_tally rs t
        \<and> tally_total t = int (length rs)
    | Inl (i, err) \<Rightarrow> i < length rs \<and> \<not> outcome_valid (Outcome (rs ! i))
        \<and> list_all (outcome_valid \<circ> Outcome) (take i rs))"
proof (cases "tally_of rs")
  case (Inl e)
  obtain i err where e: "e = (i, err)" by fastforce
  then show ?thesis using Inl tally_from_Inl [of 0 empty_tally rs i err] by (simp add: tally_of_def)
next
  case (Inr t)
  then have t: "list_all (outcome_valid \<circ> Outcome) rs" "counts empty_tally rs t"
    by (rule tally_of_Inr)+
  with count_total [OF t(1)] Inr show ?thesis
    by (simp add: counts_def tally_total_def tally_detected_def tally_survived_def empty_tally_def)
qed

lemma percent_bounds:
  assumes "0 \<le> Detected s" and "Detected s \<le> Denominator s" and "percent s = Some p"
  shows "0 \<le> p \<and> p \<le> 100"
proof -
  let ?d = "float64 (of_int (Detected s))" and ?n = "float64 (of_int (Denominator s))"
  have den: "1 \<le> Denominator s" and p: "p = float64 (float64 (?d / ?n) * 100)"
    using assms(3) by (auto simp: percent_def score_defined_def split: if_splits)
  have "float64 1 \<le> ?n" using den by (intro float64_mono) auto
  then have n: "1 \<le> ?n" by simp
  have d: "0 \<le> ?d" "?d \<le> ?n" using assms(1,2) by (auto intro: float64_nonneg float64_mono)
  have q: "0 \<le> ?d / ?n" "?d / ?n \<le> 1" using d n by (simp_all add: divide_le_eq)
  have "0 \<le> float64 (?d / ?n)" "float64 (?d / ?n) \<le> 1"
    using float64_nonneg [OF q(1)] float64_mono [OF q] by simp_all
  then have "0 \<le> float64 (?d / ?n) * 100" "float64 (?d / ?n) * 100 \<le> 100" by auto
  from float64_nonneg [OF this(1)] float64_mono [OF this]
  show ?thesis unfolding p by simp
qed


section \<open>What the exit code says\<close>

definition below_minimum :: "tally \<Rightarrow> policy \<Rightarrow> bool" where
  "below_minimum t p \<longleftrightarrow>
     (case percent (score_of t) of None \<Rightarrow> False | Some pc \<Rightarrow> MinimumScore p > 0 \<and> pc < MinimumScore p)"

text \<open>
  C31. The exit code is decided in order: 2 for an infrastructure error, an errored mutant or
  a failed expectation, whatever the policy says; otherwise 1 for an unexpected survivor
  under a strict policy, a defined score below the minimum, or a run without mutants that
  the policy requires; otherwise 0. The verdict is OK exactly then, and it has the reason of
  a failure exactly when its condition holds. The minimum score and the required mutants decide
  without \<open>Strict\<close>, as the package's tests and \<open>docs/development.md\<close> have it;
  \<open>docs/configuration.md\<close> calls the minimum the percentage that \<open>strict\<close> compares against, and leaves
  the required mutants out of the settings that decide an exit status, which the code does not follow.
\<close>

theorem decide_exit_code:
  "let v = decide t p s;
       blocked = (InfrastructureError s \<or> Errored t > 0 \<or> ExpectationFailure s);
       survived = (Strict p \<and> UnexpectedSurvivors t > 0);
       empty = (RequireMutants p \<and> tally_total t = 0)
   in Code v = (if blocked then ExitInfrastructure
                else if survived \<or> below_minimum t p \<or> empty then ExitPolicyFailure else ExitOK)
      \<and> (verdict_ok v \<longleftrightarrow> \<not> blocked \<and> \<not> survived \<and> \<not> below_minimum t p \<and> \<not> empty)
      \<and> (verdict_has v ReasonInfrastructure \<longleftrightarrow> InfrastructureError s)
      \<and> (verdict_has v ReasonErroredMutants \<longleftrightarrow> Errored t > 0)
      \<and> (verdict_has v ReasonExpectationFailure \<longleftrightarrow> ExpectationFailure s)
      \<and> (verdict_has v ReasonUnexpectedSurvivors \<longleftrightarrow> \<not> blocked \<and> survived)
      \<and> (verdict_has v ReasonBelowMinimumScore \<longleftrightarrow> \<not> blocked \<and> below_minimum t p)
      \<and> (verdict_has v ReasonNoMutants \<longleftrightarrow> \<not> blocked \<and> empty)"
proof -
  have codes: "ExitInfrastructure \<noteq> ExitOK" "ExitPolicyFailure \<noteq> ExitOK"
    by (simp_all add: exit_defs)
  show ?thesis
    by (cases "percent (score_of t)")
      (auto simp: Let_def decide_def blocking_failures_def policy_failures_def verdict_ok_def
        verdict_has_def below_minimum_def codes)
qed

end
