(* ===== verification/Rules.thy ===== *)
theory Rules
  imports Outcomes
begin

text \<open>
  Operator rules, their families and tiers, and the registry that indexes them
  (\<open>rule.go\<close> of \<open>internal/mutation\<close>). A rule's position in the registry is the order in
  which the catalog sorts and deduplicates mutants, so the indexes of the registry must agree
  with its list. The locale \<open>rule_registry\<close> states what its clients rely on.
\<close>

section \<open>Tiers, families, rules\<close>

type_synonym tier = u8

definition TierBalanced :: tier where "TierBalanced = 0"
definition TierStrong :: tier where "TierStrong = 1"
definition TierAll :: tier where "TierAll = 2"

lemmas tier_defs = TierBalanced_def TierStrong_def TierAll_def

definition tier_string :: "tier \<Rightarrow> string" where
  "tier_string t =
     (if t = TierBalanced then ''balanced''
      else if t = TierStrong then ''strong''
      else if t = TierAll then ''all''
      else ''tier('' @ itoa (uint t) @ '')'')"

definition tier_valid :: "tier \<Rightarrow> bool" where
  "tier_valid t \<longleftrightarrow> t \<le> TierAll"

definition tier_includes :: "tier \<Rightarrow> tier \<Rightarrow> bool" where
  "tier_includes t other \<longleftrightarrow> other \<le> t"

definition tiers :: "tier list" where
  "tiers = [TierBalanced, TierStrong, TierAll]"

type_synonym family = string

record rule =
  Family :: family
  Name :: string
  Version :: int
  Tier :: tier

datatype rule_error =
    ErrInvalidRuleName string
  | ErrInvalidRuleVersion string int
  | ErrUnknownTier
  | ErrDuplicateRule string nat nat
  | ErrFamilyTierConflict family tier tier
  | ErrFamilySplit family nat
  | ErrUnknownRule string
  | ErrRuleMismatch rule rule

definition parse_tier :: "string \<Rightarrow> rule_error + tier" where
  "parse_tier s =
     (case find (\<lambda>t. tier_string t = s) tiers of Some t \<Rightarrow> Inr t | None \<Rightarrow> Inl ErrUnknownTier)"

definition rule_string :: "rule \<Rightarrow> string" where
  "rule_string r = Name r @ ''@'' @ itoa (Version r)"

definition rule_validate :: "rule \<Rightarrow> rule_error option" where
  "rule_validate r =
     (if Family r = [] then Some (ErrInvalidRuleName (Name r))
      else if Name r = [] then Some (ErrInvalidRuleName [])
      else if Version r < 1 then Some (ErrInvalidRuleVersion (Name r) (Version r))
      else if \<not> tier_valid (Tier r) then Some ErrUnknownTier
      else None)"

section \<open>The registry\<close>

record registry =
  reg_rules :: "rule list"
  families :: "family list"
  familyTier :: "family \<rightharpoonup> tier"
  ruleIndex :: "string \<rightharpoonup> nat"
  familyIndex :: "family \<rightharpoonup> nat"
  familyRules :: "family \<Rightarrow> rule list"

definition empty_registry :: "rule list \<Rightarrow> registry" where
  "empty_registry rs = \<lparr>reg_rules = rs, families = [], familyTier = Map.empty,
     ruleIndex = Map.empty, familyIndex = Map.empty, familyRules = (\<lambda>_. [])\<rparr>"

text \<open>One turn of the loop of \<open>NewRegistry\<close>, at position \<open>i\<close>.\<close>

definition add_rule :: "registry \<Rightarrow> nat \<Rightarrow> rule \<Rightarrow> rule_error + registry" where
  "add_rule r i rule =
     (case rule_validate rule of
        Some err \<Rightarrow> Inl err
      | None \<Rightarrow>
          (case ruleIndex r (Name rule) of
             Some prev \<Rightarrow> Inl (ErrDuplicateRule (Name rule) prev i)
           | None \<Rightarrow>
               (let r = r\<lparr>ruleIndex := (ruleIndex r)(Name rule \<mapsto> i)\<rparr> in
                case (case familyTier r (Family rule) of
                        Some tier \<Rightarrow>
                          if tier \<noteq> Tier rule then Inl (ErrFamilyTierConflict (Family rule) tier (Tier rule))
                          else if i = 0 \<or> Family (reg_rules r ! (i - 1)) \<noteq> Family rule
                          then Inl (ErrFamilySplit (Family rule) i)
                          else Inr r
                      | None \<Rightarrow>
                          Inr (r\<lparr>familyTier := (familyTier r)(Family rule \<mapsto> Tier rule),
                                 familyIndex := (familyIndex r)(Family rule \<mapsto> length (families r)),
                                 families := families r @ [Family rule]\<rparr>)) of
                  Inl err \<Rightarrow> Inl err
                | Inr r \<Rightarrow>
                    Inr (r\<lparr>familyRules :=
                      (familyRules r)(Family rule := familyRules r (Family rule) @ [rule])\<rparr>))))"

fun add_rules :: "registry \<Rightarrow> nat \<Rightarrow> rule list \<Rightarrow> rule_error + registry" where
  "add_rules r i [] = Inr r"
| "add_rules r i (rule # rs) =
     (case add_rule r i rule of Inl err \<Rightarrow> Inl err | Inr r' \<Rightarrow> add_rules r' (Suc i) rs)"

definition new_registry :: "rule list \<Rightarrow> rule_error + registry" where
  "new_registry rs = add_rules (empty_registry rs) 0 rs"

definition registry_len :: "registry \<Rightarrow> nat" where
  "registry_len r = length (reg_rules r)"

definition lookup :: "registry \<Rightarrow> string \<Rightarrow> rule option" where
  "lookup r name = (case ruleIndex r name of None \<Rightarrow> None | Some i \<Rightarrow> Some (reg_rules r ! i))"

definition position :: "registry \<Rightarrow> string \<Rightarrow> nat option" where
  "position r name = ruleIndex r name"

definition family_position :: "registry \<Rightarrow> family \<Rightarrow> nat option" where
  "family_position r f = familyIndex r f"

definition family_rules :: "registry \<Rightarrow> family \<Rightarrow> rule list" where
  "family_rules r f = familyRules r f"

definition select_tier :: "registry \<Rightarrow> tier \<Rightarrow> rule list" where
  "select_tier r t = filter (\<lambda>rule. tier_includes t (Tier rule)) (reg_rules r)"

definition verify_rule :: "registry \<Rightarrow> rule \<Rightarrow> rule_error option" where
  "verify_rule r rule =
     (case lookup r (Name rule) of
        None \<Rightarrow> Some (ErrUnknownRule (Name rule))
      | Some registered \<Rightarrow> if registered \<noteq> rule then Some (ErrRuleMismatch rule registered) else None)"

section \<open>The canonical table\<close>

record family_def =
  def_family :: family
  def_tier :: tier
  def_rules :: "string list"

abbreviation family_row :: "string \<Rightarrow> tier \<Rightarrow> string list \<Rightarrow> family_def" where
  "family_row f t rs \<equiv> \<lparr>def_family = f, def_tier = t, def_rules = rs\<rparr>"

definition canonical_table :: "family_def list" where
  "canonical_table =
     [family_row ''boolean-literal'' TierBalanced [''true-to-false'', ''false-to-true''],
      family_row ''condition-negation'' TierBalanced
        [''negate-condition'', ''negate-loop-condition'', ''remove-negation''],
      family_row ''boolean-connective'' TierBalanced [''and-to-or'', ''or-to-and''],
      family_row ''comparison'' TierBalanced
        [''eq-to-neq'', ''neq-to-eq'', ''lt-to-le'', ''le-to-lt'', ''gt-to-ge'', ''ge-to-gt''],
      family_row ''integer-arithmetic'' TierBalanced
        [''add-to-sub'', ''sub-to-add'', ''mul-to-div'', ''div-to-mul'', ''rem-to-mul''],
      family_row ''float-arithmetic'' TierBalanced
        [''fadd-to-fsub'', ''fsub-to-fadd'', ''fmul-to-fdiv'', ''fdiv-to-fmul''],
      family_row ''return-replacement'' TierBalanced
        [''return-zero-numeric'', ''return-empty-string'', ''return-true'', ''return-false'', ''return-nil''],
      family_row ''error-swallowing'' TierBalanced [''return-err-to-nil'', ''nil-error-branch''],
      family_row ''neutral-value'' TierStrong [''return-empty-slice'', ''return-empty-map''],
      family_row ''branch-replacement'' TierStrong
        [''condition-to-true'', ''condition-to-false'', ''loop-condition-to-false''],
      family_row ''bitwise'' TierStrong
        [''band-to-bor'', ''bor-to-band'', ''xor-to-band'', ''shl-to-shr'', ''shr-to-shl'', ''andnot-to-band''],
      family_row ''arithmetic-assignment'' TierStrong
        [''add-assign-to-sub-assign'', ''sub-assign-to-add-assign'', ''incr-to-decr'', ''decr-to-incr''],
      family_row ''labeled-branch'' TierAll [''drop-break-label'', ''drop-continue-label''],
      family_row ''statement-deletion'' TierAll
        [''delete-call-statement'', ''delete-assignment'', ''delete-incdec'']]"

definition CanonicalFamilyCount :: nat where "CanonicalFamilyCount = 14"
definition CanonicalRuleCount :: nat where "CanonicalRuleCount = 49"

definition table_rules :: "family_def list \<Rightarrow> rule list" where
  "table_rules table =
     concat (map (\<lambda>def. map (\<lambda>name. \<lparr>Family = def_family def, Name = name, Version = 1,
       Tier = def_tier def\<rparr>) (def_rules def)) table)"

text \<open>An error here is the panic of \<open>mustRegistry\<close>.\<close>

definition must_registry :: "family_def list \<Rightarrow> rule_error + registry" where
  "must_registry table = new_registry (table_rules table)"

definition canonical_registry :: registry where
  "canonical_registry =
     (case must_registry canonical_table of Inr r \<Rightarrow> r | Inl _ \<Rightarrow> empty_registry [])"

section \<open>What a table must satisfy\<close>

definition tiers_agree :: "rule list \<Rightarrow> bool" where
  "tiers_agree rs \<longleftrightarrow>
     list_all (\<lambda>a. list_all (\<lambda>b. Family a \<noteq> Family b \<or> Tier a = Tier b) rs) rs"

definition table_ok :: "rule list \<Rightarrow> bool" where
  "table_ok rs \<longleftrightarrow> list_all (\<lambda>r. rule_validate r = None) rs \<and> distinct (map Name rs)
     \<and> tiers_agree rs \<and> distinct (remdups_adj (map Family rs))"

text \<open>The contract of a registry, over the operations its clients call.\<close>

locale rule_registry =
  fixes all_rules :: "rule list"
    and look :: "string \<Rightarrow> rule option"
    and pos :: "string \<Rightarrow> nat option"
    and fams :: "family list"
    and fam_pos :: "family \<Rightarrow> nat option"
    and fam_rules :: "family \<Rightarrow> rule list"
  assumes rules_ok: "table_ok all_rules"
    and pos_iff: "pos n = Some i \<longleftrightarrow> i < length all_rules \<and> Name (all_rules ! i) = n"
    and look_iff: "look n = Some r \<longleftrightarrow> r \<in> set all_rules \<and> Name r = n"
    and fam_pos_iff: "fam_pos f = Some k \<longleftrightarrow> k < length fams \<and> fams ! k = f"
    and fam_rules_filter: "fam_rules f = filter (\<lambda>r. Family r = f) all_rules"
    and fams_blocks: "fams = remdups_adj (map Family all_rules)"

context rule_registry
begin

lemma pos_inject: "pos a = Some i \<Longrightarrow> pos b = Some i \<Longrightarrow> a = b"
  by (simp add: pos_iff)

lemma look_pos: "look n = None \<longleftrightarrow> pos n = None"
proof -
  have "(\<exists>r. look n = Some r) \<longleftrightarrow> (\<exists>i. pos n = Some i)"
    unfolding look_iff pos_iff by (metis in_set_conv_nth)
  then show ?thesis by (metis not_None_eq)
qed

lemma look_Some_pos: "look n = Some r \<Longrightarrow> \<exists>i. pos n = Some i \<and> i < length all_rules \<and> all_rules ! i = r"
  by (metis in_set_conv_nth look_iff pos_iff)

lemma fam_pos_Some: "(\<exists>k. fam_pos f = Some k) \<longleftrightarrow> f \<in> Family ` set all_rules"
proof -
  have "(\<exists>k. fam_pos f = Some k) \<longleftrightarrow> f \<in> set fams"
    unfolding fam_pos_iff by (metis in_set_conv_nth)
  then show ?thesis by (simp add: fams_blocks)
qed

lemma fam_pos_inject: "fam_pos f = Some k \<Longrightarrow> fam_pos g = Some k \<Longrightarrow> f = g"
  by (simp add: fam_pos_iff)

end

section \<open>The registry keeps the contract\<close>

definition reg_inv :: "registry \<Rightarrow> rule list \<Rightarrow> bool" where
  "reg_inv r xs \<longleftrightarrow>
     (\<forall>n j. ruleIndex r n = Some j \<longleftrightarrow> j < length xs \<and> Name (xs ! j) = n)
     \<and> (\<forall>f t. familyTier r f = Some t \<longleftrightarrow> (\<exists>a \<in> set xs. Family a = f \<and> Tier a = t))
     \<and> (\<forall>f k. familyIndex r f = Some k \<longleftrightarrow> k < length (families r) \<and> families r ! k = f)
     \<and> families r = remdups_adj (map Family xs)
     \<and> (\<forall>f. familyRules r f = filter (\<lambda>a. Family a = f) xs)
     \<and> list_all (\<lambda>a. rule_validate a = None) xs"

lemma reg_invI:
  assumes "\<And>n j. ruleIndex r n = Some j \<longleftrightarrow> j < length xs \<and> Name (xs ! j) = n"
    and "\<And>f t. familyTier r f = Some t \<longleftrightarrow> (\<exists>a \<in> set xs. Family a = f \<and> Tier a = t)"
    and "\<And>f k. familyIndex r f = Some k \<longleftrightarrow> k < length (families r) \<and> families r ! k = f"
    and "families r = remdups_adj (map Family xs)"
    and "\<And>f. familyRules r f = filter (\<lambda>a. Family a = f) xs"
    and "list_all (\<lambda>a. rule_validate a = None) xs"
  shows "reg_inv r xs"
  using assms unfolding reg_inv_def by blast

lemma remdups_adj_snoc:
  "remdups_adj (xs @ [y]) = (if xs \<noteq> [] \<and> last xs = y then remdups_adj xs else remdups_adj xs @ [y])"
  by (cases xs rule: rev_cases) (auto simp: remdups_adj_append_two)

lemma reg_inv_names: assumes "reg_inv r xs" shows "distinct (map Name xs)"
proof -
  have "Name (xs ! i) = Name (xs ! j) \<Longrightarrow> i = j" if "i < length xs" "j < length xs" for i j
    using assms that unfolding reg_inv_def by (metis option.inject)
  then show ?thesis by (auto simp: distinct_conv_nth)
qed

lemma reg_inv_tiers: "reg_inv r xs \<Longrightarrow> tiers_agree xs"
  unfolding reg_inv_def tiers_agree_def list_all_iff by (metis option.inject)

lemma reg_inv_families: assumes "reg_inv r xs" shows "distinct (families r)"
  using assms unfolding reg_inv_def distinct_conv_nth by (metis option.inject)

lemma reg_inv_table: "reg_inv r xs \<Longrightarrow> table_ok xs"
  using reg_inv_names [of r xs] reg_inv_tiers [of r xs] reg_inv_families [of r xs]
  by (simp add: table_ok_def reg_inv_def)

lemma tiers_agreeD:
  "tiers_agree rs \<Longrightarrow> a \<in> set rs \<Longrightarrow> b \<in> set rs \<Longrightarrow> Family a = Family b \<Longrightarrow> Tier a = Tier b"
  unfolding tiers_agree_def list_all_iff by blast

lemma tiers_agree_append: "tiers_agree (xs @ ys) \<Longrightarrow> tiers_agree xs"
  by (simp add: tiers_agree_def list_all_iff)

lemma distinct_blocks_append:
  "distinct (remdups_adj (xs @ ys)) \<Longrightarrow> distinct (remdups_adj xs)"
proof (induction ys rule: rev_induct)
  case (snoc y ys)
  then show ?case unfolding append_assoc [symmetric]
    by (auto simp only: remdups_adj_snoc distinct_append split: if_split_asm)
qed simp

lemma table_ok_append: "table_ok (xs @ ys) \<Longrightarrow> table_ok xs"
  by (auto simp: table_ok_def dest: tiers_agree_append distinct_blocks_append)

lemma add_rule_Inl:
  assumes inv: "reg_inv r xs" and last: "xs \<noteq> [] \<Longrightarrow> reg_rules r ! (length xs - 1) = last xs"
    and err: "add_rule r (length xs) a = Inl e"
  shows "\<not> table_ok (xs @ [a])"
proof
  assume ok: "table_ok (xs @ [a])"
  have valid: "rule_validate a = None" and new: "Name a \<notin> Name ` set xs"
    using ok by (auto simp: table_ok_def)
  have "ruleIndex r (Name a) \<noteq> Some j" for j
  proof
    assume "ruleIndex r (Name a) = Some j"
    then have "j < length xs" "Name (xs ! j) = Name a" using inv by (auto simp: reg_inv_def)
    with new show False by (metis imageI nth_mem)
  qed
  then have fresh: "ruleIndex r (Name a) = None" by (cases "ruleIndex r (Name a)") auto
  have "familyTier r (Family a) \<noteq> None"
    using valid fresh err by (cases "familyTier r (Family a)") (auto simp: add_rule_def Let_def)
  then obtain t where t: "familyTier r (Family a) = Some t" by blast
  then obtain b where b: "b \<in> set xs" "Family b = Family a" "Tier b = t"
    using inv unfolding reg_inv_def by blast
  have "tiers_agree (xs @ [a])" using ok by (simp only: table_ok_def)
  from tiers_agreeD [OF this, of b a] b have tier: "t = Tier a" by simp
  have ne: "xs \<noteq> []" using b by auto
  have "Family (last xs) = Family a"
  proof (rule ccontr)
    assume "Family (last xs) \<noteq> Family a"
    then have "remdups_adj (map Family (xs @ [a])) = remdups_adj (map Family xs) @ [Family a]"
      using ne by (simp add: remdups_adj_snoc last_map)
    moreover have "Family a \<in> set (remdups_adj (map Family xs))"
      unfolding remdups_adj_set set_map using b by (metis image_eqI)
    moreover have "distinct (remdups_adj (map Family (xs @ [a])))"
      using ok by (simp only: table_ok_def)
    ultimately show False by simp
  qed
  with err valid fresh t tier ne last show False
    by (simp add: add_rule_def)
qed

lemma add_rule_Inr:
  assumes inv: "reg_inv r xs" and last: "xs \<noteq> [] \<Longrightarrow> reg_rules r ! (length xs - 1) = last xs"
    and ok: "add_rule r (length xs) a = Inr r'"
  shows "reg_inv r' (xs @ [a]) \<and> reg_rules r' = reg_rules r"
proof -
  have valid: "rule_validate a = None" and fresh: "ruleIndex r (Name a) = None"
    using ok by (auto simp: add_rule_def split: option.splits)
  have inv': "\<And>n j. ruleIndex r n = Some j \<longleftrightarrow> j < length xs \<and> Name (xs ! j) = n"
      "\<And>f t. familyTier r f = Some t \<longleftrightarrow> (\<exists>a \<in> set xs. Family a = f \<and> Tier a = t)"
      "\<And>f k. familyIndex r f = Some k \<longleftrightarrow> k < length (families r) \<and> families r ! k = f"
    and fams: "families r = remdups_adj (map Family xs)"
    and frules: "\<And>f. familyRules r f = filter (\<lambda>a. Family a = f) xs"
    and all: "list_all (\<lambda>a. rule_validate a = None) xs"
    using inv unfolding reg_inv_def by blast+
  have names: "Name (xs ! j) \<noteq> Name a" if "j < length xs" for j
    using inv'(1) [of "Name a" j] fresh that by simp
  have idx: "((ruleIndex r)(Name a \<mapsto> length xs)) n = Some j
      \<longleftrightarrow> j < length (xs @ [a]) \<and> Name ((xs @ [a]) ! j) = n" for n j
    using inv'(1) [of n j] names [of j] by (auto simp: nth_append less_Suc_eq)
  have frules': "((familyRules r)(Family a := familyRules r (Family a) @ [a])) f
      = filter (\<lambda>b. Family b = f) (xs @ [a])" for f
    by (simp add: frules)
  have all': "list_all (\<lambda>a. rule_validate a = None) (xs @ [a])"
    using all valid by simp
  show ?thesis
  proof (cases "familyTier r (Family a)")
    case None
    have no: "Family b \<noteq> Family a" if "b \<in> set xs" for b
    proof
      assume "Family b = Family a"
      then have "familyTier r (Family a) = Some (Tier b)" using inv'(2) that by blast
      with None show False by simp
    qed
    then have fresh': "Family a \<notin> Family ` set xs" by (metis image_iff)
    then have new: "Family a \<notin> set (families r)" by (simp add: fams)
    have fams': "families r @ [Family a] = remdups_adj (map Family (xs @ [a]))"
    proof -
      have "\<not> (xs \<noteq> [] \<and> Family (last xs) = Family a)" using no [OF last_in_set] by blast
      then show ?thesis by (auto simp: fams remdups_adj_snoc last_map)
    qed
    have tiers: "((familyTier r)(Family a \<mapsto> Tier a)) f = Some t
        \<longleftrightarrow> (\<exists>b \<in> set (xs @ [a]). Family b = f \<and> Tier b = t)" for f t
      using inv'(2) [of f t] no by (cases "f = Family a") auto
    have away: "families r ! k \<noteq> Family a" if "k < length (families r)" for k
      using new that by (metis nth_mem)
    have fidx: "((familyIndex r)(Family a \<mapsto> length (families r))) f = Some k
        \<longleftrightarrow> k < length (families r @ [Family a]) \<and> (families r @ [Family a]) ! k = f" for f k
      using inv'(3) [of f k] away [of k] by (auto simp: nth_append less_Suc_eq)
    have r': "r' = r\<lparr>ruleIndex := (ruleIndex r)(Name a \<mapsto> length xs),
        familyTier := (familyTier r)(Family a \<mapsto> Tier a),
        familyIndex := (familyIndex r)(Family a \<mapsto> length (families r)),
        families := families r @ [Family a],
        familyRules := (familyRules r)(Family a := familyRules r (Family a) @ [a])\<rparr>"
      using ok valid fresh None by (simp add: add_rule_def)
    have fields: "ruleIndex r' = (ruleIndex r)(Name a \<mapsto> length xs)"
        "familyTier r' = (familyTier r)(Family a \<mapsto> Tier a)"
        "familyIndex r' = (familyIndex r)(Family a \<mapsto> length (families r))"
        "families r' = families r @ [Family a]"
        "familyRules r' = (familyRules r)(Family a := familyRules r (Family a) @ [a])"
      by (simp_all add: r')
    have "reg_inv r' (xs @ [a])"
      by (rule reg_invI, unfold fields) (rule idx tiers fidx fams' frules' all')+
    then show ?thesis by (simp add: r')
  next
    case (Some t)
    then have t: "t = Tier a" and ne: "xs \<noteq> []" and lst: "Family (last xs) = Family a"
      using ok valid fresh last by (auto simp: add_rule_def Let_def split: if_split_asm)
    have r': "r' = r\<lparr>ruleIndex := (ruleIndex r)(Name a \<mapsto> length xs),
        familyRules := (familyRules r)(Family a := familyRules r (Family a) @ [a])\<rparr>"
      using ok valid fresh Some by (auto simp: add_rule_def Let_def split: if_split_asm)
    have tiers: "familyTier r f = Some u \<longleftrightarrow> (\<exists>b \<in> set (xs @ [a]). Family b = f \<and> Tier b = u)" for f u
      using inv'(2) [of f u] inv'(2) [of "Family a" t] Some t by auto
    have fams': "families r = remdups_adj (map Family (xs @ [a]))"
      using ne lst by (simp add: fams remdups_adj_snoc last_map)
    have fields: "ruleIndex r' = (ruleIndex r)(Name a \<mapsto> length xs)"
        "familyTier r' = familyTier r" "familyIndex r' = familyIndex r" "families r' = families r"
        "familyRules r' = (familyRules r)(Family a := familyRules r (Family a) @ [a])"
      by (simp_all add: r')
    have "reg_inv r' (xs @ [a])"
      by (rule reg_invI, unfold fields) (rule idx tiers inv'(3) fams' frules' all')+
    then show ?thesis by (simp add: r')
  qed
qed

lemma add_rules_spec:
  assumes "reg_inv r xs" and "reg_rules r = xs @ ys"
  shows "(case add_rules r (length xs) ys of
            Inl e \<Rightarrow> \<not> table_ok (xs @ ys)
          | Inr r' \<Rightarrow> reg_inv r' (xs @ ys) \<and> reg_rules r' = xs @ ys)"
  using assms
proof (induction ys arbitrary: r xs)
  case Nil
  then show ?case by simp
next
  case (Cons a ys)
  have last: "xs \<noteq> [] \<Longrightarrow> reg_rules r ! (length xs - 1) = last xs"
    using Cons.prems(2) by (simp add: nth_append last_conv_nth)
  show ?case
  proof (cases "add_rule r (length xs) a")
    case (Inl e)
    have "\<not> table_ok (xs @ [a])" by (rule add_rule_Inl [OF Cons.prems(1) last Inl])
    then show ?thesis using Inl table_ok_append [of "xs @ [a]" ys] by auto
  next
    case (Inr r')
    from add_rule_Inr [OF Cons.prems(1) last Inr]
    have "reg_inv r' (xs @ [a])" "reg_rules r' = (xs @ [a]) @ ys" using Cons.prems(2) by auto
    from Cons.IH [OF this] show ?thesis using Inr by (simp split: sum.splits)
  qed
qed

lemma reg_inv_empty: "reg_inv (empty_registry rs) []"
  by (simp add: reg_inv_def empty_registry_def)

lemma new_registry_spec:
  "(case new_registry rs of Inl e \<Rightarrow> \<not> table_ok rs | Inr r \<Rightarrow> reg_inv r rs \<and> reg_rules r = rs)"
  using add_rules_spec [OF reg_inv_empty, of rs rs]
  by (simp add: new_registry_def empty_registry_def split: sum.splits)

lemma lookup_iff:
  assumes "reg_inv r (reg_rules r)"
  shows "lookup r n = Some a \<longleftrightarrow> a \<in> set (reg_rules r) \<and> Name a = n"
proof
  assume "lookup r n = Some a"
  then obtain i where "ruleIndex r n = Some i" "a = reg_rules r ! i"
    by (auto simp: lookup_def split: option.splits)
  then show "a \<in> set (reg_rules r) \<and> Name a = n" using assms by (auto simp: reg_inv_def)
next
  assume "a \<in> set (reg_rules r) \<and> Name a = n"
  then obtain i where i: "i < length (reg_rules r)" "reg_rules r ! i = a" "Name a = n"
    by (auto simp: in_set_conv_nth)
  then have "ruleIndex r n = Some i" using assms by (auto simp: reg_inv_def)
  then show "lookup r n = Some a" using i by (simp add: lookup_def)
qed

lemma registry_contract:
  assumes "reg_inv r (reg_rules r)"
  shows "rule_registry (reg_rules r) (lookup r) (position r) (families r) (family_position r) (family_rules r)"
proof
  show "table_ok (reg_rules r)" by (rule reg_inv_table [OF assms])
  show "lookup r n = Some a \<longleftrightarrow> a \<in> set (reg_rules r) \<and> Name a = n" for n a
    by (rule lookup_iff [OF assms])
qed (use assms in \<open>auto simp: reg_inv_def position_def family_position_def family_rules_def\<close>)

lemma concat_blocks:
  "distinct (remdups_adj (map f xs)) \<Longrightarrow>
     concat (map (\<lambda>k. filter (\<lambda>x. f x = k) xs) (remdups_adj (map f xs))) = xs"
proof (induction xs rule: rev_induct)
  case (snoc x xs)
  let ?blocks = "\<lambda>ys. concat (map (\<lambda>k. filter (\<lambda>x. f x = k) ys) (remdups_adj (map f xs)))"
  have d: "distinct (remdups_adj (map f xs))"
    using snoc.prems distinct_blocks_append [of "map f xs" "[f x]"] by simp
  show ?case
  proof (cases "xs \<noteq> [] \<and> f (last xs) = f x")
    case False
    then have eq: "remdups_adj (map f (xs @ [x])) = remdups_adj (map f xs) @ [f x]"
      by (auto simp: remdups_adj_snoc last_map)
    then have no: "f x \<notin> f ` set xs" using snoc.prems by simp
    then have "?blocks (xs @ [x]) = ?blocks xs"
      by (intro arg_cong [where f = concat] map_cong) auto
    moreover have "filter (\<lambda>y. f y = f x) xs = []"
      using no by (metis (mono_tags, lifting) filter_False image_eqI)
    ultimately show ?thesis unfolding eq using snoc.IH [OF d] by simp
  next
    case True
    then have eq: "remdups_adj (map f (xs @ [x])) = remdups_adj (map f xs)"
      by (simp add: remdups_adj_snoc last_map)
    obtain ks where ks: "remdups_adj (map f xs) = ks @ [f x]"
    proof -
      have "remdups_adj (map f xs) \<noteq> []" "last (remdups_adj (map f xs)) = f x"
        using True by (simp_all add: last_map last_remdups_adj)
      then show ?thesis using that by (metis append_butlast_last_id)
    qed
    then have "f x \<notin> set ks" using d by simp
    then have "concat (map (\<lambda>k. filter (\<lambda>x. f x = k) (xs @ [x])) ks)
        = concat (map (\<lambda>k. filter (\<lambda>x. f x = k) xs) ks)"
      by (intro arg_cong [where f = concat] map_cong) auto
    then show ?thesis using snoc.IH [OF d] unfolding eq ks by simp
  qed
qed simp

text \<open>
  \<open>NewRegistry\<close> accepts exactly the tables whose rules are valid, whose names are
  distinct, whose families each have one tier and lie in one block; the registry it returns
  holds the rules in the order given, and the blocks of its families, in the order of the
  families, put together are that list again.
\<close>

theorem new_registry_exact:
  "(case new_registry rs of
      Inl e \<Rightarrow> \<not> table_ok rs
    | Inr r \<Rightarrow> table_ok rs \<and> reg_rules r = rs \<and> distinct (families r)
        \<and> concat (map (family_rules r) (families r)) = rs)"
proof (cases "new_registry rs")
  case (Inl e)
  then show ?thesis using new_registry_spec [of rs] by simp
next
  case (Inr r)
  then have inv: "reg_inv r rs" "reg_rules r = rs" using new_registry_spec [of rs] by auto
  have d: "distinct (families r)" by (rule reg_inv_families [OF inv(1)])
  have "families r = remdups_adj (map Family rs)"
    and "\<And>f. family_rules r f = filter (\<lambda>a. Family a = f) rs"
    using inv(1) by (simp_all add: reg_inv_def family_rules_def)
  then have "concat (map (family_rules r) (families r)) = rs"
    using concat_blocks [of Family rs] d by (simp cong: map_cong)
  with inv d reg_inv_table [OF inv(1)] Inr show ?thesis by simp
qed

text \<open>
  The indexes of a registry agree with its list: a name is found exactly when a rule has
  it, with that rule and its position, and a family's position, rules and order follow the
  list; \<open>Verify\<close> accepts exactly the registered rules.
\<close>

theorem registry_indexes:
  "(case new_registry rs of
      Inl e \<Rightarrow> True
    | Inr r \<Rightarrow>
        (lookup r n = Some a \<longleftrightarrow> a \<in> set rs \<and> Name a = n)
        \<and> (position r n = Some i \<longleftrightarrow> i < length rs \<and> Name (rs ! i) = n)
        \<and> (family_position r f = Some k \<longleftrightarrow> k < length (families r) \<and> families r ! k = f)
        \<and> families r = remdups_adj (map Family rs)
        \<and> family_rules r f = filter (\<lambda>a. Family a = f) rs
        \<and> (verify_rule r a = None \<longleftrightarrow> a \<in> set rs))"
proof (cases "new_registry rs")
  case (Inr r)
  then have inv: "reg_inv r (reg_rules r)" "reg_rules r = rs" using new_registry_spec [of rs] by auto
  note c = registry_contract [OF inv(1), unfolded inv(2)]
  have "verify_rule r a = None \<longleftrightarrow> lookup r (Name a) = Some a"
    by (auto simp: verify_rule_def split: option.splits)
  with Inr rule_registry.look_iff [OF c] rule_registry.pos_iff [OF c] rule_registry.fam_pos_iff [OF c]
    rule_registry.fams_blocks [OF c] rule_registry.fam_rules_filter [OF c]
  show ?thesis by simp
qed simp

section \<open>The canonical registry\<close>

lemma canonical_table_ok: "table_ok (table_rules canonical_table)"
  by code_simp

lemma canonical_init: "must_registry canonical_table = Inr canonical_registry"
  using new_registry_spec [of "table_rules canonical_table"] canonical_table_ok
  by (auto simp: must_registry_def canonical_registry_def split: sum.splits)

lemma canonical_inv: "reg_inv canonical_registry (reg_rules canonical_registry)"
  and canonical_rules: "reg_rules canonical_registry = table_rules canonical_table"
  using new_registry_spec [of "table_rules canonical_table"] canonical_init
  by (auto simp: must_registry_def)

interpretation canonical: rule_registry "reg_rules canonical_registry" "lookup canonical_registry"
  "position canonical_registry" "families canonical_registry" "family_position canonical_registry"
  "family_rules canonical_registry"
  by (rule registry_contract [OF canonical_inv])

text \<open>
  The canonical table never makes \<open>mustRegistry\<close> panic; the registry has the 49 rules and
  14 families it announces, in the order of the table, and every tier selects a prefix of
  the rules: 29 for \<open>balanced\<close>, 44 for \<open>strong\<close>, all for \<open>all\<close>.
\<close>

theorem canonical_registry_shape:
  "must_registry canonical_table = Inr canonical_registry
   \<and> registry_len canonical_registry = CanonicalRuleCount
   \<and> families canonical_registry = map def_family canonical_table
   \<and> length (families canonical_registry) = CanonicalFamilyCount
   \<and> select_tier canonical_registry TierBalanced = take 29 (reg_rules canonical_registry)
   \<and> select_tier canonical_registry TierStrong = take 44 (reg_rules canonical_registry)
   \<and> select_tier canonical_registry TierAll = reg_rules canonical_registry"
proof -
  have "length (table_rules canonical_table) = CanonicalRuleCount" by code_simp
  moreover have "remdups_adj (map Family (table_rules canonical_table)) = map def_family canonical_table"
    by code_simp
  moreover have "length (map def_family canonical_table) = CanonicalFamilyCount" by code_simp
  moreover have "filter (\<lambda>r. tier_includes TierBalanced (Tier r)) (table_rules canonical_table)
      = take 29 (table_rules canonical_table)" by code_simp
  moreover have "filter (\<lambda>r. tier_includes TierStrong (Tier r)) (table_rules canonical_table)
      = take 44 (table_rules canonical_table)" by code_simp
  moreover have "filter (\<lambda>r. tier_includes TierAll (Tier r)) (table_rules canonical_table)
      = table_rules canonical_table" by code_simp
  ultimately show ?thesis
    using canonical_init canonical.fams_blocks
    by (simp add: registry_len_def select_tier_def canonical_rules)
qed

end
