(* ===== verification/OperatorSelect.thy ===== *)
theory OperatorSelect
  imports Rules
begin

text \<open>
  Resolving a profile and the names of families and rules to the rules of a run
  (\<open>internal/operatorselect\<close>). Both work over the registry; the laws used are those of the
  locale \<open>rule_registry\<close>.
\<close>

definition resolve_name :: "registry \<Rightarrow> string \<Rightarrow> rule list option" where
  "resolve_name registry name =
     (case family_position registry name of
        Some _ \<Rightarrow> Some (family_rules registry name)
      | None \<Rightarrow>
          (case lookup registry name of Some rule \<Rightarrow> Some [rule] | None \<Rightarrow> None))"

text \<open>The loop of \<open>Select\<close> over the names: the set of selected rule names, or the unknown name.\<close>

fun select_names :: "registry \<Rightarrow> string set \<Rightarrow> string list \<Rightarrow> string + string set" where
  "select_names registry selected [] = Inr selected"
| "select_names registry selected (name # names) =
     (case resolve_name registry name of
        None \<Rightarrow> Inl name
      | Some named \<Rightarrow> select_names registry (selected \<union> set (map Name named)) names)"

text \<open>The second component is the unknown name; the empty string is none.\<close>

definition select_rules :: "tier \<Rightarrow> string list \<Rightarrow> rule list \<times> string" where
  "select_rules tier names =
     (if names = [] then (select_tier canonical_registry tier, [])
      else case select_names canonical_registry {} names of
             Inl name \<Rightarrow> ([], name)
           | Inr selected \<Rightarrow>
               (filter (\<lambda>rule. Name rule \<in> selected) (reg_rules canonical_registry), []))"

text \<open>What a name selects: the rules of the family it names, else the rule it names.\<close>

definition selects :: "string \<Rightarrow> rule \<Rightarrow> bool" where
  "selects name rule \<longleftrightarrow> Family rule = name \<or> Name rule = name"

context rule_registry
begin

definition names_of :: "string \<Rightarrow> rule list option" where
  "names_of name =
     (case fam_pos name of Some _ \<Rightarrow> Some (fam_rules name)
      | None \<Rightarrow> (case look name of Some rule \<Rightarrow> Some [rule] | None \<Rightarrow> None))"

lemma names_of_None: "names_of name = None \<longleftrightarrow> list_all (\<lambda>r. \<not> selects name r) all_rules"
proof -
  have fam: "fam_pos name = None \<longleftrightarrow> name \<notin> Family ` set all_rules"
    using fam_pos_Some [of name] by (metis not_None_eq)
  have rule: "look name = None \<longleftrightarrow> (\<forall>r \<in> set all_rules. Name r \<noteq> name)"
    using look_iff [of name] by (metis not_None_eq)
  have "names_of name = None \<longleftrightarrow> fam_pos name = None \<and> look name = None"
    by (simp add: names_of_def split: option.split)
  also have "\<dots> \<longleftrightarrow> (\<forall>r \<in> set all_rules. \<not> selects name r)"
    unfolding fam rule selects_def by blast
  finally show ?thesis by (simp add: list_all_iff)
qed

text \<open>Where no name is both a family and a rule, a name selects by either.\<close>

lemma names_of_Some:
  assumes apart: "Name ` set all_rules \<inter> Family ` set all_rules = {}"
    and some: "names_of name = Some rs"
  shows "set rs = {r \<in> set all_rules. selects name r}"
proof (cases "fam_pos name")
  case (Some k)
  then have "name \<in> Family ` set all_rules" using fam_pos_Some by blast
  then have "name \<notin> Name ` set all_rules" using apart by (metis IntI empty_iff)
  then have no: "Name r \<noteq> name" if "r \<in> set all_rules" for r using that by (metis image_eqI)
  have "rs = filter (\<lambda>r. Family r = name) all_rules"
    using some Some fam_rules_filter by (simp add: names_of_def)
  then show ?thesis using no by (auto simp: selects_def)
next
  case None
  then obtain r where r: "look name = Some r" "rs = [r]"
    using some by (auto simp: names_of_def split: option.splits)
  then have rn: "r \<in> set all_rules" "Name r = name" using look_iff by blast+
  have nof: "Family s \<noteq> name" if "s \<in> set all_rules" for s
    using None fam_pos_Some [of name] that by (metis image_eqI option.distinct(1))
  have one: "s = r" if "s \<in> set all_rules" "Name s = name" for s
    using that look_iff [of name s] r by (metis option.inject)
  have "selects name s \<longleftrightarrow> s = r" if "s \<in> set all_rules" for s
    using that one nof rn unfolding selects_def by metis
  then have "{s \<in> set all_rules. selects name s} = {r}" using rn(1) by blast
  with r show ?thesis by simp
qed

end

lemma resolve_name_canonical: "resolve_name canonical_registry = canonical.names_of"
  by (rule ext) (simp add: resolve_name_def canonical.names_of_def)

lemma canonical_names_apart:
  "Name ` set (reg_rules canonical_registry) \<inter> Family ` set (reg_rules canonical_registry) = {}"
proof -
  have "list_all (\<lambda>r. r \<notin> set (remdups (map Family (table_rules canonical_table))))
      (map Name (table_rules canonical_table))"
    by code_simp
  then show ?thesis unfolding canonical_rules list_all_iff set_remdups set_map by blast
qed

definition known :: "string \<Rightarrow> bool" where
  "known name \<longleftrightarrow> list_ex (selects name) (reg_rules canonical_registry)"

lemma resolve_known: "resolve_name canonical_registry name = None \<longleftrightarrow> \<not> known name"
  unfolding resolve_name_canonical canonical.names_of_None known_def
  by (simp add: list_all_iff list_ex_iff)

lemma select_names_spec:
  "(case select_names canonical_registry S names of
      Inl name \<Rightarrow> find (\<lambda>n. \<not> known n) names = Some name
    | Inr S' \<Rightarrow> list_all known names
        \<and> S' = S \<union> Name ` {r \<in> set (reg_rules canonical_registry). list_ex (\<lambda>n. selects n r) names})"
proof (induction names arbitrary: S)
  case Nil
  then show ?case by simp
next
  case (Cons name names)
  show ?case
  proof (cases "resolve_name canonical_registry name")
    case None
    then have "\<not> known name" using resolve_known [of name] by simp
    with None show ?thesis by simp
  next
    case (Some rs)
    then have k: "known name" using resolve_known [of name] by simp
    have rs: "set rs = {r \<in> set (reg_rules canonical_registry). selects name r}"
      using canonical.names_of_Some [OF canonical_names_apart, of name rs] Some
      by (simp add: resolve_name_canonical)
    show ?thesis
      using Cons.IH [of "S \<union> set (map Name rs)"] Some k
      by (auto simp: rs split: sum.splits)
  qed
qed

lemma canonical_name_inject:
  assumes "r \<in> set (reg_rules canonical_registry)" and "s \<in> set (reg_rules canonical_registry)"
    and "Name r = Name s"
  shows "r = s"
  using canonical.look_iff [of "Name r"] assms by (metis option.inject)

text \<open>
  \<open>Select\<close> resolves what it is given: without names, the rules of the tier; with names
  that each name a family or a rule, the rules one of them names, each once and in registry
  order, whatever the order or the repetition of the names; otherwise no rule and the first
  unknown name.
\<close>

theorem select_rules_spec:
  "select_rules tier names =
     (if names = [] then (filter (\<lambda>r. Tier r \<le> tier) (reg_rules canonical_registry), [])
      else case find (\<lambda>n. \<not> known n) names of
             Some name \<Rightarrow> ([], name)
           | None \<Rightarrow> (filter (\<lambda>r. list_ex (\<lambda>n. selects n r) names) (reg_rules canonical_registry), []))"
proof (cases "names = []")
  case True
  then show ?thesis by (simp add: select_rules_def select_tier_def tier_includes_def)
next
  case False
  show ?thesis
  proof (cases "select_names canonical_registry {} names")
    case (Inl name)
    then show ?thesis using False select_names_spec [of names "{}"] by (simp add: select_rules_def)
  next
    case (Inr S)
    then have all: "list_all known names"
      and S: "S = Name ` {r \<in> set (reg_rules canonical_registry). list_ex (\<lambda>n. selects n r) names}"
      using select_names_spec [of names "{}"] by auto
    have none: "find (\<lambda>n. \<not> known n) names = None"
      using all by (simp add: find_None_iff list_all_iff)
    have "filter (\<lambda>r. Name r \<in> S) (reg_rules canonical_registry)
        = filter (\<lambda>r. list_ex (\<lambda>n. selects n r) names) (reg_rules canonical_registry)"
      unfolding S by (rule filter_cong) (auto dest: canonical_name_inject)
    then show ?thesis using False Inr none by (simp add: select_rules_def)
  qed
qed

text \<open>
  The result of \<open>Select\<close> cannot tell an unknown operator from success when the operator
  is the empty string: it selects no rule and reports no unknown name.
\<close>

theorem select_empty_name_unreported:
  "\<not> known [] \<and> select_rules tier [[]] = ([], [])"
proof -
  have "list_all (\<lambda>r. Family r \<noteq> [] \<and> Name r \<noteq> []) (table_rules canonical_table)" by code_simp
  then have unknown: "\<not> known []"
    by (auto simp: known_def selects_def list_ex_iff list_all_iff canonical_rules)
  then have "resolve_name canonical_registry [] = None" using resolve_known by blast
  then show ?thesis using unknown by (simp add: select_rules_def)
qed

end
