(* ===== verification/Sha256.thy ===== *)
theory Sha256
  imports GoStrings
begin

text \<open>
  SHA-256 (FIPS 180-4), the hash of \<open>crypto/sha256\<close>, with the big-endian and hexadecimal
  encodings the code uses around it. Identifiers, digests and shard numbers are computed
  from it, so it is written out rather than assumed; no theorem of the development rests
  on its being free of collisions.
\<close>

unbundle bit_operations_syntax

section \<open>Big-endian integers and hexadecimal text\<close>

fun be_bytes :: "nat \<Rightarrow> nat \<Rightarrow> string" where
  "be_bytes 0 n = []"
| "be_bytes (Suc k) n = be_bytes k (n div 256) @ [chr (n mod 256)]"

definition be_value :: "string \<Rightarrow> nat" where
  "be_value s = foldl (\<lambda>n c. n * 256 + ord c) 0 s"

definition hex_digit :: "nat \<Rightarrow> char" where
  "hex_digit d = (if d < 10 then chr (48 + d) else chr (87 + d))"

definition hex_encode :: "string \<Rightarrow> string" where
  "hex_encode s = concat (map (\<lambda>c. [hex_digit (ord c div 16), hex_digit (ord c mod 16)]) s)"

section \<open>The hash\<close>

text \<open>
  The standard derives its constants: the first 32 bits of the fractional parts of the
  square roots of the first eight primes, and of the cube roots of the first 64. They are
  computed here, bit by bit, as integer roots.
\<close>

definition int_root :: "nat \<Rightarrow> nat \<Rightarrow> int \<Rightarrow> int" where
  "int_root k bits n =
     foldl (\<lambda>r i. if (r + 2 ^ i) ^ k \<le> n then r + 2 ^ i else r) 0 (rev [0 ..< bits])"

definition sha_primes :: "int list" where
  "sha_primes = filter (\<lambda>n. list_all (\<lambda>d. n mod d \<noteq> 0) [2 .. n - 1]) [2 .. 311]"

definition sha_init :: "32 word list" where
  "sha_init = map (\<lambda>p. of_int (int_root 2 40 (p * 2 ^ 64))) [2, 3, 5, 7, 11, 13, 17, 19]"

definition sha_k :: "32 word list" where
  "sha_k = map (\<lambda>p. of_int (int_root 3 40 (p * 2 ^ 96))) sha_primes"

definition rotr :: "nat \<Rightarrow> 32 word \<Rightarrow> 32 word" where
  "rotr n x = drop_bit n x OR push_bit (32 - n) x"

definition small_sigma0 :: "32 word \<Rightarrow> 32 word" where
  "small_sigma0 x = rotr 7 x XOR rotr 18 x XOR drop_bit 3 x"

definition small_sigma1 :: "32 word \<Rightarrow> 32 word" where
  "small_sigma1 x = rotr 17 x XOR rotr 19 x XOR drop_bit 10 x"

definition big_sigma0 :: "32 word \<Rightarrow> 32 word" where
  "big_sigma0 x = rotr 2 x XOR rotr 13 x XOR rotr 22 x"

definition big_sigma1 :: "32 word \<Rightarrow> 32 word" where
  "big_sigma1 x = rotr 6 x XOR rotr 11 x XOR rotr 25 x"

definition sha_ch :: "32 word \<Rightarrow> 32 word \<Rightarrow> 32 word \<Rightarrow> 32 word" where
  "sha_ch x y z = (x AND y) XOR (NOT x AND z)"

definition sha_maj :: "32 word \<Rightarrow> 32 word \<Rightarrow> 32 word \<Rightarrow> 32 word" where
  "sha_maj x y z = (x AND y) XOR (x AND z) XOR (y AND z)"

text \<open>The message schedule, newest word first: the sixteen words of the block and 48 more.\<close>

fun sha_extend :: "nat \<Rightarrow> 32 word list \<Rightarrow> 32 word list" where
  "sha_extend 0 ws = ws"
| "sha_extend (Suc n) ws =
     sha_extend n ((small_sigma1 (ws ! 1) + ws ! 6 + small_sigma0 (ws ! 14) + ws ! 15) # ws)"

definition sha_round :: "32 word list \<Rightarrow> 32 word \<times> 32 word \<Rightarrow> 32 word list" where
  "sha_round st kw =
     (case st of
        [a, b, c, d, e, f, g, h] \<Rightarrow>
          (let t1 = h + big_sigma1 e + sha_ch e f g + fst kw + snd kw;
               t2 = big_sigma0 a + sha_maj a b c
           in [t1 + t2, a, b, c, d + t1, e, f, g])
      | _ \<Rightarrow> st)"

fun block_words :: "32 word list \<Rightarrow> 32 word list" where
  "block_words (a # b # c # d # bs) =
     (push_bit 24 a OR push_bit 16 b OR push_bit 8 c OR d) # block_words bs"
| "block_words _ = []"

definition sha_block :: "32 word list \<Rightarrow> 32 word list \<Rightarrow> 32 word list" where
  "sha_block st block =
     map2 (+) st (foldl sha_round st (zip sha_k (rev (sha_extend 48 (rev (block_words block))))))"

function sha_blocks :: "32 word list \<Rightarrow> 32 word list \<Rightarrow> 32 word list" where
  "sha_blocks st bs = (if bs = [] then st else sha_blocks (sha_block st (take 64 bs)) (drop 64 bs))"
  by pat_completeness auto
termination
  by (relation "measure (\<lambda>(st, bs). length bs)") auto

declare sha_blocks.simps [simp del]

text \<open>The padded message, one word per byte.\<close>

definition sha_pad :: "string \<Rightarrow> 32 word list" where
  "sha_pad msg =
     map of_char msg @ 128 # replicate (nat ((55 - int (length msg)) mod 64)) 0
       @ map of_char (be_bytes 8 (8 * length msg))"

definition word_bytes :: "32 word \<Rightarrow> string" where
  "word_bytes w = map (\<lambda>k. char_of (uint (drop_bit k w))) [24, 16, 8, 0]"

definition sha256 :: "string \<Rightarrow> string" where
  "sha256 msg = concat (map word_bytes (sha_blocks sha_init (sha_pad msg)))"

section \<open>Lengths and shapes\<close>

lemma length_be_bytes [simp]: "length (be_bytes k n) = k"
  by (induction k arbitrary: n) auto

lemma be_bytes_Nil [simp]: "be_bytes k n = [] \<longleftrightarrow> k = 0"
  by (metis length_0_conv length_be_bytes)

lemma be_value_bytes: "be_value (be_bytes k n) = n mod 256 ^ k"
proof (induction k arbitrary: n)
  case 0
  then show ?case by (simp add: be_value_def)
next
  case (Suc k)
  have "be_value (be_bytes (Suc k) n) = be_value (be_bytes k (n div 256)) * 256 + n mod 256"
    by (simp add: be_value_def)
  also have "\<dots> = (n div 256) mod 256 ^ k * 256 + n mod 256" by (simp add: Suc)
  also have "\<dots> = n mod (256 * 256 ^ k)" by (simp add: mod_mult2_eq)
  finally show ?case by simp
qed

lemma be_bytes_inject:
  assumes "m < 256 ^ k" and "n < 256 ^ k" and "be_bytes k m = be_bytes k n" shows "m = n"
  using assms be_value_bytes by (metis mod_less)

lemma length_sha_round [simp]: "length (sha_round st kw) = length st"
  by (auto simp: sha_round_def Let_def split: list.splits)

lemma length_foldl_round [simp]: "length (foldl sha_round st kws) = length st"
  by (induction kws arbitrary: st) auto

lemma length_sha_block [simp]: "length (sha_block st b) = length st"
  by (simp add: sha_block_def)

lemma length_sha_blocks [simp]: "length (sha_blocks st bs) = length st"
proof (induction st bs rule: sha_blocks.induct)
  case (1 st bs)
  then show ?case by (subst sha_blocks.simps) simp
qed

lemma length_concat_const: "(\<And>x. x \<in> set xs \<Longrightarrow> length (f x) = k) \<Longrightarrow> length (concat (map f xs)) = k * length xs"
  by (induction xs) auto

lemma length_sha256 [simp]: "length (sha256 msg) = 32"
  unfolding sha256_def by (subst length_concat_const [where k = 4]) (auto simp: sha_init_def word_bytes_def)

lemma length_hex_encode [simp]: "length (hex_encode s) = 2 * length s"
  unfolding hex_encode_def by (subst length_concat_const [where k = 2]) auto

lemma hex_digit_inject: "a < 16 \<Longrightarrow> b < 16 \<Longrightarrow> hex_digit a = hex_digit b \<Longrightarrow> a = b"
proof -
  have ords: "ord (hex_digit d) = (if d < 10 then 48 + d else 87 + d)" if "d < 16" for d
    using that by (simp add: hex_digit_def)
  assume ab: "a < 16" "b < 16" "hex_digit a = hex_digit b"
  then have "(if a < 10 then 48 + a else 87 + a) = (if b < 10 then 48 + b else 87 + b)"
    using ords by metis
  then show "a = b" using ab by (simp split: if_split_asm)
qed

lemma hex_encode_inject: "hex_encode s = hex_encode t \<longleftrightarrow> s = t"
proof
  assume eq: "hex_encode s = hex_encode t"
  then have "length s = length t" using length_hex_encode by (metis mult_left_cancel zero_neq_numeral)
  then show "s = t" using eq
  proof (induction s t rule: list_induct2)
    case (Cons x xs y ys)
    have "ord x div 16 = ord y div 16" "ord x mod 16 = ord y mod 16"
      using Cons.prems ord_bound [of x] ord_bound [of y]
      by (auto simp: hex_encode_def intro!: hex_digit_inject)
    then have "ord x = ord y" by (metis div_mult_mod_eq)
    with Cons show ?case by (simp add: hex_encode_def)
  qed simp
qed simp

end
