(* ===== verification/MutantId.thy ===== *)
theory MutantId
  imports Spans Sha256
begin

text \<open>
  Mutant identities (\<open>id.go\<close> and \<open>shard.go\<close> of \<open>internal/mutation\<close>): paths normalised to
  be relative to the module, the length-prefixed fields an identifier hashes, and the shard
  an identifier falls in.
\<close>

definition IDDomain :: string where "IDDomain = ''go-mutants-id-v1''"
definition IDDomainWorkspace :: string where "IDDomainWorkspace = ''go-mutants-workspace-id-v1''"
definition IDHexLength :: nat where "IDHexLength = 64"
definition DisplayIDLength :: nat where "DisplayIDLength = 20"
definition MinPrefixLength :: nat where "MinPrefixLength = 4"

datatype id_error =
    ErrEmptyPath | ErrAbsolutePath | ErrEscapingPath | ErrUnnormalizedPath | ErrInvalidName
  | ErrInvalidModulePath | ErrInvalidVersion | ErrSpan span_error | ErrInvalidDigest
  | ErrFieldTooLong | ErrInvalidID

record identity =
  Path :: string
  RuleName :: string
  RuleVersion :: int
  Span :: span
  SourceDigest :: string
  OriginalDigest :: string
  ReplacementDigest :: string
  ModulePath :: string

definition digest :: "string \<Rightarrow> string" where
  "digest s = hex_encode (sha256 s)"

section \<open>Hexadecimal identifiers\<close>

definition is_lower_hex_char :: "char \<Rightarrow> bool" where
  "is_lower_hex_char c \<longleftrightarrow> 48 \<le> ord c \<and> ord c \<le> 57 \<or> 97 \<le> ord c \<and> ord c \<le> 102"

definition is_lower_hex_prefix :: "string \<Rightarrow> bool" where
  "is_lower_hex_prefix s \<longleftrightarrow> list_all is_lower_hex_char s"

definition is_lower_hex :: "string \<Rightarrow> nat \<Rightarrow> bool" where
  "is_lower_hex s n \<longleftrightarrow> length s = n \<and> is_lower_hex_prefix s"

definition is_id :: "string \<Rightarrow> bool" where
  "is_id s \<longleftrightarrow> is_lower_hex s IDHexLength"

definition is_digest :: "string \<Rightarrow> bool" where
  "is_digest s \<longleftrightarrow> is_lower_hex s IDHexLength"

definition display_id_of :: "string \<Rightarrow> id_error + string" where
  "display_id_of full = (if is_id full then Inr (take DisplayIDLength full) else Inl ErrInvalidID)"

definition is_ascii_letter :: "char \<Rightarrow> bool" where
  "is_ascii_letter c \<longleftrightarrow> 97 \<le> ord c \<and> ord c \<le> 122 \<or> 65 \<le> ord c \<and> ord c \<le> 90"

section \<open>Paths\<close>

text \<open>
  \<open>path.Clean\<close>: elements are read left to right onto a stack, newest first; an empty
  element and \<open>.\<close> are dropped, \<open>..\<close> takes back the element before it.
\<close>

definition clean_step :: "bool \<Rightarrow> string list \<Rightarrow> string \<Rightarrow> string list" where
  "clean_step rooted st e =
     (if e = [] \<or> e = ''.'' then st
      else if e = ''..'' then
        (case st of
           [] \<Rightarrow> if rooted then [] else [e]
         | x # st' \<Rightarrow> if x = ''..'' then e # st else st')
      else e # st)"

definition path_clean :: "string \<Rightarrow> string" where
  "path_clean p =
     (if p = [] then ''.''
      else
        (let rooted = (hd p = CHR ''/'');
             st = foldl (clean_step rooted) [] (split_on CHR ''/'' p);
             out = (if rooted then ''/'' else []) @ join_with ''/'' (rev st)
         in if out = [] then ''.'' else out))"

definition has_volume :: "string \<Rightarrow> bool" where
  "has_volume p \<longleftrightarrow> 2 \<le> length p \<and> p ! 1 = CHR '':'' \<and> is_ascii_letter (hd p)"

definition to_slash :: "string \<Rightarrow> string" where
  "to_slash p = map (\<lambda>c. if c = chr 92 then CHR ''/'' else c) p"

definition normalize_path :: "string \<Rightarrow> id_error + string" where
  "normalize_path p =
     (if p = [] then Inl ErrEmptyPath
      else if chr 0 \<in> set p then Inl ErrEmptyPath
      else
        (let slashed = to_slash p in
         if has_prefix slashed ''/'' then Inl ErrAbsolutePath
         else if has_volume slashed then Inl ErrAbsolutePath
         else
           (let cleaned = path_clean slashed in
            if has_volume cleaned then Inl ErrAbsolutePath
            else if cleaned = ''.'' \<or> cleaned = ''..'' \<or> has_prefix cleaned ''../''
            then Inl ErrEscapingPath
            else Inr cleaned)))"

section \<open>Identities\<close>

definition rule_name_bad :: string where
  "rule_name_bad = [CHR '' '', tab, cr, nl, CHR ''@'']"

definition module_path_bad :: string where
  "module_path_bad = [CHR '' '', tab, cr, nl, CHR ''@'', chr 0]"

definition identity_validate :: "identity \<Rightarrow> id_error option" where
  "identity_validate i =
     (case normalize_path (Path i) of
        Inl err \<Rightarrow> Some err
      | Inr normalized \<Rightarrow>
          if normalized \<noteq> Path i then Some ErrUnnormalizedPath
          else if RuleName i = [] then Some ErrInvalidName
          else if contains_any (RuleName i) rule_name_bad then Some ErrInvalidName
          else if RuleVersion i < 1 then Some ErrInvalidVersion
          else
            (case span_validate (Span i) of
               Some err \<Rightarrow> Some (ErrSpan err)
             | None \<Rightarrow>
                 if \<not> list_all is_digest [SourceDigest i, OriginalDigest i, ReplacementDigest i]
                 then Some ErrInvalidDigest
                 else if ModulePath i \<noteq> [] \<and> contains_any (ModulePath i) module_path_bad
                 then Some ErrInvalidModulePath
                 else None))"

text \<open>What \<open>WriteLengthPrefixed\<close> writes to the hash: four bytes of length, then the field.\<close>

definition write_length_prefixed :: "string \<Rightarrow> id_error + string" where
  "write_length_prefixed s =
     (if int (length s) > 4294967295 then Inl ErrFieldTooLong else Inr (be_bytes 4 (length s) @ s))"

definition identity_fields :: "identity \<Rightarrow> string list" where
  "identity_fields i =
     (if ModulePath i \<noteq> [] then [IDDomainWorkspace] else [IDDomain])
     @ [Path i, RuleName i, itoa (RuleVersion i), digits_of (unat (StartByte (Span i))),
        digits_of (unat (EndByte (Span i))), SourceDigest i, OriginalDigest i, ReplacementDigest i]
     @ (if ModulePath i \<noteq> [] then [ModulePath i] else [])"

fun write_fields :: "string \<Rightarrow> string list \<Rightarrow> id_error + string" where
  "write_fields h [] = Inr h"
| "write_fields h (f # fs) =
     (case write_length_prefixed f of Inl err \<Rightarrow> Inl err | Inr bytes \<Rightarrow> write_fields (h @ bytes) fs)"

definition identity_id :: "identity \<Rightarrow> id_error + string" where
  "identity_id i =
     (case identity_validate i of
        Some err \<Rightarrow> Inl err
      | None \<Rightarrow>
          (case write_fields [] (identity_fields i) of
             Inl err \<Rightarrow> Inl err
           | Inr h \<Rightarrow> Inr (hex_encode (sha256 h))))"

section \<open>Shards\<close>

text \<open>The first eight bytes of the digest of the identifier, modulo the number of shards.\<close>

definition shard_index :: "string \<Rightarrow> int \<Rightarrow> int" where
  "shard_index i shards =
     (if shards < 1 then 0
      else int (be_value (take 8 (sha256 i)) mod nat shards) + 1)"

section \<open>Normalised paths\<close>

definition plain_element :: "string \<Rightarrow> bool" where
  "plain_element e \<longleftrightarrow> e \<noteq> [] \<and> e \<noteq> ''.'' \<and> e \<noteq> ''..'' \<and> CHR ''/'' \<notin> set e \<and> chr 92 \<notin> set e \<and> chr 0 \<notin> set e"

text \<open>A path below the module root: plain elements, no volume name.\<close>

definition module_relative :: "string \<Rightarrow> bool" where
  "module_relative p \<longleftrightarrow> list_all plain_element (split_on CHR ''/'' p) \<and> \<not> has_volume p"

lemma chr_slash [simp]: "chr 92 \<noteq> CHR ''/''" "chr 0 \<noteq> CHR ''/''" "chr 0 \<noteq> chr 92"
  by code_simp+

lemma foldl_clean_plain:
  "list_all (\<lambda>e. e \<noteq> [] \<and> e \<noteq> ''.'' \<and> e \<noteq> ''..'') es \<Longrightarrow> foldl (clean_step rooted) st es = rev es @ st"
  by (induction es arbitrary: st) (auto simp: clean_step_def)

text \<open>The stack of a relative path: \<open>..\<close> only at the bottom.\<close>

definition clean_stack :: "string list \<Rightarrow> bool" where
  "clean_stack st \<longleftrightarrow> (\<exists>n as. st = as @ replicate n ''..'' \<and>
     list_all (\<lambda>e. e \<noteq> [] \<and> e \<noteq> ''.'' \<and> e \<noteq> ''..'') as)"

lemma clean_stack_Nil: "clean_stack []"
  by (simp add: clean_stack_def)

lemma clean_stack_step: assumes "clean_stack st" shows "clean_stack (clean_step False st e)"
proof -
  obtain n as where st: "st = as @ replicate n ''..''"
    and as: "list_all (\<lambda>e. e \<noteq> [] \<and> e \<noteq> ''.'' \<and> e \<noteq> ''..'') as"
    using assms by (auto simp: clean_stack_def)
  show ?thesis
  proof (cases "e = [] \<or> e = ''.''")
    case True
    then show ?thesis using assms by (simp add: clean_step_def)
  next
    case plain: False
    show ?thesis
    proof (cases "e = ''..''")
      case False
      then have "clean_step False st e = (e # as) @ replicate n ''..''"
        using plain st by (simp add: clean_step_def)
      then show ?thesis unfolding clean_stack_def using as plain False by fastforce
    next
      case dots: True
      show ?thesis
      proof (cases as)
        case Nil
        then have "clean_step False st e = [] @ replicate (Suc n) ''..''"
          using st dots by (cases n) (auto simp: clean_step_def)
        then show ?thesis unfolding clean_stack_def by fastforce
      next
        case (Cons a as')
        then have "clean_step False st e = as' @ replicate n ''..''"
          using st dots as by (auto simp: clean_step_def)
        then show ?thesis unfolding clean_stack_def using as Cons by fastforce
      qed
    qed
  qed
qed

lemma clean_stack_foldl: "clean_stack st \<Longrightarrow> clean_stack (foldl (clean_step False) st es)"
  by (induction es arbitrary: st) (auto intro: clean_stack_step)

lemma clean_step_set: "set (clean_step rooted st e) \<subseteq> insert e (set st)"
  by (auto simp: clean_step_def split: list.splits if_splits)

lemma foldl_clean_set: "set (foldl (clean_step rooted) st es) \<subseteq> set st \<union> set es"
proof (induction es arbitrary: st)
  case (Cons e es)
  then show ?case using clean_step_set [of rooted st e] by fastforce
qed simp

lemma split_to_slash_chars: "w \<in> set (split_on CHR ''/'' (to_slash p)) \<Longrightarrow> chr 92 \<notin> set w"
proof -
  assume "w \<in> set (split_on CHR ''/'' (to_slash p))"
  then have "set w \<subseteq> set (to_slash p)" by (rule set_split_on)
  moreover have "chr 92 \<notin> set (to_slash p)" by (auto simp: to_slash_def)
  ultimately show ?thesis by blast
qed

lemma to_slash_id: "chr 92 \<notin> set p \<Longrightarrow> to_slash p = p"
  unfolding to_slash_def by (rule map_idI) auto

lemma set_join_with: "set (join_with sep ws) \<subseteq> set sep \<union> \<Union> (set ` set ws)"
  by (induction sep ws rule: join_with.induct) auto

text \<open>A path of plain elements is left alone.\<close>

lemma path_clean_plain:
  assumes "list_all plain_element (split_on CHR ''/'' p)"
  shows "path_clean p = p"
proof -
  have ne: "p \<noteq> []" using assms by (auto simp: plain_element_def)
  have "hd p \<noteq> CHR ''/''" using assms ne by (cases p) (auto simp: plain_element_def split: if_splits)
  then show ?thesis using ne foldl_clean_plain [of "split_on CHR ''/'' p" False "[]"] assms
    by (simp add: path_clean_def plain_element_def list_all_iff)
qed

lemma module_relative_normalized:
  assumes "module_relative p" shows "normalize_path p = Inr p"
proof -
  have plain: "list_all plain_element (split_on CHR ''/'' p)" and vol: "\<not> has_volume p"
    using assms by (auto simp: module_relative_def)
  have ne: "p \<noteq> []" using plain by (auto simp: plain_element_def)
  have chars: "c \<notin> set p"
    if c: "c \<noteq> CHR ''/''" and w: "\<And>w. plain_element w \<Longrightarrow> c \<notin> set w" for c
  proof -
    have "\<forall>w \<in> set (split_on CHR ''/'' p). c \<notin> set w" using plain w by (simp add: list_all_iff)
    then show ?thesis using set_join_with [of "''/''" "split_on CHR ''/'' p"] c by auto
  qed
  have c0: "chr 0 \<notin> set p" and c92: "chr 92 \<notin> set p"
    by (rule chars; simp add: plain_element_def)+
  have head: "\<not> has_prefix p ''/''"
    using plain ne by (cases p) (auto simp: plain_element_def split: if_splits)
  have esc: "\<not> has_prefix p ''../''"
  proof
    assume "has_prefix p ''../''"
    then obtain t where t: "p = ''..'' @ CHR ''/'' # t" by (auto simp: has_prefix_iff)
    have "split_on CHR ''/'' p = ''..'' # split_on CHR ''/'' t"
      unfolding t by (rule split_on_append) simp
    with plain show False by (simp add: plain_element_def)
  qed
  have "p \<noteq> ''.''" and "p \<noteq> ''..''" using plain by (auto simp: plain_element_def)
  with ne c0 vol head esc path_clean_plain [OF plain] show ?thesis
    by (simp add: normalize_path_def to_slash_id [OF c92] Let_def)
qed

lemma normalize_path_relative:
  assumes "normalize_path p = Inr q" shows "module_relative q"
proof -
  let ?s = "to_slash p" and ?st = "foldl (clean_step False) [] (split_on CHR ''/'' (to_slash p))"
  have p: "p \<noteq> []" "chr 0 \<notin> set p" "\<not> has_prefix ?s ''/''" and q: "q = path_clean ?s"
    and vol: "\<not> has_volume q" and esc: "q \<noteq> ''.''" "q \<noteq> ''..''" "\<not> has_prefix q ''../''"
    using assms by (auto simp: normalize_path_def Let_def split: if_splits)
  have hd: "hd ?s \<noteq> CHR ''/''" and ne: "?s \<noteq> []"
    using p by (cases p; auto simp: to_slash_def)+
  then have qj: "q = join_with ''/'' (rev ?st)" and stne: "?st \<noteq> []"
    using q esc(1) by (auto simp: path_clean_def Let_def split: if_splits)
  have elems: "CHR ''/'' \<notin> set w \<and> chr 92 \<notin> set w \<and> chr 0 \<notin> set w" if "w \<in> set ?st" for w
  proof -
    have w: "w \<in> set (split_on CHR ''/'' ?s)" using that foldl_clean_set [of False "[]"] by auto
    have "set w \<subseteq> set ?s" using w by (rule set_split_on)
    moreover have "chr 0 \<notin> set ?s" using p(2) by (auto simp: to_slash_def)
    ultimately show ?thesis using split_on_no_sep [OF w] split_to_slash_chars [OF w] by auto
  qed
  have split: "split_on CHR ''/'' q = rev ?st"
    unfolding qj by (rule split_on_join) (use stne elems in auto)
  obtain n as where st: "?st = as @ replicate n ''..''"
    and as: "list_all (\<lambda>e. e \<noteq> [] \<and> e \<noteq> ''.'' \<and> e \<noteq> ''..'') as"
    using clean_stack_foldl [OF clean_stack_Nil, of "split_on CHR ''/'' ?s"]
    unfolding clean_stack_def by blast
  have "n = 0"
  proof (rule ccontr)
    assume "n \<noteq> 0"
    then obtain m where m: "n = Suc m" by (cases n) auto
    then have r: "rev ?st = ''..'' # replicate m ''..'' @ rev as"
      unfolding st m by (simp add: replicate_append_same)
    show False
    proof (cases "replicate m ''..'' @ rev as")
      case Nil
      then show False using esc qj r by simp
    next
      case (Cons b bs)
      then have "q = ''../'' @ join_with ''/'' (b # bs)" unfolding qj r by simp
      then show False using esc by simp
    qed
  qed
  then have "list_all plain_element (rev ?st)"
    using as st elems by (auto simp: plain_element_def list_all_iff)
  then show ?thesis using split vol by (simp add: module_relative_def)
qed

text \<open>
  A path that \<open>NormalizePath\<close> accepts stays below the module root: the result has only
  plain elements (none empty, \<open>.\<close> or \<open>..\<close>, no backslash, no NUL, no volume name), and
  normalising again changes nothing; the paths it leaves unchanged are exactly these.
\<close>

theorem normalize_path_safe:
  "(case normalize_path p of
      Inl err \<Rightarrow> \<not> module_relative p
    | Inr q \<Rightarrow> module_relative q \<and> normalize_path q = Inr q \<and> (module_relative p \<longleftrightarrow> q = p))"
proof (cases "normalize_path p")
  case (Inl err)
  then show ?thesis using module_relative_normalized by fastforce
next
  case (Inr q)
  then have "module_relative q" by (rule normalize_path_relative)
  then show ?thesis using Inr module_relative_normalized by fastforce
qed

section \<open>Identifiers\<close>

definition fields_fit :: "string list \<Rightarrow> bool" where
  "fields_fit fs \<longleftrightarrow> list_all (\<lambda>f. int (length f) \<le> 4294967295) fs"

definition framed :: "string list \<Rightarrow> string" where
  "framed fs = concat (map (\<lambda>f. be_bytes 4 (length f) @ f) fs)"

lemma write_fields_framed:
  "write_fields h fs = (if fields_fit fs then Inr (h @ framed fs) else Inl ErrFieldTooLong)"
  by (induction fs arbitrary: h) (auto simp: fields_fit_def framed_def write_length_prefixed_def)

lemma fields_fit_Cons:
  "fields_fit (f # fs) \<longleftrightarrow> int (length f) \<le> 4294967295 \<and> fields_fit fs"
  by (simp add: fields_fit_def)

text \<open>Length prefixes frame the fields: two lists with the same bytes are equal.\<close>

lemma framed_inject:
  "fields_fit fs \<Longrightarrow> fields_fit gs \<Longrightarrow> framed fs = framed gs \<Longrightarrow> fs = gs"
proof (induction fs arbitrary: gs)
  case Nil
  then show ?case by (cases gs) (auto simp: framed_def dest: arg_cong [where f = length])
next
  case (Cons f fs)
  have "gs \<noteq> []"
  proof
    assume "gs = []"
    then have "length (framed (f # fs)) = 0" using Cons.prems(3) by (simp add: framed_def)
    then show False by (simp add: framed_def)
  qed
  then obtain g gs' where gs: "gs = g # gs'" by (cases gs) auto
  have eq: "be_bytes 4 (length f) @ f @ framed fs = be_bytes 4 (length g) @ g @ framed gs'"
    using Cons.prems(3) by (simp add: gs framed_def)
  then have "be_bytes 4 (length f) = be_bytes 4 (length g)" and rest: "f @ framed fs = g @ framed gs'"
    by (simp_all add: append_eq_append_conv)
  then have "length f = length g"
    using Cons.prems(1,2) by (intro be_bytes_inject [where k = 4]) (auto simp: gs fields_fit_def)
  then have "f = g \<and> framed fs = framed gs'" using rest append_eq_append_conv by blast
  then have "f = g" and "framed fs = framed gs'" by blast+
  moreover have "fields_fit fs" and "fields_fit gs'"
    using Cons.prems(1,2) unfolding gs fields_fit_Cons by blast+
  ultimately show ?case unfolding gs using Cons.IH [of gs'] by blast
qed

lemma identity_fields_inject:
  assumes eq: "identity_fields a = identity_fields b" shows "(a :: identity) = b"
proof -
  have m: "(ModulePath a \<noteq> []) = (ModulePath b \<noteq> [])"
    using arg_cong [OF eq, of length] by (auto simp: identity_fields_def split: if_splits)
  then have all: "Path a = Path b" "RuleName a = RuleName b" "RuleVersion a = RuleVersion b"
      "StartByte (Span a) = StartByte (Span b)" "EndByte (Span a) = EndByte (Span b)"
      "SourceDigest a = SourceDigest b" "OriginalDigest a = OriginalDigest b"
      "ReplacementDigest a = ReplacementDigest b" "ModulePath a = ModulePath b"
    using eq by (auto simp: identity_fields_def itoa_inject word_unat_eq_iff split: if_splits)
  then have "Span a = Span b" by (simp add: span.equality)
  with all show ?thesis by (simp add: identity.equality)
qed

lemma identity_id_Inr:
  "identity_id i = Inr h \<longleftrightarrow> identity_validate i = None \<and> fields_fit (identity_fields i)
     \<and> h = hex_encode (sha256 (framed (identity_fields i)))"
  by (auto simp: identity_id_def write_fields_framed split: option.splits)

lemma hex_digit_lower: "d < 16 \<Longrightarrow> is_lower_hex_char (hex_digit d)"
  by (auto simp: is_lower_hex_char_def hex_digit_def)

lemma hex_encode_lower: "is_lower_hex_prefix (hex_encode s)"
proof -
  have "ord c div 16 < 16" for c using ord_bound [of c] by (simp add: div_less_iff_less_mult)
  then show ?thesis
    by (auto simp: is_lower_hex_prefix_def hex_encode_def list_all_iff intro: hex_digit_lower)
qed

lemma id_replicate [simp]:
  "is_id (replicate 64 c) = is_lower_hex_char c" "is_digest (replicate 64 c) = is_lower_hex_char c"
  by (simp_all add: is_id_def is_digest_def is_lower_hex_def IDHexLength_def is_lower_hex_prefix_def list_all_iff)

lemma hex_sha_is_id: "is_id (hex_encode (sha256 s))" and digest_is_digest: "is_digest (digest s)"
  by (simp_all add: is_id_def is_digest_def digest_def is_lower_hex_def IDHexLength_def hex_encode_lower)

text \<open>
  C26. Two identities share an identifier only if they are the same or their framed fields are
  a collision of SHA-256: every field, the module path included, enters the hash
  unambiguously, and the identifier is 64 lowercase hexadecimal digits.
\<close>

theorem identity_id_injective:
  assumes "identity_id a = Inr h" and "identity_id b = Inr h"
  shows "is_id h \<and> (a = b \<or> framed (identity_fields a) \<noteq> framed (identity_fields b)
     \<and> sha256 (framed (identity_fields a)) = sha256 (framed (identity_fields b)))"
proof -
  have fit: "fields_fit (identity_fields a)" "fields_fit (identity_fields b)"
    and ha: "h = hex_encode (sha256 (framed (identity_fields a)))"
    and hb: "h = hex_encode (sha256 (framed (identity_fields b)))"
    using assms by (auto simp: identity_id_Inr)
  have "is_id h" unfolding ha by (rule hex_sha_is_id)
  moreover have "sha256 (framed (identity_fields a)) = sha256 (framed (identity_fields b))"
    using ha hb by (simp add: hex_encode_inject)
  moreover have "framed (identity_fields a) = framed (identity_fields b) \<Longrightarrow> a = b"
    using framed_inject [OF fit] identity_fields_inject by blast
  ultimately show ?thesis by blast
qed

definition sample_identity :: identity where
  "sample_identity = \<lparr>Path = ''a/b.go'', RuleName = ''eq-to-neq'', RuleVersion = 1,
     Span = \<lparr>StartByte = 4, EndByte = 6\<rparr>, SourceDigest = replicate 64 CHR ''a'',
     OriginalDigest = replicate 64 CHR ''b'', ReplacementDigest = replicate 64 CHR ''c'', ModulePath = []\<rparr>"

lemma sample_letters: "is_lower_hex_char CHR ''a''" "is_lower_hex_char CHR ''b''" "is_lower_hex_char CHR ''c''"
  by code_simp+

lemma sample_identity_ok:
  "identity_validate sample_identity = None" "fields_fit (identity_fields sample_identity)"
proof -
  have "normalize_path ''a/b.go'' = Inr ''a/b.go''" "\<not> contains_any ''eq-to-neq'' rule_name_bad"
    by code_simp+
  then show "identity_validate sample_identity = None"
    using sample_letters by (simp add: identity_validate_def sample_identity_def span_validate_def)
  show "fields_fit (identity_fields sample_identity)" by code_simp
qed

theorem identity_id_injective_witness:
  "\<exists>h. identity_id sample_identity = Inr h \<and> is_id h"
proof -
  have "identity_id sample_identity = Inr (hex_encode (sha256 (framed (identity_fields sample_identity))))"
    using sample_identity_ok by (simp add: identity_id_Inr)
  with identity_id_injective [OF this this] show ?thesis by blast
qed

text \<open>
  Every mutant falls in exactly one shard: for a positive number of shards the index lies
  between 1 and that number, and the identifiers of a list split into the shards without loss.
\<close>

theorem shard_index_partition:
  "(if shards < 1 then shard_index i shards = 0
    else 1 \<le> shard_index i shards \<and> shard_index i shards \<le> shards
      \<and> mset ids = mset (concat (map (\<lambda>k. filter (\<lambda>j. shard_index j shards = k) ids) [1 .. shards])))"
proof (cases "shards < 1")
  case True
  then show ?thesis by (simp add: shard_index_def)
next
  case False
  have range: "1 \<le> shard_index j shards" "shard_index j shards \<le> shards" for j
  proof -
    have "be_value (take 8 (sha256 j)) mod nat shards < nat shards" using False by simp
    then have "int (be_value (take 8 (sha256 j)) mod nat shards) < shards" using False by linarith
    then show "1 \<le> shard_index j shards" "shard_index j shards \<le> shards"
      using False by (simp_all add: shard_index_def)
  qed
  have "mset ids = mset (concat (map (\<lambda>k. filter (\<lambda>j. shard_index j shards = k) ids) [1 .. shards]))"
  proof (induction ids)
    case Nil
    then show ?case by (induction "[1 .. shards]") auto
  next
    case (Cons a ids)
    have one: "mset (concat (map (\<lambda>k. filter (\<lambda>j. shard_index j shards = k) (a # ids)) ks))
        = (if shard_index a shards \<in> set ks then {#a#} else {#})
          + mset (concat (map (\<lambda>k. filter (\<lambda>j. shard_index j shards = k) ids) ks))"
      if "distinct ks" for ks
      using that by (induction ks) auto
    have "distinct [1 .. shards]" and "shard_index a shards \<in> set [1 .. shards]"
      using range [of a] by auto
    then show ?case unfolding one [OF \<open>distinct [1 .. shards]\<close>] using Cons by simp
  qed
  with range [of i] False show ?thesis by simp
qed

end
