(* ===== verification/Catalog.thy ===== *)
theory Catalog
  imports Rules MutantId
begin

text \<open>
  The mutation catalog (\<open>catalog.go\<close> of \<open>internal/mutation\<close>): candidates are added to a
  builder that refuses contradictions, then sorted, deduplicated, numbered and indexed. The
  builder relies on the registry through the laws of \<open>rule_registry\<close>.
\<close>

section \<open>Candidates\<close>

definition CatalogDomain :: string where "CatalogDomain = ''go-mutants-catalog-v1''"

record candidate =
  c_ModulePath :: string
  c_Path :: string
  c_Rule :: rule
  c_Span :: span
  c_Original :: string
  c_Replacement :: string
  c_SourceDigest :: string

record display_collision =
  dc_DisplayID :: string
  dc_IDs :: "string list"

datatype catalog_error =
    RuleError rule_error
  | IdentityError id_error
  | ErrOriginalLengthMismatch
  | ErrNoOpReplacement
  | ErrSourceDigestConflict
  | ErrOriginalConflict
  | ErrModulePathMixed
  | ErrCatalogTooLarge
  | ErrInvalidPrefix
  | ErrMutantNotFound
  | ErrAmbiguousPrefix "string list"
  | DisplayCollisionError nat "display_collision list"

definition candidate_identity :: "candidate \<Rightarrow> identity" where
  "candidate_identity c =
     \<lparr>Path = c_Path c, RuleName = Name (c_Rule c), RuleVersion = Version (c_Rule c),
      Span = c_Span c, SourceDigest = c_SourceDigest c, OriginalDigest = digest (c_Original c),
      ReplacementDigest = digest (c_Replacement c), ModulePath = c_ModulePath c\<rparr>"

definition candidate_validate :: "candidate \<Rightarrow> catalog_error option" where
  "candidate_validate c =
     (case rule_validate (c_Rule c) of
        Some err \<Rightarrow> Some (RuleError err)
      | None \<Rightarrow>
          (case identity_validate (candidate_identity c) of
             Some err \<Rightarrow> Some (IdentityError err)
           | None \<Rightarrow>
               if int (length (c_Original c)) \<noteq> uint (span_len (c_Span c)) then Some ErrOriginalLengthMismatch
               else if c_Replacement c = c_Original c then Some ErrNoOpReplacement
               else None))"

definition candidate_id :: "candidate \<Rightarrow> id_error + string" where
  "candidate_id c = identity_id (candidate_identity c)"

definition candidate_where :: "candidate \<Rightarrow> string" where
  "candidate_where c =
     (if c_ModulePath c = [] then c_Path c else c_ModulePath c @ '' '' @ c_Path c)"

record mutant =
  Index :: u32
  ID :: string
  DisplayID :: string
  m_candidate :: candidate

datatype duplicate_reason = DuplicateIdentical | DuplicateShadowed

record duplicate =
  d_Reason :: duplicate_reason
  Dropped :: candidate
  DroppedID :: string
  WinnerID :: string
  WinnerRule :: rule

section \<open>The builder\<close>

text \<open>A file is its module and its path; an original is the text of a span of a file.\<close>

type_synonym file_key = "string \<times> string"

record builder =
  b_registry :: registry
  b_candidates :: "candidate list"
  b_displayLen :: int
  b_digests :: "file_key \<rightharpoonup> string"
  b_originals :: "file_key \<times> span \<rightharpoonup> string"

definition new_builder_with_registry :: "registry \<Rightarrow> builder" where
  "new_builder_with_registry r =
     \<lparr>b_registry = r, b_candidates = [], b_displayLen = int DisplayIDLength,
      b_digests = Map.empty, b_originals = Map.empty\<rparr>"

definition new_builder :: builder where
  "new_builder = new_builder_with_registry canonical_registry"

definition set_display_length :: "builder \<Rightarrow> int \<Rightarrow> builder" where
  "set_display_length b n = b\<lparr>b_displayLen := n\<rparr>"

definition builder_len :: "builder \<Rightarrow> nat" where
  "builder_len b = length (b_candidates b)"

definition candidate_file :: "candidate \<Rightarrow> file_key" where
  "candidate_file c = (c_ModulePath c, c_Path c)"

text \<open>
  \<open>Add\<close>: the error, if any, and the builder as it is left. The digest of the file is
  recorded before the original text of the span is compared.
\<close>

definition builder_add :: "builder \<Rightarrow> candidate \<Rightarrow> catalog_error option \<times> builder" where
  "builder_add b c =
     (case candidate_validate c of
        Some err \<Rightarrow> (Some err, b)
      | None \<Rightarrow>
          (case verify_rule (b_registry b) (c_Rule c) of
             Some err \<Rightarrow> (Some (RuleError err), b)
           | None \<Rightarrow>
               if length (b_candidates b) > 0
                  \<and> (c_ModulePath (hd (b_candidates b)) = []) \<noteq> (c_ModulePath c = [])
               then (Some ErrModulePathMixed, b)
               else
                 (let file = candidate_file c; key = (file, c_Span c) in
                  if b_digests b file \<noteq> None \<and> b_digests b file \<noteq> Some (c_SourceDigest c)
                  then (Some ErrSourceDigestConflict, b)
                  else
                    (let b = b\<lparr>b_digests := (b_digests b)(file \<mapsto> c_SourceDigest c)\<rparr> in
                     if b_originals b key \<noteq> None \<and> b_originals b key \<noteq> Some (c_Original c)
                     then (Some ErrOriginalConflict, b)
                     else (None, b\<lparr>b_originals := (b_originals b)(key \<mapsto> c_Original c),
                                   b_candidates := b_candidates b @ [c]\<rparr>)))))"

fun builder_add_all :: "builder \<Rightarrow> candidate list \<Rightarrow> catalog_error option \<times> builder" where
  "builder_add_all b [] = (None, b)"
| "builder_add_all b (c # cs) =
     (case builder_add b c of
        (Some err, b') \<Rightarrow> (Some err, b')
      | (None, b') \<Rightarrow> builder_add_all b' cs)"

section \<open>Sorting and deduplicating\<close>

record entry =
  e_candidate :: candidate
  e_id :: string
  e_position :: nat

definition make_entry :: "registry \<Rightarrow> candidate \<Rightarrow> catalog_error + entry" where
  "make_entry r c =
     (case candidate_id c of
        Inl err \<Rightarrow> Inl (IdentityError err)
      | Inr i \<Rightarrow>
          (case position r (Name (c_Rule c)) of
             None \<Rightarrow> Inl (RuleError (ErrUnknownRule (Name (c_Rule c))))
           | Some pos \<Rightarrow> Inr \<lparr>e_candidate = c, e_id = i, e_position = pos\<rparr>))"

fun make_entries :: "registry \<Rightarrow> candidate list \<Rightarrow> catalog_error + entry list" where
  "make_entries r [] = Inr []"
| "make_entries r (c # cs) =
     (case make_entry r c of
        Inl err \<Rightarrow> Inl err
      | Inr e \<Rightarrow> (case make_entries r cs of Inl err \<Rightarrow> Inl err | Inr es \<Rightarrow> Inr (e # es)))"

definition compare_entries :: "entry \<Rightarrow> entry \<Rightarrow> int" where
  "compare_entries x y =
     (let cx = e_candidate x; cy = e_candidate y in
      cmp_or (cmp_str (c_ModulePath cx) (c_ModulePath cy))
        (cmp_or (cmp_str (c_Path cx) (c_Path cy))
           (cmp_or (span_compare (c_Span cx) (c_Span cy))
              (cmp_or (cmp_compare (e_position x) (e_position y))
                 (cmp_or (cmp_str (c_Replacement cx) (c_Replacement cy))
                    (cmp_str (e_id x) (e_id y)))))))"

type_synonym dedup_key = "file_key \<times> span \<times> string"

definition entry_key :: "entry \<Rightarrow> dedup_key" where
  "entry_key e =
     (candidate_file (e_candidate e), c_Span (e_candidate e), c_Replacement (e_candidate e))"

definition make_duplicate :: "entry \<Rightarrow> entry \<Rightarrow> duplicate" where
  "make_duplicate winner e =
     \<lparr>d_Reason = (if c_Rule (e_candidate winner) = c_Rule (e_candidate e)
                  then DuplicateIdentical else DuplicateShadowed),
      Dropped = e_candidate e, DroppedID = e_id e, WinnerID = e_id winner,
      WinnerRule = c_Rule (e_candidate winner)\<rparr>"

text \<open>The loop of \<open>dedup\<close>: the winners seen so far, and what is kept and dropped of the rest.\<close>

fun dedup_from :: "(dedup_key \<rightharpoonup> entry) \<Rightarrow> entry list \<Rightarrow> entry list \<times> duplicate list" where
  "dedup_from winners [] = ([], [])"
| "dedup_from winners (e # es) =
     (case winners (entry_key e) of
        None \<Rightarrow>
          (let (kept, dups) = dedup_from (winners(entry_key e \<mapsto> e)) es in (e # kept, dups))
      | Some winner \<Rightarrow>
          (let (kept, dups) = dedup_from winners es in (kept, make_duplicate winner e # dups)))"

definition dedup :: "entry list \<Rightarrow> entry list \<times> duplicate list" where
  "dedup es = dedup_from Map.empty es"

section \<open>Numbering and display identifiers\<close>

definition number_mutants :: "entry list \<Rightarrow> mutant list" where
  "number_mutants kept =
     map (\<lambda>i. \<lparr>Index = of_nat i, ID = e_id (kept ! i), DisplayID = [],
       m_candidate = e_candidate (kept ! i)\<rparr>) [0 ..< length kept]"

definition effective_display_length :: "builder \<Rightarrow> nat" where
  "effective_display_length b =
     (if b_displayLen b \<le> 0 \<or> b_displayLen b > int IDHexLength then DisplayIDLength
      else nat (b_displayLen b))"

text \<open>
  The identifiers grouped by prefix; a map in the code, whose order does not show because
  the collisions are sorted by their distinct prefixes.
\<close>

definition prefix_collisions :: "string list \<Rightarrow> nat \<Rightarrow> display_collision list" where
  "prefix_collisions ids len =
     sort_by (\<lambda>x y. cmp_str (dc_DisplayID x) (dc_DisplayID y))
       (map (\<lambda>short. \<lparr>dc_DisplayID = short,
               dc_IDs = sort_by cmp_str (filter (\<lambda>i. take len i = short) ids)\<rparr>)
          (filter (\<lambda>short. 2 \<le> length (filter (\<lambda>i. take len i = short) ids))
             (remdups (map (take len) ids))))"

definition assign_display_ids :: "mutant list \<Rightarrow> nat \<Rightarrow> catalog_error + mutant list" where
  "assign_display_ids ms len =
     (case prefix_collisions (map ID ms) len of
        [] \<Rightarrow> Inr (map (\<lambda>m. m\<lparr>DisplayID := take len (ID m)\<rparr>) ms)
      | cs \<Rightarrow> Inl (DisplayCollisionError len cs))"

section \<open>The catalog\<close>

record catalog =
  mutants :: "mutant list"
  duplicates :: "duplicate list"
  byID :: "string \<rightharpoonup> nat"
  byDisplayID :: "string \<rightharpoonup> nat"
  displayLen :: nat
  cat_digest :: string

text \<open>A field too long for its prefix would not be written; the error is discarded.\<close>

definition catalog_digest :: "mutant list \<Rightarrow> string" where
  "catalog_digest ms =
     hex_encode (sha256 (concat (map (\<lambda>s. case write_length_prefixed s of Inl _ \<Rightarrow> [] | Inr w \<Rightarrow> w)
       (CatalogDomain # itoa (int (length ms)) # map ID ms))))"

text \<open>The index a loop over the mutants leaves in a map: later positions overwrite.\<close>

definition index_by :: "('a \<Rightarrow> string) \<Rightarrow> 'a list \<Rightarrow> (string \<rightharpoonup> nat)" where
  "index_by key xs = foldl (\<lambda>m i. m(key (xs ! i) \<mapsto> i)) Map.empty [0 ..< length xs]"

definition builder_build :: "builder \<Rightarrow> catalog_error + catalog" where
  "builder_build b =
     (if int (length (b_candidates b)) > 4294967295 then Inl ErrCatalogTooLarge
      else
        (case make_entries (b_registry b) (b_candidates b) of
           Inl err \<Rightarrow> Inl err
         | Inr entries \<Rightarrow>
             (let (kept, dups) = dedup (sort_by compare_entries entries);
                  len = effective_display_length b
              in case assign_display_ids (number_mutants kept) len of
                   Inl err \<Rightarrow> Inl err
                 | Inr ms \<Rightarrow>
                     Inr \<lparr>mutants = ms, duplicates = dups, byID = index_by ID ms,
                          byDisplayID = index_by DisplayID ms, displayLen = len,
                          cat_digest = catalog_digest ms\<rparr>)))"

definition catalog_len :: "catalog \<Rightarrow> nat" where
  "catalog_len c = length (mutants c)"

definition catalog_empty :: "catalog \<Rightarrow> bool" where
  "catalog_empty c \<longleftrightarrow> length (mutants c) = 0"

definition catalog_at :: "catalog \<Rightarrow> int \<Rightarrow> mutant option" where
  "catalog_at c i =
     (if i < 0 \<or> i \<ge> int (length (mutants c)) then None else Some (mutants c ! nat i))"

definition by_index :: "catalog \<Rightarrow> u32 \<Rightarrow> mutant option" where
  "by_index c i = (if uint i \<ge> int (length (mutants c)) then None else Some (mutants c ! unat i))"

definition by_id :: "catalog \<Rightarrow> string \<Rightarrow> mutant option" where
  "by_id c i = (case byID c i of None \<Rightarrow> None | Some k \<Rightarrow> Some (mutants c ! k))"

definition by_display_id :: "catalog \<Rightarrow> string \<Rightarrow> mutant option" where
  "by_display_id c i = (case byDisplayID c i of None \<Rightarrow> None | Some k \<Rightarrow> Some (mutants c ! k))"

definition resolve_prefix :: "catalog \<Rightarrow> string \<Rightarrow> catalog_error + mutant" where
  "resolve_prefix c prefix =
     (if length prefix < MinPrefixLength \<or> length prefix > IDHexLength
         \<or> \<not> is_lower_hex_prefix prefix
      then Inl ErrInvalidPrefix
      else
        (case filter (\<lambda>m. has_prefix (ID m) prefix) (mutants c) of
           [] \<Rightarrow> Inl ErrMutantNotFound
         | [m] \<Rightarrow> Inr m
         | matches \<Rightarrow> Inl (ErrAmbiguousPrefix (map DisplayID matches))))"

section \<open>What the builder accepts\<close>

definition candidate_ok :: "registry \<Rightarrow> candidate \<Rightarrow> bool" where
  "candidate_ok r c \<longleftrightarrow> candidate_validate c = None \<and> verify_rule r (c_Rule c) = None"

text \<open>Two candidates that do not contradict each other.\<close>

definition agree :: "candidate \<Rightarrow> candidate \<Rightarrow> bool" where
  "agree a b \<longleftrightarrow> (c_ModulePath a = []) = (c_ModulePath b = [])
     \<and> (candidate_file a = candidate_file b \<longrightarrow> c_SourceDigest a = c_SourceDigest b
        \<and> (c_Span a = c_Span b \<longrightarrow> c_Original a = c_Original b))"

definition coherent :: "candidate list \<Rightarrow> bool" where
  "coherent cs \<longleftrightarrow> (\<forall>a \<in> set cs. \<forall>b \<in> set cs. agree a b)"

definition builder_inv :: "builder \<Rightarrow> bool" where
  "builder_inv b \<longleftrightarrow>
     (\<forall>f d. b_digests b f = Some d \<longleftrightarrow>
        (\<exists>c \<in> set (b_candidates b). candidate_file c = f \<and> c_SourceDigest c = d))
     \<and> (\<forall>f s t. b_originals b (f, s) = Some t \<longleftrightarrow>
        (\<exists>c \<in> set (b_candidates b). candidate_file c = f \<and> c_Span c = s \<and> c_Original c = t))
     \<and> coherent (b_candidates b)
     \<and> list_all (candidate_ok (b_registry b)) (b_candidates b)"

lemma agree_sym: "agree a b \<longleftrightarrow> agree b a"
  by (auto simp: agree_def)

lemma agree_refl [simp]: "agree a a"
  by (simp add: agree_def)

lemma coherent_snoc: "coherent (cs @ [c]) \<longleftrightarrow> coherent cs \<and> (\<forall>a \<in> set cs. agree a c)"
  by (auto simp: coherent_def) (metis agree_sym)

lemma coherent_perm: "mset cs = mset ds \<Longrightarrow> coherent cs = coherent ds"
  unfolding coherent_def by (metis set_mset_mset)

lemma coherent_append: "coherent (cs @ ds) \<Longrightarrow> coherent cs"
  by (auto simp: coherent_def)

lemma agree_modules:
  assumes "coherent cs" and "cs \<noteq> []"
  shows "(\<forall>a \<in> set cs. (c_ModulePath a = []) = m) \<longleftrightarrow> (c_ModulePath (hd cs) = []) = m"
proof -
  have hd: "hd cs \<in> set cs" using assms(2) by simp
  have "(c_ModulePath a = []) = (c_ModulePath (hd cs) = [])" if "a \<in> set cs" for a
    using assms(1) hd that unfolding coherent_def agree_def by blast
  with hd show ?thesis by blast
qed

lemma agree_iff:
  "agree a c \<longleftrightarrow> (c_ModulePath a = []) = (c_ModulePath c = [])
     \<and> \<not> (candidate_file a = candidate_file c \<and> c_SourceDigest a \<noteq> c_SourceDigest c)
     \<and> \<not> (candidate_file a = candidate_file c \<and> c_Span a = c_Span c \<and> c_Original a \<noteq> c_Original c)"
  unfolding agree_def by blast

lemma recorded_conflict:
  assumes "\<And>d. m = Some d \<longleftrightarrow> (\<exists>a \<in> S. P a \<and> g a = d)"
  shows "(m \<noteq> None \<and> m \<noteq> Some x) \<longleftrightarrow> (\<exists>a \<in> S. P a \<and> g a \<noteq> x)"
proof (cases m)
  case None
  then have "\<not> P a" if "a \<in> S" for a using assms [of "g a"] that by auto
  with None show ?thesis by blast
next
  case (Some d)
  then have "P a \<Longrightarrow> g a = d" if "a \<in> S" for a using assms [of "g a"] that by auto
  moreover obtain a where "a \<in> S" "P a" "g a = d" using Some assms by blast
  ultimately show ?thesis using Some by auto
qed

lemma builder_inv_new: "builder_inv (new_builder_with_registry r)"
  by (simp add: builder_inv_def new_builder_with_registry_def coherent_def)

definition acceptable :: "builder \<Rightarrow> candidate \<Rightarrow> bool" where
  "acceptable b c \<longleftrightarrow>
     candidate_ok (b_registry b) c \<and> (\<forall>a \<in> set (b_candidates b). agree a c)"

text \<open>
  \<open>Add\<close> appends a candidate exactly when it is valid and agrees with those already there; a
  refused candidate leaves the builder as it was.
\<close>

lemma builder_add_spec:
  assumes inv: "builder_inv b"
  shows "(case builder_add b c of
            (Some err, b') \<Rightarrow> b' = b \<and> \<not> acceptable b c
          | (None, b') \<Rightarrow> acceptable b c \<and> builder_inv b' \<and> b_candidates b' = b_candidates b @ [c]
              \<and> b_registry b' = b_registry b \<and> b_displayLen b' = b_displayLen b)"
proof -
  let ?cs = "b_candidates b" and ?file = "candidate_file c"
  let ?key = "(?file, c_Span c)"
  have digests: "b_digests b f = Some d \<longleftrightarrow> (\<exists>a \<in> set ?cs. candidate_file a = f \<and> c_SourceDigest a = d)"
    and originals: "b_originals b (f, s) = Some t \<longleftrightarrow>
      (\<exists>a \<in> set ?cs. candidate_file a = f \<and> c_Span a = s \<and> c_Original a = t)" for f d s t
    using inv unfolding builder_inv_def by blast+
  have coh: "coherent ?cs" and oks: "list_all (candidate_ok (b_registry b)) ?cs"
    using inv unfolding builder_inv_def by blast+
  define mixed where "mixed \<longleftrightarrow> length ?cs > 0 \<and> (c_ModulePath (hd ?cs) = []) \<noteq> (c_ModulePath c = [])"
  define dconf where "dconf \<longleftrightarrow> b_digests b ?file \<noteq> None \<and> b_digests b ?file \<noteq> Some (c_SourceDigest c)"
  define oconf where "oconf \<longleftrightarrow> b_originals b ?key \<noteq> None \<and> b_originals b ?key \<noteq> Some (c_Original c)"
  have mixed: "mixed \<longleftrightarrow> \<not> (\<forall>a \<in> set ?cs. (c_ModulePath a = []) = (c_ModulePath c = []))"
    using agree_modules [OF coh] unfolding mixed_def by (cases "?cs = []") auto
  have dconf: "dconf \<longleftrightarrow> (\<exists>a \<in> set ?cs. candidate_file a = ?file \<and> c_SourceDigest a \<noteq> c_SourceDigest c)"
    unfolding dconf_def by (rule recorded_conflict) (rule digests)
  have oconf: "oconf \<longleftrightarrow> (\<exists>a \<in> set ?cs. candidate_file a = ?file \<and> c_Span a = c_Span c \<and> c_Original a \<noteq> c_Original c)"
    unfolding oconf_def conj_assoc [symmetric] by (rule recorded_conflict) (simp add: originals)
  have acc: "acceptable b c \<longleftrightarrow> candidate_ok (b_registry b) c \<and> \<not> mixed \<and> \<not> dconf \<and> \<not> oconf"
    unfolding acceptable_def mixed dconf oconf agree_iff ball_conj_distrib by simp
  let ?b = "b\<lparr>b_digests := (b_digests b)(?file \<mapsto> c_SourceDigest c)\<rparr>"
  let ?b' = "?b\<lparr>b_originals := (b_originals b)(?key \<mapsto> c_Original c), b_candidates := ?cs @ [c]\<rparr>"
  have same: "?b = b" if "oconf" "\<not> dconf"
  proof -
    have "b_digests b ?file = Some (c_SourceDigest c)"
      using that unfolding oconf dconf digests by blast
    then have "(b_digests b)(?file \<mapsto> c_SourceDigest c) = b_digests b" by auto
    then show ?thesis by simp
  qed
  have inv': "builder_inv ?b'" if "acceptable b c"
  proof -
    have "coherent (?cs @ [c])" using coh that coherent_snoc unfolding acceptable_def by blast
    moreover have "list_all (candidate_ok (b_registry b)) (?cs @ [c])"
      using oks that by (simp add: acceptable_def)
    moreover have "((b_digests b)(?file \<mapsto> c_SourceDigest c)) f = Some d
        \<longleftrightarrow> (\<exists>a \<in> set (?cs @ [c]). candidate_file a = f \<and> c_SourceDigest a = d)" for f d
      using digests [of f d] that unfolding acceptable_def agree_def by (cases "f = ?file") auto
    moreover have "((b_originals b)(?key \<mapsto> c_Original c)) (f, s) = Some t
        \<longleftrightarrow> (\<exists>a \<in> set (?cs @ [c]). candidate_file a = f \<and> c_Span a = s \<and> c_Original a = t)" for f s t
      using originals [of f s t] that unfolding acceptable_def agree_def
      by (cases "f = ?file \<and> s = c_Span c") auto
    ultimately show ?thesis unfolding builder_inv_def by simp
  qed
  have step: "builder_add b c =
    (case candidate_validate c of Some err \<Rightarrow> (Some err, b)
     | None \<Rightarrow> (case verify_rule (b_registry b) (c_Rule c) of Some err \<Rightarrow> (Some (RuleError err), b)
       | None \<Rightarrow> if mixed then (Some ErrModulePathMixed, b)
           else if dconf then (Some ErrSourceDigestConflict, b)
           else if oconf then (Some ErrOriginalConflict, ?b) else (None, ?b')))"
    unfolding builder_add_def mixed_def dconf_def oconf_def Let_def by (simp cong: option.case_cong if_cong)
  show ?thesis
    unfolding step using acc same inv' by (auto simp: candidate_ok_def split: option.split)
qed

lemma builder_add_all_spec:
  assumes "builder_inv b"
  shows "(case builder_add_all b cs of
            (Some err, b') \<Rightarrow> \<not> (list_all (candidate_ok (b_registry b)) cs \<and> coherent (b_candidates b @ cs))
          | (None, b') \<Rightarrow> list_all (candidate_ok (b_registry b)) cs \<and> coherent (b_candidates b @ cs)
              \<and> builder_inv b' \<and> b_candidates b' = b_candidates b @ cs
              \<and> b_registry b' = b_registry b \<and> b_displayLen b' = b_displayLen b)"
  using assms
proof (induction cs arbitrary: b)
  case Nil
  then show ?case by (simp add: builder_inv_def)
next
  case (Cons c cs)
  obtain e b1 where add: "builder_add b c = (e, b1)" by fastforce
  note spec = builder_add_spec [OF Cons.prems, of c, unfolded add]
  show ?case
  proof (cases e)
    case (Some err)
    then have "\<not> (candidate_ok (b_registry b) c \<and> coherent (b_candidates b @ [c]))"
      using spec Cons.prems by (auto simp: coherent_snoc builder_inv_def acceptable_def)
    then have "\<not> (list_all (candidate_ok (b_registry b)) (c # cs) \<and> coherent (b_candidates b @ c # cs))"
      using coherent_append [of "b_candidates b @ [c]" cs] by auto
    then show ?thesis using add Some by simp
  next
    case None
    then have "builder_inv b1" and b1: "b_candidates b1 = b_candidates b @ [c]"
      "b_registry b1 = b_registry b" "b_displayLen b1 = b_displayLen b" "candidate_ok (b_registry b) c"
      using spec by (auto simp: acceptable_def)
    from Cons.IH [OF this(1)] show ?thesis using add None b1 by (auto split: prod.splits option.splits)
  qed
qed

section \<open>The order of entries\<close>

lemma span_compare_comparator: "comparator span_compare"
  by (rule span_order.comparator_axioms)

interpretation entry_order: comparator compare_entries
proof -
  have str: "comparator cmp_str" by (rule cmp_string.comparator_axioms)
  have pos: "comparator (cmp_compare :: nat comparator)" by (rule cmp_ord.comparator_axioms)
  note on = comparator_on [OF str, of "\<lambda>e. c_ModulePath (e_candidate e)"]
    comparator_on [OF str, of "\<lambda>e. c_Path (e_candidate e)"]
    comparator_on [OF span_compare_comparator, of "\<lambda>e. c_Span (e_candidate e)"]
    comparator_on [OF pos, of e_position]
    comparator_on [OF str, of "\<lambda>e. c_Replacement (e_candidate e)"]
    comparator_on [OF str, of e_id]
  have "comparator (\<lambda>x y. compare_entries x y)"
    unfolding compare_entries_def Let_def
    by (rule comparator_or [OF on(1) comparator_or [OF on(2) comparator_or [OF on(3)
          comparator_or [OF on(4) comparator_or [OF on(5) on(6)]]]]])
  then show "comparator compare_entries" by simp
qed

lemma compare_entries_zero:
  assumes "compare_entries x y = 0"
  shows "entry_key x = entry_key y" "e_position x = e_position y" "e_id x = e_id y"
  using assms
  by (auto simp: compare_entries_def Let_def cmp_str_eq go_simps entry_key_def candidate_file_def
      span_order.cmp_zero_iff)

text \<open>The entries of a coherent list of registered candidates tie only if they are equal.\<close>

definition entry_of :: "registry \<Rightarrow> candidate \<Rightarrow> entry" where
  "entry_of r c =
     \<lparr>e_candidate = c,
      e_id = hex_encode (sha256 (framed (identity_fields (candidate_identity c)))),
      e_position = (case position r (Name (c_Rule c)) of Some i \<Rightarrow> i | None \<Rightarrow> 0)\<rparr>"

definition id_fits :: "candidate \<Rightarrow> bool" where
  "id_fits c \<longleftrightarrow> fields_fit (identity_fields (candidate_identity c))"

lemma entry_of_candidate [simp]: "e_candidate (entry_of r c) = c"
  by (simp add: entry_of_def)

lemma candidate_ok_identity: "candidate_ok r c \<Longrightarrow> identity_validate (candidate_identity c) = None"
  by (auto simp: candidate_ok_def candidate_validate_def split: option.splits)

lemma candidate_ok_lookup: "candidate_ok r c \<Longrightarrow> lookup r (Name (c_Rule c)) = Some (c_Rule c)"
  by (auto simp: candidate_ok_def verify_rule_def split: option.splits if_splits)

lemma make_entry_ok:
  assumes inv: "reg_inv r (reg_rules r)" and ok: "candidate_ok r c"
  shows "make_entry r c = (if id_fits c then Inr (entry_of r c) else Inl (IdentityError ErrFieldTooLong))"
proof -
  have "lookup r (Name (c_Rule c)) \<noteq> None" using candidate_ok_lookup [OF ok] by simp
  then obtain i where i: "position r (Name (c_Rule c)) = Some i"
    using rule_registry.look_pos [OF registry_contract [OF inv]] by auto
  have "candidate_id c = (if id_fits c then Inr (e_id (entry_of r c)) else Inl ErrFieldTooLong)"
    using candidate_ok_identity [OF ok]
    by (simp add: candidate_id_def identity_id_def write_fields_framed id_fits_def entry_of_def)
  with i show ?thesis by (simp add: make_entry_def entry_of_def)
qed

lemma make_entries_ok:
  assumes inv: "reg_inv r (reg_rules r)" and "list_all (candidate_ok r) cs"
  shows "make_entries r cs =
    (if list_all id_fits cs then Inr (map (entry_of r) cs) else Inl (IdentityError ErrFieldTooLong))"
  using assms(2) by (induction cs) (auto simp: make_entry_ok [OF inv])

lemma entry_tie:
  assumes inv: "reg_inv r (reg_rules r)"
    and ok: "candidate_ok r c" "candidate_ok r d" and ag: "agree c d"
    and tie: "compare_entries (entry_of r c) (entry_of r d) = 0"
  shows "c = d"
proof -
  have key: "candidate_file c = candidate_file d" "c_Span c = c_Span d" "c_Replacement c = c_Replacement d"
    using compare_entries_zero(1) [OF tie] by (simp_all add: entry_key_def)
  have lk: "lookup r (Name (c_Rule c)) = Some (c_Rule c)" "lookup r (Name (c_Rule d)) = Some (c_Rule d)"
    using ok candidate_ok_lookup by blast+
  obtain i j where ij: "position r (Name (c_Rule c)) = Some i" "position r (Name (c_Rule d)) = Some j"
    using rule_registry.look_Some_pos [OF registry_contract [OF inv]] lk by meson
  then have "i = j" using compare_entries_zero(2) [OF tie] by (simp add: entry_of_def)
  with ij(2) have "position r (Name (c_Rule d)) = Some i" by simp
  from rule_registry.pos_inject [OF registry_contract [OF inv] ij(1) this]
  have rule: "c_Rule c = c_Rule d" using lk by (metis option.inject)
  have "c_SourceDigest c = c_SourceDigest d" "c_Original c = c_Original d"
    using ag key by (simp_all add: agree_def)
  then show ?thesis using key rule by (simp add: candidate_file_def candidate.equality)
qed

section \<open>Deduplication\<close>

definition winners_ok :: "(dedup_key \<rightharpoonup> entry) \<Rightarrow> bool" where
  "winners_ok w \<longleftrightarrow> (\<forall>k e. w k = Some e \<longrightarrow> entry_key e = k)"

lemma dedup_from_mset:
  "dedup_from w es = (kept, dups) \<Longrightarrow>
     mset (map e_candidate kept) + mset (map Dropped dups) = mset (map e_candidate es)"
proof (induction es arbitrary: w kept dups)
  case (Cons e es)
  then show ?case
    by (fastforce simp: make_duplicate_def split: option.splits prod.splits)
qed simp

lemma dedup_from_kept:
  "dedup_from w es = (kept, dups) \<Longrightarrow>
     set kept \<subseteq> set es \<and> distinct (map entry_key kept) \<and> entry_key ` set kept \<inter> dom w = {}"
proof (induction es arbitrary: w kept dups)
  case (Cons e es)
  show ?case
  proof (cases "w (entry_key e)")
    case None
    then obtain k where k: "dedup_from (w(entry_key e \<mapsto> e)) es = (k, dups)" "kept = e # k"
      using Cons.prems by (auto split: prod.splits)
    from Cons.IH [OF k(1)] None show ?thesis unfolding k(2) by auto
  next
    case (Some v)
    then obtain ds where "dedup_from w es = (kept, ds)" using Cons.prems by (auto split: prod.splits)
    from Cons.IH [OF this] show ?thesis by auto
  qed
qed simp

lemma dedup_from_sorted:
  "dedup_from w es = (kept, dups) \<Longrightarrow> sorted_wrt P es \<Longrightarrow> sorted_wrt P kept"
proof (induction es arbitrary: w kept dups)
  case (Cons e es)
  show ?case
  proof (cases "w (entry_key e)")
    case None
    then obtain k where k: "dedup_from (w(entry_key e \<mapsto> e)) es = (k, dups)" "kept = e # k"
      using Cons.prems by (auto split: prod.splits)
    then show ?thesis using Cons.IH [OF k(1)] Cons.prems(2) dedup_from_kept [OF k(1)] by auto
  next
    case (Some v)
    then obtain ds where "dedup_from w es = (kept, ds)" using Cons.prems by (auto split: prod.splits)
    from Cons.IH [OF this] Cons.prems(2) show ?thesis by simp
  qed
qed simp

text \<open>Every dropped entry has a winner of its key that comes before it in the order.\<close>

lemma dedup_from_winner:
  assumes "dedup_from w es = (kept, dups)" and "winners_ok w" and "sorted_wrt P es"
    and "\<And>v e. v \<in> ran w \<Longrightarrow> e \<in> set es \<Longrightarrow> P v e" and "d \<in> set dups"
  shows "\<exists>v e. v \<in> ran w \<union> set kept \<and> e \<in> set es \<and> entry_key v = entry_key e \<and> P v e
    \<and> d = make_duplicate v e"
  using assms
proof (induction es arbitrary: w kept dups)
  case (Cons e es)
  show ?case
  proof (cases "w (entry_key e)")
    case None
    let ?w = "w(entry_key e \<mapsto> e)"
    obtain k where k: "dedup_from ?w es = (k, dups)" "kept = e # k"
      using Cons.prems(1) None by (auto split: prod.splits)
    have ok: "winners_ok ?w" using Cons.prems(2) by (simp add: winners_ok_def)
    have ran: "ran ?w = insert e (ran w)" using None by simp
    have "P v x" if "v \<in> ran ?w" "x \<in> set es" for v x
      using that Cons.prems(3,4) unfolding ran by auto
    from Cons.IH [OF k(1) ok _ this Cons.prems(5)] Cons.prems(3) show ?thesis
      unfolding ran k(2) by auto
  next
    case (Some v)
    then obtain ds where ds: "dedup_from w es = (kept, ds)" "dups = make_duplicate v e # ds"
      using Cons.prems(1) by (auto split: prod.splits)
    have v: "entry_key v = entry_key e" "v \<in> ran w"
      using Some Cons.prems(2) unfolding winners_ok_def by (blast, blast intro: ranI)
    show ?thesis
    proof (cases "d = make_duplicate v e")
      case True
      then show ?thesis using v Cons.prems(4) by auto
    next
      case False
      then have "d \<in> set ds" using Cons.prems(5) ds(2) by simp
      from Cons.IH [OF ds(1) Cons.prems(2) _ _ this] Cons.prems(3,4) show ?thesis by auto
    qed
  qed
qed simp

lemma dedup_winner:
  assumes "dedup es = (kept, dups)" and "sorted_wrt P es" and "d \<in> set dups"
  shows "\<exists>v e. v \<in> set kept \<and> e \<in> set es \<and> entry_key v = entry_key e \<and> P v e \<and> d = make_duplicate v e"
  using dedup_from_winner [of Map.empty es kept dups P d] assms
  by (simp add: dedup_def winners_ok_def)

section \<open>Display identifiers and indexes\<close>

lemma distinct_filter_length:
  "distinct ys \<longleftrightarrow> list_all (\<lambda>y. length (filter (\<lambda>x. x = y) ys) < 2) ys"
proof -
  have "length (filter (\<lambda>x. x = y) ys) = count (mset ys) y" for y
    by (induction ys) auto
  moreover have "(count (mset ys) y = (if y \<in> set ys then 1 else 0)) \<longleftrightarrow> (y \<in> set ys \<longrightarrow> count (mset ys) y < 2)"
    for y
  proof (cases "y \<in> set ys")
    case True
    then have "0 < count (mset ys) y" by simp
    then have "count (mset ys) y < 2 \<longleftrightarrow> count (mset ys) y = 1" by linarith
    with True show ?thesis by simp
  next
    case False
    then show ?thesis by (simp add: count_eq_zero_iff)
  qed
  ultimately show ?thesis unfolding distinct_count_atmost_1 list_all_iff by (simp add: Ball_def)
qed

lemma prefix_collisions_Nil:
  "prefix_collisions ids len = [] \<longleftrightarrow> distinct (map (take len) ids)"
proof -
  have len: "length (filter (\<lambda>x. x = s) (map (take len) ids)) = length (filter (\<lambda>i. take len i = s) ids)" for s
    by (simp add: filter_map o_def)
  show ?thesis
    unfolding distinct_filter_length [of "map (take len) ids"] len
    by (auto simp: prefix_collisions_def filter_empty_conv list_all_iff)
qed

lemma index_by_iff:
  assumes "distinct (map key xs)"
  shows "index_by key xs k = Some i \<longleftrightarrow> i < length xs \<and> key (xs ! i) = k"
proof -
  have "foldl (\<lambda>m i. m(key (xs ! i) \<mapsto> i)) Map.empty [0 ..< n] k = Some i
      \<longleftrightarrow> i < n \<and> key (xs ! i) = k" if "n \<le> length xs" for n
    using that
  proof (induction n)
    case (Suc n)
    have "key (xs ! i) \<noteq> key (xs ! n)" if "i < n"
      using that Suc.prems assms by (simp add: distinct_conv_nth)
    then show ?case using Suc by (auto simp: less_Suc_eq)
  qed simp
  then show ?thesis by (simp add: index_by_def)
qed

section \<open>The catalog that is built\<close>

lemma new_builder_inv: "builder_inv new_builder" and new_builder_simps [simp]:
  "b_registry new_builder = canonical_registry" "b_candidates new_builder = []"
  "b_displayLen new_builder = 20"
  by (simp_all add: new_builder_def builder_inv_new)
    (simp_all add: new_builder_with_registry_def DisplayIDLength_def)

lemma canonical_reg: "reg_inv canonical_registry (reg_rules canonical_registry)"
  by (rule canonical_inv)

text \<open>
  A fresh builder accepts a list of candidates exactly when each is valid and registered
  and no two contradict each other (on the source digest of a file, the original text of a
  span, or on naming a module at all); it then holds them in the order given.
\<close>

theorem builder_accepts:
  "(case builder_add_all new_builder cs of
      (Some err, b) \<Rightarrow> \<not> (list_all (candidate_ok canonical_registry) cs \<and> coherent cs)
    | (None, b) \<Rightarrow> list_all (candidate_ok canonical_registry) cs \<and> coherent cs
        \<and> b_candidates b = cs \<and> builder_inv b)"
  using builder_add_all_spec [OF new_builder_inv, of cs] by (auto split: prod.splits option.splits)

lemma added_all:
  "builder_add_all new_builder cs = (None, b) \<longleftrightarrow>
     list_all (candidate_ok canonical_registry) cs \<and> coherent cs \<and> b = snd (builder_add_all new_builder cs)"
  using builder_add_all_spec [OF new_builder_inv, of cs]
  by (cases "builder_add_all new_builder cs") (auto split: option.splits)

lemma added_fields:
  assumes "builder_add_all new_builder cs = (None, b)"
  shows "b_candidates b = cs" "b_registry b = canonical_registry" "b_displayLen b = 20" "builder_inv b"
    "list_all (candidate_ok canonical_registry) cs" "coherent cs"
  using builder_add_all_spec [OF new_builder_inv, of cs] assms by auto

definition built_kept :: "candidate list \<Rightarrow> entry list" where
  "built_kept cs = fst (dedup (sort_by compare_entries (map (entry_of canonical_registry) cs)))"

definition built_dups :: "candidate list \<Rightarrow> duplicate list" where
  "built_dups cs = snd (dedup (sort_by compare_entries (map (entry_of canonical_registry) cs)))"

lemma build_added:
  assumes "builder_add_all new_builder cs = (None, b)"
  shows "builder_build b =
    (if int (length cs) > 4294967295 then Inl ErrCatalogTooLarge
     else if \<not> list_all id_fits cs then Inl (IdentityError ErrFieldTooLong)
     else case assign_display_ids (number_mutants (built_kept cs)) 20 of
            Inl err \<Rightarrow> Inl err
          | Inr ms \<Rightarrow> Inr \<lparr>mutants = ms, duplicates = built_dups cs, byID = index_by ID ms,
              byDisplayID = index_by DisplayID ms, displayLen = 20, cat_digest = catalog_digest ms\<rparr>)"
  using added_fields [OF assms] make_entries_ok [OF canonical_reg added_fields(5) [OF assms]]
  by (simp add: builder_build_def effective_display_length_def IDHexLength_def built_kept_def
      built_dups_def case_prod_beta Let_def split: sum.split)

lemma built_perm:
  assumes "mset cs = mset ds" and "list_all (candidate_ok canonical_registry) cs" and "coherent cs"
  shows "built_kept cs = built_kept ds" and "built_dups cs = built_dups ds"
proof -
  let ?e = "entry_of canonical_registry"
  have "sort_by compare_entries (map ?e cs) = sort_by compare_entries (map ?e ds)"
  proof (rule entry_order.sort_by_perm_on)
    show "mset (map ?e cs) = mset (map ?e ds)" using assms(1) by simp
    fix x y assume "x \<in> set (map ?e cs)" "y \<in> set (map ?e cs)" and tie: "compare_entries x y = 0"
    then obtain c d where cd: "c \<in> set cs" "d \<in> set cs" "x = ?e c" "y = ?e d" by auto
    then have "candidate_ok canonical_registry c" "candidate_ok canonical_registry d" "agree c d"
      using assms(2,3) by (auto simp: list_all_iff coherent_def)
    from entry_tie [OF canonical_reg this] tie cd show "x = y" by simp
  qed
  then show "built_kept cs = built_kept ds" "built_dups cs = built_dups ds"
    by (simp_all add: built_kept_def built_dups_def)
qed

text \<open>
  C2. The catalog is a function of its candidates, not of the order in which they arrive:
  when a builder accepts a list it accepts every permutation of it, and both build the same
  catalog, or fail with the same error. No assumption on the hash is needed, because the
  checks of the builder leave only equal candidates to tie in the order.
\<close>

theorem catalog_order_independent:
  assumes "mset cs = mset ds"
  shows "(case builder_add_all new_builder cs of
            (Some err, b) \<Rightarrow> fst (builder_add_all new_builder ds) \<noteq> None
          | (None, b) \<Rightarrow> fst (builder_add_all new_builder ds) = None
              \<and> builder_build (snd (builder_add_all new_builder ds)) = builder_build b)"
proof -
  have sets: "set cs = set ds" and len: "length cs = length ds"
    using assms by (metis set_mset_mset, metis size_mset)
  have all: "list_all P cs = list_all P ds" for P using sets by (simp add: list_all_iff)
  obtain e b where cs: "builder_add_all new_builder cs = (e, b)" by fastforce
  obtain e' b' where ds: "builder_add_all new_builder ds = (e', b')" by fastforce
  have ok: "e = None \<longleftrightarrow> list_all (candidate_ok canonical_registry) cs \<and> coherent cs"
    using added_all [of cs b] cs by (cases e) auto
  have ok': "e' = None \<longleftrightarrow> list_all (candidate_ok canonical_registry) ds \<and> coherent ds"
    using added_all [of ds b'] ds by (cases e') auto
  have same: "e = None \<longleftrightarrow> e' = None"
    unfolding ok ok' all [of "candidate_ok canonical_registry"] coherent_perm [OF assms] ..
  show ?thesis
  proof (cases e)
    case None
    then have n: "e' = None" using same by simp
    note c = added_fields(5,6) [OF cs [unfolded None]]
    have "builder_build b' = builder_build b"
      unfolding build_added [OF ds [unfolded n]] build_added [OF cs [unfolded None]]
      by (simp add: len all [of id_fits] built_perm [OF assms c] split: sum.split)
    then show ?thesis by (simp add: cs ds None n)
  next
    case (Some err)
    then show ?thesis using same by (simp add: cs ds)
  qed
qed

section \<open>Lookups\<close>

lemma number_mutants_ids [simp]: "map ID (number_mutants kept) = map e_id kept"
  by (rule nth_equalityI) (simp_all add: number_mutants_def)

lemma assign_display_Inr:
  "assign_display_ids ms len = Inr ms' \<longleftrightarrow>
     distinct (map (take len \<circ> ID) ms) \<and> ms' = map (\<lambda>m. m\<lparr>DisplayID := take len (ID m)\<rparr>) ms"
  using prefix_collisions_Nil [of "map ID ms" len]
  by (auto simp: assign_display_ids_def split: list.splits)

lemma distinct_take_ID:
  assumes "distinct (map (take len \<circ> ID) ms)" shows "distinct (map ID ms)"
proof -
  have "map (take len \<circ> ID) ms = map (take len) (map ID ms)" by simp
  with assms show ?thesis by (simp only: distinct_map)
qed

lemma make_entries_ids:
  "make_entries r cs = Inr es \<Longrightarrow> list_all (\<lambda>e. is_id (e_id e)) es \<and> length es = length cs"
proof (induction cs arbitrary: es)
  case (Cons c cs)
  then show ?case
    by (auto simp: make_entry_def candidate_id_def identity_id_Inr hex_sha_is_id split: sum.splits option.splits)
qed simp

lemma dedup_length: "dedup_from w es = (kept, dups) \<Longrightarrow> length kept \<le> length es"
proof (induction es arbitrary: w kept dups)
  case (Cons e es)
  then show ?case by (fastforce split: option.splits prod.splits)
qed simp

text \<open>What every catalog has, whatever the builder.\<close>

definition catalog_ok :: "catalog \<Rightarrow> bool" where
  "catalog_ok c \<longleftrightarrow>
     map Index (mutants c) = map of_nat [0 ..< length (mutants c)]
     \<and> int (length (mutants c)) \<le> 4294967295
     \<and> distinct (map ID (mutants c)) \<and> distinct (map DisplayID (mutants c))
     \<and> list_all (\<lambda>m. is_id (ID m) \<and> DisplayID m = take (displayLen c) (ID m)) (mutants c)
     \<and> byID c = index_by ID (mutants c) \<and> byDisplayID c = index_by DisplayID (mutants c)"

lemma build_catalog_ok: assumes "builder_build b = Inr c" shows "catalog_ok c"
proof -
  obtain es kept dups where es: "make_entries (b_registry b) (b_candidates b) = Inr es"
    and d: "dedup (sort_by compare_entries es) = (kept, dups)"
    and big: "int (length (b_candidates b)) \<le> 4294967295"
    using assms by (auto simp: builder_build_def Let_def split: if_splits sum.splits prod.splits)
  let ?len = "effective_display_length b" and ?ms = "number_mutants kept"
  let ?ds = "map (\<lambda>m. m\<lparr>DisplayID := take ?len (ID m)\<rparr>) ?ms"
  have "assign_display_ids ?ms ?len = Inr (mutants c)" and
    c: "displayLen c = ?len" "byID c = index_by ID (mutants c)" "byDisplayID c = index_by DisplayID (mutants c)"
    using assms es d big by (auto simp: builder_build_def Let_def split: sum.splits)
  then have dist: "distinct (map (take ?len \<circ> ID) ?ms)" and ms: "mutants c = ?ds"
    by (simp_all add: assign_display_Inr)
  have kept: "set kept \<subseteq> set es" "length kept \<le> length es"
    using dedup_from_kept dedup_length d by (fastforce simp: dedup_def)+
  have len: "length ?ms = length kept" by (simp add: number_mutants_def)
  have ids: "map ID ?ds = map ID ?ms" and disp: "map DisplayID ?ds = map (take ?len \<circ> ID) ?ms"
    by (simp_all add: o_def del: number_mutants_ids)
  have "is_id (e_id (kept ! i))" if "i < length kept" for i
    using make_entries_ids [OF es] kept(1) nth_mem [OF that] by (auto simp: list_all_iff)
  then have "list_all (\<lambda>m. is_id (ID m)) ?ms"
    by (auto simp: list_all_iff number_mutants_def)
  then have shape: "list_all (\<lambda>m. is_id (ID m) \<and> DisplayID m = take ?len (ID m)) ?ds"
    by (simp add: list_all_iff)
  have idx: "map Index ?ds = map of_nat [0 ..< length ?ds]"
    by (rule nth_equalityI) (simp_all add: number_mutants_def)
  have "length es = length (b_candidates b)" using make_entries_ids [OF es] by simp
  with kept(2) len big have "int (length ?ds) \<le> 4294967295" by simp
  moreover have "distinct (map ID ?ds)" unfolding ids by (rule distinct_take_ID [OF dist])
  moreover have "distinct (map DisplayID ?ds)" unfolding disp by (rule dist)
  ultimately show ?thesis
    unfolding catalog_ok_def c ms using idx shape by blast
qed

lemma filter_eq_single: "distinct xs \<Longrightarrow> x \<in> set xs \<Longrightarrow> filter (\<lambda>y. y = x) xs = [x]"
  by (induction xs) (auto simp: filter_empty_conv)

lemma indexed_lookup:
  assumes "distinct (map key xs)"
  shows "(case index_by key xs k of None \<Rightarrow> None | Some i \<Rightarrow> Some (xs ! i)) = Some x
    \<longleftrightarrow> x \<in> set xs \<and> key x = k"
proof
  assume "(case index_by key xs k of None \<Rightarrow> None | Some i \<Rightarrow> Some (xs ! i)) = Some x"
  then obtain i where "index_by key xs k = Some i" "x = xs ! i" by (auto split: option.splits)
  then show "x \<in> set xs \<and> key x = k" using index_by_iff [OF assms] by auto
next
  assume x: "x \<in> set xs \<and> key x = k"
  then obtain i where i: "i < length xs" "xs ! i = x" by (auto simp: in_set_conv_nth)
  then have "index_by key xs k = Some i" using index_by_iff [OF assms] x by blast
  with i show "(case index_by key xs k of None \<Rightarrow> None | Some i \<Rightarrow> Some (xs ! i)) = Some x" by simp
qed

lemma by_index_iff:
  assumes "catalog_ok c"
  shows "by_index c k = Some m \<longleftrightarrow> m \<in> set (mutants c) \<and> Index m = k"
proof -
  have n: "int (length (mutants c)) \<le> 4294967295" and idx: "map Index (mutants c) = map of_nat [0 ..< length (mutants c)]"
    using assms by (auto simp: catalog_ok_def)
  have at: "Index (mutants c ! i) = of_nat i" if "i < length (mutants c)" for i
    using arg_cong [OF idx, of "\<lambda>l. l ! i"] that by simp
  have small: "unat (of_nat i :: u32) = i" if "i < length (mutants c)" for i
    using that n by (simp add: unat_of_nat)
  have below: "uint k < int n \<longleftrightarrow> unat k < n" for n
    using nat_less_iff [of "uint k" n] by simp
  show ?thesis
  proof
    assume "by_index c k = Some m"
    then have "uint k < int (length (mutants c))" and m: "m = mutants c ! unat k"
      by (auto simp: by_index_def split: if_splits)
    then have "unat k < length (mutants c)" by (simp add: below)
    with at m show "m \<in> set (mutants c) \<and> Index m = k" by simp
  next
    assume "m \<in> set (mutants c) \<and> Index m = k"
    then obtain i where i: "i < length (mutants c)" "mutants c ! i = m" "Index m = k"
      by (auto simp: in_set_conv_nth)
    then have "k = of_nat i" using at [of i] by metis
    then have "unat k = i" using small i by simp
    then have "uint k < int (length (mutants c))" using i below by simp
    with i \<open>unat k = i\<close> show "by_index c k = Some m" by (simp add: by_index_def)
  qed
qed

definition valid_prefix :: "string \<Rightarrow> bool" where
  "valid_prefix p \<longleftrightarrow> MinPrefixLength \<le> length p \<and> length p \<le> IDHexLength \<and> is_lower_hex_prefix p"

text \<open>
  C5. In every catalog that \<open>Build\<close> returns, identifiers, display identifiers and indexes are
  unique and each lookup finds exactly the mutant that has the key; a prefix resolves exactly
  when it is valid and one mutant has it, and the full identifier always resolves.
\<close>

theorem catalog_lookups:
  "(case builder_build b of
      Inl err \<Rightarrow> True
    | Inr c \<Rightarrow>
        catalog_ok c
        \<and> (by_id c i = Some m \<longleftrightarrow> m \<in> set (mutants c) \<and> ID m = i)
        \<and> (by_display_id c i = Some m \<longleftrightarrow> m \<in> set (mutants c) \<and> DisplayID m = i)
        \<and> (by_index c k = Some m \<longleftrightarrow> m \<in> set (mutants c) \<and> Index m = k)
        \<and> (resolve_prefix c p = Inr m \<longleftrightarrow>
             valid_prefix p \<and> filter (\<lambda>x. has_prefix (ID x) p) (mutants c) = [m])
        \<and> list_all (\<lambda>x. resolve_prefix c (ID x) = Inr x) (mutants c))"
proof (cases "builder_build b")
  case (Inr c)
  have ok: "catalog_ok c" by (rule build_catalog_ok [OF Inr])
  then have ids: "distinct (map ID (mutants c))" and disp: "distinct (map DisplayID (mutants c))"
    and idx: "byID c = index_by ID (mutants c)" "byDisplayID c = index_by DisplayID (mutants c)"
    and shape: "\<And>x. x \<in> set (mutants c) \<Longrightarrow> is_id (ID x)"
    by (auto simp: catalog_ok_def list_all_iff)
  have res: "resolve_prefix c p = Inr m \<longleftrightarrow>
      valid_prefix p \<and> filter (\<lambda>x. has_prefix (ID x) p) (mutants c) = [m]" for p m
    by (auto simp: resolve_prefix_def valid_prefix_def split: list.splits)
  have full: "resolve_prefix c (ID x) = Inr x" if x: "x \<in> set (mutants c)" for x
  proof -
    have len: "length (ID y) = 64 \<and> is_lower_hex_prefix (ID y)" if "y \<in> set (mutants c)" for y
      using shape [OF that] by (simp add: is_id_def is_lower_hex_def IDHexLength_def)
    have "has_prefix (ID y) (ID x) \<longleftrightarrow> ID y = ID x" if "y \<in> set (mutants c)" for y
      using len [OF that] len [OF x] by (simp add: has_prefix_def)
    moreover have "y = x" if "y \<in> set (mutants c)" "ID y = ID x" for y
      using ids that x by (simp add: distinct_map inj_on_def)
    ultimately have "filter (\<lambda>y. has_prefix (ID y) (ID x)) (mutants c) = filter (\<lambda>y. y = x) (mutants c)"
      by (intro filter_cong) auto
    also have "\<dots> = [x]"
      using x ids by (intro filter_eq_single) (simp_all add: distinct_map)
    finally show ?thesis
      using len [OF x] unfolding res by (simp add: valid_prefix_def MinPrefixLength_def IDHexLength_def)
  qed
  show ?thesis
    using ok by_index_iff [OF ok] indexed_lookup [OF ids] indexed_lookup [OF disp] res full Inr
    by (simp add: by_id_def by_display_id_def idx list_all_iff)
qed simp

section \<open>Order and deduplication of the catalog\<close>

definition rule_place :: "rule \<Rightarrow> nat" where
  "rule_place r = (case position canonical_registry (Name r) of Some i \<Rightarrow> i | None \<Rightarrow> 0)"

text \<open>The canonical order of candidates: by module, path, span, rule and replacement.\<close>

definition candidate_compare :: "candidate \<Rightarrow> candidate \<Rightarrow> int" where
  "candidate_compare a b =
     cmp_or (cmp_str (c_ModulePath a) (c_ModulePath b))
       (cmp_or (cmp_str (c_Path a) (c_Path b))
          (cmp_or (span_compare (c_Span a) (c_Span b))
             (cmp_or (cmp_compare (rule_place (c_Rule a)) (rule_place (c_Rule b)))
                (cmp_str (c_Replacement a) (c_Replacement b)))))"

text \<open>What a mutant changes: the file, the span and the replacement, whatever the rule.\<close>

definition change_of :: "candidate \<Rightarrow> dedup_key" where
  "change_of c = (candidate_file c, c_Span c, c_Replacement c)"

lemma compare_entries_candidates:
  "compare_entries (entry_of canonical_registry a) (entry_of canonical_registry b) \<le> 0
     \<Longrightarrow> candidate_compare a b \<le> 0"
  by (simp add: compare_entries_def candidate_compare_def entry_of_def rule_place_def Let_def
      cmp_or_def split: if_splits)

lemma candidate_compare_strict:
  assumes "candidate_compare a b \<le> 0" and "change_of a \<noteq> change_of b"
  shows "candidate_compare a b < 0"
proof -
  have "candidate_compare a b \<noteq> 0"
    using assms(2) by (auto simp: candidate_compare_def change_of_def candidate_file_def cmp_str_eq
        span_order.cmp_zero_iff)
  with assms(1) show ?thesis by simp
qed

lemma candidate_compare_rule:
  assumes "candidate_compare a b \<le> 0" and "change_of a = change_of b"
  shows "rule_place (c_Rule a) \<le> rule_place (c_Rule b)"
  using assms
  by (simp add: candidate_compare_def change_of_def candidate_file_def cmp_string.cmp_self
      span_order.cmp_self cmp_or_def cmp_compare_simps split: if_splits)

text \<open>A duplicate of a catalog: a kept mutant makes the same change under a rule no later.\<close>

definition duplicate_ok :: "mutant list \<Rightarrow> duplicate \<Rightarrow> bool" where
  "duplicate_ok ms d \<longleftrightarrow>
     list_ex (\<lambda>m. ID m = WinnerID d \<and> c_Rule (m_candidate m) = WinnerRule d
       \<and> change_of (m_candidate m) = change_of (Dropped d)) ms
     \<and> rule_place (WinnerRule d) \<le> rule_place (c_Rule (Dropped d))
     \<and> (d_Reason d = DuplicateIdentical \<longleftrightarrow> WinnerRule d = c_Rule (Dropped d))"

lemma built_dedup: "dedup (sort_by compare_entries (map (entry_of canonical_registry) cs)) = (built_kept cs, built_dups cs)"
  by (simp add: built_kept_def built_dups_def)

lemma built_accounts: "mset (map e_candidate (built_kept cs)) + mset (map Dropped (built_dups cs)) = mset cs"
proof -
  have "mset (map e_candidate (sort_by compare_entries (map (entry_of canonical_registry) cs)))
      = image_mset e_candidate (mset (map (entry_of canonical_registry) cs))"
    by (simp only: mset_map mset_sort_by)
  also have "\<dots> = mset cs" by (simp add: multiset.map_comp o_def)
  finally show ?thesis using dedup_from_mset [OF built_dedup [unfolded dedup_def]] by simp
qed

lemma built_entries: "set (built_kept cs) \<subseteq> entry_of canonical_registry ` set cs"
  using dedup_from_kept [OF built_dedup [unfolded dedup_def], of cs] by auto

lemma built_entry: "e \<in> set (built_kept cs) \<Longrightarrow> e = entry_of canonical_registry (e_candidate e)"
  using built_entries by fastforce

lemma built_sorted: "sorted_by compare_entries (built_kept cs)"
  by (rule dedup_from_sorted [OF built_dedup [unfolded dedup_def] entry_order.sorted_sort_by])

lemma entry_key_change: "change_of (e_candidate e) = entry_key e"
  by (simp add: entry_key_def change_of_def)

lemma built_changes: "distinct (map (change_of \<circ> e_candidate) (built_kept cs))"
  using dedup_from_kept [OF built_dedup [unfolded dedup_def], of cs]
  by (simp add: entry_key_change o_def)

lemma built_strict: "sorted_wrt (\<lambda>a b. candidate_compare a b < 0) (map e_candidate (built_kept cs))"
proof -
  have "candidate_compare (e_candidate (built_kept cs ! i)) (e_candidate (built_kept cs ! j)) < 0"
    if ij: "i < j" "j < length (built_kept cs)" for i j
  proof (rule candidate_compare_strict)
    let ?a = "built_kept cs ! i" and ?b = "built_kept cs ! j"
    have mem: "?a \<in> set (built_kept cs)" "?b \<in> set (built_kept cs)" using ij by auto
    have "compare_entries ?a ?b \<le> 0"
      using built_sorted ij by (simp add: sorted_wrt_iff_nth_less)
    then show "candidate_compare (e_candidate ?a) (e_candidate ?b) \<le> 0"
      using built_entry [OF mem(1)] built_entry [OF mem(2)] compare_entries_candidates by metis
    show "change_of (e_candidate ?a) \<noteq> change_of (e_candidate ?b)"
      using built_changes [of cs] ij by (simp add: distinct_conv_nth)
  qed
  then show ?thesis by (simp add: sorted_wrt_iff_nth_less)
qed

lemma built_duplicate:
  assumes "d \<in> set (built_dups cs)"
  shows "\<exists>v \<in> set (built_kept cs). e_id v = WinnerID d \<and> c_Rule (e_candidate v) = WinnerRule d
    \<and> change_of (e_candidate v) = change_of (Dropped d)
    \<and> rule_place (WinnerRule d) \<le> rule_place (c_Rule (Dropped d))
    \<and> (d_Reason d = DuplicateIdentical \<longleftrightarrow> WinnerRule d = c_Rule (Dropped d))"
proof -
  obtain v e where v: "v \<in> set (built_kept cs)" and e: "e \<in> entry_of canonical_registry ` set cs"
    and key: "entry_key v = entry_key e" and le: "compare_entries v e \<le> 0" and d: "d = make_duplicate v e"
    using dedup_winner [OF built_dedup entry_order.sorted_sort_by assms] by auto
  obtain c where c: "e = entry_of canonical_registry c" using e by auto
  have change: "change_of (e_candidate v) = change_of c"
    using key by (simp add: entry_key_def change_of_def c)
  have "candidate_compare (e_candidate v) c \<le> 0"
    using le built_entry [OF v] compare_entries_candidates unfolding c by metis
  from candidate_compare_rule [OF this change] v change d c show ?thesis
    by (auto simp: make_duplicate_def)
qed

lemma assigned_fields:
  assumes "assign_display_ids (number_mutants kept) len = Inr ms"
  shows "map m_candidate ms = map e_candidate kept" and "map ID ms = map e_id kept"
proof -
  have "map m_candidate (number_mutants kept) = map e_candidate kept"
    by (rule nth_equalityI) (simp_all add: number_mutants_def)
  moreover have "map ID (number_mutants kept) = map e_id kept" by simp
  ultimately show "map m_candidate ms = map e_candidate kept" "map ID ms = map e_id kept"
    using assms by (simp_all add: assign_display_Inr o_def del: number_mutants_ids)
qed

text \<open>
  C1. A catalog lists each change once, in canonical order: its mutants are strictly sorted by
  module, path, span, rule and replacement, no two make the same change, mutants and
  duplicates together are the candidates given, and every duplicate lost to a mutant that
  makes the same change under a rule that comes no later in the registry. Building fails
  only on more than 2^32 - 1 candidates, a field beyond 2^32 - 1 bytes, or mutants that share
  the first 20 digits of their identifiers.
\<close>

theorem catalog_contents:
  "(case builder_add_all new_builder cs of
      (Some err, b) \<Rightarrow> True
    | (None, b) \<Rightarrow>
        (case builder_build b of
           Inl err \<Rightarrow> int (length cs) > 4294967295 \<or> list_ex (\<lambda>c. \<not> id_fits c) cs
             \<or> (\<exists>cols. err = DisplayCollisionError 20 cols \<and> cols \<noteq> []
                  \<and> cols = prefix_collisions (map e_id (built_kept cs)) 20)
         | Inr c \<Rightarrow>
             sorted_wrt (\<lambda>a b. candidate_compare a b < 0) (map m_candidate (mutants c))
             \<and> distinct (map (change_of \<circ> m_candidate) (mutants c))
             \<and> mset (map m_candidate (mutants c)) + mset (map Dropped (duplicates c)) = mset cs
             \<and> list_all (duplicate_ok (mutants c)) (duplicates c)))"
proof (cases "builder_add_all new_builder cs")
  case (Pair e b)
  show ?thesis
  proof (cases e)
    case None
    note add = Pair [unfolded None]
    note bb = build_added [OF add]
    show ?thesis
    proof (cases "builder_build b")
      case (Inl err)
      then have "int (length cs) > 4294967295 \<or> list_ex (\<lambda>c. \<not> id_fits c) cs
          \<or> assign_display_ids (number_mutants (built_kept cs)) 20 = Inl err"
        unfolding bb by (auto simp: list_ex_iff list_all_iff split: if_splits sum.splits)
      then have "int (length cs) > 4294967295 \<or> list_ex (\<lambda>c. \<not> id_fits c) cs
          \<or> (\<exists>cols. err = DisplayCollisionError 20 cols \<and> cols \<noteq> []
               \<and> cols = prefix_collisions (map e_id (built_kept cs)) 20)"
        by (auto simp: assign_display_ids_def split: list.splits)
      then show ?thesis using Inl add by simp
    next
      case (Inr c)
      then have asg: "assign_display_ids (number_mutants (built_kept cs)) 20 = Inr (mutants c)"
        and dups: "duplicates c = built_dups cs"
        unfolding bb by (auto split: if_splits sum.splits)
      note f = assigned_fields [OF asg]
      have pairs: "\<exists>m \<in> set (mutants c). m_candidate m = e_candidate v \<and> ID m = e_id v"
        if v: "v \<in> set (built_kept cs)" for v
      proof -
        obtain i where i: "i < length (built_kept cs)" "built_kept cs ! i = v"
          using v by (auto simp: in_set_conv_nth)
        have "length (mutants c) = length (built_kept cs)" using arg_cong [OF f(1), of length] by simp
        then show ?thesis
          using i arg_cong [OF f(1), of "\<lambda>l. l ! i"] arg_cong [OF f(2), of "\<lambda>l. l ! i"]
          by (intro bexI [of _ "mutants c ! i"]) auto
      qed
      have "duplicate_ok (mutants c) d" if "d \<in> set (built_dups cs)" for d
        using built_duplicate [OF that] pairs unfolding duplicate_ok_def list_ex_iff by metis
      then have "list_all (duplicate_ok (mutants c)) (duplicates c)"
        by (simp add: dups list_all_iff)
      moreover have "map (change_of \<circ> m_candidate) (mutants c) = map (change_of \<circ> e_candidate) (built_kept cs)"
        using arg_cong [OF f(1), of "map change_of"] by simp
      ultimately show ?thesis
        using built_strict [of cs] built_changes [of cs] built_accounts [of cs] add Inr
        by (simp add: f(1) dups)
    qed
  next
    case (Some err)
    then show ?thesis using Pair by simp
  qed
qed

section \<open>A concrete catalog\<close>

definition sample_candidate :: "string \<Rightarrow> string \<Rightarrow> candidate" where
  "sample_candidate rule new =
     \<lparr>c_ModulePath = [], c_Path = ''a.go'',
      c_Rule = \<lparr>Family = ''comparison'', Name = rule, Version = 1, Tier = TierBalanced\<rparr>,
      c_Span = \<lparr>StartByte = 4, EndByte = 6\<rparr>, c_Original = ''=='', c_Replacement = new,
      c_SourceDigest = replicate 64 CHR ''a''\<rparr>"

lemma sample_candidate_ok:
  assumes "rule \<in> {''eq-to-neq'', ''neq-to-eq''}" and "new \<noteq> ''==''"
  shows "candidate_ok canonical_registry (sample_candidate rule new)"
proof -
  let ?c = "sample_candidate rule new"
  let ?rules = "map (\<lambda>n. \<lparr>Family = ''comparison'', Name = n, Version = 1, Tier = TierBalanced\<rparr>)
    [''eq-to-neq'', ''neq-to-eq'']"
  have "list_all (\<lambda>r. list_ex (\<lambda>s. s = r) (table_rules canonical_table)) ?rules" by code_simp
  then have "set ?rules \<subseteq> set (reg_rules canonical_registry)"
    by (auto simp: list_all_iff list_ex_iff canonical_rules)
  moreover have "c_Rule ?c \<in> set ?rules" using assms(1) by (auto simp: sample_candidate_def)
  ultimately have "lookup canonical_registry (Name (c_Rule ?c)) = Some (c_Rule ?c)"
    using canonical.look_iff by blast
  then have ver: "verify_rule canonical_registry (c_Rule ?c) = None" by (simp add: verify_rule_def)
  have path: "normalize_path ''a.go'' = Inr ''a.go''" by code_simp
  have digests: "is_digest (replicate 64 CHR ''a'')" by code_simp
  have names: "list_all (\<lambda>n. n \<noteq> [] \<and> \<not> contains_any n rule_name_bad) [''eq-to-neq'', ''neq-to-eq'']"
    by code_simp
  have "identity_validate (candidate_identity ?c) = None"
    using assms(1) path digests names digest_is_digest
    by (auto simp: identity_validate_def candidate_identity_def sample_candidate_def span_validate_def)
  moreover have "rule_validate (c_Rule ?c) = None"
    using assms(1) by (auto simp: rule_validate_def sample_candidate_def tier_valid_def tier_defs)
  ultimately have "candidate_validate ?c = None"
    using assms(2) by (simp add: candidate_validate_def) (simp add: sample_candidate_def span_len_def)
  with ver show ?thesis by (simp add: candidate_ok_def)
qed

theorem catalog_order_independent_witness:
  "\<exists>b b'. builder_add_all new_builder [sample_candidate ''eq-to-neq'' ''!='', sample_candidate ''neq-to-eq'' ''<''] = (None, b)
     \<and> builder_add_all new_builder [sample_candidate ''neq-to-eq'' ''<'', sample_candidate ''eq-to-neq'' ''!=''] = (None, b')
     \<and> builder_build b' = builder_build b"
proof -
  let ?c = "sample_candidate ''eq-to-neq'' ''!=''" and ?d = "sample_candidate ''neq-to-eq'' ''<''"
  have "candidate_ok canonical_registry ?c" "candidate_ok canonical_registry ?d"
    by (rule sample_candidate_ok; simp)+
  moreover have "coherent [?c, ?d]"
    by (simp add: coherent_def agree_def sample_candidate_def)
  ultimately obtain b where b: "builder_add_all new_builder [?c, ?d] = (None, b)"
    using added_all [of "[?c, ?d]"] by fastforce
  have m: "mset [?c, ?d] = mset [?d, ?c]" by simp
  obtain b' where b': "builder_add_all new_builder [?d, ?c] = (None, b')"
    and "builder_build b' = builder_build b"
    using catalog_order_independent [OF m] b by (cases "builder_add_all new_builder [?d, ?c]") auto
  with b show ?thesis by blast
qed

end
