(* ===== verification/LineRanges.thy ===== *)
theory LineRanges
  imports GoPrelude
begin

text \<open>
  Inclusive ranges of lines, which both the coverage index (\<open>merge\<close> and \<open>overlaps\<close> of
  \<open>internal/coverage/map.go\<close>) and the diff (\<open>Merge\<close> of \<open>internal/gitdiff/parse.go\<close>) keep
  sorted and coalesced. The two differ in how they test whether ranges join; the locale
  \<open>range_joins\<close> states what either test must do on the ranges it is given.
\<close>

record line_range =
  First :: int
  Last :: int

definition range_compare :: "line_range \<Rightarrow> line_range \<Rightarrow> int" where
  "range_compare x y = cmp_or (cmp_compare (First x) (First y)) (cmp_compare (Last x) (Last y))"

text \<open>The loop over sorted ranges: the newest range of the result, then what is left.\<close>

fun coalesce :: "(int \<Rightarrow> int \<Rightarrow> bool) \<Rightarrow> line_range \<Rightarrow> line_range list \<Rightarrow> line_range list" where
  "coalesce joins r [] = [r]"
| "coalesce joins r (n # ns) =
     (if joins (Last r) (First n)
      then coalesce joins (r\<lparr>Last := max (Last r) (Last n)\<rparr>) ns
      else r # coalesce joins n ns)"

definition merge_by :: "(int \<Rightarrow> int \<Rightarrow> bool) \<Rightarrow> line_range list \<Rightarrow> line_range list" where
  "merge_by joins rs =
     (case sort_by range_compare rs of [] \<Rightarrow> [] | r # rest \<Rightarrow> coalesce joins r rest)"

text \<open>The binary search of \<open>overlaps\<close> for the first range that reaches the start line.\<close>

definition range_overlaps :: "line_range list \<Rightarrow> int \<Rightarrow> int \<Rightarrow> bool" where
  "range_overlaps rs start end =
     (if length rs = 0 \<or> start > end then False
      else
        (let i = sort_search (length rs) (\<lambda>i. Last (rs ! i) \<ge> start)
         in i < length rs \<and> First (rs ! i) \<le> end))"

definition lines_of :: "line_range list \<Rightarrow> int set" where
  "lines_of rs = (\<Union>r \<in> set rs. {First r .. Last r})"

text \<open>Ranges in order with a line between any two: what merging establishes.\<close>

definition separated :: "line_range list \<Rightarrow> bool" where
  "separated rs \<longleftrightarrow> sorted_wrt (\<lambda>a b. Last a + 1 < First b) rs"

lemma lines_of_simps [simp]:
  "lines_of [] = {}" "lines_of (r # rs) = {First r .. Last r} \<union> lines_of rs"
  "lines_of (xs @ ys) = lines_of xs \<union> lines_of ys"
  by (auto simp: lines_of_def)

interpretation range_order: linear_comparator range_compare
proof -
  have "comparator (\<lambda>x y. range_compare x y)"
    unfolding range_compare_def
    by (rule comparator_or [OF comparator_on [OF cmp_ord.comparator_axioms]
          comparator_on [OF cmp_ord.comparator_axioms]])
  then have "comparator range_compare" by simp
  moreover have "range_compare x y = 0 \<Longrightarrow> x = y" for x y
    by (simp add: range_compare_def cmp_compare_simps line_range.equality)
  ultimately show "linear_comparator range_compare"
    by (simp add: linear_comparator_def linear_comparator_axioms_def)
qed

lemma range_compare_First: "range_compare x y \<le> 0 \<Longrightarrow> First x \<le> First y"
  by (auto simp: range_compare_def cmp_or_def cmp_compare_def split: if_splits)

locale range_joins =
  fixes joins :: "int \<Rightarrow> int \<Rightarrow> bool" and good :: "int \<Rightarrow> bool"
  assumes joins_iff: "good l \<Longrightarrow> good f \<Longrightarrow> joins l f \<longleftrightarrow> f \<le> l + 1"
begin

text \<open>A range whose ends the test can handle and that holds a line.\<close>

definition range_ok :: "line_range \<Rightarrow> bool" where
  "range_ok r \<longleftrightarrow> good (First r) \<and> good (Last r) \<and> First r \<le> Last r"

lemma range_ok_extend:
  "range_ok r \<Longrightarrow> range_ok n \<Longrightarrow> range_ok (r\<lparr>Last := max (Last r) (Last n)\<rparr>)"
  by (auto simp: range_ok_def max_def)

lemma coalesce_spec:
  assumes "range_ok r" and "list_all range_ok ns" and "sorted_wrt (\<lambda>a b. First a \<le> First b) (r # ns)"
  shows "list_all range_ok (coalesce joins r ns) \<and> separated (coalesce joins r ns)
    \<and> lines_of (coalesce joins r ns) = lines_of (r # ns) \<and> First (hd (coalesce joins r ns)) = First r
    \<and> coalesce joins r ns \<noteq> []"
  using assms
proof (induction ns arbitrary: r)
  case Nil
  then show ?case by (simp add: separated_def)
next
  case (Cons n ns)
  have n: "range_ok n" "First r \<le> First n" using Cons.prems by simp_all
  have j: "joins (Last r) (First n) \<longleftrightarrow> First n \<le> Last r + 1"
    using Cons.prems n by (intro joins_iff) (simp_all add: range_ok_def)
  show ?case
  proof (cases "joins (Last r) (First n)")
    case True
    let ?r = "r\<lparr>Last := max (Last r) (Last n)\<rparr>"
    have "{First ?r .. Last ?r} = {First r .. Last r} \<union> {First n .. Last n}"
      using True j n Cons.prems(1) by (auto simp: range_ok_def max_def)
    moreover have "sorted_wrt (\<lambda>a b. First a \<le> First b) (?r # ns)" using Cons.prems(3) by simp
    ultimately show ?thesis
      using Cons.IH [of ?r] range_ok_extend [OF Cons.prems(1) n(1)] Cons.prems(2) True by auto
  next
    case False
    let ?c = "coalesce joins n ns"
    have IH: "list_all range_ok ?c" "separated ?c" "lines_of ?c = lines_of (n # ns)"
      "First (hd ?c) = First n" "?c \<noteq> []"
      using Cons.IH [OF n(1)] Cons.prems(2,3) by auto
    have far: "Last r + 1 < First n" using False j by simp
    have "Last r + 1 < First b" if b: "b \<in> set ?c" for b
    proof (cases "?c")
      case (Cons x xs)
      have "First x \<le> First b"
      proof (cases "b = x")
        case False
        then have "Last x + 1 < First b" using b IH(2) Cons by (auto simp: separated_def)
        moreover have "First x \<le> Last x" using IH(1) Cons by (simp add: range_ok_def)
        ultimately show ?thesis by simp
      qed simp
      then show ?thesis using far IH(4) Cons by simp
    qed (use b in simp)
    then have "separated (r # ?c)" using IH(2) by (simp add: separated_def)
    then show ?thesis using False IH Cons.prems(1) by auto
  qed
qed

lemma merge_spec:
  assumes "list_all range_ok rs"
  shows "list_all range_ok (merge_by joins rs)" and "separated (merge_by joins rs)"
    and "lines_of (merge_by joins rs) = lines_of rs"
proof -
  let ?s = "sort_by range_compare rs"
  have lines: "lines_of ?s = lines_of rs" by (simp add: lines_of_def)
  have ok: "list_all range_ok ?s" using assms by (simp add: list_all_iff)
  have srt: "sorted_wrt (\<lambda>a b. First a \<le> First b) ?s"
    by (rule sorted_wrt_mono_rel [OF _ range_order.sorted_sort_by]) (rule range_compare_First)
  have "list_all range_ok (merge_by joins rs) \<and> separated (merge_by joins rs)
      \<and> lines_of (merge_by joins rs) = lines_of rs"
  proof (cases ?s)
    case Nil
    then show ?thesis using lines by (simp add: merge_by_def separated_def)
  next
    case (Cons r ns)
    have "list_all range_ok (coalesce joins r ns) \<and> separated (coalesce joins r ns)
        \<and> lines_of (coalesce joins r ns) = lines_of (r # ns)"
      using coalesce_spec [of r ns] ok srt Cons by simp
    moreover have "merge_by joins rs = coalesce joins r ns"
      using Cons by (simp add: merge_by_def)
    ultimately show ?thesis using lines Cons by simp
  qed
  then show "list_all range_ok (merge_by joins rs)" "separated (merge_by joins rs)"
    "lines_of (merge_by joins rs) = lines_of rs" by blast+
qed

text \<open>On separated ranges the search is exact: it finds a range that meets the lines.\<close>

lemma overlaps_iff:
  assumes ok: "list_all range_ok rs" and sep: "separated rs"
  shows "range_overlaps rs start end \<longleftrightarrow> start \<le> end \<and> list_ex (\<lambda>r. First r \<le> end \<and> start \<le> Last r) rs"
proof -
  let ?f = "\<lambda>i. Last (rs ! i) \<ge> start" and ?n = "length rs"
  have firsts: "First (rs ! i) \<le> Last (rs ! i)" if "i < ?n" for i
    using ok that by (simp add: list_all_length range_ok_def)
  have gap: "Last (rs ! i) + 1 < First (rs ! j)" if "i < j" "j < ?n" for i j
    using sep that by (simp add: separated_def sorted_wrt_iff_nth_less)
  have mono: "?f k \<Longrightarrow> ?f l" if "k \<le> l" "l < ?n" for k l
    using gap [of k l] firsts [of l] that by (cases "k = l") auto
  let ?i = "sort_search ?n ?f"
  have ge: "?f ?i" if "?i < ?n"
    using sort_search_spec(3) [of ?n ?f ?i] mono that by blast
  have lt: "\<not> ?f k" if "k < ?i" for k
    using sort_search_spec(2) [of ?n ?f k] mono that by blast
  have iff: "(?i < ?n \<and> First (rs ! ?i) \<le> end) \<longleftrightarrow> (\<exists>i < ?n. First (rs ! i) \<le> end \<and> ?f i)"
  proof
    assume "?i < ?n \<and> First (rs ! ?i) \<le> end"
    then show "\<exists>i < ?n. First (rs ! i) \<le> end \<and> ?f i" using ge by blast
  next
    assume "\<exists>i < ?n. First (rs ! i) \<le> end \<and> ?f i"
    then obtain j where j: "j < ?n" "First (rs ! j) \<le> end" "?f j" by blast
    then have le: "?i \<le> j" using lt [of j] by (meson linorder_not_le)
    have "First (rs ! ?i) \<le> First (rs ! j)"
    proof (cases "?i = j")
      case False
      then show ?thesis using gap [of ?i j] firsts [of ?i] le j(1) by simp
    qed simp
    then show "?i < ?n \<and> First (rs ! ?i) \<le> end" using le j by simp
  qed
  have ex: "(\<exists>i < ?n. P (rs ! i)) \<longleftrightarrow> list_ex P rs" for P
    unfolding list_ex_iff by (metis in_set_conv_nth)
  show ?thesis
    using iff unfolding ex [of "\<lambda>r. First r \<le> end \<and> start \<le> Last r"]
    by (cases "rs = []") (auto simp: range_overlaps_def Let_def)
qed

lemma meets_iff:
  assumes ok: "list_all range_ok rs"
  shows "{start .. end} \<inter> lines_of rs \<noteq> {} \<longleftrightarrow>
    start \<le> end \<and> list_ex (\<lambda>r. First r \<le> end \<and> start \<le> Last r) rs"
proof -
  have "(\<exists>r \<in> set rs. start \<le> end \<and> First r \<le> end \<and> start \<le> Last r) \<longleftrightarrow> {start .. end} \<inter> lines_of rs \<noteq> {}"
  proof
    assume "\<exists>r \<in> set rs. start \<le> end \<and> First r \<le> end \<and> start \<le> Last r"
    then obtain r where r: "r \<in> set rs" "start \<le> end" "First r \<le> end" "start \<le> Last r" by blast
    then have "First r \<le> Last r" using ok by (auto simp: list_all_iff range_ok_def)
    then have "max start (First r) \<in> {First r .. Last r}" and "max start (First r) \<in> {start .. end}"
      using r by auto
    then have "max start (First r) \<in> {start .. end} \<inter> lines_of rs"
      using r(1) unfolding lines_of_def by blast
    then show "{start .. end} \<inter> lines_of rs \<noteq> {}" by blast
  next
    assume "{start .. end} \<inter> lines_of rs \<noteq> {}"
    then obtain x r where "r \<in> set rs" "start \<le> x" "x \<le> end" "First r \<le> x" "x \<le> Last r"
      by (auto simp: lines_of_def)
    then show "\<exists>r \<in> set rs. start \<le> end \<and> First r \<le> end \<and> start \<le> Last r"
      by (intro bexI [of _ r]) auto
  qed
  then show ?thesis unfolding list_ex_iff by blast
qed

lemma overlaps_lines:
  assumes ok: "list_all range_ok rs" and sep: "separated rs"
  shows "range_overlaps rs start end \<longleftrightarrow> {start .. end} \<inter> lines_of rs \<noteq> {}"
  unfolding overlaps_iff [OF ok sep] meets_iff [OF ok] ..

end

end
