(* ===== verification/CoverProfile.thy ===== *)
theory CoverProfile
  imports GoStrings
begin

text \<open>
  Coverage profiles in text form (\<open>internal/coverage/textfmt.go\<close>): the lines a scanner
  yields, the header and block records, and the errors with the line they are found on.
\<close>

definition modePrefix :: string where "modePrefix = ''mode: ''"
definition scanBufferLimit :: int where "scanBufferLimit = 2 ^ 20"

record block =
  File :: string
  StartLine :: int
  StartCol :: int
  EndLine :: int
  EndCol :: int
  NumStmt :: int
  Count :: int

definition block_covered :: "block \<Rightarrow> bool" where
  "block_covered b \<longleftrightarrow> Count b > 0"

record profile =
  Mode :: string
  Blocks :: "block list"

text \<open>What is wrong with a record; the text of the message is left out.\<close>

datatype malformed =
    NotAHeader | NoFileSeparator | NotThreeFields | NoComma | NoPosition string
  | NotALine string | NotAColumn string | NotACount string | EndsBeforeStart int int
  | EmptyProfile

text \<open>An error of the package: a record at a line (0 for the whole file), or the reader's.\<close>

datatype profile_error = Malformed nat malformed | Unreadable

text \<open>
  \<open>bufio.Scanner\<close> with \<open>ScanLines\<close>: a line ends before a newline or at the end of the input,
  an empty rest is no line, and one carriage return before the end is dropped. A line that
  fills the buffer without a newline stops the scan with an error.
\<close>

definition drop_cr :: "string \<Rightarrow> string" where
  "drop_cr s = (if s \<noteq> [] \<and> last s = cr then butlast s else s)"

definition scan_lines :: "int \<Rightarrow> string \<Rightarrow> string list \<times> bool" where
  "scan_lines limit s =
     (let ws = takeWhile (\<lambda>w. int (length w) < limit) (raw_lines s)
      in (map drop_cr ws, length ws < length (raw_lines s)))"

definition parse_count :: "string \<Rightarrow> nat \<Rightarrow> profile_error + int" where
  "parse_count t number =
     (case atoi t of
        None \<Rightarrow> Inl (Malformed number (NotACount t))
      | Some v \<Rightarrow> if v < 0 then Inl (Malformed number (NotACount t)) else Inr v)"

definition parse_position :: "string \<Rightarrow> nat \<Rightarrow> profile_error + (int \<times> int)" where
  "parse_position pos number =
     (case go_cut pos ''.'' of
        None \<Rightarrow> Inl (Malformed number (NoPosition pos))
      | Some (line, column) \<Rightarrow>
          (case atoi line of
             None \<Rightarrow> Inl (Malformed number (NotALine line))
           | Some l \<Rightarrow>
               if l < 1 then Inl (Malformed number (NotALine line))
               else
                 (case atoi column of
                    None \<Rightarrow> Inl (Malformed number (NotAColumn column))
                  | Some c \<Rightarrow>
                      if c < 1 then Inl (Malformed number (NotAColumn column)) else Inr (l, c))))"

definition parse_block :: "string \<Rightarrow> nat \<Rightarrow> profile_error + block" where
  "parse_block line number =
     (case last_index_byte line CHR '':'' of
        None \<Rightarrow> Inl (Malformed number NoFileSeparator)
      | Some colon \<Rightarrow>
          if colon = 0 \<or> colon = length line - 1 then Inl (Malformed number NoFileSeparator)
          else
            (case go_fields (drop (Suc colon) line) of
               [positions, statements, executions] \<Rightarrow>
                 (case go_cut positions '','' of
                    None \<Rightarrow> Inl (Malformed number NoComma)
                  | Some (start, stop) \<Rightarrow>
                      (case parse_position start number of
                         Inl err \<Rightarrow> Inl err
                       | Inr (startLine, startCol) \<Rightarrow>
                           (case parse_position stop number of
                              Inl err \<Rightarrow> Inl err
                            | Inr (endLine, endCol) \<Rightarrow>
                                (case parse_count statements number of
                                   Inl err \<Rightarrow> Inl err
                                 | Inr numStmt \<Rightarrow>
                                     (case parse_count executions number of
                                        Inl err \<Rightarrow> Inl err
                                      | Inr n \<Rightarrow>
                                          if endLine < startLine
                                          then Inl (Malformed number (EndsBeforeStart endLine startLine))
                                          else Inr \<lparr>File = take colon line, StartLine = startLine,
                                            StartCol = startCol, EndLine = endLine, EndCol = endCol,
                                            NumStmt = numStmt, Count = n\<rparr>)))))
             | _ \<Rightarrow> Inl (Malformed number NotThreeFields)))"

text \<open>One turn of the loop of \<open>ParseTextfmt\<close>, on the line with the given number.\<close>

definition parse_line :: "profile \<Rightarrow> nat \<Rightarrow> string \<Rightarrow> profile_error + profile" where
  "parse_line p number scanned =
     (let line = trim_right scanned [cr] in
      if trim_space line = [] then Inr p
      else if Mode p = [] then
        (case cut_prefix line modePrefix of
           None \<Rightarrow> Inl (Malformed number NotAHeader)
         | Some mode \<Rightarrow>
             if trim_space mode = [] then Inl (Malformed number NotAHeader)
             else Inr (p\<lparr>Mode := trim_space mode\<rparr>))
      else
        (case parse_block line number of
           Inl err \<Rightarrow> Inl err
         | Inr b \<Rightarrow> Inr (p\<lparr>Blocks := Blocks p @ [b]\<rparr>)))"

fun parse_lines :: "profile \<Rightarrow> nat \<Rightarrow> string list \<Rightarrow> profile_error + profile" where
  "parse_lines p number [] = Inr p"
| "parse_lines p number (line # lines) =
     (case parse_line p number line of
        Inl err \<Rightarrow> Inl err
      | Inr p' \<Rightarrow> parse_lines p' (Suc number) lines)"

text \<open>The reader is the bytes it delivers and whether it then fails.\<close>

definition parse_textfmt :: "string \<Rightarrow> bool \<Rightarrow> profile_error + profile" where
  "parse_textfmt input fails =
     (let (lines, tooLong) = scan_lines scanBufferLimit input in
      case parse_lines \<lparr>Mode = [], Blocks = []\<rparr> 1 lines of
        Inl err \<Rightarrow> Inl err
      | Inr p \<Rightarrow>
          if tooLong \<or> fails then Inl Unreadable
          else if Mode p = [] then Inl (Malformed 0 EmptyProfile)
          else Inr p)"

section \<open>What a parsed profile holds\<close>

definition block_ok :: "block \<Rightarrow> bool" where
  "block_ok b \<longleftrightarrow> File b \<noteq> [] \<and> 1 \<le> StartLine b \<and> StartLine b \<le> EndLine b \<and> EndLine b \<le> max_int
     \<and> 1 \<le> StartCol b \<and> 1 \<le> EndCol b \<and> 0 \<le> NumStmt b \<and> 0 \<le> Count b"

lemma parse_position_ok:
  "parse_position pos n = Inr (l, c) \<Longrightarrow> 1 \<le> l \<and> l \<le> max_int \<and> 1 \<le> c \<and> c \<le> max_int"
  by (auto simp: parse_position_def int64_ok_def dest!: atoi_bounds
      split: option.splits if_splits prod.splits)

lemma parse_count_ok: "parse_count t n = Inr v \<Longrightarrow> 0 \<le> v \<and> v \<le> max_int"
  by (auto simp: parse_count_def int64_ok_def dest!: atoi_bounds split: option.splits if_splits)

lemma parse_block_ok: "parse_block line n = Inr b \<Longrightarrow> block_ok b"
  by (auto simp: parse_block_def block_ok_def dest!: parse_position_ok parse_count_ok
      split: option.splits if_splits list.splits sum.splits prod.splits)

lemma parse_line_ok:
  "parse_line p n line = Inr p' \<Longrightarrow> list_all block_ok (Blocks p) \<Longrightarrow> list_all block_ok (Blocks p')"
  by (auto simp: parse_line_def Let_def dest: parse_block_ok split: if_splits option.splits sum.splits)

lemma parse_lines_ok:
  "parse_lines p n lines = Inr p' \<Longrightarrow> list_all block_ok (Blocks p) \<Longrightarrow> list_all block_ok (Blocks p')"
  by (induction lines arbitrary: p n) (auto dest: parse_line_ok split: sum.splits)

text \<open>
  C34. What \<open>ParseTextfmt\<close> accepts is well formed: the mode is not blank and every block has
  a file, positions from 1 on, a last line no earlier than its first, and counts from 0 on.
\<close>

theorem parse_textfmt_sound:
  "(case parse_textfmt input fails of
      Inl err \<Rightarrow> True
    | Inr p \<Rightarrow> \<not> fails \<and> Mode p \<noteq> [] \<and> list_all block_ok (Blocks p))"
  using parse_lines_ok [of "\<lparr>Mode = [], Blocks = []\<rparr>" 1 "fst (scan_lines scanBufferLimit input)"]
  by (auto simp: parse_textfmt_def case_prod_beta Let_def split: sum.splits if_splits)

section \<open>Printing and reading back\<close>

text \<open>A record as \<open>go test -coverprofile\<close> writes it.\<close>

definition print_block :: "block \<Rightarrow> string" where
  "print_block b =
     File b @ '':'' @ itoa (StartLine b) @ ''.'' @ itoa (StartCol b) @ '','' @ itoa (EndLine b)
       @ ''.'' @ itoa (EndCol b) @ '' '' @ itoa (NumStmt b) @ '' '' @ itoa (Count b)"

definition print_profile :: "profile \<Rightarrow> string" where
  "print_profile p = concat (map (\<lambda>l. l @ [nl]) ((modePrefix @ Mode p) # map print_block (Blocks p)))"

definition profile_printable :: "profile \<Rightarrow> bool" where
  "profile_printable p \<longleftrightarrow>
     Mode p \<noteq> [] \<and> list_all plain_char (Mode p) \<and> int (length (modePrefix @ Mode p)) < scanBufferLimit
     \<and> list_all (\<lambda>b. block_ok b \<and> nl \<notin> set (File b) \<and> StartCol b \<le> max_int \<and> EndCol b \<le> max_int
          \<and> NumStmt b \<le> max_int \<and> Count b \<le> max_int
          \<and> int (length (print_block b)) < scanBufferLimit) (Blocks p)"

lemma parse_position_print:
  assumes "1 \<le> l" "l \<le> max_int" "1 \<le> c" "c \<le> max_int"
  shows "parse_position (itoa l @ ''.'' @ itoa c) n = Inr (l, c)"
proof -
  have "CHR ''.'' \<notin> set (itoa l)" using plain_itoa(3) [of l] assms digits_no not_digit_marks(2) by auto
  then have "go_cut (itoa l @ CHR ''.'' # itoa c) ''.'' = Some (itoa l, itoa c)" by (rule go_cut_char)
  moreover have "int64_ok l" "int64_ok c" using assms by (simp_all add: int64_ok_def min_int_def)
  ultimately show ?thesis using assms by (simp add: parse_position_def)
qed

lemma parse_count_print: "0 \<le> v \<Longrightarrow> v \<le> max_int \<Longrightarrow> parse_count (itoa v) n = Inr v"
  by (simp add: parse_count_def int64_ok_def min_int_def)

definition block_fits :: "block \<Rightarrow> bool" where
  "block_fits b \<longleftrightarrow> block_ok b \<and> StartCol b \<le> max_int \<and> EndCol b \<le> max_int
     \<and> NumStmt b \<le> max_int \<and> Count b \<le> max_int"

lemma parse_block_print:
  assumes "block_fits b"
  shows "parse_block (print_block b) n = Inr b"
proof -
  let ?start = "itoa (StartLine b) @ ''.'' @ itoa (StartCol b)"
  let ?stop = "itoa (EndLine b) @ ''.'' @ itoa (EndCol b)"
  let ?rest = "(?start @ '','' @ ?stop) @ '' '' @ itoa (NumStmt b) @ '' '' @ itoa (Count b)"
  have nn: "0 \<le> StartLine b" "0 \<le> StartCol b" "0 \<le> EndLine b" "0 \<le> EndCol b" "0 \<le> NumStmt b" "0 \<le> Count b"
    and f: "File b \<noteq> []" using assms by (auto simp: block_fits_def block_ok_def)
  note d = plain_itoa(3) [OF nn(1)] plain_itoa(3) [OF nn(2)] plain_itoa(3) [OF nn(3)]
    plain_itoa(3) [OF nn(4)] plain_itoa(3) [OF nn(5)] plain_itoa(3) [OF nn(6)]
  have pr: "print_block b = File b @ CHR '':'' # ?rest" by (simp add: print_block_def)
  have colon: "CHR '':'' \<notin> set ?rest"
    using d [THEN digits_no, OF not_digit_marks(1)] by simp
  have idx: "last_index_byte (print_block b) CHR '':'' = Some (length (File b))"
    unfolding pr by (rule last_index_byte_append [OF colon])
  have long: "length (File b) \<noteq> length (print_block b) - 1" by (simp add: pr)
  have marks: "plain_char CHR ''.''" "plain_char CHR '',''"
    by (simp_all add: plain_char_def ord_chars)
  have fields: "go_fields ?rest = [?start @ '','' @ ?stop, itoa (NumStmt b), itoa (Count b)]"
    using go_fields_words [of "[?start @ '','' @ ?stop, itoa (NumStmt b), itoa (Count b)]"] nn plain_itoa marks
    by (simp add: list_all_append)
  have comma: "go_cut (?start @ '','' @ ?stop) '','' = Some (?start, ?stop)"
    using d [THEN digits_no, OF not_digit_marks(3)] go_cut_char [of "CHR '',''" ?start ?stop] by simp
  have "parse_position ?start n = Inr (StartLine b, StartCol b)"
    and "parse_position ?stop n = Inr (EndLine b, EndCol b)"
    using assms by (intro parse_position_print; simp add: block_fits_def block_ok_def)+
  moreover have "parse_count (itoa (NumStmt b)) n = Inr (NumStmt b)" "parse_count (itoa (Count b)) n = Inr (Count b)"
    using assms nn by (simp_all add: parse_count_print block_fits_def)
  moreover have "drop (Suc (length (File b))) (print_block b) = ?rest" "take (length (File b)) (print_block b) = File b"
    by (simp_all add: pr)
  moreover have "\<not> EndLine b < StartLine b" using assms by (simp add: block_fits_def block_ok_def)
  ultimately show ?thesis
    unfolding parse_block_def using idx f long fields comma by (simp del: append_assoc)
qed

lemma scan_printed:
  assumes "\<And>l. l \<in> set ls \<Longrightarrow> nl \<notin> set l \<and> int (length l) < limit \<and> (l = [] \<or> last l \<noteq> cr)"
  shows "scan_lines limit (concat (map (\<lambda>l. l @ [nl]) ls)) = (ls, False)"
proof -
  have raw: "raw_lines (concat (map (\<lambda>l. l @ [nl]) ls)) = ls"
    using assms split_on_lines [of ls nl] by (simp add: raw_lines_def)
  have whole: "takeWhile (\<lambda>w. int (length w) < limit) ls = ls"
    using assms by (simp add: takeWhile_eq_all_conv)
  have "map drop_cr ls = ls"
    using assms by (intro map_idI) (auto simp: drop_cr_def)
  then show ?thesis unfolding scan_lines_def raw Let_def whole by simp
qed

lemma print_block_shape:
  assumes "block_ok b" and "nl \<notin> set (File b)"
  shows "print_block b \<noteq> []" "plain_char (last (print_block b))" "nl \<notin> set (print_block b)"
proof -
  have nn: "0 \<le> StartLine b" "0 \<le> StartCol b" "0 \<le> EndLine b" "0 \<le> EndCol b" "0 \<le> NumStmt b" "0 \<le> Count b"
    using assms by (auto simp: block_ok_def)
  have "plain_char (last (itoa (Count b)))"
    using plain_itoa(1,2) [OF nn(6)] by (simp add: list_all_iff)
  then show "plain_char (last (print_block b))" using plain_itoa(1) [OF nn(6)] by (simp add: print_block_def)
  show "print_block b \<noteq> []" by (simp add: print_block_def)
  have "nl \<notin> set (itoa n)" if "0 \<le> n" for n
    using plain_itoa(2) [OF that] plain_not by (auto simp: list_all_iff)
  moreover have "nl \<noteq> CHR '' ''" "nl \<noteq> CHR ''.''" "nl \<noteq> CHR '',''" "nl \<noteq> CHR '':''" by code_simp+
  ultimately show "nl \<notin> set (print_block b)" using nn assms(2) by (simp add: print_block_def)
qed

lemma parse_line_block:
  assumes "Mode p \<noteq> []" and "block_fits b" and "nl \<notin> set (File b)"
  shows "parse_line p n (print_block b) = Inr (p\<lparr>Blocks := Blocks p @ [b]\<rparr>)"
proof -
  have ok: "block_ok b" using assms(2) by (simp add: block_fits_def)
  note sh = print_block_shape [OF ok assms(3)]
  have "trim_right (print_block b) [cr] = print_block b"
    using sh(1,2) plain_not by (intro trim_right_plain) auto
  moreover have "trim_space (print_block b) \<noteq> []"
    using sh(1,2) by (intro trim_space_keeps [of "last (print_block b)"]) auto
  ultimately show ?thesis using assms(1) parse_block_print [OF assms(2)] by (simp add: parse_line_def Let_def)
qed

lemma parse_lines_blocks:
  assumes "Mode p \<noteq> []" and "list_all (\<lambda>b. block_fits b \<and> nl \<notin> set (File b)) bs"
  shows "parse_lines p n (map print_block bs) = Inr (p\<lparr>Blocks := Blocks p @ bs\<rparr>)"
  using assms by (induction bs arbitrary: p n) (auto simp: parse_line_block)

text \<open>
  C32. Reading inverts printing: a profile with a printable mode, file names without a newline,
  and lines that fit the scanner's buffer is read back from its text form exactly.
\<close>

theorem textfmt_roundtrip:
  assumes "profile_printable p"
  shows "parse_textfmt (print_profile p) False = Inr p"
proof -
  let ?ls = "(modePrefix @ Mode p) # map print_block (Blocks p)"
  have mode: "Mode p \<noteq> []" "list_all plain_char (Mode p)"
    and bs: "\<And>b. b \<in> set (Blocks p) \<Longrightarrow> block_fits b \<and> block_ok b \<and> nl \<notin> set (File b)
      \<and> int (length (print_block b)) < scanBufferLimit"
    and len: "int (length (modePrefix @ Mode p)) < scanBufferLimit"
    using assms by (auto simp: profile_printable_def block_fits_def list_all_iff)
  have lastm: "plain_char (last (Mode p))" using mode by (simp add: list_all_iff)
  have pre: "nl \<notin> set modePrefix" by (simp add: modePrefix_def) code_simp
  have m: "nl \<notin> set (modePrefix @ Mode p)" "last (modePrefix @ Mode p) \<noteq> cr"
    using mode pre plain_not lastm by (auto simp: list_all_iff)
  have shape: "nl \<notin> set l \<and> int (length l) < scanBufferLimit \<and> (l = [] \<or> last l \<noteq> cr)" if "l \<in> set ?ls" for l
    using that m len bs print_block_shape plain_not by fastforce
  have scan: "scan_lines scanBufferLimit (print_profile p) = (?ls, False)"
    unfolding print_profile_def by (rule scan_printed) (rule shape)
  have "trim_space (modePrefix @ Mode p) \<noteq> []"
    using mode lastm by (intro trim_space_keeps [of "last (Mode p)"]) auto
  moreover have "trim_right (modePrefix @ Mode p) [cr] = modePrefix @ Mode p"
    using m mode by (intro trim_right_plain) auto
  moreover have "cut_prefix (modePrefix @ Mode p) modePrefix = Some (Mode p)"
    by (simp add: cut_prefix_Some)
  ultimately have head: "parse_line \<lparr>Mode = [], Blocks = []\<rparr> 1 (modePrefix @ Mode p) = Inr \<lparr>Mode = Mode p, Blocks = []\<rparr>"
    using mode trim_space_plain [OF mode(2)] by (simp add: parse_line_def Let_def)
  have "parse_lines \<lparr>Mode = [], Blocks = []\<rparr> 1 ?ls = Inr p"
    using head parse_lines_blocks [of "\<lparr>Mode = Mode p, Blocks = []\<rparr>" "Blocks p"] mode bs
    by (simp add: list_all_iff)
  then show ?thesis using mode by (simp add: parse_textfmt_def scan)
qed

definition sample_profile :: profile where
  "sample_profile = \<lparr>Mode = ''set'', Blocks =
     [\<lparr>File = ''m/a.go'', StartLine = 3, StartCol = 2, EndLine = 5, EndCol = 10, NumStmt = 2, Count = 1\<rparr>]\<rparr>"

theorem textfmt_roundtrip_witness:
  "parse_textfmt (print_profile sample_profile) False = Inr sample_profile"
  by (rule textfmt_roundtrip) code_simp

end
