(* ===== verification/Coverage.thy ===== *)
theory Coverage
  imports LineRanges CoverProfile
begin

text \<open>
  Which test binaries and which tests cover a mutant (\<open>internal/coverage/map.go\<close> and
  \<open>tests.go\<close>): covered blocks become an index of merged line ranges per file, and a mutant is
  covered when its lines meet a range of its file.
\<close>

record cov_mutant =
  cm_ID :: string
  cm_Path :: string
  cm_ModulePath :: string
  cm_StartLine :: int
  cm_EndLine :: int

definition end_line :: "int \<Rightarrow> string \<Rightarrow> int" where
  "end_line startLine original = wrap64 (startLine + int (count_byte original nl))"

section \<open>The index of a profile\<close>

definition under_module :: "string \<Rightarrow> string list \<Rightarrow> bool" where
  "under_module file modules \<longleftrightarrow>
     (if modules = [] then True else list_ex (\<lambda>m. has_prefix file (m @ ''/'')) modules)"

definition modules_of :: "string \<Rightarrow> cov_mutant list \<Rightarrow> string list" where
  "modules_of runModule ms =
     foldl (\<lambda>mods m. if cm_ModulePath m \<noteq> [] \<and> cm_ModulePath m \<notin> set mods
                     then mods @ [cm_ModulePath m] else mods)
       (if runModule \<noteq> [] then [runModule] else []) ms"

definition profile_path :: "string \<Rightarrow> cov_mutant \<Rightarrow> string" where
  "profile_path runModule m =
     (let module = (if cm_ModulePath m = [] then runModule else cm_ModulePath m)
      in if module = [] then cm_Path m else module @ ''/'' @ cm_Path m)"

text \<open>\<open>last.end + 1\<close> is computed in 64 bits.\<close>

definition touching :: "int \<Rightarrow> int \<Rightarrow> bool" where
  "touching last_end next_start \<longleftrightarrow> next_start \<le> wrap64 (last_end + 1)"

definition merge_intervals :: "line_range list \<Rightarrow> line_range list" where
  "merge_intervals rs = (if length rs < 2 then rs else merge_by touching rs)"

type_synonym file_index = "string \<rightharpoonup> line_range list"

text \<open>The ranges of a file; a missing file has none.\<close>

definition ranges_of :: "file_index \<Rightarrow> string \<Rightarrow> line_range list" where
  "ranges_of index path = (case index path of None \<Rightarrow> [] | Some rs \<Rightarrow> rs)"

definition block_range :: "block \<Rightarrow> line_range" where
  "block_range b = \<lparr>First = StartLine b, Last = EndLine b\<rparr>"

text \<open>One block: the index so far and the set of files matched so far.\<close>

definition index_block :: "string list \<Rightarrow> file_index \<times> string set \<Rightarrow> block \<Rightarrow> file_index \<times> string set" where
  "index_block modules st b =
     (let (index, matched) = st; path = File b in
      if path = [] then st
      else
        (let matched = (if under_module path modules then insert path matched else matched) in
         if \<not> block_covered b then
           (if index path = None then index(path \<mapsto> []) else index, matched)
         else (index(path \<mapsto> ranges_of index path @ [block_range b]), matched)))"

definition new_file_index :: "profile \<Rightarrow> string list \<Rightarrow> string set \<Rightarrow> file_index \<times> string set" where
  "new_file_index p modules matched =
     (let (index, matched') = foldl (index_block modules) (Map.empty, matched) (Blocks p)
      in (\<lambda>path. map_option merge_intervals (index path), matched'))"

definition covers :: "file_index \<Rightarrow> string \<Rightarrow> int \<Rightarrow> int \<Rightarrow> bool" where
  "covers index path start end = range_overlaps (ranges_of index path) start end"

section \<open>Binaries that cover a mutant\<close>

text \<open>A Go map is a list of its entries in any order, each key once.\<close>

record map_options =
  mo_ModulePath :: string
  mo_Mutants :: "cov_mutant list"
  mo_Profiles :: "(string \<times> profile) list"

record map_result =
  Covering :: "string \<rightharpoonup> string list"
  Uncovered :: "string list"
  Binaries :: "string list"
  Matched :: nat

definition profile_of :: "('k \<times> profile) list \<Rightarrow> 'k \<Rightarrow> profile" where
  "profile_of ps k = (case map_of ps k of Some p \<Rightarrow> p | None \<Rightarrow> \<lparr>Mode = [], Blocks = []\<rparr>)"

text \<open>The indexes of a list of keys, built in order while the matched files accumulate.\<close>

fun build_indexes :: "('k \<times> profile) list \<Rightarrow> string list \<Rightarrow> string set \<Rightarrow> 'k list \<Rightarrow> ('k \<times> file_index) list \<times> string set" where
  "build_indexes ps modules matched [] = ([], matched)"
| "build_indexes ps modules matched (k # ks) =
     (let (index, matched') = new_file_index (profile_of ps k) modules matched;
          (rest, matched'') = build_indexes ps modules matched' ks
      in ((k, index) # rest, matched''))"

definition covering_step :: "string \<Rightarrow> (string \<times> file_index) list \<Rightarrow> map_result \<Rightarrow> cov_mutant \<Rightarrow> map_result" where
  "covering_step runModule indexes r m =
     (let path = profile_path runModule m;
          cov = map fst (filter (\<lambda>(k, index). covers index path (cm_StartLine m) (cm_EndLine m)) indexes)
      in if length cov = 0 then r\<lparr>Uncovered := Uncovered r @ [cm_ID m]\<rparr>
         else r\<lparr>Covering := (Covering r)(cm_ID m \<mapsto> cov)\<rparr>)"

definition cov_map :: "map_options \<Rightarrow> map_result" where
  "cov_map opts =
     (let binaries = sort_by cmp_str (map fst (mo_Profiles opts));
          modules = modules_of (mo_ModulePath opts) (mo_Mutants opts);
          (indexes, matched) = build_indexes (mo_Profiles opts) modules {} binaries
      in foldl (covering_step (mo_ModulePath opts) indexes)
           \<lparr>Covering = Map.empty, Uncovered = [], Binaries = binaries, Matched = card matched\<rparr>
           (mo_Mutants opts))"

definition covering_of :: "map_result \<Rightarrow> string \<Rightarrow> string list" where
  "covering_of r i = (case Covering r i of None \<Rightarrow> [] | Some bs \<Rightarrow> bs)"

section \<open>Tests that cover a mutant\<close>

record test_key =
  ImportPath :: string
  TestName :: string

definition compare_test_keys :: "test_key \<Rightarrow> test_key \<Rightarrow> int" where
  "compare_test_keys a b =
     cmp_or (cmp_str (ImportPath a) (ImportPath b)) (cmp_str (TestName a) (TestName b))"

record test_options =
  to_ModulePath :: string
  to_Mutants :: "cov_mutant list"
  to_Profiles :: "(test_key \<times> profile) list"

record test_result =
  t_Covering :: "string \<rightharpoonup> test_key list"
  t_Uncovered :: "string list"
  t_Tests :: "test_key list"
  t_Matched :: nat

record placed_mutant =
  at :: nat
  placed_start :: int
  placed_end :: int

record file_group =
  group_path :: string
  group_mutants :: "placed_mutant list"

definition place :: "cov_mutant list \<Rightarrow> nat \<Rightarrow> placed_mutant" where
  "place ms i = \<lparr>at = i, placed_start = cm_StartLine (ms ! i), placed_end = cm_EndLine (ms ! i)\<rparr>"

text \<open>Groups in the order their files are first seen, with the index of each file's group.\<close>

definition group_step ::
  "string \<Rightarrow> cov_mutant list \<Rightarrow> file_group list \<times> (string \<rightharpoonup> nat) \<Rightarrow> nat \<Rightarrow> file_group list \<times> (string \<rightharpoonup> nat)" where
  "group_step runModule ms st i =
     (let (groups, seen) = st; path = profile_path runModule (ms ! i);
          (index, groups, seen) =
            (case seen path of
               Some index \<Rightarrow> (index, groups, seen)
             | None \<Rightarrow> (length groups, groups @ [\<lparr>group_path = path, group_mutants = []\<rparr>],
                        seen(path \<mapsto> length groups)))
      in (groups[index := (groups ! index)\<lparr>group_mutants := group_mutants (groups ! index) @ [place ms i]\<rparr>],
          seen))"

definition group_by_file :: "string \<Rightarrow> cov_mutant list \<Rightarrow> file_group list" where
  "group_by_file runModule ms = fst (foldl (group_step runModule ms) ([], Map.empty) [0 ..< length ms])"

definition place_key :: "line_range list \<Rightarrow> 'k \<Rightarrow> 'k list list \<Rightarrow> placed_mutant \<Rightarrow> 'k list list" where
  "place_key rs key cov p =
     (if range_overlaps rs (placed_start p) (placed_end p)
      then cov[at p := cov ! at p @ [key]] else cov)"

definition place_test :: "file_group \<Rightarrow> 'k list list \<Rightarrow> 'k \<times> file_index \<Rightarrow> 'k list list" where
  "place_test g cov t =
     (let rs = ranges_of (snd t) (group_path g)
      in if length rs = 0 then cov else foldl (place_key rs (fst t)) cov (group_mutants g))"

definition place_group :: "('k \<times> file_index) list \<Rightarrow> 'k list list \<Rightarrow> file_group \<Rightarrow> 'k list list" where
  "place_group tests cov g = foldl (place_test g) cov tests"

definition tests_step :: "test_key list list \<Rightarrow> cov_mutant list \<Rightarrow> test_result \<Rightarrow> nat \<Rightarrow> test_result" where
  "tests_step cov ms r i =
     (if length (cov ! i) = 0 then r\<lparr>t_Uncovered := t_Uncovered r @ [cm_ID (ms ! i)]\<rparr>
      else r\<lparr>t_Covering := (t_Covering r)(cm_ID (ms ! i) \<mapsto> cov ! i)\<rparr>)"

definition map_tests :: "test_options \<Rightarrow> test_result" where
  "map_tests opts =
     (let tests = sort_by compare_test_keys (map fst (to_Profiles opts));
          ms = to_Mutants opts;
          modules = modules_of (to_ModulePath opts) ms;
          (indexes, matched) = build_indexes (to_Profiles opts) modules {} tests;
          cov = foldl (place_group indexes) (replicate (length ms) []) (group_by_file (to_ModulePath opts) ms)
      in foldl (tests_step cov ms)
           \<lparr>t_Covering = Map.empty, t_Uncovered = [], t_Tests = tests, t_Matched = card matched\<rparr>
           [0 ..< length ms])"

definition test_covering_of :: "test_result \<Rightarrow> string \<Rightarrow> test_key list" where
  "test_covering_of r i = (case t_Covering r i of None \<Rightarrow> [] | Some ks \<Rightarrow> ks)"

section \<open>The index is exact\<close>

text \<open>The test of \<open>merge\<close> is right for ranges that end before the last 64-bit integer.\<close>

interpretation cover_joins: range_joins touching "\<lambda>n. min_int \<le> n \<and> n < max_int"
  by unfold_locales (simp add: touching_def int64_ok_def min_int_def max_int_def)

lemma min_int_below: "1 \<le> n \<Longrightarrow> min_int \<le> n"
  by (simp add: min_int_def)

lemma merge_intervals_eq: "merge_intervals rs = merge_by touching rs"
proof (cases rs)
  case (Cons r rest)
  then show ?thesis by (cases rest) (simp_all add: merge_intervals_def merge_by_def)
qed (simp add: merge_intervals_def merge_by_def)

definition block_fine :: "block \<Rightarrow> bool" where
  "block_fine b \<longleftrightarrow> block_ok b \<and> EndLine b < max_int"

text \<open>A covered block of the file that meets the lines.\<close>

definition block_hits :: "string \<Rightarrow> int \<Rightarrow> int \<Rightarrow> block \<Rightarrow> bool" where
  "block_hits path start end b \<longleftrightarrow>
     File b = path \<and> block_covered b \<and> StartLine b \<le> end \<and> start \<le> EndLine b"

definition lines_hit :: "string \<Rightarrow> int \<Rightarrow> int \<Rightarrow> profile \<Rightarrow> bool" where
  "lines_hit path start end p \<longleftrightarrow>
     path \<noteq> [] \<and> start \<le> end \<and> list_ex (block_hits path start end) (Blocks p)"

lemma index_blocks_ranges:
  "ranges_of (fst (foldl (index_block mods) st bs)) path
     = ranges_of (fst st) path
       @ (if path = [] then [] else map block_range (filter (\<lambda>b. File b = path \<and> block_covered b) bs))"
proof (induction bs arbitrary: st)
  case (Cons b bs)
  obtain index matched where st: "st = (index, matched)" by fastforce
  have "ranges_of (fst (index_block mods st b)) path
      = ranges_of index path @ (if path \<noteq> [] \<and> File b = path \<and> block_covered b then [block_range b] else [])"
    by (auto simp: st index_block_def ranges_of_def Let_def split: option.splits)
  then show ?case using Cons [of "index_block mods st b"] by (simp add: st)
qed simp

lemma new_file_index_ranges:
  "ranges_of (fst (new_file_index p mods matched)) path =
     merge_by touching (if path = [] then []
       else map block_range (filter (\<lambda>b. File b = path \<and> block_covered b) (Blocks p)))"
proof -
  have "ranges_of (fst (new_file_index p mods matched)) path
      = merge_intervals (ranges_of (fst (foldl (index_block mods) (Map.empty, matched) (Blocks p))) path)"
    by (auto simp: new_file_index_def case_prod_beta Let_def ranges_of_def merge_intervals_def
        split: option.splits)
  then show ?thesis
    unfolding merge_intervals_eq index_blocks_ranges by (simp add: ranges_of_def)
qed

lemma covers_exact:
  assumes "list_all block_fine (Blocks p)"
  shows "covers (fst (new_file_index p mods matched)) path start end \<longleftrightarrow> lines_hit path start end p"
proof -
  let ?rs = "if path = [] then []
    else map block_range (filter (\<lambda>b. File b = path \<and> block_covered b) (Blocks p))"
  have ok: "list_all cover_joins.range_ok ?rs"
    using assms min_int_below by (auto simp: list_all_iff cover_joins.range_ok_def block_range_def
        block_fine_def block_ok_def)
  note m = cover_joins.merge_spec [OF ok]
  have "covers (fst (new_file_index p mods matched)) path start end
      \<longleftrightarrow> {start .. end} \<inter> lines_of (merge_by touching ?rs) \<noteq> {}"
    unfolding covers_def new_file_index_ranges by (rule cover_joins.overlaps_lines [OF m(1,2)])
  also have "\<dots> \<longleftrightarrow> {start .. end} \<inter> lines_of ?rs \<noteq> {}" by (simp only: m(3))
  also have "\<dots> \<longleftrightarrow> start \<le> end \<and> list_ex (\<lambda>r. First r \<le> end \<and> start \<le> Last r) ?rs"
    by (rule cover_joins.meets_iff [OF ok])
  also have "\<dots> \<longleftrightarrow> lines_hit path start end p"
    by (auto simp: lines_hit_def block_hits_def block_range_def list_ex_iff)
  finally show ?thesis .
qed

lemma index_block_matched:
  "snd (index_block mods st b) = snd st \<union> (if File b \<noteq> [] \<and> under_module (File b) mods then {File b} else {})"
  by (cases st) (auto simp: index_block_def Let_def)

lemma index_blocks_matched:
  "snd (foldl (index_block mods) st bs)
     = snd st \<union> {f. f \<noteq> [] \<and> under_module f mods \<and> list_ex (\<lambda>b. File b = f) bs}"
  by (induction bs arbitrary: st) (auto simp: index_block_matched)

lemma new_file_index_matched:
  "snd (new_file_index p mods matched)
     = matched \<union> {f. f \<noteq> [] \<and> under_module f mods \<and> list_ex (\<lambda>b. File b = f) (Blocks p)}"
  using index_blocks_matched [of mods "(Map.empty, matched)" "Blocks p"]
  by (simp add: new_file_index_def case_prod_beta Let_def)

lemma foldl_index_matched:
  "fst (foldl (index_block mods) (i, m) bs) = fst (foldl (index_block mods) (i, m') bs)"
proof (induction bs arbitrary: i m m')
  case (Cons b bs)
  have "fst (index_block mods (i, m) b) = fst (index_block mods (i, m') b)"
    by (simp add: index_block_def Let_def)
  then show ?case using Cons by (metis foldl_Cons prod.collapse)
qed simp

definition key_index :: "('k \<times> profile) list \<Rightarrow> string list \<Rightarrow> 'k \<Rightarrow> file_index" where
  "key_index ps mods k = fst (new_file_index (profile_of ps k) mods {})"

lemma new_file_index_fst: "fst (new_file_index (profile_of ps k) mods m) = key_index ps mods k"
  unfolding key_index_def new_file_index_def using foldl_index_matched
  by (simp add: case_prod_beta Let_def) metis

text \<open>The files under the modules that the profiles of the keys name.\<close>

definition files_matched :: "('k \<times> profile) list \<Rightarrow> string list \<Rightarrow> 'k list \<Rightarrow> string set" where
  "files_matched ps mods ks =
     set (filter (\<lambda>f. f \<noteq> [] \<and> under_module f mods)
       (map File (concat (map (\<lambda>k. Blocks (profile_of ps k)) ks))))"

lemma build_indexes_eq:
  "build_indexes ps mods matched ks
     = (map (\<lambda>k. (k, key_index ps mods k)) ks, matched \<union> files_matched ps mods ks)"
proof (induction ks arbitrary: matched)
  case (Cons k ks)
  obtain i m where im: "new_file_index (profile_of ps k) mods matched = (i, m)" by fastforce
  have "i = key_index ps mods k"
    and "m = matched \<union> {f. f \<noteq> [] \<and> under_module f mods \<and> list_ex (\<lambda>b. File b = f) (Blocks (profile_of ps k))}"
    using new_file_index_fst [of ps k mods matched] new_file_index_matched [of "profile_of ps k" mods matched]
    by (simp_all add: im)
  with Cons im show ?case by (auto simp: files_matched_def list_ex_iff)
qed (simp add: files_matched_def)

definition mutant_hit :: "string \<Rightarrow> cov_mutant \<Rightarrow> profile \<Rightarrow> bool" where
  "mutant_hit runModule m p \<longleftrightarrow>
     lines_hit (profile_path runModule m) (cm_StartLine m) (cm_EndLine m) p"

definition mutant_covered :: "string \<Rightarrow> cov_mutant \<Rightarrow> file_index \<Rightarrow> bool" where
  "mutant_covered runModule m index \<longleftrightarrow>
     covers index (profile_path runModule m) (cm_StartLine m) (cm_EndLine m)"

definition profiles_fine :: "('k \<times> profile) list \<Rightarrow> bool" where
  "profiles_fine ps \<longleftrightarrow> list_all (\<lambda>kp. list_all block_fine (Blocks (snd kp))) ps"

lemma profile_of_fine: "profiles_fine ps \<Longrightarrow> list_all block_fine (Blocks (profile_of ps k))"
  by (auto simp: profiles_fine_def profile_of_def list_all_iff split: option.splits dest: map_of_SomeD)

lemma mutant_covered_exact:
  "profiles_fine ps \<Longrightarrow> mutant_covered runModule m (key_index ps mods k) \<longleftrightarrow> mutant_hit runModule m (profile_of ps k)"
  unfolding mutant_covered_def mutant_hit_def key_index_def by (rule covers_exact [OF profile_of_fine])

text \<open>What the loop over the mutants leaves: the keys of each, or its place among the uncovered.\<close>

definition covering_map :: "('m \<Rightarrow> string) \<Rightarrow> ('m \<Rightarrow> 'k list) \<Rightarrow> 'm list \<Rightarrow> (string \<rightharpoonup> 'k list)" where
  "covering_map key f ms = map_of (rev (map (\<lambda>m. (key m, f m)) (filter (\<lambda>m. f m \<noteq> []) ms)))"

lemma covering_map_snoc:
  "covering_map key f (ms @ [m]) = (if f m = [] then covering_map key f ms else (covering_map key f ms)(key m \<mapsto> f m))"
  by (simp add: covering_map_def)

lemma covering_steps:
  assumes "\<And>m. map fst (filter (\<lambda>(k, index). covers index (profile_path runModule m) (cm_StartLine m) (cm_EndLine m)) indexes) = f m"
  shows "foldl (covering_step runModule indexes)
      \<lparr>Covering = Map.empty, Uncovered = [], Binaries = bs, Matched = n\<rparr> ms
    = \<lparr>Covering = covering_map cm_ID f ms, Uncovered = map cm_ID (filter (\<lambda>m. f m = []) ms),
       Binaries = bs, Matched = n\<rparr>"
proof -
  have step: "covering_step runModule indexes r m =
      (if f m = [] then r\<lparr>Uncovered := Uncovered r @ [cm_ID m]\<rparr>
       else r\<lparr>Covering := (Covering r)(cm_ID m \<mapsto> f m)\<rparr>)" for r m
    unfolding covering_step_def Let_def assms by simp
  show ?thesis
    by (induction ms rule: rev_induct) (simp_all add: step covering_map_snoc, simp add: covering_map_def)
qed

text \<open>
  C25. \<open>Map\<close> is exact: for profiles as the parser delivers them (and no block that ends at the
  last 64-bit line), a mutant is covered by exactly the binaries, in sorted order, whose
  profile has a covered block of its file that meets its lines; the other mutants are
  uncovered, in order; and the files matched are counted once each.
\<close>

theorem cov_map_exact:
  assumes "profiles_fine (mo_Profiles opts)"
  defines "binaries \<equiv> sort_by cmp_str (map fst (mo_Profiles opts))"
  defines "cov \<equiv> \<lambda>m. filter (\<lambda>k. mutant_hit (mo_ModulePath opts) m (profile_of (mo_Profiles opts) k)) binaries"
  shows "cov_map opts =
    \<lparr>Covering = covering_map cm_ID cov (mo_Mutants opts),
     Uncovered = map cm_ID (filter (\<lambda>m. cov m = []) (mo_Mutants opts)),
     Binaries = binaries,
     Matched = card (files_matched (mo_Profiles opts)
       (modules_of (mo_ModulePath opts) (mo_Mutants opts)) binaries)\<rparr>"
proof -
  let ?ps = "mo_Profiles opts" and ?mods = "modules_of (mo_ModulePath opts) (mo_Mutants opts)"
  let ?ix = "map (\<lambda>k. (k, key_index ?ps ?mods k)) binaries"
  have keys: "map fst (filter (\<lambda>(k, index). covers index (profile_path (mo_ModulePath opts) m)
      (cm_StartLine m) (cm_EndLine m)) ?ix) = cov m" for m
    using mutant_covered_exact [OF assms(1)]
    by (simp add: cov_def filter_map o_def mutant_covered_def)
  show ?thesis
    unfolding cov_map_def Let_def binaries_def [symmetric] build_indexes_eq prod.case
      covering_steps [OF keys] by simp
qed

definition sample_options :: map_options where
  "sample_options = \<lparr>mo_ModulePath = ''m'',
     mo_Mutants = [\<lparr>cm_ID = ''x'', cm_Path = ''a.go'', cm_ModulePath = [], cm_StartLine = 4, cm_EndLine = 4\<rparr>,
                   \<lparr>cm_ID = ''y'', cm_Path = ''a.go'', cm_ModulePath = [], cm_StartLine = 6, cm_EndLine = 7\<rparr>],
     mo_Profiles = [(''t'', sample_profile)]\<rparr>"

theorem cov_map_exact_witness:
  "covering_of (cov_map sample_options) ''x'' = [''t''] \<and> Uncovered (cov_map sample_options) = [''y'']"
proof -
  have ok: "profiles_fine (mo_Profiles sample_options)" by code_simp
  show ?thesis unfolding cov_map_exact [OF ok] by code_simp
qed

text \<open>
  A block that ends at the last 64-bit line breaks the index: \<open>last.end + 1\<close> wraps around,
  the ranges are not joined, and a line both of them cover is reported as not covered.
\<close>

theorem merge_wraps_at_max_int:
  "merge_intervals [\<lparr>First = 1, Last = max_int\<rparr>, \<lparr>First = 2, Last = 3\<rparr>]
     = [\<lparr>First = 1, Last = max_int\<rparr>, \<lparr>First = 2, Last = 3\<rparr>]
   \<and> 5 \<in> lines_of [\<lparr>First = 1, Last = max_int\<rparr>, \<lparr>First = 2, Last = 3\<rparr>]
   \<and> \<not> range_overlaps (merge_intervals [\<lparr>First = 1, Last = max_int\<rparr>, \<lparr>First = 2, Last = 3\<rparr>]) 5 5"
proof -
  have "merge_intervals [\<lparr>First = 1, Last = max_int\<rparr>, \<lparr>First = 2, Last = 3\<rparr>]
      = [\<lparr>First = 1, Last = max_int\<rparr>, \<lparr>First = 2, Last = 3\<rparr>]" by code_simp
  moreover have "\<not> range_overlaps [\<lparr>First = 1, Last = max_int\<rparr>, \<lparr>First = 2, Last = 3\<rparr>] 5 5" by code_simp
  moreover have "5 \<in> lines_of [\<lparr>First = 1, Last = max_int\<rparr>, \<lparr>First = 2, Last = 3\<rparr>]"
    by (simp add: max_int_def)
  ultimately show ?thesis by simp
qed

section \<open>Grouping the mutants by file changes nothing\<close>

lemma length_place_keys [simp]: "length (foldl (place_key rs key) cov pl) = length cov"
  by (induction pl arbitrary: cov) (simp_all add: place_key_def)

lemma length_place_tests [simp]: "length (foldl (place_test g) cov ts) = length cov"
  by (induction ts arbitrary: cov) (simp_all add: place_test_def Let_def)

lemma length_place_groups [simp]: "length (foldl (place_group ts) cov gs) = length cov"
  by (induction gs arbitrary: cov) (simp_all add: place_group_def)

definition placed_hits :: "line_range list \<Rightarrow> nat \<Rightarrow> placed_mutant \<Rightarrow> bool" where
  "placed_hits rs i p \<longleftrightarrow> at p = i \<and> range_overlaps rs (placed_start p) (placed_end p)"

lemma place_keys_nth:
  "i < length cov \<Longrightarrow> foldl (place_key rs key) cov pl ! i
     = cov ! i @ concat (map (\<lambda>p. if placed_hits rs i p then [key] else []) pl)"
  by (induction pl arbitrary: cov) (auto simp: place_key_def placed_hits_def nth_list_update)

lemma range_overlaps_Nil [simp]: "\<not> range_overlaps [] s e"
  by (simp add: range_overlaps_def)

lemma place_tests_nth:
  "i < length cov \<Longrightarrow> foldl (place_test g) cov ts ! i
     = cov ! i @ concat (map (\<lambda>t. concat (map (\<lambda>p. if placed_hits (ranges_of (snd t) (group_path g)) i p
                                 then [fst t] else []) (group_mutants g))) ts)"
proof (induction ts arbitrary: cov)
  case (Cons t ts)
  let ?rs = "ranges_of (snd t) (group_path g)"
  have "place_test g cov t ! i
      = cov ! i @ concat (map (\<lambda>p. if placed_hits ?rs i p then [fst t] else []) (group_mutants g))"
  proof (cases "?rs = []")
    case True
    then show ?thesis by (simp add: place_test_def Let_def placed_hits_def)
  next
    case False
    then show ?thesis using place_keys_nth [OF Cons.prems] by (simp add: place_test_def Let_def)
  qed
  moreover have "length (place_test g cov t) = length cov"
    by (simp add: place_test_def Let_def)
  ultimately show ?case using Cons.IH [of "place_test g cov t"] Cons.prems by simp
qed simp

lemma place_groups_nth:
  "i < length cov \<Longrightarrow> foldl (place_group ts) cov gs ! i
     = cov ! i @ concat (map (\<lambda>g. concat (map (\<lambda>t. concat (map (\<lambda>p.
         if placed_hits (ranges_of (snd t) (group_path g)) i p then [fst t] else []) (group_mutants g))) ts)) gs)"
proof (induction gs arbitrary: cov)
  case (Cons g gs)
  have "length (place_group ts cov g) = length cov" by (simp add: place_group_def)
  then show ?case
    using Cons.IH [of "place_group ts cov g"] Cons.prems place_tests_nth [OF Cons.prems, of g ts]
    by (simp add: place_group_def)
qed simp

text \<open>The groups: one per file, in order of first sight, with all the mutants of the file.\<close>

definition groups_ok :: "string \<Rightarrow> cov_mutant list \<Rightarrow> nat \<Rightarrow> string list \<Rightarrow> file_group list \<times> (string \<rightharpoonup> nat) \<Rightarrow> bool" where
  "groups_ok rm ms n paths st \<longleftrightarrow>
     fst st = map (\<lambda>p. \<lparr>group_path = p,
       group_mutants = map (place ms) (filter (\<lambda>i. profile_path rm (ms ! i) = p) [0 ..< n])\<rparr>) paths
     \<and> distinct paths \<and> set paths = (\<lambda>i. profile_path rm (ms ! i)) ` {..< n}
     \<and> (\<forall>p j. snd st p = Some j \<longleftrightarrow> j < length paths \<and> paths ! j = p)"

lemma groups_step:
  assumes ok: "groups_ok rm ms n paths st"
  shows "\<exists>paths'. groups_ok rm ms (Suc n) paths' (group_step rm ms st n)"
proof -
  obtain groups seen where st: "st = (groups, seen)" by fastforce
  let ?P = "\<lambda>i. profile_path rm (ms ! i)"
  let ?p = "?P n"
  let ?g = "\<lambda>k p. \<lparr>group_path = p, group_mutants = map (place ms) (filter (\<lambda>i. ?P i = p) [0 ..< k])\<rparr>"
  have groups: "groups = map (?g n) paths" and dist: "distinct paths" and paths: "set paths = ?P ` {..< n}"
    and seen: "\<And>p j. seen p = Some j \<longleftrightarrow> j < length paths \<and> paths ! j = p"
    using ok by (auto simp: groups_ok_def st)
  have last: "?g (Suc n) p = (if p = ?p then (?g n p)\<lparr>group_mutants := group_mutants (?g n p) @ [place ms n]\<rparr> else ?g n p)"
    for p by simp
  show ?thesis
  proof (cases "seen ?p")
    case (Some j)
    then have j: "j < length paths" "paths ! j = ?p" using seen by auto
    have "groups[j := (groups ! j)\<lparr>group_mutants := group_mutants (groups ! j) @ [place ms n]\<rparr>] = map (?g (Suc n)) paths"
    proof (rule nth_equalityI)
      fix k assume "k < length (groups[j := (groups ! j)\<lparr>group_mutants := group_mutants (groups ! j) @ [place ms n]\<rparr>])"
      then have k: "k < length paths" by (simp add: groups)
      have "k = j" if "paths ! k = ?p" using dist j k that by (metis nth_eq_iff_index_eq)
      then show "groups[j := (groups ! j)\<lparr>group_mutants := group_mutants (groups ! j) @ [place ms n]\<rparr>] ! k
          = map (?g (Suc n)) paths ! k"
        using k j by (cases "k = j") (auto simp: groups)
    qed (simp add: groups)
    moreover have "set paths = ?P ` {..< Suc n}"
      using paths j nth_mem [OF j(1)] by (auto simp: lessThan_Suc)
    moreover have "group_step rm ms st n
        = (groups[j := (groups ! j)\<lparr>group_mutants := group_mutants (groups ! j) @ [place ms n]\<rparr>], seen)"
      using Some by (simp add: group_step_def st Let_def)
    ultimately have "groups_ok rm ms (Suc n) paths (group_step rm ms st n)"
      using dist seen by (simp add: groups_ok_def del: upt_Suc)
    then show ?thesis by blast
  next
    case None
    then have new: "?p \<notin> set paths" using seen by (metis in_set_conv_nth option.distinct(1))
    have "?P i \<noteq> ?p" if "i < n" for i
      using new that unfolding paths by (metis image_eqI lessThan_iff)
    then have empty: "filter (\<lambda>i. ?P i = ?p) [0 ..< n] = []" by (simp add: filter_empty_conv)
    have same: "map (?g (Suc n)) paths = map (?g n) paths"
      using new by (intro map_cong refl) (auto simp del: upt_Suc simp: last)
    have g: "?g (Suc n) ?p = \<lparr>group_path = ?p, group_mutants = [place ms n]\<rparr>" using empty by simp
    have "fst (group_step rm ms st n) = groups @ [\<lparr>group_path = ?p, group_mutants = [place ms n]\<rparr>]"
      using None by (simp add: group_step_def st Let_def list_update_append)
    then have "fst (group_step rm ms st n) = map (?g (Suc n)) (paths @ [?p])"
      unfolding map_append same g list.map groups .
    moreover have "snd (group_step rm ms st n) = seen(?p \<mapsto> length paths)"
      using None by (simp add: group_step_def st groups Let_def)
    moreover have "set (paths @ [?p]) = ?P ` {..< Suc n}" using paths by (simp add: lessThan_Suc)
    moreover have "(seen(?p \<mapsto> length paths)) p = Some k \<longleftrightarrow> k < length (paths @ [?p]) \<and> (paths @ [?p]) ! k = p" for p k
      using seen [of p k] nth_not_mem [OF new] by (auto simp: nth_append less_Suc_eq)
    ultimately have "groups_ok rm ms (Suc n) (paths @ [?p]) (group_step rm ms st n)"
      using dist new by (simp add: groups_ok_def del: upt_Suc)
    then show ?thesis by blast
  qed
qed

lemma group_by_file_ok:
  "\<exists>paths. groups_ok rm ms n paths (foldl (group_step rm ms) ([], Map.empty) [0 ..< n])"
proof (induction n)
  case 0
  have "groups_ok rm ms 0 [] ([], Map.empty)" by (simp add: groups_ok_def)
  then show ?case by auto
next
  case (Suc n)
  then obtain paths where "groups_ok rm ms n paths (foldl (group_step rm ms) ([], Map.empty) [0 ..< n])" by blast
  from groups_step [OF this] show ?case by simp
qed

lemma concat_single:
  "distinct xs \<Longrightarrow> concat (map (\<lambda>j. if j = i \<and> Q j then ys else []) xs) = (if i \<in> set xs \<and> Q i then ys else [])"
proof (induction xs)
  case (Cons x xs)
  then show ?case by (cases "x = i") auto
qed simp

lemma concat_choose: "concat (map (\<lambda>t. if Q t then [f t] else []) ts) = map f (filter Q ts)"
  by (induction ts) auto

lemma grouped_covering:
  assumes i: "i < length ms"
  shows "foldl (place_group ts) (replicate (length ms) []) (group_by_file rm ms) ! i
    = map fst (filter (\<lambda>t. mutant_covered rm (ms ! i) (snd t)) ts)"
proof -
  obtain paths where "groups_ok rm ms (length ms) paths (foldl (group_step rm ms) ([], Map.empty) [0 ..< length ms])"
    using group_by_file_ok by blast
  then have gs: "group_by_file rm ms = map (\<lambda>p. \<lparr>group_path = p,
       group_mutants = map (place ms) (filter (\<lambda>i. profile_path rm (ms ! i) = p) [0 ..< length ms])\<rparr>) paths"
    and dist: "distinct paths" and mem: "profile_path rm (ms ! i) \<in> set paths"
    using i by (auto simp: groups_ok_def group_by_file_def)
  have one: "concat (map (\<lambda>j. if placed_hits rs i (place ms j) then [k] else [])
      (filter (\<lambda>i. profile_path rm (ms ! i) = p) [0 ..< length ms]))
    = (if p = profile_path rm (ms ! i) \<and> range_overlaps rs (cm_StartLine (ms ! i)) (cm_EndLine (ms ! i)) then [k] else [])"
    for rs p and k :: 'a
  proof -
    have "concat (map (\<lambda>j. if placed_hits rs i (place ms j) then [k] else [])
      (filter (\<lambda>i. profile_path rm (ms ! i) = p) [0 ..< length ms]))
      = concat (map (\<lambda>j. if j = i \<and> range_overlaps rs (cm_StartLine (ms ! j)) (cm_EndLine (ms ! j)) then [k] else [])
          (filter (\<lambda>i. profile_path rm (ms ! i) = p) [0 ..< length ms]))"
      by (simp add: placed_hits_def place_def)
    then show ?thesis using i by (subst (asm) concat_single) auto
  qed
  have "foldl (place_group ts) (replicate (length ms) []) (group_by_file rm ms) ! i
      = concat (map (\<lambda>p. concat (map (\<lambda>t. if p = profile_path rm (ms ! i)
          \<and> range_overlaps (ranges_of (snd t) p) (cm_StartLine (ms ! i)) (cm_EndLine (ms ! i)) then [fst t] else []) ts)) paths)"
    using i by (simp add: place_groups_nth gs o_def one)
  also have "\<dots> = concat (map (\<lambda>p. if p = profile_path rm (ms ! i) \<and> True
      then concat (map (\<lambda>t. if mutant_covered rm (ms ! i) (snd t) then [fst t] else []) ts) else []) paths)"
    by (intro arg_cong [where f = concat] map_cong) (auto simp: mutant_covered_def covers_def)
  also have "\<dots> = concat (map (\<lambda>t. if mutant_covered rm (ms ! i) (snd t) then [fst t] else []) ts)"
    using dist mem by (subst concat_single) auto
  also have "\<dots> = map fst (filter (\<lambda>t. mutant_covered rm (ms ! i) (snd t)) ts)"
    by (rule concat_choose)
  finally show ?thesis .
qed

lemma tests_steps:
  assumes "\<And>i. i < length ms \<Longrightarrow> cov ! i = f (ms ! i)" and "n \<le> length ms"
  shows "foldl (tests_step cov ms) \<lparr>t_Covering = Map.empty, t_Uncovered = [], t_Tests = ts, t_Matched = k\<rparr> [0 ..< n]
    = \<lparr>t_Covering = covering_map cm_ID f (take n ms),
       t_Uncovered = map cm_ID (filter (\<lambda>m. f m = []) (take n ms)), t_Tests = ts, t_Matched = k\<rparr>"
  using assms(2)
proof (induction n)
  case 0
  then show ?case by (simp add: covering_map_def)
next
  case (Suc n)
  then have "take (Suc n) ms = take n ms @ [ms ! n]" by (simp add: take_Suc_conv_app_nth)
  then show ?case using Suc assms(1) [of n] by (simp add: tests_step_def covering_map_snoc)
qed

text \<open>
  Working file by file does not change what \<open>MapTests\<close> finds: each mutant is covered by
  exactly the tests, in sorted order, whose own index covers its lines, as a search of every
  index for every mutant would find; the others are uncovered, in the order of the mutants.
\<close>

theorem map_tests_reference:
  "let ps = to_Profiles opts; ms = to_Mutants opts; rm = to_ModulePath opts;
       tests = sort_by compare_test_keys (map fst ps);
       cov = (\<lambda>m. filter (\<lambda>k. mutant_covered rm m (key_index ps (modules_of rm ms) k)) tests)
   in map_tests opts =
        \<lparr>t_Covering = covering_map cm_ID cov ms,
         t_Uncovered = map cm_ID (filter (\<lambda>m. cov m = []) ms),
         t_Tests = tests,
         t_Matched = card (files_matched ps (modules_of rm ms) tests)\<rparr>"
proof -
  let ?ps = "to_Profiles opts" and ?ms = "to_Mutants opts" and ?rm = "to_ModulePath opts"
  let ?mods = "modules_of ?rm ?ms"
  let ?tests = "sort_by compare_test_keys (map fst ?ps)"
  let ?ix = "map (\<lambda>k. (k, key_index ?ps ?mods k)) ?tests"
  let ?f = "\<lambda>m. filter (\<lambda>k. mutant_covered ?rm m (key_index ?ps ?mods k)) ?tests"
  let ?cov = "foldl (place_group ?ix) (replicate (length ?ms) []) (group_by_file ?rm ?ms)"
  have cov: "?cov ! i = ?f (?ms ! i)" if "i < length ?ms" for i
    using grouped_covering [OF that, of ?ix ?rm] by (simp add: filter_map o_def)
  show ?thesis
    using tests_steps [of ?ms ?cov ?f "length ?ms", OF cov]
    by (simp add: map_tests_def build_indexes_eq Let_def)
qed

end
