(* ===== verification/GitDiff.thy ===== *)
theory GitDiff
  imports LineRanges GoStrings "HOL-Library.AList"
begin

text \<open>
  The lines changed since a base (\<open>internal/gitdiff\<close>): the parser of \<open>git diff -U0\<close>, the
  merged line ranges per file, the count of the lines of untracked files, and the sequence of
  git commands \<open>resolve\<close> runs. Git and the file system are parameters.
\<close>

datatype git_code =
    CodeGitUnavailable | CodeNotARepository | CodeNoUpstream | CodeUnknownRef | CodeDiffFailed
  | CodeUntrackedUnreadable | CodeMalformedDiff

section \<open>Changed lines\<close>

type_synonym files = "(string \<times> line_range list) list"

record changed =
  Ref :: string
  Base :: string
  Files :: files

definition file_ranges :: "files \<Rightarrow> string \<Rightarrow> line_range list" where
  "file_ranges fs path = (case map_of fs path of None \<Rightarrow> [] | Some rs \<Rightarrow> rs)"

definition changed_paths :: "changed \<Rightarrow> string list" where
  "changed_paths c = sort_by cmp_str (map fst (Files c))"

definition changed_lines :: "changed \<Rightarrow> string \<Rightarrow> line_range list" where
  "changed_lines c path = file_ranges (Files c) path"

definition touches :: "changed \<Rightarrow> string \<Rightarrow> int \<Rightarrow> int \<Rightarrow> bool" where
  "touches c path a b =
     (let (lo, hi) = (min a b, max a b)
      in list_ex (\<lambda>r. First r \<le> hi \<and> lo \<le> Last r) (file_ranges (Files c) path))"

text \<open>\<open>r.First - 1\<close> is computed in 64 bits.\<close>

definition diff_joins :: "int \<Rightarrow> int \<Rightarrow> bool" where
  "diff_joins last_end next_first \<longleftrightarrow> wrap64 (next_first - 1) \<le> last_end"

definition merge_ranges :: "line_range list \<Rightarrow> line_range list" where
  "merge_ranges rs = merge_by diff_joins rs"

section \<open>The parser\<close>

definition fileMarker :: string where "fileMarker = ''diff --git ''"
definition targetMarker :: string where "targetMarker = ''+++ ''"
definition hunkMarker :: string where "hunkMarker = ''@@ ''"
definition devNull :: string where "devNull = ''/dev/null''"
definition dstPrefix :: string where "dstPrefix = ''b/''"

definition backslash :: char where "backslash = chr 92"
definition dquote :: char where "dquote = chr 34"

text \<open>The escapes of one letter.\<close>

definition letter_escapes :: "(char \<times> char) list" where
  "letter_escapes = [(CHR ''a'', chr 7), (CHR ''b'', chr 8), (CHR ''f'', chr 12), (CHR ''n'', chr 10),
     (CHR ''r'', chr 13), (CHR ''t'', chr 9), (CHR ''v'', chr 11)]"

definition is_octal :: "char \<Rightarrow> bool" where
  "is_octal c \<longleftrightarrow> is_digit c \<and> digit_val c < 8"

fun unquote_body :: "string \<Rightarrow> string" where
  "unquote_body [] = []"
| "unquote_body [c] = [c]"
| "unquote_body (c # d # rest) =
     (if c \<noteq> backslash then c # unquote_body (d # rest)
      else case map_of letter_escapes d of
             Some e \<Rightarrow> e # unquote_body rest
           | None \<Rightarrow>
               if is_octal d \<and> 2 \<le> length rest then
                 (case parse_uint (d # take 2 rest) 8 8 of
                    Some v \<Rightarrow> chr v # unquote_body (drop 2 rest)
                  | None \<Rightarrow> d # unquote_body rest)
               else d # unquote_body rest)"

definition unquote :: "string \<Rightarrow> string" where
  "unquote path =
     (if length path < 2 \<or> hd path \<noteq> dquote \<or> last path \<noteq> dquote then path
      else unquote_body (butlast (tl path)))"

definition relative :: "string \<Rightarrow> string \<Rightarrow> string" where
  "relative path prefix =
     (case cut_prefix path prefix of None \<Rightarrow> [] | Some rest \<Rightarrow> rest)"

definition target_path :: "string \<Rightarrow> git_code + string" where
  "target_path line =
     (let name = trim_prefix line targetMarker in
      if name = devNull then Inr []
      else if \<not> has_prefix name dstPrefix then Inl CodeMalformedDiff
      else Inr (unquote (trim_prefix name dstPrefix)))"

definition hunk_lines :: "string \<Rightarrow> git_code + int \<times> int" where
  "hunk_lines line =
     (case go_cut (trim_prefix line hunkMarker) '' @@'' of
        None \<Rightarrow> Inl CodeMalformedDiff
      | Some (ranges, _) \<Rightarrow>
          (let spec = (case find (\<lambda>f. has_prefix f ''+'') (go_fields ranges) of
                         None \<Rightarrow> [] | Some f \<Rightarrow> trim_prefix f ''+'');
               (startText, countText) =
                 (case go_cut spec '','' of None \<Rightarrow> (spec, None) | Some (a, b) \<Rightarrow> (a, Some b))
           in if spec = [] then Inl CodeMalformedDiff
              else
                (case atoi startText of
                   None \<Rightarrow> Inl CodeMalformedDiff
                 | Some first \<Rightarrow>
                     if first < 0 then Inl CodeMalformedDiff
                     else
                       (case (case countText of None \<Rightarrow> Some 1 | Some t \<Rightarrow> atoi t) of
                          None \<Rightarrow> Inl CodeMalformedDiff
                        | Some n \<Rightarrow>
                            if n < 0 then Inl CodeMalformedDiff
                            else if n > 0 \<and> first < 1 then Inl CodeMalformedDiff
                            else Inr (first, n)))))"

record parse_state =
  p_files :: files
  p_path :: string
  inHunks :: bool

definition add_range :: "files \<Rightarrow> string \<Rightarrow> line_range \<Rightarrow> files" where
  "add_range fs path r = AList.update path (file_ranges fs path @ [r]) fs"

definition parse_diff_line :: "string \<Rightarrow> parse_state \<Rightarrow> string \<Rightarrow> git_code + parse_state" where
  "parse_diff_line prefix st raw =
     (let line = trim_right raw [cr] in
      if has_prefix line fileMarker then Inr (st\<lparr>p_path := [], inHunks := False\<rparr>)
      else if \<not> inHunks st \<and> has_prefix line targetMarker then
        (case target_path line of
           Inl err \<Rightarrow> Inl err
         | Inr name \<Rightarrow> Inr (st\<lparr>p_path := relative name prefix\<rparr>))
      else if has_prefix line hunkMarker then
        (case hunk_lines line of
           Inl err \<Rightarrow> Inl err
         | Inr (first, n) \<Rightarrow>
             (let st = st\<lparr>inHunks := True\<rparr> in
              if p_path st = [] \<or> n = 0 then Inr st
              else Inr (st\<lparr>p_files := add_range (p_files st) (p_path st)
                     \<lparr>First = first, Last = wrap64 (wrap64 (first + n) - 1)\<rparr>\<rparr>)))
      else Inr st)"

fun parse_diff_lines :: "string \<Rightarrow> parse_state \<Rightarrow> string list \<Rightarrow> git_code + parse_state" where
  "parse_diff_lines prefix st [] = Inr st"
| "parse_diff_lines prefix st (l # ls) =
     (case parse_diff_line prefix st l of
        Inl err \<Rightarrow> Inl err
      | Inr st' \<Rightarrow> parse_diff_lines prefix st' ls)"

definition parse_diff :: "string \<Rightarrow> string \<Rightarrow> git_code + files" where
  "parse_diff out prefix =
     (case parse_diff_lines prefix \<lparr>p_files = [], p_path = [], inHunks = False\<rparr> (split_on nl out) of
        Inl err \<Rightarrow> Inl err
      | Inr st \<Rightarrow> Inr (map (\<lambda>(path, rs). (path, merge_ranges rs)) (p_files st)))"

section \<open>Counting the lines of a file\<close>

record line_counter =
  counted :: int
  last_byte :: char
  read_any :: bool

definition new_counter :: line_counter where
  "new_counter = \<lparr>counted = 0, last_byte = chr 0, read_any = False\<rparr>"

definition counter_write :: "line_counter \<Rightarrow> string \<Rightarrow> line_counter" where
  "counter_write c p =
     (if length p > 0
      then c\<lparr>counted := wrap64 (counted c + int (count_byte p nl)), last_byte := last p, read_any := True\<rparr>
      else c)"

definition counter_total :: "line_counter \<Rightarrow> int" where
  "counter_total c =
     (if read_any c \<and> last_byte c \<noteq> nl then wrap64 (counted c + 1) else counted c)"

text \<open>
  What the file system says of a path: it is missing, not a regular file, cannot be opened or
  examined, or delivers chunks of bytes and then ends or fails.
\<close>

datatype file_entry = Missing | NotRegular | Failing | Chunks "string list" bool

definition line_count :: "file_entry \<Rightarrow> git_code + int" where
  "line_count e =
     (case e of
        Missing \<Rightarrow> Inr 0
      | NotRegular \<Rightarrow> Inr 0
      | Failing \<Rightarrow> Inl CodeUntrackedUnreadable
      | Chunks ps fails \<Rightarrow>
          if fails then Inl CodeUntrackedUnreadable
          else Inr (counter_total (foldl counter_write new_counter ps)))"

section \<open>Resolving what changed\<close>

text \<open>
  \<open>run\<close> is git: a state, the arguments, and what it prints or the code of its failure, with
  the state after it. \<open>fs\<close> is the file system below the root.
\<close>

type_synonym 's runner = "'s \<Rightarrow> string list \<Rightarrow> (git_code + string) \<times> 's"

definition UpstreamRef :: string where "UpstreamRef = CHR 0x40 # ''{upstream}''"

definition git_prefix :: "'s runner \<Rightarrow> 's \<Rightarrow> (git_code + string) \<times> 's" where
  "git_prefix run s =
     (case run s [''rev-parse'', ''--show-prefix''] of
        (Inr out, s') \<Rightarrow> (Inr (trim_space out), s')
      | (Inl code, s') \<Rightarrow>
          (Inl (if code = CodeGitUnavailable then code else CodeNotARepository), s'))"

definition resolve_ref :: "'s runner \<Rightarrow> 's \<Rightarrow> string \<Rightarrow> (git_code + string) \<times> 's" where
  "resolve_ref run s ref =
     (let named = trim_space ref in
      if named \<noteq> [] \<and> named \<noteq> UpstreamRef then (Inr ref, s)
      else
        (case run s [''rev-parse'', ''--abbrev-ref'', ''--symbolic-full-name'', UpstreamRef] of
           (Inl code, s') \<Rightarrow> (Inl (if code = CodeGitUnavailable then code else CodeNoUpstream), s')
         | (Inr out, s') \<Rightarrow>
             (let name = trim_space out in
              (if name = [] then Inl CodeNoUpstream else Inr name, s'))))"

definition merge_base :: "'s runner \<Rightarrow> 's \<Rightarrow> string \<Rightarrow> (git_code + string) \<times> 's" where
  "merge_base run s ref =
     (case run s [''merge-base'', ref, ''HEAD''] of
        (Inr out, s') \<Rightarrow>
          (let base = trim_space out in (if base \<noteq> [] then Inr base else Inl CodeUnknownRef, s'))
      | (Inl code, s') \<Rightarrow>
          if code = CodeGitUnavailable then (Inl code, s')
          else (case run s' [''rev-parse'', ''--verify'', ''--quiet'', ''HEAD''] of
                  (_, s'') \<Rightarrow> (Inl CodeUnknownRef, s'')))"

definition git_diff :: "'s runner \<Rightarrow> 's \<Rightarrow> string \<Rightarrow> (git_code + string) \<times> 's" where
  "git_diff run s base =
     (case run s [''-c'', ''core.quotePath=false'', ''diff'', ''--src-prefix=a/'', ''--dst-prefix=b/'',
          ''--no-renames'', ''--no-color'', ''--no-ext-diff'', ''--no-textconv'', ''-U0'', base, ''--'', ''.''] of
        (Inr out, s') \<Rightarrow> (Inr out, s')
      | (Inl code, s') \<Rightarrow> (Inl (if code = CodeGitUnavailable then code else CodeDiffFailed), s'))"

definition untracked :: "'s runner \<Rightarrow> 's \<Rightarrow> (git_code + string list) \<times> 's" where
  "untracked run s =
     (case run s [''ls-files'', ''--others'', ''--exclude-standard'', ''--full-name'', ''-z'', ''--'', ''.''] of
        (Inr out, s') \<Rightarrow> (Inr (filter (\<lambda>p. p \<noteq> []) (split_on (chr 0) out)), s')
      | (Inl code, s') \<Rightarrow> (Inl (if code = CodeGitUnavailable then code else CodeUntrackedUnreadable), s'))"

fun add_paths :: "(string \<Rightarrow> file_entry) \<Rightarrow> string \<Rightarrow> files \<Rightarrow> string list \<Rightarrow> git_code + files" where
  "add_paths fs prefix files [] = Inr files"
| "add_paths fs prefix files (path # paths) =
     (let rel = relative path prefix in
      if rel = [] then add_paths fs prefix files paths
      else
        (case line_count (fs rel) of
           Inl err \<Rightarrow> Inl err
         | Inr lines \<Rightarrow>
             if lines = 0 then add_paths fs prefix files paths
             else add_paths fs prefix
                    (AList.update rel (merge_ranges (file_ranges files rel @ [\<lparr>First = 1, Last = lines\<rparr>])) files)
                    paths))"

definition add_untracked ::
  "'s runner \<Rightarrow> (string \<Rightarrow> file_entry) \<Rightarrow> 's \<Rightarrow> files \<Rightarrow> string \<Rightarrow> (git_code + files) \<times> 's" where
  "add_untracked run fs s files prefix =
     (case untracked run s of
        (Inl err, s') \<Rightarrow> (Inl err, s')
      | (Inr paths, s') \<Rightarrow> (add_paths fs prefix files paths, s'))"

definition resolve ::
  "'s runner \<Rightarrow> (string \<Rightarrow> file_entry) \<Rightarrow> 's \<Rightarrow> string \<Rightarrow> (git_code + changed) \<times> 's" where
  "resolve run fs s wanted =
     (case git_prefix run s of (Inl err, s) \<Rightarrow> (Inl err, s) | (Inr prefix, s) \<Rightarrow>
      (case resolve_ref run s wanted of (Inl err, s) \<Rightarrow> (Inl err, s) | (Inr ref, s) \<Rightarrow>
       (case merge_base run s ref of (Inl err, s) \<Rightarrow> (Inl err, s) | (Inr base, s) \<Rightarrow>
        (case git_diff run s base of (Inl err, s) \<Rightarrow> (Inl err, s) | (Inr out, s) \<Rightarrow>
         (case parse_diff out prefix of
            Inl err \<Rightarrow> (Inl err, s)
          | Inr files \<Rightarrow>
              (case add_untracked run fs s files prefix of
                 (Inl err, s) \<Rightarrow> (Inl err, s)
               | (Inr files, s) \<Rightarrow> (Inr \<lparr>Ref = ref, Base = base, Files = files\<rparr>, s)))))))"

definition trim_output :: "string \<Rightarrow> string" where
  "trim_output s =
     (let t = trim_right s [cr, nl, CHR '' '', tab] in
      if t = [] then []
      else
        (let ls = split_on nl t
         in join_with [nl] (map (\<lambda>l. trim_right l [cr]) (drop (length ls - 20) ls))))"

definition short_hash :: "string \<Rightarrow> string" where
  "short_hash h = take (min (length h) 12) h"

definition or_default :: "string \<Rightarrow> string \<Rightarrow> string" where
  "or_default v fallback = (if v = [] then fallback else v)"

section \<open>Merged ranges\<close>

interpretation dj: range_joins diff_joins "\<lambda>n. min_int < n \<and> n \<le> max_int"
proof
  fix l f
  assume "min_int < l \<and> l \<le> max_int" and "min_int < f \<and> f \<le> max_int"
  then have "wrap64 (f - 1) = f - 1" by (intro wrap64_id) (simp add: int64_ok_def)
  then show "diff_joins l f \<longleftrightarrow> f \<le> l + 1" by (auto simp: diff_joins_def)
qed

lemma merge_ranges_Nil [simp]: "merge_ranges [] = []"
  by (simp add: merge_ranges_def merge_by_def)

lemma file_ranges_update:
  "file_ranges (AList.update p rs fs) q = (if q = p then rs else file_ranges fs q)"
  by (simp add: file_ranges_def update_conv)

lemma file_ranges_map: "f [] = [] \<Longrightarrow> file_ranges (map (\<lambda>(p, rs). (p, f rs)) fs) q = f (file_ranges fs q)"
  by (simp add: file_ranges_def map_of_map split: option.split)

definition files_ok :: "files \<Rightarrow> bool" where
  "files_ok fs \<longleftrightarrow> (\<forall>p. list_all dj.range_ok (file_ranges fs p))"

section \<open>The text of a diff\<close>

text \<open>
  What git prints: per file a header, lines of meta data, a target, and hunks whose bodies are
  arbitrary lines after one of the marks \<open>+\<close>, \<open>-\<close>, blank and backslash.
\<close>

record diff_hunk =
  h_old :: string
  h_first :: int
  h_count :: "int option"
  h_tail :: string
  h_body :: "string list"

datatype diff_target = NoTarget | Deleted | Target string

record diff_file =
  d_names :: string
  d_meta :: "string list"
  d_target :: diff_target
  d_hunks :: "diff_hunk list"

definition hunk_size :: "diff_hunk \<Rightarrow> int" where
  "hunk_size h = (case h_count h of None \<Rightarrow> 1 | Some n \<Rightarrow> n)"

definition hunk_spec :: "diff_hunk \<Rightarrow> string" where
  "hunk_spec h = itoa (h_first h) @ (case h_count h of None \<Rightarrow> [] | Some n \<Rightarrow> '','' @ itoa n)"

definition hunk_header :: "diff_hunk \<Rightarrow> string" where
  "hunk_header h = ''@@ -'' @ h_old h @ '' +'' @ hunk_spec h @ '' @@'' @ h_tail h"

definition target_line :: "diff_target \<Rightarrow> string list" where
  "target_line t = (case t of NoTarget \<Rightarrow> [] | Deleted \<Rightarrow> [targetMarker @ devNull]
     | Target n \<Rightarrow> [targetMarker @ dstPrefix @ n])"

definition file_lines :: "diff_file \<Rightarrow> string list" where
  "file_lines f = (fileMarker @ d_names f) # d_meta f @ target_line (d_target f)
     @ concat (map (\<lambda>h. hunk_header h # h_body h) (d_hunks f))"

definition diff_text :: "diff_file list \<Rightarrow> string" where
  "diff_text fs = concat (map (\<lambda>l. l @ [nl]) (concat (map file_lines fs)))"

definition body_mark :: "string \<Rightarrow> bool" where
  "body_mark l \<longleftrightarrow> l \<noteq> [] \<and> hd l \<in> {CHR ''+'', CHR ''-'', CHR '' '', backslash}"

definition hunk_valid :: "diff_hunk \<Rightarrow> bool" where
  "hunk_valid h \<longleftrightarrow> list_all plain_char (h_old h) \<and> nl \<notin> set (h_tail h)
     \<and> 0 \<le> h_first h \<and> 0 \<le> hunk_size h \<and> (0 < hunk_size h \<longrightarrow> 1 \<le> h_first h)
     \<and> h_first h + hunk_size h \<le> max_int
     \<and> list_all (\<lambda>l. nl \<notin> set l \<and> body_mark l) (h_body h)"

definition meta_valid :: "string \<Rightarrow> bool" where
  "meta_valid l \<longleftrightarrow> nl \<notin> set l \<and> \<not> has_prefix l fileMarker \<and> \<not> has_prefix l targetMarker
     \<and> \<not> has_prefix l hunkMarker"

definition target_valid :: "diff_target \<Rightarrow> bool" where
  "target_valid t \<longleftrightarrow> (case t of Target n \<Rightarrow> nl \<notin> set n \<and> trim_right n [cr] = n | _ \<Rightarrow> True)"

definition file_valid :: "diff_file \<Rightarrow> bool" where
  "file_valid f \<longleftrightarrow> nl \<notin> set (d_names f) \<and> list_all meta_valid (d_meta f) \<and> target_valid (d_target f)
     \<and> list_all hunk_valid (d_hunks f)"

text \<open>The path a file has below the workspace, and the lines its hunks name in the new file.\<close>

definition new_path :: "string \<Rightarrow> diff_target \<Rightarrow> string" where
  "new_path prefix t = (case t of Target n \<Rightarrow> relative (unquote n) prefix | _ \<Rightarrow> [])"

definition new_lines :: "diff_file \<Rightarrow> int set" where
  "new_lines f = (\<Union>h \<in> set (d_hunks f). {h_first h ..< h_first h + hunk_size h})"

definition lines_changed :: "string \<Rightarrow> diff_file list \<Rightarrow> string \<Rightarrow> int set" where
  "lines_changed prefix fs path =
     (\<Union>f \<in> set (filter (\<lambda>f. path \<noteq> [] \<and> new_path prefix (d_target f) = path) fs). new_lines f)"

section \<open>Parsing is exact\<close>

lemma trim_right_append: "x \<noteq> [] \<Longrightarrow> last x \<noteq> cr \<Longrightarrow> trim_right (x @ t) [cr] = x @ trim_right t [cr]"
proof -
  assume x: "x \<noteq> []" "last x \<noteq> cr"
  then obtain y a where y: "x = y @ [a]" "a \<noteq> cr" by (metis last_snoc rev_exhaust)
  show ?thesis
  proof (cases "\<forall>c \<in> set t. c = cr")
    case True
    then have "dropWhile (\<lambda>c. c = cr) (rev t @ rev x) = rev x" using y
      by (subst dropWhile_append2) simp_all
    moreover have "dropWhile (\<lambda>c. c = cr) (rev t) = []" using True by simp
    ultimately show ?thesis by (simp add: trim_right_def)
  next
    case False
    then obtain c where "c \<in> set (rev t)" "\<not> c = cr" by auto
    then show ?thesis by (simp add: trim_right_def dropWhile_append1)
  qed
qed

lemma trim_right_prefix: "has_prefix (trim_right l [cr]) p \<Longrightarrow> has_prefix l p"
proof -
  assume "has_prefix (trim_right l [cr]) p"
  moreover have "l = trim_right l [cr] @ rev (takeWhile (\<lambda>c. c = cr) (rev l))"
    unfolding trim_right_def by (simp flip: rev_append)
  ultimately show ?thesis unfolding has_prefix_iff by (metis append.assoc)
qed

lemma go_cut_skip:
  "c \<notin> set w \<Longrightarrow> go_cut (w @ s) (c # sep) = map_option (\<lambda>(a, b). (w @ a, b)) (go_cut s (c # sep))"
proof (induction w)
  case Nil
  then show ?case by (simp add: option.map_ident case_prod_unfold)
next
  case (Cons x w)
  then show ?case by (auto simp: option.map_comp comp_def case_prod_unfold)
qed

lemma parse_diff_lines_append:
  "parse_diff_lines prefix st (xs @ ys) =
     (case parse_diff_lines prefix st xs of Inl e \<Rightarrow> Inl e | Inr st' \<Rightarrow> parse_diff_lines prefix st' ys)"
  by (induction xs arbitrary: st) (auto split: sum.split)

lemma parse_ignored:
  assumes "list_all (\<lambda>l. \<not> has_prefix l fileMarker \<and> \<not> has_prefix l hunkMarker
      \<and> (inHunks st \<or> \<not> has_prefix l targetMarker)) ls"
  shows "parse_diff_lines prefix st ls = Inr st"
  using assms
proof (induction ls)
  case (Cons l ls)
  then have "parse_diff_line prefix st l = Inr st"
    using trim_right_prefix [of l] by (auto simp: parse_diff_line_def Let_def)
  with Cons show ?case by simp
qed simp


lemma plain_no_blank: "list_all plain_char w \<Longrightarrow> CHR '' '' \<notin> set w"
  by (auto simp: list_all_iff plain_char_def ord_chars)

lemma hunk_spec_plain:
  assumes "hunk_valid h" shows "list_all plain_char (hunk_spec h)" and "hunk_spec h \<noteq> []"
proof -
  have "plain_char CHR '',''" by (simp add: plain_char_def ord_chars)
  then show "list_all plain_char (hunk_spec h)" and "hunk_spec h \<noteq> []"
    using assms plain_itoa [of "h_first h"] plain_itoa [of "the (h_count h)"]
    by (auto simp: hunk_spec_def hunk_valid_def hunk_size_def split: option.splits)
qed

lemma go_cut_hunk:
  assumes v: "hunk_valid h"
  shows "go_cut (trim_prefix (hunk_header h) hunkMarker) '' @@''
    = Some (join_with '' '' [CHR ''-'' # h_old h, CHR ''+'' # hunk_spec h], h_tail h)"
proof -
  have 1: "CHR '' '' \<notin> set (CHR ''-'' # h_old h)"
    using v plain_no_blank by (auto simp: hunk_valid_def)
  have 2: "CHR '' '' \<notin> set (CHR ''+'' # hunk_spec h)"
    using hunk_spec_plain [OF v] plain_no_blank by auto
  have t: "trim_prefix (hunk_header h) hunkMarker
      = (CHR ''-'' # h_old h) @ CHR '' '' # (CHR ''+'' # hunk_spec h) @ '' @@'' @ h_tail h"
    by (simp add: hunk_header_def hunkMarker_def trim_prefix_def)
  have hit: "go_cut ('' @@'' @ h_tail h) '' @@'' = Some ([], h_tail h)" by simp
  have miss: "go_cut (CHR '' '' # (CHR ''+'' # u) @ s) '' @@''
      = map_option (\<lambda>(a, b). (CHR '' '' # a, b)) (go_cut ((CHR ''+'' # u) @ s) '' @@'')" for u s
    by (subst go_cut.simps) simp
  show ?thesis
    unfolding t go_cut_skip [OF 1] miss go_cut_skip [OF 2] hit by simp
qed

lemma not_sign: "\<not> is_digit CHR ''+''" "\<not> is_digit CHR '',''"
  by (simp_all add: not_digit_marks)

lemma hunk_lines_header:
  assumes v: "hunk_valid h"
  shows "hunk_lines (hunk_header h) = Inr (h_first h, hunk_size h)"
proof -
  have sp: "list_all plain_char (hunk_spec h)" "hunk_spec h \<noteq> []"
    using hunk_spec_plain [OF v] by simp_all
  have marks: "plain_char CHR ''-''" "plain_char CHR ''+''" by (simp_all add: plain_char_def, code_simp+)
  have fields: "go_fields (join_with '' '' [CHR ''-'' # h_old h, CHR ''+'' # hunk_spec h])
      = [CHR ''-'' # h_old h, CHR ''+'' # hunk_spec h]"
    using v sp marks by (intro go_fields_words) (simp add: hunk_valid_def)
  have nums: "atoi (itoa (h_first h)) = Some (h_first h)"
    "h_count h = Some n \<Longrightarrow> atoi (itoa n) = Some n" for n
    using v by (auto simp: hunk_valid_def hunk_size_def int64_ok_def min_int_def max_int_def split: option.splits)
  have "CHR '','' \<notin> set (itoa (h_first h))"
    using v plain_itoa(3) [of "h_first h"] digits_no not_sign by (auto simp: hunk_valid_def)
  then have cut: "(case go_cut (hunk_spec h) '','' of None \<Rightarrow> (hunk_spec h, None) | Some (a, b) \<Rightarrow> (a, Some b))
      = (itoa (h_first h), map_option itoa (h_count h))"
    using go_cut_char [of "CHR '',''" "itoa (h_first h)"] go_cut_char_None [of "itoa (h_first h)" "CHR '',''"]
    by (simp add: hunk_spec_def split: option.split)
  have spec: "(case find (\<lambda>f. has_prefix f ''+'') [CHR ''-'' # h_old h, CHR ''+'' # hunk_spec h] of
       None \<Rightarrow> [] | Some f \<Rightarrow> trim_prefix f ''+'') = hunk_spec h"
    by (simp add: trim_prefix_def)
  show ?thesis
    unfolding hunk_lines_def go_cut_hunk [OF v] option.case prod.case fields spec Let_def cut
    using v nums sp(2) by (auto simp: hunk_valid_def hunk_size_def split: option.splits)
qed

lemma diff_marks: "CHR ''@'' \<noteq> cr" "backslash \<noteq> CHR ''d''" "backslash \<noteq> CHR ''@''"
  by code_simp+

text \<open>What a hunk adds to the files.\<close>

definition apply_hunk :: "string \<Rightarrow> files \<Rightarrow> diff_hunk \<Rightarrow> files" where
  "apply_hunk p fs h =
     (if p = [] \<or> hunk_size h = 0 then fs
      else add_range fs p \<lparr>First = h_first h, Last = h_first h + hunk_size h - 1\<rparr>)"

lemma trimmed_header: "\<exists>t. trim_right (hunk_header h) [cr] = hunk_header (h\<lparr>h_tail := t\<rparr>)
   \<and> set t \<subseteq> set (h_tail h)"
proof -
  let ?x = "''@@ -'' @ h_old h @ '' +'' @ hunk_spec h @ '' @@''"
  have "trim_right (?x @ h_tail h) [cr] = ?x @ trim_right (h_tail h) [cr]"
    using diff_marks by (intro trim_right_append) simp_all
  moreover have "set (trim_right (h_tail h) [cr]) \<subseteq> set (h_tail h)"
    by (auto simp: trim_right_def dest: set_dropWhileD)
  ultimately show ?thesis
    by (intro exI [of _ "trim_right (h_tail h) [cr]"])
      (simp add: hunk_header_def hunk_spec_def)
qed

lemma parse_hunk_header:
  assumes v: "hunk_valid h"
  shows "parse_diff_line prefix st (hunk_header h)
    = Inr (st\<lparr>p_files := apply_hunk (p_path st) (p_files st) h, inHunks := True\<rparr>)"
proof -
  obtain t where t: "trim_right (hunk_header h) [cr] = hunk_header (h\<lparr>h_tail := t\<rparr>)"
    "set t \<subseteq> set (h_tail h)" using trimmed_header by blast
  have v': "hunk_valid (h\<lparr>h_tail := t\<rparr>)" using v t(2) by (auto simp: hunk_valid_def hunk_size_def)
  have size: "hunk_size (h\<lparr>h_tail := t\<rparr>) = hunk_size h" by (simp add: hunk_size_def)
  have marks: "\<not> has_prefix (hunk_header (h\<lparr>h_tail := t\<rparr>)) fileMarker"
    "\<not> has_prefix (hunk_header (h\<lparr>h_tail := t\<rparr>)) targetMarker"
    "has_prefix (hunk_header (h\<lparr>h_tail := t\<rparr>)) hunkMarker"
    by (simp_all add: hunk_header_def fileMarker_def targetMarker_def hunkMarker_def)
  have "int64_ok (h_first h + hunk_size h)" "int64_ok (h_first h + hunk_size h - 1)"
    using v by (auto simp: hunk_valid_def int64_ok_def min_int_def max_int_def)
  then have last: "wrap64 (wrap64 (h_first h + hunk_size h) - 1) = h_first h + hunk_size h - 1" by simp
  show ?thesis
    unfolding parse_diff_line_def t(1) Let_def using marks hunk_lines_header [OF v'] last
    by (simp add: size apply_hunk_def)
qed

lemma parse_hunks:
  assumes "list_all hunk_valid hs"
  shows "parse_diff_lines prefix st (concat (map (\<lambda>h. hunk_header h # h_body h) hs))
    = Inr (st\<lparr>p_files := foldl (apply_hunk (p_path st)) (p_files st) hs, inHunks := inHunks st \<or> hs \<noteq> []\<rparr>)"
  using assms
proof (induction hs arbitrary: st)
  case (Cons h hs)
  let ?st = "st\<lparr>p_files := apply_hunk (p_path st) (p_files st) h, inHunks := True\<rparr>"
  have "\<not> has_prefix l fileMarker \<and> \<not> has_prefix l hunkMarker" if "body_mark l" for l
    using that diff_marks by (cases l) (auto simp: body_mark_def fileMarker_def hunkMarker_def)
  then have "parse_diff_lines prefix ?st (h_body h) = Inr ?st"
    using Cons.prems by (intro parse_ignored) (auto simp: hunk_valid_def list_all_iff)
  then show ?case
    using Cons by (simp add: parse_hunk_header parse_diff_lines_append)
qed simp


lemma target_line_parses:
  assumes "target_valid t" and "\<not> inHunks st" and "p_path st = []"
  shows "parse_diff_lines prefix st (target_line t) = Inr (st\<lparr>p_path := new_path prefix t\<rparr>)"
proof (cases t)
  case NoTarget
  then show ?thesis using assms by (simp add: target_line_def new_path_def)
next
  case Deleted
  have l: "trim_right (targetMarker @ devNull) [cr] = targetMarker @ devNull" by code_simp
  have "target_path (targetMarker @ devNull) = Inr []" by (simp add: target_path_def trim_prefix_def)
  moreover have "\<not> has_prefix (targetMarker @ devNull) fileMarker" "has_prefix (targetMarker @ devNull) targetMarker"
    by code_simp+
  moreover have "relative [] prefix = []" by (simp add: relative_def cut_prefix_def)
  ultimately show ?thesis using assms Deleted
    by (simp add: target_line_def new_path_def parse_diff_line_def l)
next
  case (Target n)
  let ?x = "targetMarker @ dstPrefix"
  have "CHR ''/'' \<noteq> cr" by code_simp
  then have l: "trim_right (?x @ n) [cr] = ?x @ n"
    using assms(1) Target trim_right_append [of ?x n]
    by (simp add: target_valid_def targetMarker_def dstPrefix_def)
  have "target_path (?x @ n) = Inr (unquote n)"
    by (simp add: target_path_def trim_prefix_def targetMarker_def dstPrefix_def devNull_def Let_def)
  moreover have "\<not> has_prefix (?x @ n) fileMarker" "has_prefix (?x @ n) targetMarker"
    by (simp_all add: fileMarker_def targetMarker_def)
  ultimately show ?thesis using assms Target l
    by (simp add: target_line_def new_path_def parse_diff_line_def)
qed

lemma parse_file:
  assumes v: "file_valid f"
  shows "\<exists>b. parse_diff_lines prefix \<lparr>p_files = fs, p_path = p, inHunks = h\<rparr> (file_lines f)
    = Inr \<lparr>p_files = foldl (apply_hunk (new_path prefix (d_target f))) fs (d_hunks f),
           p_path = new_path prefix (d_target f), inHunks = b\<rparr>"
proof -
  have "CHR '' '' \<noteq> cr" by code_simp
  then have "trim_right (fileMarker @ d_names f) [cr] = fileMarker @ trim_right (d_names f) [cr]"
    by (intro trim_right_append) (simp_all add: fileMarker_def)
  then have h: "parse_diff_line prefix \<lparr>p_files = fs, p_path = p, inHunks = h\<rparr> (fileMarker @ d_names f)
      = Inr \<lparr>p_files = fs, p_path = [], inHunks = False\<rparr>"
    by (simp add: parse_diff_line_def)
  have m: "parse_diff_lines prefix \<lparr>p_files = fs, p_path = [], inHunks = False\<rparr> (d_meta f)
      = Inr \<lparr>p_files = fs, p_path = [], inHunks = False\<rparr>"
    using v by (intro parse_ignored) (auto simp: file_valid_def meta_valid_def list_all_iff)
  have t: "parse_diff_lines prefix \<lparr>p_files = fs, p_path = [], inHunks = False\<rparr> (target_line (d_target f))
      = Inr \<lparr>p_files = fs, p_path = new_path prefix (d_target f), inHunks = False\<rparr>"
    using v by (subst target_line_parses) (auto simp: file_valid_def)
  have "list_all hunk_valid (d_hunks f)" using v by (simp add: file_valid_def)
  from parse_hunks [OF this] show ?thesis
    by (simp add: file_lines_def h m t parse_diff_lines_append)
qed

definition apply_file :: "string \<Rightarrow> files \<Rightarrow> diff_file \<Rightarrow> files" where
  "apply_file prefix fs f = foldl (apply_hunk (new_path prefix (d_target f))) fs (d_hunks f)"

lemma parse_files:
  assumes "list_all file_valid ds"
  shows "\<exists>p b. parse_diff_lines prefix st (concat (map file_lines ds))
    = Inr \<lparr>p_files = foldl (apply_file prefix) (p_files st) ds, p_path = p, inHunks = b\<rparr>"
  using assms
proof (induction ds arbitrary: st)
  case Nil
  then show ?case by (intro exI [of _ "p_path st"] exI [of _ "inHunks st"]) simp
next
  case (Cons d ds)
  obtain b where "parse_diff_lines prefix st (file_lines d)
      = Inr \<lparr>p_files = apply_file prefix (p_files st) d, p_path = new_path prefix (d_target d), inHunks = b\<rparr>"
    using Cons.prems parse_file [of d prefix "p_files st" "p_path st" "inHunks st"]
    unfolding apply_file_def by (cases st) auto
  then show ?case
    using Cons.IH [of "\<lparr>p_files = apply_file prefix (p_files st) d, p_path = new_path prefix (d_target d), inHunks = b\<rparr>"]
      Cons.prems by (simp add: parse_diff_lines_append)
qed

lemma apply_hunk_lines:
  assumes "hunk_valid h" and "files_ok fs"
  shows "files_ok (apply_hunk p fs h)"
    and "lines_of (file_ranges (apply_hunk p fs h) q)
      = lines_of (file_ranges fs q) \<union> (if q \<noteq> [] \<and> p = q then {h_first h ..< h_first h + hunk_size h} else {})"
proof -
  have r: "dj.range_ok \<lparr>First = h_first h, Last = h_first h + hunk_size h - 1\<rparr>" if "hunk_size h \<noteq> 0"
    using assms(1) that unfolding dj.range_ok_def
    by (simp add: hunk_valid_def min_int_def max_int_def)
  show "files_ok (apply_hunk p fs h)"
    using assms(2) r by (simp add: apply_hunk_def add_range_def files_ok_def file_ranges_update)
  show "lines_of (file_ranges (apply_hunk p fs h) q)
      = lines_of (file_ranges fs q) \<union> (if q \<noteq> [] \<and> p = q then {h_first h ..< h_first h + hunk_size h} else {})"
    by (auto simp: apply_hunk_def add_range_def file_ranges_update)
qed

lemma apply_hunks_lines:
  assumes "list_all hunk_valid hs" and "files_ok fs"
  shows "files_ok (foldl (apply_hunk p) fs hs) \<and> lines_of (file_ranges (foldl (apply_hunk p) fs hs) q)
      = lines_of (file_ranges fs q)
        \<union> (if q \<noteq> [] \<and> p = q then \<Union>h \<in> set hs. {h_first h ..< h_first h + hunk_size h} else {})"
  using assms
proof (induction hs arbitrary: fs)
  case (Cons h hs)
  then show ?case using apply_hunk_lines [of h fs] by auto
qed simp

lemma apply_files_lines:
  assumes "list_all file_valid ds" and "files_ok fs"
  shows "files_ok (foldl (apply_file prefix) fs ds) \<and> lines_of (file_ranges (foldl (apply_file prefix) fs ds) q)
      = lines_of (file_ranges fs q) \<union> lines_changed prefix ds q"
  using assms
proof (induction ds arbitrary: fs)
  case Nil
  then show ?case by (simp add: lines_changed_def)
next
  case (Cons d ds)
  let ?fs = "apply_file prefix fs d"
  have d: "files_ok ?fs" "lines_of (file_ranges ?fs q) = lines_of (file_ranges fs q)
      \<union> (if q \<noteq> [] \<and> new_path prefix (d_target d) = q then new_lines d else {})"
    using Cons.prems apply_hunks_lines [of "d_hunks d" fs]
    by (simp_all add: apply_file_def file_valid_def new_lines_def)
  have "files_ok (foldl (apply_file prefix) ?fs ds) \<and> lines_of (file_ranges (foldl (apply_file prefix) ?fs ds) q)
      = lines_of (file_ranges ?fs q) \<union> lines_changed prefix ds q"
    using Cons.IH [of ?fs] Cons.prems(1) d(1) by simp
  then show ?case using d(2) by (auto simp: lines_changed_def)
qed

lemma file_lines_no_nl:
  assumes v: "file_valid f" and l: "l \<in> set (file_lines f)"
  shows "nl \<notin> set l"
proof -
  have lits: "nl \<notin> set fileMarker" "nl \<notin> set targetMarker" "nl \<notin> set dstPrefix" "nl \<notin> set devNull"
    "nl \<notin> set ''@@ -''" "nl \<notin> set '' +''" "nl \<notin> set '' @@''" by code_simp+
  have plain: "list_all plain_char w \<Longrightarrow> nl \<notin> set w" for w by (auto simp: list_all_iff dest: plain_not)
  have "nl \<notin> set (hunk_header h)" if "hunk_valid h" for h
    using that lits plain [of "h_old h"] plain [OF hunk_spec_plain(1) [OF that]]
    by (auto simp: hunk_header_def hunk_valid_def)
  moreover have "nl \<notin> set w" if "w \<in> set (target_line (d_target f))" for w
    using v that lits by (auto simp: file_valid_def target_valid_def target_line_def split: diff_target.splits)
  ultimately show ?thesis
    using v l lits by (auto simp: file_lines_def file_valid_def list_all_iff meta_valid_def hunk_valid_def)
qed

lemma files_ok_touches:
  "list_all dj.range_ok (file_ranges (Files c) path) \<Longrightarrow>
   touches c path a b \<longleftrightarrow> {min a b .. max a b} \<inter> lines_of (file_ranges (Files c) path) \<noteq> {}"
  by (subst dj.meets_iff) (auto simp: touches_def Let_def)

lemma parse_diff_spec:
  assumes v: "list_all file_valid ds"
  obtains fs where "parse_diff (diff_text ds) prefix = Inr fs" and "files_ok fs"
    and "\<And>path. separated (file_ranges fs path)"
    and "\<And>path. lines_of (file_ranges fs path) = lines_changed prefix ds path"
proof -
  let ?st = "\<lparr>p_files = [], p_path = [], inHunks = False\<rparr>"
  let ?F = "foldl (apply_file prefix) [] ds"
  let ?M = "map (\<lambda>(path, rs). (path, merge_ranges rs)) ?F"
  have "split_on nl (diff_text ds) = concat (map file_lines ds) @ [[]]"
    unfolding diff_text_def using v file_lines_no_nl
    by (intro split_on_lines) (auto simp: list_all_iff)
  moreover obtain p b where "parse_diff_lines prefix ?st (concat (map file_lines ds))
      = Inr \<lparr>p_files = ?F, p_path = p, inHunks = b\<rparr>"
    using parse_files [OF v, of prefix ?st] by auto
  moreover have "parse_diff_line prefix st [] = Inr st" for st
    by (simp add: parse_diff_line_def trim_right_def fileMarker_def targetMarker_def hunkMarker_def)
  ultimately have parsed: "parse_diff (diff_text ds) prefix = Inr ?M"
    by (simp add: parse_diff_def parse_diff_lines_append)
  have "files_ok []" by (simp add: files_ok_def file_ranges_def)
  from apply_files_lines [OF v this, of prefix]
  have F: "list_all dj.range_ok (file_ranges ?F path)" "lines_of (file_ranges ?F path) = lines_changed prefix ds path"
    for path by (simp_all add: files_ok_def, simp add: file_ranges_def)
  have M: "file_ranges ?M path = merge_ranges (file_ranges ?F path)" for path
    by (rule file_ranges_map) simp
  note merged = dj.merge_spec [OF F(1), folded merge_ranges_def]
  show ?thesis
    using that [OF parsed] merged F(2) by (simp add: files_ok_def M)
qed

text \<open>
  C38. Parsing a diff is exact. However many files, hunks and body lines the diff has, whatever
  the body lines hold after their mark (also text that looks like a header), the parser accepts
  it, and a path of the result holds exactly the lines the hunks of its files name, as ranges in
  order with a gap between any two; so \<open>Touches\<close> answers whether one of the lines of the
  query changed. Deleted files, files outside the workspace and pure deletions add nothing.
\<close>

theorem parse_diff_exact:
  assumes v: "list_all file_valid ds"
  shows "case parse_diff (diff_text ds) prefix of Inl e \<Rightarrow> False
    | Inr fs \<Rightarrow> separated (changed_lines \<lparr>Ref = r, Base = bs, Files = fs\<rparr> path)
        \<and> lines_of (changed_lines \<lparr>Ref = r, Base = bs, Files = fs\<rparr> path) = lines_changed prefix ds path
        \<and> touches \<lparr>Ref = r, Base = bs, Files = fs\<rparr> path a b
          = ({min a b .. max a b} \<inter> lines_changed prefix ds path \<noteq> {})"
proof (rule parse_diff_spec [OF v])
  fix fs
  assume fs: "parse_diff (diff_text ds) prefix = Inr fs" "files_ok fs" "\<And>path. separated (file_ranges fs path)"
    "\<And>path. lines_of (file_ranges fs path) = lines_changed prefix ds path"
  then show ?thesis by (simp add: changed_lines_def files_ok_touches files_ok_def)
qed

text \<open>A file edited in two places, one of them with a body line that looks like a header.\<close>

definition sample_diff :: "diff_file list" where
  "sample_diff =
     [\<lparr>d_names = ''a/x.go b/x.go'', d_meta = [''--- a/x.go''], d_target = Target ''x.go'',
       d_hunks = [\<lparr>h_old = ''4,0'', h_first = 5, h_count = Some 2, h_tail = '' func f()'',
                    h_body = [''+++ b/y.go'', ''+@@ -1 +9 @@'']\<rparr>,
                  \<lparr>h_old = ''9'', h_first = 11, h_count = None, h_tail = [], h_body = [''-old'', ''+new'']\<rparr>]\<rparr>]"

lemma sample_valid: "list_all file_valid sample_diff"
proof -
  have hunks: "list_all hunk_valid (d_hunks (hd sample_diff))" by code_simp
  have meta: "list_all meta_valid (d_meta (hd sample_diff))" "nl \<notin> set (d_names (hd sample_diff))" by code_simp+
  have "target_valid (Target ''x.go'')" by code_simp
  then show ?thesis using hunks meta by (simp add: sample_diff_def file_valid_def)
qed

theorem parse_diff_exact_witness:
  "case parse_diff (diff_text sample_diff) [] of Inl e \<Rightarrow> False
    | Inr fs \<Rightarrow> separated (changed_lines \<lparr>Ref = [], Base = [], Files = fs\<rparr> ''x.go'')
        \<and> lines_of (changed_lines \<lparr>Ref = [], Base = [], Files = fs\<rparr> ''x.go'') = lines_changed [] sample_diff ''x.go''
        \<and> touches \<lparr>Ref = [], Base = [], Files = fs\<rparr> ''x.go'' 6 6
          = ({min 6 6 .. max 6 6} \<inter> lines_changed [] sample_diff ''x.go'' \<noteq> {})"
  by (rule parse_diff_exact [OF sample_valid])

section \<open>Quoted paths\<close>

text \<open>How git quotes a path: C escapes, and octal for the other bytes outside printable ASCII.\<close>

definition octal :: "nat \<Rightarrow> string" where
  "octal n = [digit_of (n div 64), digit_of (n div 8 mod 8), digit_of (n mod 8)]"

definition quote_char :: "char \<Rightarrow> string" where
  "quote_char c =
     (case map_of (map prod.swap letter_escapes) c of
        Some l \<Rightarrow> [backslash, l]
      | None \<Rightarrow>
          if c = dquote \<or> c = backslash then [backslash, c]
          else if ord c < 32 \<or> 127 \<le> ord c then backslash # octal (ord c) else [c])"

definition git_quote :: "string \<Rightarrow> string" where
  "git_quote s = dquote # concat (map quote_char s) @ [dquote]"

lemma ord_marks: "ord backslash = 92" "ord dquote = 34"
  by (simp_all add: backslash_def dquote_def)

lemma unquote_octal:
  assumes "n < 256" shows "unquote_body (backslash # octal n @ rest) = chr n # unquote_body rest"
proof -
  have small: "n div 64 < 8" using assms by simp
  have d: "is_digit (digit_of k) \<and> digit_val (digit_of k) = k" if "k < 8" for k
    using that digit_of_simps [of k] by simp
  have "\<forall>k \<in> {..<8}. map_of letter_escapes (digit_of k) = None" by code_simp
  then have none: "map_of letter_escapes (digit_of (n div 64)) = None" using small by simp
  have "(n div 64 * 8 + n div 8 mod 8) * 8 + n mod 8 = n"
    using div_mult2_eq [of n 8 8] by (simp add: div_mult_mod_eq)
  moreover have "number_from 8 0 (octal n) = Some ((n div 64 * 8 + n div 8 mod 8) * 8 + n mod 8)"
    using small d [of "n div 64"] d [of "n div 8 mod 8"] d [of "n mod 8"] by (simp add: octal_def)
  ultimately have "number_from 8 0 (octal n) = Some n" by (simp only:)
  then have "parse_uint (octal n) 8 8 = Some n" using assms by (simp add: parse_uint_def octal_def)
  then have "parse_uint [digit_of (n div 64), digit_of (n div 8 mod 8), digit_of (n mod 8)] 8 8 = Some n"
    by (simp add: octal_def)
  then show ?thesis using none d [OF small] small by (simp add: octal_def is_octal_def)
qed

lemma escapes_exact: "list_all (\<lambda>(l, c). map_of letter_escapes l = Some c \<and> l \<noteq> backslash \<and> l \<noteq> dquote) letter_escapes"
  "map_of letter_escapes dquote = None" "map_of letter_escapes backslash = None"
  "\<not> is_octal dquote" "\<not> is_octal backslash"
  by code_simp+

lemma unquote_quote_char: "unquote_body (quote_char c @ rest) = c # unquote_body rest"
proof (cases "map_of (map prod.swap letter_escapes) c")
  case (Some l)
  then have "(l, c) \<in> set letter_escapes" by (auto dest: map_of_SomeD)
  then have "map_of letter_escapes l = Some c" using escapes_exact(1) by (auto simp: list_all_iff)
  with Some show ?thesis by (simp add: quote_char_def)
next
  case None
  consider "c = dquote \<or> c = backslash" | "c \<noteq> dquote \<and> c \<noteq> backslash" "ord c < 32 \<or> 127 \<le> ord c"
    | "c \<noteq> dquote \<and> c \<noteq> backslash" "\<not> (ord c < 32 \<or> 127 \<le> ord c)" by blast
  then show ?thesis
  proof cases
    case 1
    with None escapes_exact show ?thesis by (auto simp: quote_char_def)
  next
    case 2
    with None show ?thesis using unquote_octal [OF ord_bound, of c rest] by (simp add: quote_char_def)
  next
    case 3
    with None show ?thesis by (cases rest) (simp_all add: quote_char_def)
  qed
qed

text \<open>
  Decoding inverts git's quoting: every path, whatever its bytes, is read back from its
  quoted form, and a path that starts without a quotation mark is read as it stands.
\<close>

theorem unquote_inverts_quote:
  "unquote (git_quote s) = s \<and> (take 1 s = [dquote] \<or> unquote s = s)"
proof -
  have "unquote_body (concat (map quote_char s) @ rest) = s @ unquote_body rest" for rest
    by (induction s) (simp_all add: unquote_quote_char)
  from this [of "[]"] have "unquote (git_quote s) = s" by (simp add: unquote_def git_quote_def butlast_append)
  moreover have "take 1 s = [dquote] \<or> unquote s = s" by (cases s) (auto simp: unquote_def)
  ultimately show ?thesis by blast
qed

text \<open>
  A target line is read byte for byte. Git quotes a name with the prefix inside the quotation
  marks, and such a line is refused; and the tab that git puts after a name with a blank stays
  part of the path.
\<close>

lemma target_line_bytes:
  "parse_diff_line prefix (st\<lparr>inHunks := False\<rparr>) (targetMarker @ git_quote (dstPrefix @ n)) = Inl CodeMalformedDiff
   \<and> parse_diff_line prefix (st\<lparr>inHunks := False\<rparr>) (targetMarker @ dstPrefix @ n @ [tab])
     = Inr (st\<lparr>inHunks := False, p_path := relative (n @ [tab]) prefix\<rparr>)"
proof -
  have ne: "dquote \<noteq> CHR ''b''" "dquote \<noteq> CHR ''/''" "dquote \<noteq> cr" "tab \<noteq> cr" "tab \<noteq> dquote" by code_simp+
  have t: "trim_right (targetMarker @ git_quote (dstPrefix @ n)) [cr] = targetMarker @ git_quote (dstPrefix @ n)"
    "trim_right (targetMarker @ dstPrefix @ n @ [tab]) [cr] = targetMarker @ dstPrefix @ n @ [tab]"
    using ne by (simp_all add: trim_right_plain git_quote_def)
  have "target_path (targetMarker @ git_quote (dstPrefix @ n)) = Inl CodeMalformedDiff"
    using ne by (simp add: target_path_def trim_prefix_def git_quote_def devNull_def dstPrefix_def Let_def)
  then have 1: "parse_diff_line prefix (st\<lparr>inHunks := False\<rparr>) (targetMarker @ git_quote (dstPrefix @ n)) = Inl CodeMalformedDiff"
    by (simp add: parse_diff_line_def t) (simp add: targetMarker_def fileMarker_def)
  have "target_path (targetMarker @ dstPrefix @ n @ [tab]) = Inr (n @ [tab])"
    using ne by (simp add: target_path_def trim_prefix_def devNull_def dstPrefix_def Let_def unquote_def)
  then have "parse_diff_line prefix (st\<lparr>inHunks := False\<rparr>) (targetMarker @ dstPrefix @ n @ [tab])
     = Inr (st\<lparr>inHunks := False, p_path := relative (n @ [tab]) prefix\<rparr>)"
    by (simp add: parse_diff_line_def t) (simp add: targetMarker_def fileMarker_def)
  with 1 show ?thesis ..
qed

section \<open>Lines of untracked files\<close>

lemma length_split_on: "length (split_on c s) = Suc (count_byte s c)"
proof (induction s)
  case (Cons x xs)
  then show ?case by (cases "split_on c xs") (auto simp: count_byte_def)
qed (simp add: count_byte_def)

lemma last_split_on: "last (split_on c s) = [] \<longleftrightarrow> s = [] \<or> last s = c"
proof (cases s rule: rev_cases)
  case (snoc t x)
  have "last (split_on c (t @ [x])) \<noteq> []" if "x \<noteq> c"
    using that
  proof (induction t)
    case (Cons y t)
    then obtain v vs where "split_on c (t @ [x]) = v # vs" by (metis neq_Nil_conv split_on_nonempty)
    with Cons show ?case by (auto split: if_splits)
  qed simp
  with snoc show ?thesis by (cases "x = c") (simp_all add: split_on_snoc)
qed simp

lemma length_raw_lines: "length (raw_lines s) = count_byte s nl + (if s = [] \<or> last s = nl then 0 else 1)"
  by (auto simp: raw_lines_def Let_def length_split_on last_split_on)

lemma count_byte_append: "count_byte (s @ t) c = count_byte s c + count_byte t c"
  by (simp add: count_byte_def)

lemma count_byte_Nil [simp]: "count_byte [] c = 0"
  by (simp add: count_byte_def)

lemma wrap64_add: "wrap64 (wrap64 a + b) = wrap64 (a + b)"
proof -
  have "(wrap64 a + b + 2 ^ 63) mod 2 ^ 64 = (a + 2 ^ 63 + b) mod 2 ^ 64"
    unfolding wrap64_def by (simp add: mod_add_left_eq)
  then show ?thesis by (simp add: wrap64_def algebra_simps)
qed

lemma counter_state:
  "foldl counter_write new_counter ps = \<lparr>counted = wrap64 (int (count_byte (concat ps) nl)),
     last_byte = (if concat ps = [] then chr 0 else last (concat ps)), read_any = (concat ps \<noteq> [])\<rparr>"
proof (induction ps rule: rev_induct)
  case Nil
  then show ?case by (simp add: new_counter_def count_byte_def wrap64_def)
next
  case (snoc p ps)
  then show ?case by (auto simp: counter_write_def count_byte_append wrap64_add)
qed

lemma counter_total_lines:
  "counter_total (foldl counter_write new_counter ps) = wrap64 (int (length (raw_lines (concat ps))))"
  unfolding counter_state length_raw_lines by (auto simp: counter_total_def wrap64_add)


definition unreadable_file :: "file_entry \<Rightarrow> bool" where
  "unreadable_file e \<longleftrightarrow> (case e of Failing \<Rightarrow> True | Chunks ps fails \<Rightarrow> fails | _ \<Rightarrow> False)"

definition content_lines :: "file_entry \<Rightarrow> nat" where
  "content_lines e = (case e of Chunks ps fails \<Rightarrow> length (raw_lines (concat ps)) | _ \<Rightarrow> 0)"

lemma line_count_eq:
  "int (content_lines e) \<le> max_int \<Longrightarrow>
   line_count e = (if unreadable_file e then Inl CodeUntrackedUnreadable else Inr (int (content_lines e)))"
  by (cases e) (auto simp: line_count_def unreadable_file_def content_lines_def counter_total_lines
      int64_ok_def min_int_def)

text \<open>The untracked files of the workspace, and what they add to a path.\<close>

definition new_files :: "string \<Rightarrow> string list \<Rightarrow> string list" where
  "new_files prefix paths = filter (\<lambda>p. p \<noteq> []) (map (\<lambda>p. relative p prefix) paths)"

lemma new_files_Cons:
  "new_files prefix (p # ps) = (if relative p prefix = [] then [] else [relative p prefix]) @ new_files prefix ps"
  by (simp add: new_files_def)

definition all_lines :: "(string \<Rightarrow> file_entry) \<Rightarrow> string list \<Rightarrow> string \<Rightarrow> int set" where
  "all_lines fs rels path = (if path \<in> set rels then {1 .. int (content_lines (fs path))} else {})"

lemma add_paths_spec:
  assumes "\<And>p. int (content_lines (fs p)) < max_int" and "files_ok files" and "\<And>p. separated (file_ranges files p)"
  shows "if list_ex (\<lambda>p. unreadable_file (fs p)) (new_files prefix paths)
    then add_paths fs prefix files paths = Inl CodeUntrackedUnreadable
    else (\<exists>files'. add_paths fs prefix files paths = Inr files' \<and> files_ok files'
      \<and> (\<forall>p. separated (file_ranges files' p)
         \<and> lines_of (file_ranges files' p) = lines_of (file_ranges files p) \<union> all_lines fs (new_files prefix paths) p))"
  using assms(2,3)
proof (induction paths arbitrary: files)
  case Nil
  then show ?case by (simp add: new_files_def all_lines_def)
next
  case (Cons path paths)
  let ?rel = "relative path prefix" and ?n = "int (content_lines (fs (relative path prefix)))"
  let ?fs = "AList.update ?rel (merge_ranges (file_ranges files ?rel @ [\<lparr>First = 1, Last = ?n\<rparr>])) files"
  have lc: "line_count (fs ?rel) = (if unreadable_file (fs ?rel) then Inl CodeUntrackedUnreadable else Inr ?n)"
    using assms(1) [of ?rel] by (intro line_count_eq) simp
  consider "?rel = []" | "?rel \<noteq> []" "unreadable_file (fs ?rel)" | "?rel \<noteq> []" "\<not> unreadable_file (fs ?rel)" "?n = 0"
    | "?rel \<noteq> []" "\<not> unreadable_file (fs ?rel)" "?n \<noteq> 0" by blast
  then show ?case
  proof cases
    case 1
    then have "new_files prefix (path # paths) = new_files prefix paths" by (simp add: new_files_Cons)
    with 1 show ?thesis using Cons.IH [OF Cons.prems] by simp
  next
    case 2
    then show ?thesis by (simp add: lc new_files_Cons)
  next
    case 3
    then have "all_lines fs (new_files prefix (path # paths)) p = all_lines fs (new_files prefix paths) p" for p
      by (auto simp: all_lines_def new_files_Cons)
    with 3 show ?thesis using Cons.IH [OF Cons.prems] by (simp add: lc new_files_Cons)
  next
    case 4
    have "dj.range_ok \<lparr>First = 1, Last = ?n\<rparr>"
      unfolding dj.range_ok_def using 4(3) assms(1) [of ?rel] by (simp add: min_int_def max_int_def)
    then have "list_all dj.range_ok (file_ranges files ?rel @ [\<lparr>First = 1, Last = ?n\<rparr>])"
      using Cons.prems(1) by (simp add: files_ok_def)
    note m = dj.merge_spec [OF this, folded merge_ranges_def]
    have ok: "files_ok ?fs" using Cons.prems(1) m(1) by (simp add: files_ok_def file_ranges_update)
    have sep: "separated (file_ranges ?fs p)" for p using Cons.prems(2) m(2) by (simp add: file_ranges_update)
    have eq: "lines_of (file_ranges ?fs p) \<union> all_lines fs (new_files prefix paths) p
        = lines_of (file_ranges files p) \<union> all_lines fs (new_files prefix (path # paths)) p" for p
      using 4(1) m(3) by (auto simp: file_ranges_update all_lines_def new_files_Cons)
    have "add_paths fs prefix files (path # paths) = add_paths fs prefix ?fs paths"
      using 4 lc by (simp add: Let_def)
    moreover have "list_ex (\<lambda>p. unreadable_file (fs p)) (new_files prefix (path # paths))
        = list_ex (\<lambda>p. unreadable_file (fs p)) (new_files prefix paths)"
      using 4 by (simp add: new_files_Cons)
    ultimately show ?thesis using Cons.IH [OF ok sep, unfolded eq] by simp
  qed
qed

text \<open>
  C20. Resolving is exact from the commands to the query: when git names the prefix, the ref and
  the base, prints a diff and lists the untracked files, and these can be read, then
  \<open>Touches\<close> says of every path and pair of lines whether one of the lines between them is
  named by a hunk of the diff or belongs to an untracked file; a file that cannot be read is an
  error and never a file without changes.
\<close>

theorem resolve_exact:
  assumes "git_prefix run s = (Inr prefix, s1)" and "resolve_ref run s1 wanted = (Inr ref, s2)"
    and "merge_base run s2 ref = (Inr base, s3)" and "git_diff run s3 base = (Inr (diff_text ds), s4)"
    and "untracked run s4 = (Inr paths, s5)"
    and "list_all file_valid ds" and "\<forall>p. int (content_lines (fs p)) < max_int"
  shows "case resolve run fs s wanted of (Inl e, s') \<Rightarrow>
        e = CodeUntrackedUnreadable \<and> list_ex (\<lambda>p. unreadable_file (fs p)) (new_files prefix paths)
    | (Inr c, s') \<Rightarrow>
        Ref c = ref \<and> Base c = base \<and> s' = s5
        \<and> list_all (\<lambda>p. \<not> unreadable_file (fs p)) (new_files prefix paths)
        \<and> touches c path a b = ({min a b .. max a b}
            \<inter> (lines_changed prefix ds path \<union> all_lines fs (new_files prefix paths) path) \<noteq> {})"
proof (rule parse_diff_spec [OF assms(6), of prefix])
  fix files
  assume fs: "parse_diff (diff_text ds) prefix = Inr files" "files_ok files"
    "\<And>path. separated (file_ranges files path)"
    "\<And>path. lines_of (file_ranges files path) = lines_changed prefix ds path"
  have small: "int (content_lines (fs p)) < max_int" for p using assms(7) by blast
  note added = add_paths_spec [of fs files prefix paths, OF small fs(2,3)]
  show ?thesis
  proof (cases "list_ex (\<lambda>p. unreadable_file (fs p)) (new_files prefix paths)")
    case True
    then show ?thesis using added assms(1-5) fs(1) by (simp add: resolve_def add_untracked_def)
  next
    case False
    then obtain files' where f: "add_paths fs prefix files paths = Inr files'" "files_ok files'"
      "\<forall>p. lines_of (file_ranges files' p) = lines_of (file_ranges files p) \<union> all_lines fs (new_files prefix paths) p"
      using added by auto
    have "resolve run fs s wanted = (Inr \<lparr>Ref = ref, Base = base, Files = files'\<rparr>, s5)"
      using assms(1-5) fs(1) f(1) by (simp add: resolve_def add_untracked_def)
    moreover have "list_all (\<lambda>p. \<not> unreadable_file (fs p)) (new_files prefix paths)"
      using False by (auto simp: list_all_iff list_ex_iff)
    ultimately show ?thesis
      using f(2,3) fs(4) by (simp add: files_ok_touches files_ok_def)
  qed
qed

text \<open>A repository whose git answers from a table, with one untracked file.\<close>

definition sample_git :: "unit runner" where
  "sample_git s args =
     ((if args = [''rev-parse'', ''--show-prefix''] then Inr []
       else if hd args = ''merge-base'' then Inr ''c0ffee''
       else if hd args = ''-c'' then Inr (diff_text sample_diff)
       else if hd args = ''ls-files'' then Inr ''n.go'' else Inl CodeDiffFailed), s)"

theorem resolve_exact_witness:
  "case resolve sample_git (\<lambda>p. Chunks [''one'', [nl, CHR ''t'']] False) () ''main'' of (Inl e, s') \<Rightarrow>
        e = CodeUntrackedUnreadable
        \<and> list_ex (\<lambda>p. unreadable_file (Chunks [''one'', [nl, CHR ''t'']] False)) (new_files [] [''n.go''])
    | (Inr c, s') \<Rightarrow>
        Ref c = ''main'' \<and> Base c = ''c0ffee'' \<and> s' = ()
        \<and> list_all (\<lambda>p. \<not> unreadable_file (Chunks [''one'', [nl, CHR ''t'']] False)) (new_files [] [''n.go''])
        \<and> touches c ''n.go'' 1 1 = ({min 1 1 .. max 1 1}
            \<inter> (lines_changed [] sample_diff ''n.go''
               \<union> all_lines (\<lambda>p. Chunks [''one'', [nl, CHR ''t'']] False) (new_files [] [''n.go'']) ''n.go'') \<noteq> {})"
proof (rule resolve_exact)
  have plain: "list_all plain_char ''main''" "list_all plain_char ''c0ffee''" by code_simp+
  show "git_prefix sample_git () = (Inr [], ())"
    using trim_space_plain [of "[]"] by (simp add: git_prefix_def sample_git_def)
  show "resolve_ref sample_git () ''main'' = (Inr ''main'', ())"
    using trim_space_plain [OF plain(1)] by (simp add: resolve_ref_def UpstreamRef_def)
  show "merge_base sample_git () ''main'' = (Inr ''c0ffee'', ())"
    using trim_space_plain [OF plain(2)] by (simp add: merge_base_def sample_git_def)
  show "git_diff sample_git () ''c0ffee'' = (Inr (diff_text sample_diff), ())"
    by (simp add: git_diff_def sample_git_def)
  show "untracked sample_git () = (Inr [''n.go''], ())" by code_simp
  have "content_lines (Chunks [''one'', [nl, CHR ''t'']] False) = 2" by code_simp
  then show "\<forall>p. int (content_lines (Chunks [''one'', [nl, CHR ''t'']] False)) < max_int"
    by (simp add: max_int_def)
qed (rule sample_valid)

end
