(* ===== verification/ExecEnv.thy ===== *)
theory ExecEnv
  imports MutantId "HOL-Library.AList"
begin

text \<open>
  The environment a test binary is started with (\<open>internal/execute/env.go\<close>), and the path
  functions of Go's \<open>path/filepath\<close> the executor calls. The model is that of a system other
  than Windows: names of variables are compared as they are and paths have slashes.
\<close>

section \<open>Paths\<close>

definition go_join :: "string list \<Rightarrow> string" where
  "go_join elems =
     (let es = dropWhile (\<lambda>e. e = []) elems
      in if es = [] then [] else path_clean (join_with ''/'' es))"

definition go_dir :: "string \<Rightarrow> string" where
  "go_dir p = path_clean (rev (dropWhile (\<lambda>c. c \<noteq> CHR ''/'') (rev p)))"

definition path_elements :: "string \<Rightarrow> string list" where
  "path_elements p = filter (\<lambda>e. e \<noteq> [] \<and> e \<noteq> ''.'') (split_on CHR ''/'' p)"

fun drop_common :: "string list \<Rightarrow> string list \<Rightarrow> string list \<times> string list" where
  "drop_common (x # xs) (y # ys) = (if x = y then drop_common xs ys else (x # xs, y # ys))"
| "drop_common xs ys = (xs, ys)"

text \<open>\<open>filepath.Rel\<close>; an error is None.\<close>

definition go_rel :: "string \<Rightarrow> string \<Rightarrow> string option" where
  "go_rel basepath targpath =
     (let base = path_clean basepath; targ = path_clean targpath in
      if targ = base then Some ''.''
      else if has_prefix base ''/'' \<noteq> has_prefix targ ''/'' then None
      else
        (let (bs, ts) = drop_common (path_elements base) (path_elements targ)
         in if bs \<noteq> [] \<and> hd bs = ''..'' then None
            else Some (join_with ''/'' (replicate (length bs) ''..'' @ ts))))"

section \<open>The environment\<close>

definition envPrefix :: string where "envPrefix = ''GO_MUTANTS_''"
definition coverDirEnv :: string where "coverDirEnv = ''GOCOVERDIR''"
definition tempKeys :: "string list" where "tempKeys = [''TMP'', ''TEMP'', ''TMPDIR'']"

definition ActiveEnv :: string where "ActiveEnv = ''GO_MUTANTS_ACTIVE''"
definition LoopLimitsEnv :: string where "LoopLimitsEnv = ''GO_MUTANTS_LOOP_LIMITS''"
definition ProbeEnv :: string where "ProbeEnv = ''GO_MUTANTS_PROBE''"

text \<open>
  \<open>strings.ToUpper\<close> as far as it yields ASCII: the lower-case letters, and the two letters
  beyond ASCII whose upper case is in it, the long s (C5 BF) and the dotless i (C4 B1). The
  other bytes stay, none of which an ASCII prefix compares equal to.
\<close>

fun to_upper :: "string \<Rightarrow> string" where
  "to_upper [] = []"
| "to_upper [c] = [if 97 \<le> ord c \<and> ord c \<le> 122 then chr (ord c - 32) else c]"
| "to_upper (c # d # cs) =
     (if ord c = 197 \<and> ord d = 191 then CHR ''S'' # to_upper cs
      else if ord c = 196 \<and> ord d = 177 then CHR ''I'' # to_upper cs
      else (if 97 \<le> ord c \<and> ord c \<le> 122 then chr (ord c - 32) else c) # to_upper (d # cs))"

definition same_env_key :: "string \<Rightarrow> string \<Rightarrow> bool" where
  "same_env_key a b \<longleftrightarrow> a = b"

definition is_temp_key :: "string \<Rightarrow> bool" where
  "is_temp_key key = list_ex (\<lambda>k. same_env_key key k) tempKeys"

text \<open>The key of an entry, the part before the first \<open>=\<close>.\<close>

definition env_key :: "string \<Rightarrow> string" where
  "env_key entry = (case go_cut entry ''='' of None \<Rightarrow> entry | Some (key, _) \<Rightarrow> key)"

definition base_env_from :: "string list \<Rightarrow> string list option \<Rightarrow> string \<Rightarrow> string list" where
  "base_env_from environ source scratch =
     filter (\<lambda>entry.
         \<not> has_prefix (to_upper (env_key entry)) envPrefix
         \<and> \<not> same_env_key (env_key entry) coverDirEnv
         \<and> \<not> (scratch \<noteq> [] \<and> is_temp_key (env_key entry)))
       (case source of None \<Rightarrow> environ | Some s \<Rightarrow> s)
     @ (if scratch \<noteq> [] then map (\<lambda>key. key @ ''='' @ scratch) tempKeys else [])"

definition mutant_env_from :: "string list \<Rightarrow> string list option \<Rightarrow> string \<Rightarrow> string \<Rightarrow> string list" where
  "mutant_env_from environ source active scratch =
     base_env_from environ source scratch @ [ActiveEnv @ ''='' @ active]"

definition probe_env_from :: "string list \<Rightarrow> string list option \<Rightarrow> string \<Rightarrow> string \<Rightarrow> string list" where
  "probe_env_from environ source scratch logPath =
     base_env_from environ source scratch @ [ProbeEnv @ ''='' @ logPath]"

definition control_env_from :: "string list \<Rightarrow> string list option \<Rightarrow> string \<Rightarrow> string list" where
  "control_env_from environ source scratch = base_env_from environ source scratch"

text \<open>Whether an entry assigns the variable: it has an equals sign and the key.\<close>

definition assigns :: "string \<Rightarrow> string \<Rightarrow> bool" where
  "assigns name entry \<longleftrightarrow>
     (case go_cut entry ''='' of None \<Rightarrow> False | Some (key, _) \<Rightarrow> same_env_key key name)"

definition unset_env :: "string list \<Rightarrow> string \<Rightarrow> string list" where
  "unset_env env name = filter (\<lambda>entry. \<not> assigns name entry) env"

fun set_env_from :: "string list \<Rightarrow> string \<Rightarrow> string \<Rightarrow> bool \<Rightarrow> string list" where
  "set_env_from [] name entry done = (if done then [] else [entry])"
| "set_env_from (e # es) name entry done =
     (if assigns name e then (if done then set_env_from es name entry True
                              else entry # set_env_from es name entry True)
      else e # set_env_from es name entry done)"

definition set_env :: "string list \<Rightarrow> string \<Rightarrow> string \<Rightarrow> string list" where
  "set_env env name v = set_env_from env name (name @ ''='' @ v) False"

fun prepend_dir :: "string list \<Rightarrow> string \<Rightarrow> string list" where
  "prepend_dir [] dir = [''PATH='' @ dir]"
| "prepend_dir (e # es) dir =
     (case go_cut e ''='' of
        None \<Rightarrow> e # prepend_dir es dir
      | Some (key, v) \<Rightarrow>
          if \<not> same_env_key key ''PATH'' then e # prepend_dir es dir
          else if v = dir \<or> has_prefix v (dir @ '':'') then e # es
          else (key @ ''='' @ dir @ '':'' @ v) # es)"

definition prepend_path :: "string list \<Rightarrow> string \<Rightarrow> string list" where
  "prepend_path env goBin =
     (if goBin = [] then env
      else
        (let dir = go_dir goBin in if dir = [] \<or> dir = ''.'' then env else prepend_dir env dir))"

definition toolchain_env_from ::
  "string list \<Rightarrow> string list option \<Rightarrow> string \<Rightarrow> string \<Rightarrow> bool \<Rightarrow> string list" where
  "toolchain_env_from environ source goBin scratch workspace =
     (let env = (if workspace then unset_env (base_env_from environ source scratch) ''GOWORK''
                 else set_env (base_env_from environ source scratch) ''GOWORK'' ''off'')
      in prepend_path env goBin)"

section \<open>What a process sees\<close>

text \<open>The entries the tool owns, the directory of coverage data, and all others.\<close>

definition owned :: "string \<Rightarrow> bool" where
  "owned entry = has_prefix (to_upper (env_key entry)) envPrefix"

definition foreign_entry :: "string \<Rightarrow> string \<Rightarrow> bool" where
  "foreign_entry scratch entry \<longleftrightarrow> \<not> owned entry \<and> env_key entry \<noteq> coverDirEnv
     \<and> (scratch = [] \<or> \<not> is_temp_key (env_key entry))"

lemma env_key_assign: "CHR ''='' \<notin> set k \<Longrightarrow> env_key (k @ ''='' @ v) = k"
  by (simp add: env_key_def go_cut_char)

lemma assigns_own: "CHR ''='' \<notin> set k \<Longrightarrow> assigns k (k @ ''='' @ v)"
  by (simp add: assigns_def go_cut_char same_env_key_def)

lemma fixed_keys: "k \<in> set (ActiveEnv # ProbeEnv # LoopLimitsEnv # tempKeys) \<Longrightarrow> CHR ''='' \<notin> set k"
  by (auto simp: ActiveEnv_def ProbeEnv_def LoopLimitsEnv_def tempKeys_def)

lemma owned_keys: "has_prefix (to_upper ActiveEnv) envPrefix" "has_prefix (to_upper ProbeEnv) envPrefix"
  "has_prefix (to_upper LoopLimitsEnv) envPrefix"
  "list_all (\<lambda>k. \<not> has_prefix (to_upper k) envPrefix \<and> k \<noteq> coverDirEnv \<and> is_temp_key k) tempKeys"
  "\<not> is_temp_key coverDirEnv" "\<not> is_temp_key ActiveEnv"
  by code_simp+

lemma temp_entries:
  assumes "k \<in> set tempKeys"
  shows "\<not> owned (k @ ''='' @ v)" "env_key (k @ ''='' @ v) = k" "is_temp_key k" "k \<noteq> coverDirEnv"
  using assms env_key_assign [OF fixed_keys [of k]] owned_keys(4) by (auto simp: owned_def list_all_iff)

text \<open>
  What the environment keeps of the one it is built from: it has no variable of the tool, no
  directory of coverage data, and the variables for temporary files once each.
\<close>

lemma base_env_parts:
  fixes environ scratch and source :: "string list option"
  defines "env \<equiv> base_env_from environ source scratch"
  shows "filter owned env = []"
    and "filter (\<lambda>e. env_key e = coverDirEnv) env = []"
    and "scratch \<noteq> [] \<Longrightarrow> filter (\<lambda>e. is_temp_key (env_key e)) env = map (\<lambda>k. k @ ''='' @ scratch) tempKeys"
    and "filter (foreign_entry scratch) env = filter (foreign_entry scratch) (case source of None \<Rightarrow> environ | Some s \<Rightarrow> s)"
proof -
  let ?src = "case source of None \<Rightarrow> environ | Some s \<Rightarrow> s" and ?temp = "map (\<lambda>k. k @ ''='' @ scratch) tempKeys"
  have env: "env = filter (foreign_entry scratch) ?src @ (if scratch \<noteq> [] then ?temp else [])"
    unfolding env_def base_env_from_def foreign_entry_def owned_def same_env_key_def
    by (cases "scratch = []") simp_all
  have none: "filter owned ?temp = []" "filter (\<lambda>e. env_key e = coverDirEnv) ?temp = []"
    "filter (\<lambda>e. is_temp_key (env_key e)) ?temp = ?temp"
    "scratch \<noteq> [] \<Longrightarrow> filter (foreign_entry scratch) ?temp = []"
    using temp_entries by (auto simp: filter_empty_conv filter_id_conv foreign_entry_def)
  have src: "filter owned (filter (foreign_entry scratch) ?src) = []"
    "filter (\<lambda>e. env_key e = coverDirEnv) (filter (foreign_entry scratch) ?src) = []"
    "scratch \<noteq> [] \<Longrightarrow> filter (\<lambda>e. is_temp_key (env_key e)) (filter (foreign_entry scratch) ?src) = []"
    by (auto simp: filter_empty_conv foreign_entry_def)
  show "filter owned env = []" and "filter (\<lambda>e. env_key e = coverDirEnv) env = []"
    and "scratch \<noteq> [] \<Longrightarrow> filter (\<lambda>e. is_temp_key (env_key e)) env = ?temp"
    and "filter (foreign_entry scratch) env = filter (foreign_entry scratch) ?src"
    unfolding env using none src by (cases "scratch = []"; simp)+
qed

text \<open>An assignment to a variable of the tool.\<close>

lemma tool_entry:
  assumes "k \<in> {ActiveEnv, ProbeEnv, LoopLimitsEnv}"
  shows "owned (k @ ''='' @ v)" and "env_key (k @ ''='' @ v) = k" and "\<not> foreign_entry scratch (k @ ''='' @ v)"
    and "\<not> is_temp_key k" and "k \<noteq> coverDirEnv"
proof -
  show key: "env_key (k @ ''='' @ v) = k" using assms by (intro env_key_assign fixed_keys) auto
  show own: "owned (k @ ''='' @ v)" unfolding owned_def key using assms owned_keys(1-3) by auto
  show "\<not> foreign_entry scratch (k @ ''='' @ v)" using own by (simp add: foreign_entry_def)
  have "list_all (\<lambda>k. \<not> is_temp_key k \<and> k \<noteq> coverDirEnv) [ActiveEnv, ProbeEnv, LoopLimitsEnv]" by code_simp
  then show "\<not> is_temp_key k" and "k \<noteq> coverDirEnv" using assms by auto
qed

end
