(* ===== verification/TestLog.thy ===== *)
theory TestLog
  imports GoStrings "HOL-Library.Sublist"
begin

text \<open>
  Flags a caller gives to a test binary (\<open>internal/testflag\<close>), the selector of named tests
  (\<open>internal/execute/narrow.go\<close>), and the action log a test binary writes
  (\<open>internal/testlog\<close>).
\<close>

section \<open>Flags\<close>

definition flag_match :: "string \<Rightarrow> string \<Rightarrow> bool" where
  "flag_match argument name \<longleftrightarrow>
     (let short = ''-'' @ name; long = ''--'' @ name in
      argument = short \<or> has_prefix argument (short @ ''='')
      \<or> argument = long \<or> has_prefix argument (long @ ''=''))"

section \<open>The action log\<close>

definition Header :: string where "Header = ''# test log'' @ [nl]"

record log_entry =
  Op :: string
  Name :: string

record test_actions =
  Entries :: "log_entry list"
  Complete :: bool

datatype testlog_error = ReadFailed | ErrNoHeader

definition entry_of_line :: "string \<Rightarrow> log_entry" where
  "entry_of_line line =
     (case go_cut line '' '' of
        None \<Rightarrow> \<lparr>Op = line, Name = []\<rparr>
      | Some (oper, name) \<Rightarrow> \<lparr>Op = oper, Name = name\<rparr>)"

lemma go_cut_shorter: "go_cut s [c] = Some (a, b) \<Longrightarrow> length b < length s"
  by (drule go_cut_Some) simp

function parse_entries :: "string \<Rightarrow> log_entry list" where
  "parse_entries body =
     (if body = [] then []
      else
        (case go_cut body [nl] of
           None \<Rightarrow> []
         | Some (line, rest) \<Rightarrow>
             if line = [] then parse_entries rest else entry_of_line line # parse_entries rest))"
  by pat_completeness auto
termination
  by (relation "measure length") (auto dest: go_cut_shorter)

declare parse_entries.simps [simp del]

text \<open>The reader is the bytes it delivers and whether it then fails.\<close>

definition parse_log :: "string \<Rightarrow> bool \<Rightarrow> testlog_error + test_actions" where
  "parse_log input fails =
     (if fails then Inl ReadFailed
      else
        (case cut_prefix input Header of
           None \<Rightarrow> Inl ErrNoHeader
         | Some body \<Rightarrow> Inr \<lparr>Entries = parse_entries body, Complete = (last input = nl)\<rparr>))"

section \<open>Names of tests\<close>

definition testRunFlag :: string where "testRunFlag = ''-test.run=''"

text \<open>\<open>regexp.QuoteMeta\<close>.\<close>

definition meta_chars :: string where
  "meta_chars = chr 92 # ''.+*?()|[]{}^$''"

definition quote_meta :: "string \<Rightarrow> string" where
  "quote_meta s = concat (map (\<lambda>c. if c \<in> set meta_chars then [chr 92, c] else [c]) s)"

definition test_run_selector :: "string list \<Rightarrow> string" where
  "test_run_selector names = testRunFlag @ ''^('' @ join_with ''|'' (map quote_meta names) @ '')$''"

definition supplies_test_run :: "string list \<Rightarrow> bool" where
  "supplies_test_run args = list_ex (\<lambda>a. flag_match a ''test.run'') args"

definition selectable_test :: "string \<Rightarrow> bool" where
  "selectable_test name \<longleftrightarrow> name \<noteq> [] \<and> \<not> contains_any name [CHR ''/'', CHR '' '', tab, nl]"

section \<open>Reading a log back\<close>

lemma parse_entries_lines:
  "parse_entries body = map entry_of_line (filter (\<lambda>l. l \<noteq> []) (butlast (split_on nl body)))"
proof (induction body rule: parse_entries.induct)
  case (1 body)
  show ?case
  proof (cases "go_cut body [nl]")
    case None
    then have "split_on nl body = [body]" by (simp add: go_cut_char_None split_on_single)
    with None show ?thesis by (simp add: parse_entries.simps [of body])
  next
    case (Some p)
    obtain line rest where p: "p = (line, rest)" by (cases p)
    have body: "body = line @ nl # rest" using Some p go_cut_Some [of body "[nl]" line rest] by simp
    have "nl \<notin> set line"
    proof
      assume "nl \<in> set line"
      then obtain u v where "line = u @ nl # v" "nl \<notin> set u" by (metis split_list_first)
      then show False using Some p body go_cut_char [of nl u "v @ nl # rest"] by simp
    qed
    then have "split_on nl body = line # split_on nl rest" using body by (simp add: split_on_append)
    moreover have "parse_entries rest = map entry_of_line (filter (\<lambda>l. l \<noteq> []) (butlast (split_on nl rest)))"
      using 1 body Some p by (cases "line = []") auto
    ultimately show ?thesis using Some p body by (subst parse_entries.simps) simp
  qed
qed

text \<open>What the testing package writes: an operation without blanks, a blank, and the name.\<close>

definition entry_line :: "log_entry \<Rightarrow> string" where
  "entry_line e = Op e @ '' '' @ Name e"

definition entry_valid :: "log_entry \<Rightarrow> bool" where
  "entry_valid e \<longleftrightarrow> CHR '' '' \<notin> set (Op e) \<and> nl \<notin> set (Op e) \<and> nl \<notin> set (Name e)"

definition print_log :: "log_entry list \<Rightarrow> string" where
  "print_log es = Header @ concat (map (\<lambda>l. l @ [nl]) (map entry_line es))"

lemma entry_of_line_print: "entry_valid e \<Longrightarrow> entry_of_line (entry_line e) = e"
  by (simp add: entry_valid_def entry_of_line_def entry_line_def go_cut_char)

lemma split_take_lines:
  assumes "\<And>l. l \<in> set ls \<Longrightarrow> nl \<notin> set l"
  shows "\<exists>k. butlast (split_on nl (take n (concat (map (\<lambda>l. l @ [nl]) ls)))) = take k ls \<and> k \<le> length ls
    \<and> (n < length (concat (map (\<lambda>l. l @ [nl]) ls)) \<or> k = length ls)"
  using assms
proof (induction ls arbitrary: n)
  case Nil
  then show ?case by simp
next
  case (Cons l ls)
  let ?t = "concat (map (\<lambda>l. l @ [nl]) ls)"
  have l: "nl \<notin> set l" using Cons.prems by simp
  show ?case
  proof (cases "n \<le> length l")
    case True
    then have "take n (concat (map (\<lambda>l. l @ [nl]) (l # ls))) = take n l" by simp
    moreover have "nl \<notin> set (take n l)" using l by (meson in_set_takeD)
    ultimately show ?thesis using True by (intro exI [of _ 0]) (simp add: split_on_single)
  next
    case False
    then obtain m where n: "n = length l + Suc m" by (metis less_imp_Suc_add not_le add_Suc_right)
    have t: "take n (concat (map (\<lambda>l. l @ [nl]) (l # ls))) = l @ nl # take m ?t" by (simp add: n)
    obtain k where k: "butlast (split_on nl (take m ?t)) = take k ls" "k \<le> length ls"
      "m < length ?t \<or> k = length ls" using Cons by (metis list.set_intros(2))
    show ?thesis unfolding t split_on_append [OF l]
      using k n by (intro exI [of _ "Suc k"]) auto
  qed
qed

text \<open>
  A log is read as far as it was written: for every log the testing package writes and every
  point after the header at which the process was cut off, \<open>Parse\<close> succeeds and delivers a
  prefix of the actions in order, all of them when nothing is missing; what it delivers is never
  a torn action.
\<close>

theorem parse_log_of_prefix:
  assumes "list_all entry_valid es"
  shows "case parse_log (take (length Header + n) (print_log es)) False of
      Inl err \<Rightarrow> False
    | Inr log \<Rightarrow> prefix (Entries log) es
        \<and> (if length (print_log es) \<le> length Header + n then log = \<lparr>Entries = es, Complete = True\<rparr> else True)"
proof -
  let ?ls = "map entry_line es" and ?t = "concat (map (\<lambda>l. l @ [nl]) (map entry_line es))"
  have "nl \<noteq> CHR '' ''" by code_simp
  then have no: "\<And>l. l \<in> set ?ls \<Longrightarrow> nl \<notin> set l"
    using assms by (auto simp: list_all_iff entry_valid_def entry_line_def)
  obtain k where k: "butlast (split_on nl (take n ?t)) = take k ?ls" "k \<le> length ?ls"
    "n < length ?t \<or> k = length ?ls" using split_take_lines [of ?ls n, OF no] by blast
  have cut: "take (length Header + n) (print_log es) = Header @ take n ?t" by (simp add: print_log_def)
  have "filter (\<lambda>l. l \<noteq> []) (map entry_line xs) = map entry_line xs" for xs
    by (induction xs) (simp_all add: entry_line_def)
  then have "parse_entries (take n ?t) = map entry_of_line (map entry_line (take k es))"
    unfolding parse_entries_lines k(1) by (simp add: take_map)
  also have "\<dots> = take k es"
  proof -
    have "entry_valid e" if "e \<in> set (take k es)" for e
      using that assms by (meson in_set_takeD list_all_iff)
    then show ?thesis by (simp add: entry_of_line_print map_idI)
  qed
  finally have entries: "parse_entries (take n ?t) = take k es" .
  have parsed: "parse_log (take (length Header + n) (print_log es)) False
      = Inr \<lparr>Entries = take k es, Complete = (last (Header @ take n ?t) = nl)\<rparr>"
    by (simp add: cut parse_log_def cut_prefix_def entries del: map_map)
  have "last (Header @ ?t) = nl" by (cases es rule: rev_cases) (simp_all add: Header_def)
  then have "length ?t \<le> n \<Longrightarrow> take k es = es \<and> last (Header @ take n ?t) = nl" using k(3) by simp
  then show ?thesis
    unfolding parsed sum.case by (simp add: take_is_prefix) (simp add: print_log_def)
qed

theorem parse_log_of_prefix_witness:
  "case parse_log (take (length Header + 18) (print_log
        [\<lparr>Op = ''open'', Name = ''a b.txt''\<rparr>, \<lparr>Op = ''getenv'', Name = ''HOME''\<rparr>])) False of
      Inl err \<Rightarrow> False
    | Inr log \<Rightarrow> prefix (Entries log) [\<lparr>Op = ''open'', Name = ''a b.txt''\<rparr>, \<lparr>Op = ''getenv'', Name = ''HOME''\<rparr>]
        \<and> (if length (print_log [\<lparr>Op = ''open'', Name = ''a b.txt''\<rparr>, \<lparr>Op = ''getenv'', Name = ''HOME''\<rparr>])
             \<le> length Header + 18
           then log = \<lparr>Entries = [\<lparr>Op = ''open'', Name = ''a b.txt''\<rparr>, \<lparr>Op = ''getenv'', Name = ''HOME''\<rparr>],
             Complete = True\<rparr> else True)"
  by (rule parse_log_of_prefix) code_simp

end
