(* ===== verification/RunMutant.thy ===== *)
theory RunMutant
  imports ExecEnv Outcomes TestLog
begin

text \<open>
  One attempt on a mutant (\<open>internal/execute/run.go\<close>, \<open>testlog.go\<close>): the request is checked,
  the test binaries are started one after the other with the mutant active, and the first one
  that does not pass decides the outcome. Processes, files and the context are operations of a
  \<open>world\<close> that threads a state of its own, so that nothing is assumed of what they answer.
\<close>

section \<open>Requests, processes, attempts\<close>

datatype exec_code =
    CodeOptions | CodeBinDir | CodeListFailed | CodeListUnreadable | CodeTestBuildFailed
  | CodeNoTestBinaries | CodeMutantInvalid | CodeScratchDir | CodeMutantStart | CodeStaleCatalog
  | CodeProbeInvalid | CodeProbeStart | CodeProbeLog | CodeControlInvalid | CodeControlStart
  | CodeInterrupted | CodeTestLogUnsupported | CodeCoverageDir | CodeCoverageFailed

record run_spec =
  Argv :: "string list"
  Dir :: string
  Env :: "string list"
  s_Timeout :: int
  s_MemoryLimit :: int
  s_OutputLimit :: int
  Kind :: string
  Subject :: string

record invocation =
  i_Argv :: "string list"
  i_Dir :: string
  i_Kind :: string
  i_TraceSeq :: int

record run_result =
  ExitCode :: int
  r_TimedOut :: bool
  r_MemoryExceeded :: bool
  r_PeakMemory :: int
  r_Duration :: int
  r_Output :: string
  r_OutputBytes :: int
  r_Truncated :: bool
  r_Err :: "invocation option option"
  TraceSeq :: int

text \<open>
  The error of a result is None, or one that may carry an invocation (the runner's own error
  type). Texts of messages are left out of an error.
\<close>

record exec_error =
  Code :: exec_code
  e_Output :: string
  Invocation :: "invocation option"
  e_Package :: string

datatype attempt_error = ErrTreeNotRestored | ExecError exec_error

record test_binary =
  b_ImportPath :: string
  b_Dir :: string
  BinPath :: string

record test_log =
  l_Package :: string
  l_Dir :: string
  l_Entries :: "log_entry list"
  l_Complete :: bool
  l_Err :: bool

text \<open>A Go map is a list of its entries, each key once; a nil slice is None.\<close>

record mutant_run =
  m_ID :: string
  m_Package :: string
  m_Timeout :: int
  NeverReturns :: bool
  m_MemoryLimit :: int
  m_Binaries :: "int list option"
  m_Tests :: "(string \<times> string list) list"
  m_Args :: "string list"
  m_OutputLimit :: int
  m_RecordTestLog :: bool

record attempt =
  Worker :: int
  Outcome :: outcome
  KilledBy :: string
  Duration :: int
  Binaries :: "string list"
  Tests :: "(string \<times> string list) list"
  ExecSeqs :: "int list"
  TestLogs :: "test_log list"
  OutputTail :: string
  Output :: string
  OutputBytes :: int
  Truncated :: bool
  PeakMemory :: int
  MemoryExceeded :: bool
  Diverged :: bool
  Err :: "attempt_error option"

definition blank_attempt :: attempt where
  "blank_attempt = \<lparr>Worker = 0, Outcome = OutcomeNotRun, KilledBy = [], Duration = 0, Binaries = [],
     Tests = [], ExecSeqs = [], TestLogs = [], OutputTail = [], Output = [], OutputBytes = 0,
     Truncated = False, PeakMemory = 0, MemoryExceeded = False, Diverged = False, Err = None\<rparr>"

definition errored :: "attempt_error \<Rightarrow> attempt" where
  "errored err = blank_attempt\<lparr>Outcome := OutcomeErrored, Err := Some err\<rparr>"

definition plain_error :: "exec_code \<Rightarrow> exec_error" where
  "plain_error c = \<lparr>Code = c, e_Output = [], Invocation = None, e_Package = []\<rparr>"

datatype read_outcome = NotExist | ReadError | FileData string

record 'w world =
  ctx_err :: "'w \<Rightarrow> bool \<times> 'w"
  run_process :: "run_spec \<Rightarrow> 'w \<Rightarrow> run_result \<times> 'w"
  mkdir_all :: "string \<Rightarrow> 'w \<Rightarrow> bool \<times> 'w"
  read_file :: "string \<Rightarrow> 'w \<Rightarrow> read_outcome \<times> 'w"
  abs_path :: "string \<Rightarrow> 'w \<Rightarrow> string option \<times> 'w"
  eval_symlinks :: "string \<Rightarrow> 'w \<Rightarrow> string option \<times> 'w"
  environ :: "string list"

record 'w options =
  SnapshotRoot :: string
  ScratchDir :: string
  Tree :: string
  Restore :: "('w \<Rightarrow> bool \<times> 'w) option"
  o_Env :: "string list option"
  LoopLimits :: string

definition UnknownMutantExit :: int where "UnknownMutantExit = 97"
definition DivergedExit :: int where "DivergedExit = 96"
definition ExitCodeUnavailable :: int where "ExitCodeUnavailable = -1"
definition InProcessTimeoutFactor :: int where "InProcessTimeoutFactor = 2"
definition OutputTailLines :: nat where "OutputTailLines = 50"

definition output_tail :: "string \<Rightarrow> string" where
  "output_tail output =
     (let t = trim_right output [cr, nl, CHR '' '', tab] in
      if t = [] then []
      else
        (let ls = split_on nl t;
             ls = (if length ls > OutputTailLines then drop (length ls - OutputTailLines) ls else ls)
         in join_with [nl] (map (\<lambda>l. trim_right l [cr]) ls)))"

definition invocation_of :: "run_spec \<Rightarrow> run_result \<Rightarrow> invocation" where
  "invocation_of spec r =
     \<lparr>i_Argv = Argv spec, i_Dir = Dir spec, i_Kind = Kind spec, i_TraceSeq = TraceSeq r\<rparr>"

definition command_of :: "run_spec \<Rightarrow> run_result \<Rightarrow> invocation" where
  "command_of spec r =
     (case r_Err r of Some (Some i) \<Rightarrow> i | _ \<Rightarrow> invocation_of spec r)"

definition keep :: "attempt \<Rightarrow> run_result \<Rightarrow> attempt" where
  "keep a r = a\<lparr>Output := r_Output r, OutputBytes := r_OutputBytes r, Truncated := r_Truncated r,
     OutputTail := output_tail (r_Output r)\<rparr>"

section \<open>Durations as text\<close>

text \<open>\<open>time.Duration.String\<close>.\<close>

definition strip_zeros :: "string \<Rightarrow> string" where
  "strip_zeros s = rev (dropWhile (\<lambda>c. c = CHR ''0'') (rev s))"

definition fraction :: "nat \<Rightarrow> nat \<Rightarrow> string" where
  "fraction v prec =
     (let f = v mod 10 ^ prec; ds = digits_of f
      in if f = 0 then [] else ''.'' @ strip_zeros (replicate (prec - length ds) CHR ''0'' @ ds))"

definition duration_string :: "int \<Rightarrow> string" where
  "duration_string d =
     (let u = nat \<bar>d\<bar>;
          body =
            (if u = 0 then ''0s''
             else if u < 1000 then digits_of u @ ''ns''
             else if u < 1000000 then digits_of (u div 1000) @ fraction u 3 @ [chr 194, chr 181] @ ''s''
             else if u < 1000000000 then digits_of (u div 1000000) @ fraction u 6 @ ''ms''
             else
               (let secs = u div 1000000000; mins = secs div 60; hours = mins div 60
                in (if hours > 0 then digits_of hours @ ''h'' else [])
                   @ (if mins > 0 then digits_of (mins mod 60) @ ''m'' else [])
                   @ digits_of (secs mod 60) @ fraction u 9 @ ''s''))
      in (if d < 0 then ''-'' else []) @ body)"

section \<open>Test logs\<close>

definition testLogFlagName :: string where "testLogFlagName = ''-test.testlogfile''"
definition testLogUndefined :: string where
  "testLogUndefined = ''flag provided but not defined: '' @ testLogFlagName"

record log_plan =
  plan_record :: bool
  plan_dir :: string
  plan_reason :: bool

definition has_fuzz_argument :: "string list \<Rightarrow> bool" where
  "has_fuzz_argument args = list_ex (\<lambda>a. flag_match a ''test.fuzz'') args"

definition supplies_test_log :: "string list \<Rightarrow> bool" where
  "supplies_test_log args = list_ex (\<lambda>a. flag_match a ''test.testlogfile'') args"

definition plan_test_log :: "'w world \<Rightarrow> bool \<Rightarrow> string \<Rightarrow> string list \<Rightarrow> 'w \<Rightarrow> log_plan \<times> 'w" where
  "plan_test_log W rec scratch args w =
     (if \<not> rec then (\<lparr>plan_record = False, plan_dir = [], plan_reason = False\<rparr>, w)
      else if scratch = [] \<or> has_fuzz_argument args
      then (\<lparr>plan_record = True, plan_dir = [], plan_reason = True\<rparr>, w)
      else
        (let dir = go_join [scratch, ''testlogs''] in
         case mkdir_all W dir w of
           (ok, w) \<Rightarrow>
             (if ok then \<lparr>plan_record = True, plan_dir = dir, plan_reason = False\<rparr>
              else \<lparr>plan_record = True, plan_dir = [], plan_reason = True\<rparr>, w)))"

definition recording :: "log_plan \<Rightarrow> bool" where
  "recording p \<longleftrightarrow> plan_record p \<and> \<not> plan_reason p"

definition plan_path :: "log_plan \<Rightarrow> nat \<Rightarrow> string" where
  "plan_path p index =
     (if \<not> recording p then []
      else go_join [plan_dir p, ''testlog-'' @ itoa (int index) @ ''.txt''])"

definition supervisor_ended :: "run_result \<Rightarrow> bool" where
  "supervisor_ended r \<longleftrightarrow> r_TimedOut r \<or> ExitCode r = ExitCodeUnavailable"

definition plan_read :: "'w world \<Rightarrow> log_plan \<Rightarrow> test_binary \<Rightarrow> string \<Rightarrow> run_result \<Rightarrow> 'w \<Rightarrow> test_log \<times> 'w" where
  "plan_read W p bin path r w =
     (let rec = \<lparr>l_Package = b_ImportPath bin, l_Dir = b_Dir bin, l_Entries = [], l_Complete = False,
                 l_Err = False\<rparr> in
      if path = [] then (rec\<lparr>l_Err := plan_reason p\<rparr>, w)
      else
        (case read_file W path w of
           (NotExist, w) \<Rightarrow> (rec\<lparr>l_Err := True\<rparr>, w)
         | (ReadError, w) \<Rightarrow> (rec\<lparr>l_Err := True\<rparr>, w)
         | (FileData d, w) \<Rightarrow>
             if d = [] then (rec\<lparr>l_Err := True\<rparr>, w)
             else
               (case parse_log d False of
                  Inl err \<Rightarrow> (rec\<lparr>l_Err := True\<rparr>, w)
                | Inr acts \<Rightarrow>
                    (rec\<lparr>l_Entries := Entries acts, l_Complete := Complete acts \<and> \<not> supervisor_ended r\<rparr>, w))))"

definition test_log_unsupported :: "string \<Rightarrow> run_result \<Rightarrow> test_log option \<Rightarrow> bool" where
  "test_log_unsupported path r rec \<longleftrightarrow>
     path \<noteq> [] \<and> ExitCode r = 2 \<and> go_cut (r_Output r) testLogUndefined \<noteq> None
     \<and> (case rec of None \<Rightarrow> True | Some l \<Rightarrow> \<not> l_Complete l \<and> length (l_Entries l) = 0)"

definition test_log_unsupported_error :: "test_binary \<Rightarrow> run_spec \<Rightarrow> run_result \<Rightarrow> exec_error" where
  "test_log_unsupported_error bin spec r =
     \<lparr>Code = CodeTestLogUnsupported, e_Output = output_tail (r_Output r),
      Invocation = Some (command_of spec r), e_Package = b_ImportPath bin\<rparr>"

section \<open>Checking a request\<close>

definition overrides_timeout :: "string list \<Rightarrow> bool" where
  "overrides_timeout args = list_ex (\<lambda>a. flag_match a ''test.timeout'') args"

definition validate_args :: "mutant_run \<Rightarrow> exec_error option" where
  "validate_args m =
     (if overrides_timeout (m_Args m) then Some (plain_error CodeMutantInvalid)
      else if m_Tests m \<noteq> [] \<and> supplies_test_run (m_Args m) then Some (plain_error CodeMutantInvalid)
      else if m_RecordTestLog m \<and> supplies_test_log (m_Args m) then Some (plain_error CodeMutantInvalid)
      else None)"

fun select_indexes :: "test_binary list \<Rightarrow> int list \<Rightarrow> exec_code \<Rightarrow> exec_error + test_binary list" where
  "select_indexes bins [] refuse = Inr []"
| "select_indexes bins (i # is) refuse =
     (if i < 0 \<or> i \<ge> int (length bins) then Inl (plain_error refuse)
      else (case select_indexes bins is refuse of
              Inl err \<Rightarrow> Inl err
            | Inr rest \<Rightarrow> Inr (bins ! nat i # rest)))"

definition select_subset :: "int list option \<Rightarrow> test_binary list \<Rightarrow> exec_code \<Rightarrow> exec_error + test_binary list" where
  "select_subset chosen bins refuse =
     (case chosen of
        None \<Rightarrow> Inr bins
      | Some is \<Rightarrow> if is = [] then Inl (plain_error refuse) else select_indexes bins is refuse)"

definition select_binaries :: "mutant_run \<Rightarrow> test_binary list \<Rightarrow> exec_error + test_binary list" where
  "select_binaries m bins = select_subset (m_Binaries m) bins CodeMutantInvalid"

definition tests_of :: "(string \<times> string list) list \<Rightarrow> string \<Rightarrow> string list" where
  "tests_of tests p = (case map_of tests p of None \<Rightarrow> [] | Some names \<Rightarrow> names)"

fun check_selection :: "(string \<times> string list) list \<Rightarrow> string list \<Rightarrow> exec_code \<Rightarrow> string list \<Rightarrow> exec_error option" where
  "check_selection tests started refuse [] = None"
| "check_selection tests started refuse (p # ps) =
     (if p \<notin> set started then Some (plain_error refuse)
      else if tests_of tests p = [] then Some (plain_error refuse)
      else if \<not> list_all selectable_test (tests_of tests p) then Some (plain_error refuse)
      else check_selection tests started refuse ps)"

definition validate_test_selection ::
  "(string \<times> string list) list \<Rightarrow> test_binary list \<Rightarrow> exec_code \<Rightarrow> exec_error option" where
  "validate_test_selection tests selected refuse =
     (if tests = [] then None
      else check_selection tests (map b_ImportPath selected) refuse (sort_by cmp_str (map fst tests)))"

definition worker_scratch :: "'w world \<Rightarrow> string \<Rightarrow> 'w \<Rightarrow> (exec_error + string) \<times> 'w" where
  "worker_scratch W dir w =
     (if trim_space dir = [] then (Inr [], w)
      else
        (case abs_path W dir w of
           (None, w) \<Rightarrow> (Inl (plain_error CodeScratchDir), w)
         | (Some resolved, w) \<Rightarrow>
             if resolved = [] then (Inl (plain_error CodeScratchDir), w)
             else
               (case mkdir_all W resolved w of
                  (ok, w) \<Rightarrow> (if ok then Inr resolved else Inl (plain_error CodeScratchDir), w))))"

section \<open>Starting a process\<close>

definition relative_to :: "string \<Rightarrow> string \<Rightarrow> string option" where
  "relative_to base dir =
     (case go_rel base dir of
        None \<Rightarrow> None
      | Some rel \<Rightarrow> if rel = ''..'' \<or> has_prefix rel ''../'' then None else Some rel)"

definition under :: "'w world \<Rightarrow> string \<Rightarrow> string \<Rightarrow> 'w \<Rightarrow> string option \<times> 'w" where
  "under W base dir w =
     (case relative_to base dir of
        Some rel \<Rightarrow> (Some rel, w)
      | None \<Rightarrow>
          (case eval_symlinks W base w of (resolvedRoot, w) \<Rightarrow>
           (case eval_symlinks W dir w of (resolvedDir, w) \<Rightarrow>
            (case (resolvedRoot, resolvedDir) of
               (Some rr, Some rd) \<Rightarrow> (relative_to rr rd, w)
             | _ \<Rightarrow> (None, w)))))"

definition working_dir :: "'w world \<Rightarrow> 'w options \<Rightarrow> test_binary \<Rightarrow> 'w \<Rightarrow> string \<times> 'w" where
  "working_dir W opts bin w =
     (if Tree opts = [] \<or> SnapshotRoot opts = [] \<or> Tree opts = SnapshotRoot opts then (b_Dir bin, w)
      else
        (case under W (SnapshotRoot opts) (b_Dir bin) w of
           (None, w) \<Rightarrow> (b_Dir bin, w)
         | (Some rel, w) \<Rightarrow> (go_join [Tree opts, rel], w)))"

definition target_argv :: "test_binary \<Rightarrow> int \<Rightarrow> string list \<Rightarrow> string list \<Rightarrow> string \<Rightarrow> bool \<Rightarrow> string list" where
  "target_argv bin timeout args tests logPath stopAtFirstFailure =
     [BinPath bin, ''-test.timeout='' @ duration_string (wrap64 (InProcessTimeoutFactor * timeout))]
     @ (if stopAtFirstFailure then [''-test.failfast''] else [])
     @ (if logPath \<noteq> [] then [testLogFlagName @ ''='' @ logPath] else [])
     @ (if tests \<noteq> [] then [test_run_selector tests] else [])
     @ args"

definition start_target ::
  "'w world \<Rightarrow> 'w options \<Rightarrow> string \<Rightarrow> string \<Rightarrow> test_binary \<Rightarrow> string list \<Rightarrow> int \<Rightarrow> int \<Rightarrow> string list
    \<Rightarrow> string list \<Rightarrow> string \<Rightarrow> int \<Rightarrow> bool \<Rightarrow> 'w \<Rightarrow> run_spec \<times> run_result \<times> 'w" where
  "start_target W opts kind subject bin env timeout memoryLimit args tests logPath outputLimit stopAtFirstFailure w =
     (case working_dir W opts bin w of
        (dir, w) \<Rightarrow>
          (let spec = \<lparr>Argv = target_argv bin timeout args tests logPath stopAtFirstFailure, Dir = dir,
                 Env = env, s_Timeout = timeout, s_MemoryLimit = memoryLimit, s_OutputLimit = outputLimit,
                 Kind = kind, Subject = subject\<rparr>
           in (case run_process W spec w of (r, w) \<Rightarrow> (spec, r, w))))"

section \<open>The pass over the binaries\<close>

text \<open>What one result makes of an attempt; None when the binary passed and the loop goes on.\<close>

definition judge :: "mutant_run \<Rightarrow> test_binary \<Rightarrow> run_spec \<Rightarrow> run_result \<Rightarrow> string \<Rightarrow> test_log option \<Rightarrow> attempt \<Rightarrow> attempt option" where
  "judge m bin spec r logPath rec a =
     (if r_Err r \<noteq> None then
        (let a = keep (a\<lparr>Outcome := OutcomeErrored\<rparr>) r
         in Some (a\<lparr>Err := Some (ExecError \<lparr>Code = CodeMutantStart, e_Output = OutputTail a,
              Invocation = Some (command_of spec r), e_Package = b_ImportPath bin\<rparr>)\<rparr>))
      else if r_TimedOut r then
        Some (keep (a\<lparr>Outcome := OutcomeTimedOut, KilledBy := b_ImportPath bin\<rparr>) r)
      else if r_MemoryExceeded r then
        Some (keep (a\<lparr>Outcome := OutcomeKilled, KilledBy := b_ImportPath bin, MemoryExceeded := True\<rparr>) r)
      else if ExitCode r = ExitCodeUnavailable then
        Some (a\<lparr>Outcome := OutcomeNotRun, Err := Some (ExecError \<lparr>Code = CodeInterrupted,
          e_Output = output_tail (r_Output r), Invocation = Some (command_of spec r), e_Package = b_ImportPath bin\<rparr>)\<rparr>)
      else if ExitCode r = UnknownMutantExit then
        (let a = keep (a\<lparr>Outcome := OutcomeErrored\<rparr>) r
         in Some (a\<lparr>Err := Some (ExecError \<lparr>Code = CodeStaleCatalog, e_Output = OutputTail a,
              Invocation = Some (command_of spec r), e_Package = b_ImportPath bin\<rparr>)\<rparr>))
      else if ExitCode r = DivergedExit then
        Some (keep (a\<lparr>Outcome := OutcomeTimedOut, KilledBy := b_ImportPath bin, Diverged := True\<rparr>) r)
      else if test_log_unsupported logPath r rec then
        Some (keep (a\<lparr>Outcome := OutcomeErrored\<rparr>) r
          \<lparr>Err := Some (ExecError (test_log_unsupported_error bin spec r))\<rparr>)
      else if ExitCode r \<noteq> 0 then
        Some (keep (a\<lparr>Outcome := OutcomeKilled, KilledBy := b_ImportPath bin\<rparr>) r)
      else None)"

text \<open>What every result adds, whatever it is.\<close>

definition account :: "test_binary \<Rightarrow> string list \<Rightarrow> run_result \<Rightarrow> attempt \<Rightarrow> attempt" where
  "account bin tests r a =
     a\<lparr>Duration := wrap64 (Duration a + r_Duration r), PeakMemory := max (PeakMemory a) (r_PeakMemory r),
       Binaries := Binaries a @ [b_ImportPath bin],
       Tests := (if tests \<noteq> [] then AList.update (b_ImportPath bin) tests (Tests a) else Tests a),
       ExecSeqs := (if TraceSeq r \<noteq> 0 then ExecSeqs a @ [TraceSeq r] else ExecSeqs a)\<rparr>"

fun run_binaries ::
  "'w world \<Rightarrow> 'w options \<Rightarrow> mutant_run \<Rightarrow> string list \<Rightarrow> log_plan \<Rightarrow> nat \<Rightarrow> test_binary list \<Rightarrow> attempt \<Rightarrow> 'w
    \<Rightarrow> attempt \<times> 'w" where
  "run_binaries W opts m env logs i [] a w = (a, w)"
| "run_binaries W opts m env logs i (bin # bins) a w =
     (case ctx_err W w of
        (True, w) \<Rightarrow> (a\<lparr>Outcome := OutcomeNotRun\<rparr>, w)
      | (False, w) \<Rightarrow>
          (let logPath = plan_path logs i; tests = tests_of (m_Tests m) (b_ImportPath bin) in
           case start_target W opts ''mutant-run'' (m_ID m) bin env (m_Timeout m) (m_MemoryLimit m) (m_Args m)
                  tests logPath (m_OutputLimit m) True w of
             (spec, r, w) \<Rightarrow>
               (let a = account bin tests r a in
                case (if plan_record logs
                      then (case plan_read W logs bin logPath r w of
                              (rec, w) \<Rightarrow> (Some rec, a\<lparr>TestLogs := TestLogs a @ [rec]\<rparr>, w))
                      else (None, a, w)) of
                  (rec, a, w) \<Rightarrow>
                    (case judge m bin spec r logPath rec a of
                       Some a \<Rightarrow> (a, w)
                     | None \<Rightarrow> run_binaries W opts m env logs (Suc i) bins a w))))"

definition check_run :: "mutant_run \<Rightarrow> test_binary list \<Rightarrow> exec_error + test_binary list" where
  "check_run m bins =
     (if trim_space (m_ID m) = [] then Inl (plain_error CodeMutantInvalid)
      else if m_Timeout m \<le> 0 then Inl (plain_error CodeMutantInvalid)
      else if length bins = 0 then Inl (plain_error CodeNoTestBinaries)
      else
        (case validate_args m of
           Some err \<Rightarrow> Inl err
         | None \<Rightarrow>
             (case select_binaries m bins of
                Inl err \<Rightarrow> Inl err
              | Inr selected \<Rightarrow>
                  (case validate_test_selection (m_Tests m) selected CodeMutantInvalid of
                     Some err \<Rightarrow> Inl err
                   | None \<Rightarrow> Inr selected))))"

definition mutant_env :: "'w world \<Rightarrow> 'w options \<Rightarrow> mutant_run \<Rightarrow> string \<Rightarrow> string list" where
  "mutant_env W opts m scratch =
     mutant_env_from (environ W) (o_Env opts) (m_ID m) scratch
     @ (if LoopLimits opts \<noteq> [] then [LoopLimitsEnv @ ''='' @ LoopLimits opts] else [])"

definition run_pass :: "'w world \<Rightarrow> 'w options \<Rightarrow> mutant_run \<Rightarrow> test_binary list \<Rightarrow> 'w \<Rightarrow> attempt \<times> 'w" where
  "run_pass W opts m bins w =
     (case check_run m bins of
        Inl err \<Rightarrow> (errored (ExecError err), w)
      | Inr selected \<Rightarrow>
          (case worker_scratch W (ScratchDir opts) w of
             (Inl err, w) \<Rightarrow> (errored (ExecError err), w)
           | (Inr scratch, w) \<Rightarrow>
               (case plan_test_log W (m_RecordTestLog m) scratch (m_Args m) w of
                  (logs, w) \<Rightarrow>
                    run_binaries W opts m (mutant_env W opts m scratch) logs 0 selected
                      (blank_attempt\<lparr>Outcome := OutcomeSurvived\<rparr>) w)))"

definition restore_tree :: "'w options \<Rightarrow> 'w \<Rightarrow> bool \<times> 'w" where
  "restore_tree opts w = (case Restore opts of None \<Rightarrow> (True, w) | Some f \<Rightarrow> f w)"

definition run_narrowed :: "'w world \<Rightarrow> 'w options \<Rightarrow> mutant_run \<Rightarrow> test_binary list \<Rightarrow> 'w \<Rightarrow> attempt \<times> 'w" where
  "run_narrowed W opts m bins w =
     (case run_pass W opts m bins w of
        (a, w) \<Rightarrow>
          if length (Binaries a) = 0 then (a, w)
          else (case restore_tree opts w of
                  (ok, w) \<Rightarrow> (if ok then a else errored ErrTreeNotRestored, w)))"

definition run_one :: "'w world \<Rightarrow> 'w options \<Rightarrow> mutant_run \<Rightarrow> test_binary list \<Rightarrow> 'w \<Rightarrow> attempt \<times> 'w" where
  "run_one W opts m bins w =
     (case run_narrowed W opts m bins w of
        (a, w) \<Rightarrow>
          if m_Tests m = [] \<or> Outcome a \<noteq> OutcomeSurvived then (a, w)
          else run_narrowed W opts (m\<lparr>m_Tests := []\<rparr>) bins w)"

section \<open>What an outcome rests on\<close>

definition clean :: "run_result \<Rightarrow> bool" where
  "clean r \<longleftrightarrow> r_Err r = None \<and> \<not> r_TimedOut r \<and> \<not> r_MemoryExceeded r \<and> ExitCode r = 0"

text \<open>
  The result is one that the world delivered for the binary, started with the mutant's timeout,
  arguments and tests.
\<close>

definition ran_for :: "'w world \<Rightarrow> mutant_run \<Rightarrow> string list \<Rightarrow> test_binary \<Rightarrow> run_result \<Rightarrow> bool" where
  "ran_for W m env bin r \<longleftrightarrow> (\<exists>spec w1 w2 path. run_process W spec w1 = (r, w2) \<and> Env spec = env
     \<and> s_Timeout spec = m_Timeout m
     \<and> Argv spec = target_argv bin (m_Timeout m) (m_Args m) (tests_of (m_Tests m) (b_ImportPath bin)) path True)"

text \<open>How the result of the last binary explains an attempt that did not survive.\<close>

definition explains :: "attempt \<Rightarrow> test_binary \<Rightarrow> run_result \<Rightarrow> bool" where
  "explains a bin r \<longleftrightarrow>
     (if Outcome a = OutcomeKilled then
        KilledBy a = b_ImportPath bin \<and> Err a = None \<and> r_Err r = None \<and> \<not> r_TimedOut r
        \<and> (r_MemoryExceeded r \<or> ExitCode r \<notin> {0, ExitCodeUnavailable, UnknownMutantExit, DivergedExit})
      else if Outcome a = OutcomeTimedOut then
        KilledBy a = b_ImportPath bin \<and> Err a = None \<and> r_Err r = None
        \<and> (r_TimedOut r \<or> ExitCode r = DivergedExit \<and> Diverged a)
      else if Outcome a = OutcomeErrored then
        Err a \<noteq> None \<and> (r_Err r \<noteq> None \<or> ExitCode r = UnknownMutantExit \<or> ExitCode r = 2)
      else Outcome a = OutcomeNotRun \<and> Err a \<noteq> None \<and> ExitCode r = ExitCodeUnavailable)"

lemma outcomes_differ [simp]:
  "OutcomeKilled \<noteq> OutcomeSurvived" "OutcomeTimedOut \<noteq> OutcomeSurvived" "OutcomeErrored \<noteq> OutcomeSurvived"
  "OutcomeNotRun \<noteq> OutcomeSurvived" "OutcomeTimedOut \<noteq> OutcomeKilled" "OutcomeErrored \<noteq> OutcomeKilled"
  "OutcomeNotRun \<noteq> OutcomeKilled" "OutcomeErrored \<noteq> OutcomeTimedOut" "OutcomeNotRun \<noteq> OutcomeTimedOut"
  "OutcomeNotRun \<noteq> OutcomeErrored" "OutcomeInconclusive \<noteq> OutcomeSurvived" "OutcomeInconclusive \<noteq> OutcomeKilled"
  "OutcomeInconclusive \<noteq> OutcomeTimedOut" "OutcomeInconclusive \<noteq> OutcomeErrored" "OutcomeInconclusive \<noteq> OutcomeNotRun"
  by (simp_all add: outcome_defs)

lemmas outcomes_differ' [simp] = outcomes_differ [symmetric]

lemma judge_None: "judge m bin spec r path rec a = None \<Longrightarrow> clean r"
  by (auto simp: judge_def clean_def Let_def split: if_splits)

lemma judge_Some:
  assumes "judge m bin spec r path rec a = Some a'" and "Err a = None"
  shows "explains a' bin r" and "Outcome a' \<noteq> OutcomeSurvived" and "Binaries a' = Binaries a"
    and "Tests a' = Tests a"
  using assms
  by (auto simp: judge_def explains_def Let_def keep_def test_log_unsupported_def ExitCodeUnavailable_def
      UnknownMutantExit_def DivergedExit_def split: if_splits)

lemma start_target_ran:
  assumes "start_target W opts k (m_ID m) bin env (m_Timeout m) (m_MemoryLimit m) (m_Args m)
      (tests_of (m_Tests m) (b_ImportPath bin)) path limit True w = (spec, r, w')"
  shows "ran_for W m env bin r"
proof -
  obtain dir w1 where dir: "working_dir W opts bin w = (dir, w1)" by (cases "working_dir W opts bin w")
  let ?s = "\<lparr>Argv = target_argv bin (m_Timeout m) (m_Args m) (tests_of (m_Tests m) (b_ImportPath bin)) path True,
    Dir = dir, Env = env, s_Timeout = m_Timeout m, s_MemoryLimit = m_MemoryLimit m, s_OutputLimit = limit,
    Kind = k, Subject = m_ID m\<rparr>"
  obtain w2 where "run_process W ?s w1 = (r, w2)"
    using assms dir by (cases "run_process W ?s w1") (simp add: start_target_def)
  then show ?thesis unfolding ran_for_def by (intro exI [of _ ?s] exI) auto
qed

text \<open>The loop stops after the results \<open>rs\<close> of a front part of the binaries.\<close>

definition pass_explained :: "'w world \<Rightarrow> mutant_run \<Rightarrow> string list \<Rightarrow> test_binary list \<Rightarrow> run_result list \<Rightarrow> attempt \<Rightarrow> bool" where
  "pass_explained W m env bins rs a \<longleftrightarrow>
     length rs \<le> length bins \<and> list_all2 (ran_for W m env) (take (length rs) bins) rs
     \<and> (if Outcome a = OutcomeSurvived then length rs = length bins \<and> list_all clean rs
        else Outcome a = OutcomeNotRun \<and> list_all clean rs
          \<or> rs \<noteq> [] \<and> list_all clean (butlast rs) \<and> explains a (bins ! (length rs - 1)) (last rs))"

lemma pass_explained_Cons:
  assumes "pass_explained W m env bins rs a" and "ran_for W m env bin r" and "clean r"
  shows "pass_explained W m env (bin # bins) (r # rs) a"
  using assms by (cases rs) (auto simp: pass_explained_def split: if_splits)

lemma run_binaries_explained:
  assumes "Outcome a = OutcomeSurvived" and "Err a = None"
  shows "\<exists>rs. pass_explained W m env bins rs (fst (run_binaries W opts m env logs i bins a w))
    \<and> Binaries (fst (run_binaries W opts m env logs i bins a w))
       = Binaries a @ map b_ImportPath (take (length rs) bins)
    \<and> (if m_Tests m = [] then Tests (fst (run_binaries W opts m env logs i bins a w)) = Tests a else True)"
  using assms
proof (induction bins arbitrary: i a w)
  case Nil
  then show ?case by (intro exI [of _ "[]"]) (simp add: pass_explained_def)
next
  case (Cons bin bins)
  let ?path = "plan_path logs i" and ?tests = "tests_of (m_Tests m) (b_ImportPath bin)"
  obtain c w1 where c: "ctx_err W w = (c, w1)" by (cases "ctx_err W w")
  show ?case
  proof (cases c)
    case True
    then show ?thesis using c Cons.prems by (intro exI [of _ "[]"]) (simp add: pass_explained_def)
  next
    case False
    obtain spec r w2 where st: "start_target W opts ''mutant-run'' (m_ID m) bin env (m_Timeout m)
        (m_MemoryLimit m) (m_Args m) ?tests ?path (m_OutputLimit m) True w1 = (spec, r, w2)"
      by (cases "start_target W opts ''mutant-run'' (m_ID m) bin env (m_Timeout m)
        (m_MemoryLimit m) (m_Args m) ?tests ?path (m_OutputLimit m) True w1") auto
    have rr: "ran_for W m env bin r" using start_target_ran [OF st] .
    let ?b = "account bin ?tests r a"
    obtain rec b w3 where logged: "(if plan_record logs
          then (case plan_read W logs bin ?path r w2 of (rec, w) \<Rightarrow> (Some rec, ?b\<lparr>TestLogs := TestLogs ?b @ [rec]\<rparr>, w))
          else (None, ?b, w2)) = (rec, b, w3)"
      by (rule prod_cases3)
    then have b: "Outcome b = OutcomeSurvived" "Err b = None" "Binaries b = Binaries a @ [b_ImportPath bin]"
      "m_Tests m = [] \<Longrightarrow> Tests b = Tests a"
      using Cons.prems by (auto simp: account_def tests_of_def split: if_splits prod.splits)
    have step: "run_binaries W opts m env logs i (bin # bins) a w
        = (case judge m bin spec r ?path rec b of
             Some a \<Rightarrow> (a, w3) | None \<Rightarrow> run_binaries W opts m env logs (Suc i) bins b w3)"
      using c False by (simp only: run_binaries.simps prod.case bool.case Let_def st logged)
    show ?thesis
    proof (cases "judge m bin spec r ?path rec b")
      case None
      obtain rs where "pass_explained W m env bins rs (fst (run_binaries W opts m env logs (Suc i) bins b w3))"
        "Binaries (fst (run_binaries W opts m env logs (Suc i) bins b w3))
          = Binaries b @ map b_ImportPath (take (length rs) bins)"
        "if m_Tests m = [] then Tests (fst (run_binaries W opts m env logs (Suc i) bins b w3)) = Tests b else True"
        using Cons.IH [OF b(1,2)] by blast
      with None b rr judge_None [OF None] show ?thesis
        unfolding step by (intro exI [of _ "r # rs"]) (auto intro: pass_explained_Cons)
    next
      case (Some a')
      note j = judge_Some [OF Some b(2)]
      have "pass_explained W m env (bin # bins) [r] a'" using j(1,2) rr by (simp add: pass_explained_def)
      with Some j b show ?thesis unfolding step by (intro exI [of _ "[r]"]) auto
    qed
  qed
qed

lemma select_indexes_ok:
  "select_indexes bins is refuse = Inr sel \<Longrightarrow> set sel \<subseteq> set bins \<and> length sel = length is"
  by (induction "is" arbitrary: sel) (auto split: if_splits sum.splits)

lemma check_run_ok:
  assumes "check_run m bins = Inr sel"
  shows "sel \<noteq> [] \<and> set sel \<subseteq> set bins \<and> 0 < m_Timeout m \<and> \<not> overrides_timeout (m_Args m)"
proof -
  have "\<not> overrides_timeout (m_Args m)" "0 < m_Timeout m" "bins \<noteq> []" "select_binaries m bins = Inr sel"
    using assms by (auto simp: check_run_def validate_args_def split: if_splits option.splits sum.splits)
  moreover from this have "sel \<noteq> [] \<and> set sel \<subseteq> set bins"
    using select_indexes_ok [of bins _ CodeMutantInvalid sel]
    by (auto simp: select_binaries_def select_subset_def split: option.splits if_splits)
  ultimately show ?thesis by blast
qed

lemma run_pass_explained:
  assumes "check_run m bins = Inr sel"
  shows "(\<exists>err. fst (run_pass W opts m bins w) = errored (ExecError err) \<and> Code err = CodeScratchDir)
    \<or> (\<exists>rs scratch. pass_explained W m (mutant_env W opts m scratch) sel rs (fst (run_pass W opts m bins w))
        \<and> Binaries (fst (run_pass W opts m bins w)) = map b_ImportPath (take (length rs) sel)
        \<and> (if m_Tests m = [] then Tests (fst (run_pass W opts m bins w)) = [] else True))"
proof -
  obtain x w1 where sc: "worker_scratch W (ScratchDir opts) w = (x, w1)" by (cases "worker_scratch W (ScratchDir opts) w")
  show ?thesis
  proof (cases x)
    case (Inl err)
    then have "Code err = CodeScratchDir"
      using sc by (auto simp: worker_scratch_def plain_error_def split: if_splits prod.splits option.splits)
    with Inl sc assms show ?thesis by (intro disjI1 exI [of _ err]) (simp add: run_pass_def)
  next
    case (Inr scratch)
    obtain logs w2 where lg: "plan_test_log W (m_RecordTestLog m) scratch (m_Args m) w1 = (logs, w2)"
      by (cases "plan_test_log W (m_RecordTestLog m) scratch (m_Args m) w1")
    have run: "run_pass W opts m bins w = run_binaries W opts m (mutant_env W opts m scratch) logs 0 sel
        (blank_attempt\<lparr>Outcome := OutcomeSurvived\<rparr>) w2"
      using assms sc Inr lg by (simp add: run_pass_def)
    show ?thesis
      unfolding run
      using run_binaries_explained [of "blank_attempt\<lparr>Outcome := OutcomeSurvived\<rparr>" W m
          "mutant_env W opts m scratch" sel opts logs 0 w2]
      by (intro disjI2) (auto simp: blank_attempt_def)
  qed
qed

lemma check_run_whole: "check_run m bins = Inr sel \<Longrightarrow> check_run (m\<lparr>m_Tests := []\<rparr>) bins = Inr sel"
  by (auto simp: check_run_def validate_args_def select_binaries_def validate_test_selection_def
      split: if_splits option.splits sum.splits)


lemma mutant_env_tests [simp]: "mutant_env W opts (m\<lparr>m_Tests := t\<rparr>) scratch = mutant_env W opts m scratch"
  by (simp add: mutant_env_def)

text \<open>What a narrowed run can deliver that is no error: the attempt of its pass.\<close>

lemma run_narrowed_cases:
  assumes "check_run m bins = Inr sel"
  shows "Outcome (fst (run_narrowed W opts m bins w)) = OutcomeErrored
    \<or> (\<exists>rs scratch. pass_explained W m (mutant_env W opts m scratch) sel rs (fst (run_narrowed W opts m bins w))
        \<and> Binaries (fst (run_narrowed W opts m bins w)) = map b_ImportPath (take (length rs) sel)
        \<and> (if m_Tests m = [] then Tests (fst (run_narrowed W opts m bins w)) = [] else True))"
proof -
  obtain a w1 where p: "run_pass W opts m bins w = (a, w1)" by (cases "run_pass W opts m bins w")
  then have "Outcome (fst (run_narrowed W opts m bins w)) = OutcomeErrored \<or> fst (run_narrowed W opts m bins w) = a"
    by (auto simp: run_narrowed_def errored_def split: prod.split)
  then show ?thesis
    using run_pass_explained [OF assms, of W opts w] p by (auto simp: errored_def)
qed

text \<open>
  C6. No mutant survives by running nothing. A request that is not valid is an error and touches
  neither the file system nor a process; and when \<open>RunOne\<close> says that a mutant survived, then
  every selected test binary, of which there is at least one, was started with the mutant's
  environment, its timeout and its arguments, without any narrowing to named tests, and exited
  with code 0, within its time and its memory.
\<close>

theorem run_one_survived:
  "case check_run m bins of
      Inl err \<Rightarrow> run_one W opts m bins w = (errored (ExecError err), w)
    | Inr sel \<Rightarrow> sel \<noteq> [] \<and> set sel \<subseteq> set bins
        \<and> (if Outcome (fst (run_one W opts m bins w)) = OutcomeSurvived
           then Binaries (fst (run_one W opts m bins w)) = map b_ImportPath sel
             \<and> Tests (fst (run_one W opts m bins w)) = []
             \<and> (\<exists>rs scratch. list_all2 (ran_for W (m\<lparr>m_Tests := []\<rparr>) (mutant_env W opts m scratch)) sel rs
                  \<and> list_all clean rs)
           else True)"
proof (cases "check_run m bins")
  case (Inl err)
  then have "run_narrowed W opts m bins w = (errored (ExecError err), w)"
    by (simp add: run_narrowed_def run_pass_def errored_def blank_attempt_def)
  then have "run_one W opts m bins w = (errored (ExecError err), w)"
    by (simp add: run_one_def errored_def)
  with Inl show ?thesis by simp
next
  case (Inr sel)
  have whole: "\<exists>rs scratch. list_all2 (ran_for W (m\<lparr>m_Tests := []\<rparr>) (mutant_env W opts m scratch)) sel rs \<and> list_all clean rs"
    "Binaries a = map b_ImportPath sel" "Tests a = []"
    if a: "a = fst (run_narrowed W opts (m\<lparr>m_Tests := []\<rparr>) bins w')" and o: "Outcome a = OutcomeSurvived" for a w'
    using run_narrowed_cases [OF check_run_whole [OF Inr], of W opts w', folded a] o
    by (auto simp: pass_explained_def) blast
  show ?thesis
  proof (cases "Outcome (fst (run_one W opts m bins w)) = OutcomeSurvived")
    case True
    have same: "m\<lparr>m_Tests := []\<rparr> = m" if "m_Tests m = []" using that by (cases m) simp
    obtain w' where "run_one W opts m bins w = run_narrowed W opts (m\<lparr>m_Tests := []\<rparr>) bins w'"
      using True by (cases "m_Tests m = []") (auto simp: run_one_def same split: prod.splits if_splits)
    with True whole [of "fst (run_one W opts m bins w)" w'] Inr check_run_ok [OF Inr] show ?thesis by simp
  next
    case False
    with Inr check_run_ok [OF Inr] show ?thesis by simp
  qed
qed

text \<open>
  C7. A kill and a timeout rest on a test binary. When \<open>RunOne\<close> says that a mutant was killed
  or timed out, the binaries started are a front part of the selected ones, all but the last
  passed, and \<open>KilledBy\<close> names the last: it exceeded its memory or failed with an exit code that
  is none of the runtime's own, or it ran out of time or reported that it diverged.
\<close>

theorem run_one_detected:
  "case check_run m bins of Inl err \<Rightarrow> fst (run_one W opts m bins w) = errored (ExecError err)
    | Inr sel \<Rightarrow>
        (if outcome_detected (Outcome (fst (run_one W opts m bins w)))
         then \<exists>rs scratch tests. list_all2 (ran_for W (m\<lparr>m_Tests := tests\<rparr>) (mutant_env W opts m scratch)) (take (length rs) sel) rs
           \<and> 0 < length rs \<and> length rs \<le> length sel \<and> (tests = m_Tests m \<or> tests = [])
           \<and> Binaries (fst (run_one W opts m bins w)) = map b_ImportPath (take (length rs) sel)
           \<and> list_all clean (butlast rs)
           \<and> explains (fst (run_one W opts m bins w)) (sel ! (length rs - 1)) (last rs)
         else True)"
proof (cases "check_run m bins")
  case (Inl err)
  then have "run_narrowed W opts m bins w = (errored (ExecError err), w)"
    by (simp add: run_narrowed_def run_pass_def errored_def blank_attempt_def)
  with Inl show ?thesis by (simp add: run_one_def errored_def)
next
  case (Inr sel)
  show ?thesis
  proof (cases "outcome_detected (Outcome (fst (run_one W opts m bins w)))")
    case True
    obtain tests w' where t: "tests = m_Tests m \<or> tests = []"
      "fst (run_one W opts m bins w) = fst (run_narrowed W opts (m\<lparr>m_Tests := tests\<rparr>) bins w')"
    proof (cases "run_narrowed W opts m bins w")
      case (Pair a w1)
      show ?thesis
      proof (cases "m_Tests m = [] \<or> Outcome a \<noteq> OutcomeSurvived")
        case True
        then show ?thesis using Pair that [of "m_Tests m" w] by (simp add: run_one_def)
      next
        case False
        then show ?thesis using Pair that [of "[]" w1] by (simp add: run_one_def)
      qed
    qed
    have "check_run (m\<lparr>m_Tests := tests\<rparr>) bins = Inr sel"
      using t(1) Inr check_run_whole [OF Inr] by auto
    from run_narrowed_cases [OF this, of W opts w'] have
      "\<exists>rs scratch. pass_explained W (m\<lparr>m_Tests := tests\<rparr>) (mutant_env W opts m scratch) sel rs (fst (run_one W opts m bins w))
        \<and> Binaries (fst (run_one W opts m bins w)) = map b_ImportPath (take (length rs) sel)"
      using True by (auto simp: t(2) outcome_detected_def)
    then obtain rs scratch where rs:
      "pass_explained W (m\<lparr>m_Tests := tests\<rparr>) (mutant_env W opts m scratch) sel rs (fst (run_one W opts m bins w))"
      "Binaries (fst (run_one W opts m bins w)) = map b_ImportPath (take (length rs) sel)" by blast
    then have "0 < length rs \<and> length rs \<le> length sel \<and> list_all clean (butlast rs)
        \<and> list_all2 (ran_for W (m\<lparr>m_Tests := tests\<rparr>) (mutant_env W opts m scratch)) (take (length rs) sel) rs
        \<and> explains (fst (run_one W opts m bins w)) (sel ! (length rs - 1)) (last rs)"
      using True by (auto simp: pass_explained_def outcome_detected_def)
    with Inr t(1) rs(2) True show ?thesis by auto
  next
    case False
    with Inr show ?thesis by simp
  qed
qed

section \<open>What a mutant's process sees\<close>

text \<open>
  C36. A test binary is isolated from the tool and from other workers. Whatever environment it
  inherits, also with variables of the tool spelled in another case, the environment every pass of a
  mutant gives to its binaries has exactly these variables of the tool: the one that names the
  mutant and, when the run derived limits for loops, the one that holds them. It has no directory
  for coverage data and, when the worker has a scratch directory, the three variables for temporary
  files each once and with that directory; everything else is inherited unchanged and in order.
\<close>

theorem mutant_env_isolated:
  "let env = mutant_env W opts m scratch;
       inherited = (case o_Env opts of None \<Rightarrow> environ W | Some s \<Rightarrow> s) in
   filter owned env = (ActiveEnv @ ''='' @ m_ID m)
     # (if LoopLimits opts = [] then [] else [LoopLimitsEnv @ ''='' @ LoopLimits opts])
   \<and> filter (\<lambda>e. env_key e = coverDirEnv) env = []
   \<and> (if scratch = [] then True
      else filter (\<lambda>e. is_temp_key (env_key e)) env = map (\<lambda>k. k @ ''='' @ scratch) tempKeys)
   \<and> filter (foreign_entry scratch) env = filter (foreign_entry scratch) inherited"
proof -
  have tool: "k \<in> {ActiveEnv, ProbeEnv, LoopLimitsEnv} \<Longrightarrow> owned (k @ CHR ''='' # v) \<and> env_key (k @ CHR ''='' # v) = k
      \<and> \<not> foreign_entry d (k @ CHR ''='' # v) \<and> \<not> is_temp_key k \<and> k \<noteq> coverDirEnv" for k v d
    using tool_entry [of k] by simp
  show ?thesis
    using base_env_parts [where environ = "environ W" and source = "o_Env opts" and scratch = scratch]
    by (cases "scratch = []") (simp_all add: mutant_env_def mutant_env_from_def tool Let_def)
qed

end
