(* ===== verification/Schedule.thy ===== *)
theory Schedule
  imports RunMutant
begin

text \<open>
  The scheduler (\<open>internal/execute/schedule.go\<close>): workers take mutants from a shared counter,
  each result is written by the worker that holds its mutant, and the timeouts that need a second
  opinion are retried one after the other when all workers have stopped. The concurrent part is a
  relation between states: a step is one action of one worker, and the steps come in any order.
\<close>

section \<open>Results\<close>

record mutant_result =
  mr_ID :: string
  Attempts :: "attempt list"
  Final :: outcome
  mr_KilledBy :: string
  mr_Duration :: int
  mr_OutputTail :: string
  mr_Err :: "attempt_error option"

definition initial_result :: "mutant_run \<Rightarrow> mutant_result" where
  "initial_result m = \<lparr>mr_ID = m_ID m, Attempts = [], Final = OutcomeNotRun, mr_KilledBy = [],
     mr_Duration = 0, mr_OutputTail = [], mr_Err = None\<rparr>"

definition record_attempt :: "mutant_result \<Rightarrow> attempt \<Rightarrow> mutant_result" where
  "record_attempt r a =
     r\<lparr>Attempts := Attempts r @ [a], mr_Duration := wrap64 (mr_Duration r + Duration a)\<rparr>"

definition settle :: "mutant_result \<Rightarrow> attempt \<Rightarrow> mutant_result" where
  "settle r a =
     r\<lparr>Final := Outcome a, mr_KilledBy := KilledBy a, mr_OutputTail := OutputTail a,
       mr_Err := (if Outcome a = OutcomeErrored then Err a else None)\<rparr>"

definition confirm :: "mutant_result \<Rightarrow> attempt \<Rightarrow> mutant_result" where
  "confirm r a =
     (if Outcome a = OutcomeTimedOut then
        r\<lparr>Final := OutcomeTimedOut, mr_KilledBy := KilledBy a, mr_OutputTail := OutputTail a\<rparr>
      else if Outcome a = OutcomeKilled \<or> Outcome a = OutcomeSurvived then
        r\<lparr>Final := OutcomeInconclusive, mr_OutputTail := OutputTail a\<rparr>
      else if Outcome a = OutcomeErrored \<or> Outcome a = OutcomeInconclusive \<or> Outcome a = OutcomeNotRun then
        settle r a
      else r)"

definition tree_failure :: "attempt \<Rightarrow> attempt_error option" where
  "tree_failure a = (if Err a = Some ErrTreeNotRestored then Err a else None)"

definition worker_scratch_dir :: "string \<Rightarrow> int \<Rightarrow> string" where
  "worker_scratch_dir parent worker =
     (if parent = [] then [] else go_join [parent, ''w'' @ itoa worker])"

definition tree_for :: "string list \<Rightarrow> int \<Rightarrow> string" where
  "tree_for trees worker =
     (if worker < 0 \<or> worker \<ge> int (length trees) then [] else trees ! nat worker)"

definition restore_for :: "('w \<Rightarrow> bool \<times> 'w) list \<Rightarrow> int \<Rightarrow> ('w \<Rightarrow> bool \<times> 'w) option" where
  "restore_for restores worker =
     (if worker < 0 \<or> worker \<ge> int (length restores) then None else Some (restores ! nat worker))"

definition worker_options :: "'w options \<Rightarrow> string list \<Rightarrow> ('w \<Rightarrow> bool \<times> 'w) list \<Rightarrow> int \<Rightarrow> 'w options" where
  "worker_options opts trees restores worker =
     opts\<lparr>ScratchDir := worker_scratch_dir (ScratchDir opts) worker, Tree := tree_for trees worker,
       Restore := restore_for restores worker\<rparr>"

definition worker_count :: "int \<Rightarrow> nat \<Rightarrow> nat" where
  "worker_count jobs n = nat (min (max jobs 1) (int n))"

section \<open>The workers\<close>

text \<open>A worker is at the head of its loop, has taken a mutant, has one running, or returned.\<close>

datatype worker_state = Idle | Taken nat | Running nat | Halted

text \<open>The calls of the hooks, with the position of the mutant whose identifier they pass.\<close>

datatype hook_call = HookStart nat int | HookFinish nat mutant_result

record sched =
  results :: "mutant_result list"
  pending :: "bool list"
  next_index :: nat
  failed :: "attempt_error option"
  workers :: "worker_state list"
  hooks :: "hook_call list"

definition sched_start :: "mutant_run list \<Rightarrow> int \<Rightarrow> sched" where
  "sched_start ms jobs =
     \<lparr>results = map initial_result ms, pending = replicate (length ms) False, next_index = 0, failed = None,
      workers = replicate (worker_count jobs (length ms)) Idle, hooks = []\<rparr>"

text \<open>
  The actions: a worker reads the context, which may be done, and takes the next mutant; it calls
  the hook and starts \<open>RunOne\<close>; and it deals with the attempt that \<open>RunOne\<close> returns, which may
  be any.
\<close>

datatype action = Take nat bool | Begin nat | Conclude nat attempt

definition actor :: "action \<Rightarrow> nat" where
  "actor l = (case l of Take w c \<Rightarrow> w | Begin w \<Rightarrow> w | Conclude w a \<Rightarrow> w)"

definition conclude :: "mutant_run list \<Rightarrow> sched \<Rightarrow> nat \<Rightarrow> nat \<Rightarrow> attempt \<Rightarrow> sched" where
  "conclude ms s w i a0 =
     (let a = a0\<lparr>Worker := int w\<rparr>; r = record_attempt (results s ! i) a in
      if tree_failure a \<noteq> None then
        s\<lparr>results := (results s)[i := r],
          failed := (if failed s = None then tree_failure a else failed s),
          workers := (workers s)[w := Halted]\<rparr>
      else if Outcome a = OutcomeTimedOut \<and> \<not> (NeverReturns (ms ! i) \<or> Diverged a) then
        s\<lparr>results := (results s)[i := r], pending := (pending s)[i := True],
          workers := (workers s)[w := Idle]\<rparr>
      else
        (let r = (if Outcome a = OutcomeTimedOut then confirm r a else settle r a)
         in s\<lparr>results := (results s)[i := r], workers := (workers s)[w := Idle],
              hooks := hooks s @ [HookFinish i r]\<rparr>))"

inductive sched_step :: "mutant_run list \<Rightarrow> sched \<Rightarrow> action \<Rightarrow> sched \<Rightarrow> bool" for ms where
  Cancelled: "w < length (workers s) \<Longrightarrow> workers s ! w = Idle \<Longrightarrow>
    sched_step ms s (Take w True) (s\<lparr>workers := (workers s)[w := Halted]\<rparr>)"
| Exhausted: "w < length (workers s) \<Longrightarrow> workers s ! w = Idle \<Longrightarrow> length ms \<le> next_index s \<Longrightarrow>
    sched_step ms s (Take w False)
      (s\<lparr>next_index := Suc (next_index s), workers := (workers s)[w := Halted]\<rparr>)"
| Takes: "w < length (workers s) \<Longrightarrow> workers s ! w = Idle \<Longrightarrow> next_index s < length ms \<Longrightarrow>
    sched_step ms s (Take w False)
      (s\<lparr>next_index := Suc (next_index s), workers := (workers s)[w := Taken (next_index s)]\<rparr>)"
| Begins: "w < length (workers s) \<Longrightarrow> workers s ! w = Taken i \<Longrightarrow>
    sched_step ms s (Begin w)
      (s\<lparr>workers := (workers s)[w := Running i], hooks := hooks s @ [HookStart i (int w)]\<rparr>)"
| Concludes: "w < length (workers s) \<Longrightarrow> workers s ! w = Running i \<Longrightarrow>
    sched_step ms s (Conclude w a) (conclude ms s w i a)"

inductive sched_run :: "mutant_run list \<Rightarrow> sched \<Rightarrow> action list \<Rightarrow> sched \<Rightarrow> bool" for ms where
  Done: "sched_run ms s [] s"
| Step: "sched_run ms s ls t \<Longrightarrow> sched_step ms t l u \<Longrightarrow> sched_run ms s (ls @ [l]) u"

inductive_cases sched_run_NilE: "sched_run ms s [] t"

text \<open>All workers have returned; \<open>wg.Wait\<close> returns.\<close>

definition all_halted :: "sched \<Rightarrow> bool" where
  "all_halted s \<longleftrightarrow> list_all (\<lambda>x. x = Halted) (workers s)"

section \<open>The retries\<close>

text \<open>
  For each position: whether the context is done when the loop gets there, and the attempt that
  \<open>RunOne\<close> returns otherwise. The state keeps whether some retry was not made.
\<close>

type_synonym answers = "nat \<Rightarrow> bool \<times> attempt"

fun retry :: "answers \<Rightarrow> nat list \<Rightarrow> sched \<Rightarrow> bool \<Rightarrow> sched \<times> bool \<times> attempt_error option" where
  "retry answer [] s unretried = (s, unretried, None)"
| "retry answer (i # is) s unretried =
     (if \<not> pending s ! i then retry answer is s unretried
      else
        (let (cancelled, a0) = answer i in
         if cancelled then
           (let r = (results s ! i)\<lparr>Final := OutcomeNotRun\<rparr>
            in retry answer is (s\<lparr>results := (results s)[i := r], hooks := hooks s @ [HookFinish i r]\<rparr>) True)
         else
           (let a = a0\<lparr>Worker := 0\<rparr>;
                r = record_attempt (results s ! i) a;
                s = s\<lparr>results := (results s)[i := r], hooks := hooks s @ [HookStart i 0]\<rparr>
            in if tree_failure a \<noteq> None then (s, unretried, tree_failure a)
               else
                 (let r = confirm r a
                  in retry answer is (s\<lparr>results := (results s)[i := r], hooks := hooks s @ [HookFinish i r]\<rparr>)
                       (unretried \<or> Outcome a = OutcomeNotRun)))))"

definition held_back :: "bool list \<Rightarrow> nat" where
  "held_back ps = length (filter (\<lambda>p. p) ps)"

text \<open>The first attempt that an interruption cut off with a process to show for it.\<close>

definition cut_short :: "attempt \<Rightarrow> exec_error option" where
  "cut_short a =
     (case Err a of
        Some (ExecError e) \<Rightarrow> if Code e = CodeInterrupted \<and> Invocation e \<noteq> None then Some e else None
      | _ \<Rightarrow> None)"

definition cut_off :: "mutant_result list \<Rightarrow> exec_error option" where
  "cut_off rs =
     (case filter (\<lambda>x. x \<noteq> None) (map cut_short (concat (map Attempts rs))) of
        [] \<Rightarrow> None | x # _ \<Rightarrow> x)"

definition interrupted_error :: "mutant_result list \<Rightarrow> exec_error" where
  "interrupted_error rs =
     (let e = plain_error CodeInterrupted in
      case cut_off rs of None \<Rightarrow> e
      | Some c \<Rightarrow> e\<lparr>Invocation := Invocation c, e_Output := e_Output c\<rparr>)"

text \<open>From the end of the concurrent part to the return.\<close>

definition sched_finish :: "answers \<Rightarrow> bool \<Rightarrow> sched \<Rightarrow> sched \<times> attempt_error option" where
  "sched_finish answer cancelled s =
     (case failed s of
        Some err \<Rightarrow> (s, Some err)
      | None \<Rightarrow>
          (case retry answer [0..<length (results s)] s False of
             (s, unretried, Some err) \<Rightarrow> (s, Some err)
           | (s, unretried, None) \<Rightarrow>
               if cancelled then (s, Some (ExecError (interrupted_error (results s)))) else (s, None)))"

text \<open>A context that was done when a worker or a retry looked is done at the end.\<close>

definition context_ok :: "action list \<Rightarrow> answers \<Rightarrow> nat \<Rightarrow> bool \<Rightarrow> bool" where
  "context_ok ls answer n cancelled \<longleftrightarrow>
     cancelled \<or> list_all (\<lambda>l. case l of Take w c \<Rightarrow> \<not> c | _ \<Rightarrow> True) ls \<and> list_all (\<lambda>i. \<not> fst (answer i)) [0..<n]"

text \<open>
  What \<open>Schedule\<close> can return: at once when there is nothing to do or nothing to run, and
  otherwise what some order of the workers' actions leads to.
\<close>

inductive schedule ::
  "mutant_run list \<Rightarrow> test_binary list \<Rightarrow> int \<Rightarrow> mutant_result list \<Rightarrow> attempt_error option \<Rightarrow> bool" for ms bins jobs where
  NoMutants: "ms = [] \<Longrightarrow> schedule ms bins jobs [] None"
| NoBinaries: "ms \<noteq> [] \<Longrightarrow> bins = [] \<Longrightarrow>
    schedule ms bins jobs (map initial_result ms) (Some (ExecError (plain_error CodeNoTestBinaries)))"
| Runs: "ms \<noteq> [] \<Longrightarrow> bins \<noteq> [] \<Longrightarrow> sched_run ms (sched_start ms jobs) ls s \<Longrightarrow> all_halted s \<Longrightarrow>
    context_ok ls answer (length ms) cancelled \<Longrightarrow> sched_finish answer cancelled s = (t, err) \<Longrightarrow> schedule ms bins jobs (results t) err"

section \<open>The invariant of the workers\<close>

definition holds :: "worker_state \<Rightarrow> nat \<Rightarrow> bool" where
  "holds x i \<longleftrightarrow> x = Taken i \<or> x = Running i"

lemma holds_simps [simp]: "holds (Taken j) i \<longleftrightarrow> j = i" "holds (Running j) i \<longleftrightarrow> j = i"
  "\<not> holds Idle i" "\<not> holds Halted i"
  by (auto simp: holds_def)

definition finishes :: "hook_call list \<Rightarrow> nat \<Rightarrow> mutant_result list" where
  "finishes hs i = concat (map (\<lambda>h. case h of HookFinish j r \<Rightarrow> if j = i then [r] else [] | _ \<Rightarrow> []) hs)"

lemma finishes_simps [simp]:
  "finishes [] i = []" "finishes (xs @ ys) i = finishes xs i @ finishes ys i"
  "finishes [HookStart j w] i = []" "finishes [HookFinish j r] i = (if j = i then [r] else [])"
  by (simp_all add: finishes_def)

text \<open>A mutant whose timeout stands without a second attempt.\<close>

definition final_timeout :: "mutant_run \<Rightarrow> attempt \<Rightarrow> bool" where
  "final_timeout m a \<longleftrightarrow> NeverReturns m \<or> Diverged a"

text \<open>What the concurrent part leaves for a mutant that was attempted.\<close>

definition attempted :: "mutant_run \<Rightarrow> mutant_result \<Rightarrow> bool \<Rightarrow> mutant_result list \<Rightarrow> bool \<Rightarrow> bool" where
  "attempted m r held fin broken \<longleftrightarrow> (\<exists>a. Attempts r = [a] \<and>
     (if tree_failure a \<noteq> None then broken \<and> \<not> held \<and> Final r = OutcomeNotRun \<and> fin = []
      else if Outcome a = OutcomeTimedOut \<and> \<not> final_timeout m a
      then held \<and> Final r = OutcomeNotRun \<and> fin = []
      else \<not> held \<and> Final r = Outcome a \<and> fin = [r]))"

definition held_by :: "sched \<Rightarrow> nat \<Rightarrow> bool" where
  "held_by s i \<longleftrightarrow> (\<exists>w < length (workers s). holds (workers s ! w) i)"

text \<open>The state of one mutant, and of the whole.\<close>

definition mutant_inv :: "mutant_run list \<Rightarrow> sched \<Rightarrow> nat \<Rightarrow> bool" where
  "mutant_inv ms s i \<longleftrightarrow> mr_ID (results s ! i) = m_ID (ms ! i) \<and>
     (if next_index s \<le> i \<or> held_by s i
      then results s ! i = initial_result (ms ! i) \<and> \<not> pending s ! i \<and> finishes (hooks s) i = []
      else attempted (ms ! i) (results s ! i) (pending s ! i) (finishes (hooks s) i) (failed s \<noteq> None))"

definition sched_inv :: "mutant_run list \<Rightarrow> nat \<Rightarrow> sched \<Rightarrow> bool" where
  "sched_inv ms n s \<longleftrightarrow> length (results s) = length ms \<and> length (pending s) = length ms \<and> length (workers s) = n
     \<and> (\<forall>w i. w < n \<longrightarrow> holds (workers s ! w) i \<longrightarrow> i < next_index s \<and> i < length ms)
     \<and> (\<forall>v w i. v < n \<longrightarrow> w < n \<longrightarrow> holds (workers s ! v) i \<longrightarrow> holds (workers s ! w) i \<longrightarrow> v = w)
     \<and> (\<forall>i < length ms. mutant_inv ms s i)"

lemma sched_inv_start: "sched_inv ms (worker_count jobs (length ms)) (sched_start ms jobs)"
  by (auto simp: sched_inv_def sched_start_def mutant_inv_def initial_result_def)

text \<open>Moving a worker to a state that holds no other mutant.\<close>

lemma held_by_update:
  assumes "w < length (workers s)"
  shows "held_by (s\<lparr>workers := (workers s)[w := x]\<rparr>) i \<longleftrightarrow>
    holds x i \<or> (\<exists>v < length (workers s). v \<noteq> w \<and> holds (workers s ! v) i)"
  unfolding held_by_def using assms by (auto simp: nth_list_update)

lemma held_by_split:
  assumes "w < length (workers s)"
  shows "held_by s i \<longleftrightarrow> holds (workers s ! w) i \<or> (\<exists>v < length (workers s). v \<noteq> w \<and> holds (workers s ! v) i)"
  unfolding held_by_def using assms by metis

lemma sched_inv_workers:
  assumes inv: "sched_inv ms n s" and w: "w < n"
    and x: "\<And>i. holds x i \<Longrightarrow> i < nx \<and> i < length ms \<and> (holds (workers s ! w) i \<or> next_index s \<le> i)"
    and nx: "next_index s \<le> nx"
    and res: "length rs = length ms" "length ps = length ms"
    and each: "\<And>i. i < length ms \<Longrightarrow> mutant_inv ms
        (s\<lparr>results := rs, pending := ps, next_index := nx, failed := f, workers := (workers s)[w := x], hooks := hs\<rparr>) i"
  shows "sched_inv ms n
    (s\<lparr>results := rs, pending := ps, next_index := nx, failed := f, workers := (workers s)[w := x], hooks := hs\<rparr>)"
proof -
  have len: "length (workers s) = n" using inv by (simp add: sched_inv_def)
  have old: "i < next_index s \<and> i < length ms" if "v < n" "holds (workers s ! v) i" for v i
    using inv that unfolding sched_inv_def by blast
  have uniq: "v = u" if "v < n" "u < n" "holds (workers s ! v) i" "holds (workers s ! u) i" for v u i
    using inv that unfolding sched_inv_def by blast
  have 1: "i < nx \<and> i < length ms" if "v < n" "holds ((workers s)[w := x] ! v) i" for v i
    using that old [of v i] x [of i] nx len by (cases "v = w") (auto simp: w)
  have 2: "v = u" if "v < n" "u < n" "holds ((workers s)[w := x] ! v) i" "holds ((workers s)[w := x] ! u) i" for v u i
  proof (cases "v = w \<or> u = w")
    case False
    then show ?thesis using that uniq [of v u i] by simp
  next
    case True
    have clash: "False" if "u \<noteq> w" "u < n" "holds (workers s ! u) i" "holds x i" for u
      using x [OF that(4)] old [OF that(2,3)] uniq [of u w i] that w by auto
    show ?thesis using True that clash [of u] clash [of v] w len by (auto simp: nth_list_update split: if_splits)
  qed
  show ?thesis unfolding sched_inv_def using 1 2 each res len by simp
qed


lemma attempted_mono: "attempted m r h fin b \<Longrightarrow> (b \<Longrightarrow> b') \<Longrightarrow> attempted m r h fin b'"
  unfolding attempted_def by (elim exE conjE, intro exI conjI, assumption) (auto split: if_splits)

lemma mutant_inv_frame:
  assumes "mutant_inv ms s i" and "results t ! i = results s ! i" and "pending t ! i = pending s ! i"
    and "finishes (hooks t) i = finishes (hooks s) i" and "failed s \<noteq> None \<Longrightarrow> failed t \<noteq> None"
    and "(next_index t \<le> i \<or> held_by t i) = (next_index s \<le> i \<or> held_by s i)"
  shows "mutant_inv ms t i"
proof (cases "next_index s \<le> i \<or> held_by s i")
  case True
  then show ?thesis using assms(1) unfolding mutant_inv_def assms(2-4,6) by (simp add: initial_result_def)
next
  case False
  then have "attempted (ms ! i) (results s ! i) (pending s ! i) (finishes (hooks s) i) (failed s \<noteq> None)"
    using assms(1) by (simp add: mutant_inv_def)
  then have "attempted (ms ! i) (results s ! i) (pending s ! i) (finishes (hooks s) i) (failed t \<noteq> None)"
    by (rule attempted_mono) (rule assms(5))
  then show ?thesis using False assms(1) unfolding mutant_inv_def assms(2-4,6) by simp
qed

lemma sched_inv_lens:
  "sched_inv ms n s \<Longrightarrow> length (results s) = length ms \<and> length (pending s) = length ms \<and> length (workers s) = n"
  "sched_inv ms n s \<Longrightarrow> i < length ms \<Longrightarrow> mutant_inv ms s i"
  by (simp_all add: sched_inv_def)

lemma sched_inv_held:
  "sched_inv ms n s \<Longrightarrow> w < n \<Longrightarrow> holds (workers s ! w) i \<Longrightarrow> i < next_index s \<and> i < length ms"
  unfolding sched_inv_def by blast

lemma holder_unique:
  assumes "sched_inv ms n s" and "w < n" and "holds (workers s ! w) i" and "v < n" and "v \<noteq> w"
  shows "\<not> holds (workers s ! v) i"
  using assms unfolding sched_inv_def by blast

lemma conclude_inv:
  assumes inv: "sched_inv ms n s" and w: "w < n" and run: "workers s ! w = Running i"
  shows "sched_inv ms n (conclude ms s w i a0)"
proof -
  let ?a = "a0\<lparr>Worker := int w\<rparr>"
  have len: "length (workers s) = n" "length (results s) = length ms" "length (pending s) = length ms"
    using inv by (simp_all add: sched_inv_def)
  have i: "i < next_index s" "i < length ms" using sched_inv_held [OF inv w, of i] run by simp_all
  have alone: "\<not> (\<exists>v < n. v \<noteq> w \<and> holds (workers s ! v) i)"
    using holder_unique [OF inv w, of i] run by auto
  have held: "held_by s i" unfolding held_by_def using w run len by auto
  have mine: "mutant_inv ms s i" using inv i(2) by (simp add: sched_inv_def)
  then have init: "results s ! i = initial_result (ms ! i)" "\<not> pending s ! i" "finishes (hooks s) i = []"
    using held by (simp_all add: mutant_inv_def)
  obtain r p x hs f where c: "conclude ms s w i a0 = s\<lparr>results := (results s)[i := r],
      pending := (pending s)[i := p], next_index := next_index s, failed := f,
      workers := (workers s)[w := x], hooks := hooks s @ hs\<rparr>"
    and x: "x = Idle \<or> x = Halted" and f: "failed s \<noteq> None \<Longrightarrow> f \<noteq> None"
    and fin: "finishes hs j = (if j = i then finishes hs i else [])"
    and att: "attempted (ms ! i) r p (finishes hs i) (f \<noteq> None)" and rid: "mr_ID r = m_ID (ms ! i)" for j
  proof -
    let ?r = "record_attempt (results s ! i) ?a"
    have r: "Attempts ?r = [?a]" "Final ?r = OutcomeNotRun" "mr_ID ?r = m_ID (ms ! i)"
      by (simp_all add: init record_attempt_def initial_result_def)
    have keep: "(pending s)[i := False] = pending s"
      using init(2) by (metis list_update_id)
    consider "tree_failure ?a \<noteq> None"
      | "tree_failure ?a = None" "Outcome ?a = OutcomeTimedOut \<and> \<not> final_timeout (ms ! i) ?a"
      | "tree_failure ?a = None" "\<not> (Outcome ?a = OutcomeTimedOut \<and> \<not> final_timeout (ms ! i) ?a)" by blast
    then show ?thesis
    proof cases
      case 1
      show ?thesis
        by (rule that [where r = ?r and p = False and x = Halted and hs = "[]"
            and f = "if failed s = None then tree_failure ?a else failed s"])
          (use 1 r in \<open>simp_all add: conclude_def keep Let_def attempted_def\<close>)
    next
      case 2
      show ?thesis
        by (rule that [where r = ?r and p = True and x = Idle and hs = "[]" and f = "failed s"])
          (use 2 r in \<open>simp_all add: conclude_def Let_def attempted_def final_timeout_def\<close>)
    next
      case 3
      let ?f = "if Outcome ?a = OutcomeTimedOut then confirm ?r ?a else settle ?r ?a"
      have "Attempts ?f = [?a]" "Final ?f = Outcome ?a" "mr_ID ?f = m_ID (ms ! i)"
        using r by (simp_all add: confirm_def settle_def)
      then show ?thesis
        by (intro that [where r = ?f and p = False and x = Idle and hs = "[HookFinish i ?f]" and f = "failed s"])
          (use 3 in \<open>auto simp: conclude_def keep Let_def attempted_def final_timeout_def\<close>)
    qed
  qed
  have each: "mutant_inv ms (s\<lparr>results := (results s)[i := r], pending := (pending s)[i := p],
      next_index := next_index s, failed := f, workers := (workers s)[w := x], hooks := hooks s @ hs\<rparr>) j"
    if j: "j < length ms" for j
  proof (cases "j = i")
    case True
    have "\<not> held_by (s\<lparr>workers := (workers s)[w := x]\<rparr>) i"
      unfolding held_by_update [OF w [folded len(1)]] using x alone len(1) by auto
    then show ?thesis using True i att rid init len by (auto simp: mutant_inv_def held_by_def)
  next
    case False
    have held': "held_by (s\<lparr>workers := (workers s)[w := x]\<rparr>) j = held_by s j"
      unfolding held_by_update [OF w [folded len(1)]] held_by_split [OF w [folded len(1)], of j]
      using x run False by auto
    have "finishes hs j = []" using fin [of j] False by simp
    then show ?thesis
      by (intro mutant_inv_frame [OF sched_inv_lens(2) [OF inv j]])
        (use False f held' in \<open>auto simp: held_by_def\<close>)
  qed
  show ?thesis unfolding c
    by (rule sched_inv_workers [OF inv w]) (use x len each in auto)
qed

lemma step_inv:
  assumes "sched_step ms s l t" and inv: "sched_inv ms n s"
  shows "sched_inv ms n t"
  using assms(1)
proof cases
  case (Concludes w i a)
  then show ?thesis using conclude_inv [OF inv, of w i a] sched_inv_lens(1) [OF inv] by simp
next
  case (Cancelled w)
  then have w: "w < n" using sched_inv_lens(1) [OF inv] by simp
  have held: "held_by (s\<lparr>workers := (workers s)[w := Halted]\<rparr>) i = (held_by s i)" for i
    unfolding held_by_update [OF Cancelled(3)] held_by_split [OF Cancelled(3), of i] using Cancelled(4) by auto
  have "mutant_inv ms (s\<lparr>workers := (workers s)[w := Halted]\<rparr>) i" if "i < length ms" for i
    by (rule mutant_inv_frame [OF sched_inv_lens(2) [OF inv that]]) (use held [of i] in \<open>auto simp: held_by_def\<close>)
  then have "sched_inv ms n (s\<lparr>results := results s, pending := pending s, next_index := next_index s,
      failed := failed s, workers := (workers s)[w := Halted], hooks := hooks s\<rparr>)"
    using sched_inv_lens [OF inv] by (intro sched_inv_workers [OF inv w]) simp_all
  then show ?thesis using Cancelled by simp
next
  case (Exhausted w)
  then have w: "w < n" using sched_inv_lens(1) [OF inv] by simp
  have held: "held_by (s\<lparr>workers := (workers s)[w := Halted]\<rparr>) i = (held_by s i)" for i
    unfolding held_by_update [OF Exhausted(3)] held_by_split [OF Exhausted(3), of i] using Exhausted(4) by auto
  have "mutant_inv ms (s\<lparr>next_index := Suc (next_index s), workers := (workers s)[w := Halted]\<rparr>) i"
    if "i < length ms" for i
    by (rule mutant_inv_frame [OF sched_inv_lens(2) [OF inv that]]) (use held [of i] Exhausted(5) that in \<open>auto simp: held_by_def\<close>)
  then have "sched_inv ms n (s\<lparr>results := results s, pending := pending s, next_index := Suc (next_index s),
      failed := failed s, workers := (workers s)[w := Halted], hooks := hooks s\<rparr>)"
    using sched_inv_lens [OF inv] by (intro sched_inv_workers [OF inv w]) simp_all
  then show ?thesis using Exhausted by simp
next
  case (Takes w)
  then have w: "w < n" using sched_inv_lens(1) [OF inv] by simp
  have held: "held_by (s\<lparr>workers := (workers s)[w := Taken (next_index s)]\<rparr>) i = (held_by s i \<or> i = next_index s)" for i
    unfolding held_by_update [OF Takes(3)] held_by_split [OF Takes(3), of i] using Takes(4) by auto
  have "mutant_inv ms (s\<lparr>next_index := Suc (next_index s), workers := (workers s)[w := Taken (next_index s)]\<rparr>) i"
    if "i < length ms" for i
    by (rule mutant_inv_frame [OF sched_inv_lens(2) [OF inv that]]) (use held [of i] in \<open>auto simp: held_by_def\<close>)
  then have "sched_inv ms n (s\<lparr>results := results s, pending := pending s, next_index := Suc (next_index s),
      failed := failed s, workers := (workers s)[w := Taken (next_index s)], hooks := hooks s\<rparr>)"
    using sched_inv_lens [OF inv] Takes by (intro sched_inv_workers [OF inv w]) simp_all
  then show ?thesis using Takes by simp
next
  case (Begins w i)
  then have w: "w < n" using sched_inv_lens(1) [OF inv] by simp
  have i: "i < next_index s" "i < length ms" using sched_inv_held [OF inv w, of i] Begins by simp_all
  have held: "held_by (s\<lparr>workers := (workers s)[w := Running i]\<rparr>) j = (held_by s j)" for j
    unfolding held_by_update [OF Begins(3)] held_by_split [OF Begins(3), of j] using Begins(4) by auto
  have "mutant_inv ms (s\<lparr>workers := (workers s)[w := Running i], hooks := hooks s @ [HookStart i (int w)]\<rparr>) j"
    if "j < length ms" for j
    by (rule mutant_inv_frame [OF sched_inv_lens(2) [OF inv that]]) (use held [of j] in \<open>auto simp: held_by_def\<close>)
  then have "sched_inv ms n (s\<lparr>results := results s, pending := pending s, next_index := next_index s,
      failed := failed s, workers := (workers s)[w := Running i], hooks := hooks s @ [HookStart i (int w)]\<rparr>)"
    using sched_inv_lens [OF inv] i Begins by (intro sched_inv_workers [OF inv w]) simp_all
  then show ?thesis using Begins by simp
qed

lemma run_inv: "sched_run ms s ls t \<Longrightarrow> sched_inv ms n s \<Longrightarrow> sched_inv ms n t"
  by (induction rule: sched_run.induct) (auto intro: step_inv)


lemma run_start_inv: "sched_run ms (sched_start ms jobs) ls t \<Longrightarrow> sched_inv ms (worker_count jobs (length ms)) t"
  by (rule run_inv [OF _ sched_inv_start])

section \<open>The workers come to an end\<close>

definition weight :: "worker_state \<Rightarrow> nat" where
  "weight x = (case x of Idle \<Rightarrow> 1 | Taken i \<Rightarrow> 3 | Running i \<Rightarrow> 2 | Halted \<Rightarrow> 0)"

definition remaining :: "mutant_run list \<Rightarrow> sched \<Rightarrow> nat" where
  "remaining ms s = 3 * (length ms - next_index s) + sum_list (map weight (workers s))"

lemma sum_list_update_weight:
  "w < length xs \<Longrightarrow> sum_list (map weight (xs[w := x])) + weight (xs ! w) = sum_list (map weight xs) + weight x"
proof (induction xs arbitrary: w)
  case (Cons y ys)
  then show ?case by (cases w) auto
qed simp

lemma conclude_parts:
  "next_index (conclude ms s w i a) = next_index s \<and>
   (\<exists>x. (x = Idle \<or> x = Halted) \<and> workers (conclude ms s w i a) = (workers s)[w := x])"
  by (auto simp: conclude_def Let_def)

lemma remaining_worker:
  assumes "w < length (workers s)" and "workers t = (workers s)[w := x]"
    and "3 * (length ms - next_index t) + weight x < 3 * (length ms - next_index s) + weight (workers s ! w)"
  shows "remaining ms t < remaining ms s"
  using sum_list_update_weight [OF assms(1), of x] assms(2,3) by (simp add: remaining_def)

lemma step_remaining: "sched_step ms s l t \<Longrightarrow> remaining ms t < remaining ms s"
proof (induction rule: sched_step.cases)
  case (Cancelled w s)
  then show ?case by (intro remaining_worker [of w _ _ Halted]) (simp_all add: weight_def)
next
  case (Exhausted w s)
  then show ?case by (intro remaining_worker [of w _ _ Halted]) (simp_all add: weight_def)
next
  case (Takes w s)
  then show ?case by (intro remaining_worker [of w _ _ "Taken (next_index s)"]) (simp_all add: weight_def)
next
  case (Begins w s i)
  then show ?case by (intro remaining_worker [of w _ _ "Running i"]) (simp_all add: weight_def)
next
  case (Concludes w s i a)
  obtain x where x: "x = Idle \<or> x = Halted" "workers (conclude ms s w i a) = (workers s)[w := x]"
    "next_index (conclude ms s w i a) = next_index s" using conclude_parts by blast
  then have "weight x < weight (workers s ! w)" using Concludes by (auto simp: weight_def)
  with x Concludes show ?case by (intro remaining_worker [of w _ _ x]) simp_all
qed

text \<open>
  C10. The workers come to an end, whatever the order of their actions: a run of them has at most
  three steps for each mutant and one for each worker, and as long as one of them has not
  returned there is a next step, so that \<open>Schedule\<close> never waits for ever while its attempts
  return.
\<close>

theorem workers_terminate:
  assumes "sched_run ms (sched_start ms jobs) ls s"
  shows "length ls \<le> 3 * length ms + worker_count jobs (length ms)
    \<and> (all_halted s \<or> (\<exists>l t. sched_step ms s l t))"
proof
  have "length ls + remaining ms s \<le> remaining ms (sched_start ms jobs)"
    using assms
  proof (induction rule: sched_run.induct)
    case (Step s ls t l u)
    then show ?case using step_remaining [of ms t l u] by simp
  qed simp
  moreover have "remaining ms (sched_start ms jobs) = 3 * length ms + worker_count jobs (length ms)"
    by (simp add: remaining_def sched_start_def weight_def sum_list_replicate)
  ultimately show "length ls \<le> 3 * length ms + worker_count jobs (length ms)" by simp
  show "all_halted s \<or> (\<exists>l t. sched_step ms s l t)"
  proof (cases "all_halted s")
    case False
    then obtain w where w: "w < length (workers s)" "workers s ! w \<noteq> Halted"
      by (auto simp: all_halted_def list_all_length)
    then have "\<exists>l t. sched_step ms s l t"
      by (cases "workers s ! w") (auto intro: sched_step.intros)
    then show ?thesis by blast
  qed simp
qed

section \<open>What a result rests on\<close>

text \<open>What a second attempt makes of a timeout.\<close>

definition second_opinion :: "outcome \<Rightarrow> outcome" where
  "second_opinion c =
     (if c = OutcomeKilled \<or> c = OutcomeSurvived then OutcomeInconclusive
      else if outcome_valid c then c else OutcomeNotRun)"

definition justified :: "mutant_run \<Rightarrow> mutant_result \<Rightarrow> bool" where
  "justified m r \<longleftrightarrow> mr_ID r = m_ID m \<and>
     (case Attempts r of
        [] \<Rightarrow> Final r = OutcomeNotRun
      | [a] \<Rightarrow>
          if tree_failure a \<noteq> None \<or> Outcome a = OutcomeTimedOut \<and> \<not> final_timeout m a
          then Final r = OutcomeNotRun else Final r = Outcome a
      | [a, b] \<Rightarrow> tree_failure a = None \<and> Outcome a = OutcomeTimedOut \<and> \<not> final_timeout m a
          \<and> Final r = (if tree_failure b \<noteq> None then OutcomeNotRun else second_opinion (Outcome b))
      | _ \<Rightarrow> False)"

text \<open>The measurement of the mutant is complete.\<close>

definition concluded :: "mutant_run \<Rightarrow> mutant_result \<Rightarrow> bool" where
  "concluded m r \<longleftrightarrow> justified m r \<and>
     (case Attempts r of
        [] \<Rightarrow> False
      | [a] \<Rightarrow> tree_failure a = None \<and> \<not> (Outcome a = OutcomeTimedOut \<and> \<not> final_timeout m a)
      | a # b # _ \<Rightarrow> tree_failure b = None)"

definition retried :: "bool \<times> attempt \<Rightarrow> mutant_result \<Rightarrow> mutant_result" where
  "retried ans r =
     (if fst ans then r\<lparr>Final := OutcomeNotRun\<rparr>
      else confirm (record_attempt r ((snd ans)\<lparr>Worker := 0\<rparr>)) ((snd ans)\<lparr>Worker := 0\<rparr>))"

lemma confirm_Final: "Final r = OutcomeNotRun \<Longrightarrow> Final (confirm r a) = second_opinion (Outcome a)"
  by (auto simp: confirm_def settle_def second_opinion_def outcome_valid_def outcome_names_def outcome_defs)

lemma confirm_rest: "Attempts (confirm r a) = Attempts r" "mr_ID (confirm r a) = mr_ID r"
  by (simp_all add: confirm_def settle_def)

lemma outcome_codes: "outcome_valid c \<Longrightarrow> c \<in> set outcomes"
  by (auto simp: outcome_valid_def outcome_names_def outcomes_def split: if_splits option.splits)


text \<open>What the loop over the timeouts does to one mutant, when it ends by itself and otherwise.\<close>

definition retry_effect :: "bool \<times> attempt \<Rightarrow> mutant_result \<Rightarrow> mutant_result list \<Rightarrow> mutant_result \<Rightarrow> mutant_result list \<Rightarrow> bool" where
  "retry_effect ans r fin r' fin' \<longleftrightarrow> r' = retried ans r \<and> fin' = fin @ [r']
     \<and> (fst ans \<or> tree_failure ((snd ans)\<lparr>Worker := 0\<rparr>) = None)"

definition retry_break :: "bool \<times> attempt \<Rightarrow> mutant_result \<Rightarrow> mutant_result list \<Rightarrow> mutant_result \<Rightarrow> mutant_result list \<Rightarrow> bool" where
  "retry_break ans r fin r' fin' \<longleftrightarrow> fin' = fin \<and>
     (r' = r \<or> r' = record_attempt r ((snd ans)\<lparr>Worker := 0\<rparr>) \<and> tree_failure ((snd ans)\<lparr>Worker := 0\<rparr>) \<noteq> None)"

lemma retry_spec:
  assumes "retry answer is s u = (t, u', e)" and "distinct is" and "\<forall>i \<in> set is. i < length (results s)"
  shows "length (results t) = length (results s) \<and> (\<forall>i < length (results s).
    (if i \<notin> set is \<or> \<not> pending s ! i
     then results t ! i = results s ! i \<and> finishes (hooks t) i = finishes (hooks s) i
     else retry_effect (answer i) (results s ! i) (finishes (hooks s) i) (results t ! i) (finishes (hooks t) i)
       \<or> e \<noteq> None \<and> retry_break (answer i) (results s ! i) (finishes (hooks s) i) (results t ! i) (finishes (hooks t) i)))"
  using assms
proof (induction "is" arbitrary: s u)
  case Nil
  then show ?case by simp
next
  case (Cons i ks)
  obtain c a0 where ans: "answer i = (c, a0)" by (cases "answer i")
  let ?a = "a0\<lparr>Worker := 0\<rparr>"
  have i: "i < length (results s)" "i \<notin> set ks" "distinct ks" using Cons.prems by auto
  have go: ?case
    if s1: "s1 = s\<lparr>results := (results s)[i := r], hooks := hooks s @ hs\<rparr>" and r: "retry answer ks s1 u1 = (t, u', e)"
      and eff: "retry_effect (answer i) (results s ! i) (finishes (hooks s) i) r (finishes (hooks s) i @ finishes hs i)"
      and p: "pending s ! i" and hs: "\<And>j. j \<noteq> i \<Longrightarrow> finishes hs j = []" for s1 r hs u1
  proof -
    have lens: "length (results s1) = length (results s)" "pending s1 = pending s" using s1 by simp_all
    have small: "\<forall>i \<in> set ks. i < length (results s1)" using Cons.prems(3) lens by simp
    have IH: "length (results t) = length (results s) \<and> (\<forall>j < length (results s).
      (if j \<notin> set ks \<or> \<not> pending s ! j
       then results t ! j = results s1 ! j \<and> finishes (hooks t) j = finishes (hooks s1) j
       else retry_effect (answer j) (results s1 ! j) (finishes (hooks s1) j) (results t ! j) (finishes (hooks t) j)
         \<or> e \<noteq> None \<and> retry_break (answer j) (results s1 ! j) (finishes (hooks s1) j) (results t ! j) (finishes (hooks t) j)))"
      using Cons.IH [OF r i(3) small] unfolding lens .
    have same: "j \<noteq> i \<Longrightarrow> results s1 ! j = results s ! j \<and> finishes (hooks s1) j = finishes (hooks s) j"
      "results s1 ! i = r \<and> finishes (hooks s1) i = finishes (hooks s) i @ finishes hs i" for j
      using s1 hs [of j] i(1) by simp_all
    show ?thesis
    proof (intro conjI allI impI)
      show "length (results t) = length (results s)" using IH by blast
      fix j assume j: "j < length (results s)"
      show "if j \<notin> set (i # ks) \<or> \<not> pending s ! j
        then results t ! j = results s ! j \<and> finishes (hooks t) j = finishes (hooks s) j
        else retry_effect (answer j) (results s ! j) (finishes (hooks s) j) (results t ! j) (finishes (hooks t) j)
          \<or> e \<noteq> None \<and> retry_break (answer j) (results s ! j) (finishes (hooks s) j) (results t ! j) (finishes (hooks t) j)"
      proof (cases "j = i")
        case True
        then have "results t ! j = r" "finishes (hooks t) j = finishes (hooks s) i @ finishes hs i"
          using IH j i(2) same(2) by auto
        with True eff p show ?thesis by simp
      next
        case False
        note ih = mp [OF spec [OF conjunct2 [OF IH], of j] j]
        show ?thesis
          using ih False unfolding conjunct1 [OF same(1) [OF False]] conjunct2 [OF same(1) [OF False]] by simp
      qed
    qed
  qed
  consider "\<not> pending s ! i" | "pending s ! i" "c" | "pending s ! i" "\<not> c" "tree_failure ?a \<noteq> None"
    | "pending s ! i" "\<not> c" "tree_failure ?a = None" by blast
  then show ?case
  proof cases
    case 1
    then have "retry answer ks s u = (t, u', e)" using Cons.prems(1) by simp
    from Cons.IH [OF this i(3)] Cons.prems(3) 1 show ?thesis by auto
  next
    case 2
    let ?r = "(results s ! i)\<lparr>Final := OutcomeNotRun\<rparr>"
    show ?thesis
      by (rule go [where r = ?r and hs = "[HookFinish i ?r]" and ?u1.0 = True, OF refl])
        (use 2 ans Cons.prems(1) in \<open>auto simp: retry_effect_def retried_def Let_def\<close>)
  next
    case 3
    let ?r = "record_attempt (results s ! i) ?a"
    have t: "t = s\<lparr>results := (results s)[i := ?r], hooks := hooks s @ [HookStart i 0]\<rparr>" "e = tree_failure ?a"
      using 3 ans Cons.prems(1) by (simp_all add: Let_def)
    show ?thesis
      using 3 ans i t by (auto simp: retry_break_def nth_list_update)
  next
    case 4
    let ?r = "confirm (record_attempt (results s ! i) ?a) ?a"
    show ?thesis
      by (rule go [where r = ?r and hs = "[HookStart i 0, HookFinish i ?r]"
            and ?u1.0 = "u \<or> Outcome ?a = OutcomeNotRun", OF refl])
        (use 4 ans Cons.prems(1) in \<open>auto simp: retry_effect_def retried_def Let_def finishes_def\<close>)
  qed
qed


lemma attempted_justified:
  assumes "attempted m r held fin broken" and "mr_ID r = m_ID m"
  shows "justified m r"
  using assms by (auto simp: attempted_def justified_def split: if_splits)

lemma retry_effect_justified:
  assumes att: "attempted m r True fin broken" and id: "mr_ID r = m_ID m" and eff: "retry_effect ans r fin r' fin'"
  shows "justified m r'" and "fin' = [r']" and "\<not> fst ans \<Longrightarrow> concluded m r'"
proof -
  obtain a where a: "Attempts r = [a]" "tree_failure a = None" "Outcome a = OutcomeTimedOut"
    "\<not> final_timeout m a" "Final r = OutcomeNotRun" "fin = []"
    using att unfolding attempted_def by (auto split: if_splits)
  let ?b = "(snd ans)\<lparr>Worker := 0\<rparr>"
  have "Final (record_attempt r ?b) = OutcomeNotRun" using a(5) by (simp add: record_attempt_def)
  note final = confirm_Final [OF this, of ?b]
  have r': "r' = retried ans r" "fst ans \<or> tree_failure ?b = None" "fin' = [r']"
    using eff a(6) by (auto simp: retry_effect_def)
  have "Attempts (record_attempt r ?b) = [a, ?b]" "mr_ID (record_attempt r ?b) = m_ID m"
    using a(1) id by (simp_all add: record_attempt_def)
  then show "justified m r'" and "\<not> fst ans \<Longrightarrow> concluded m r'"
    using r' a final id
    by (auto simp: retried_def concluded_def justified_def confirm_rest)
  show "fin' = [r']" by (rule r'(3))
qed

lemma retry_break_justified:
  assumes "attempted m r True fin broken" and "mr_ID r = m_ID m" and "retry_break ans r fin r' fin'"
  shows "justified m r'"
proof -
  obtain a where a: "Attempts r = [a]" "tree_failure a = None" "Outcome a = OutcomeTimedOut"
    "\<not> final_timeout m a" "Final r = OutcomeNotRun"
    using assms(1) unfolding attempted_def by (auto split: if_splits)
  with assms(2,3) show ?thesis by (auto simp: retry_break_def justified_def record_attempt_def)
qed

text \<open>A state the workers have left, mutant by mutant.\<close>

lemma halted_mutant:
  assumes "sched_inv ms n s" and "all_halted s" and "i < length ms"
  shows "mr_ID (results s ! i) = m_ID (ms ! i)" and
    "if next_index s \<le> i then results s ! i = initial_result (ms ! i) \<and> \<not> pending s ! i \<and> finishes (hooks s) i = []
     else attempted (ms ! i) (results s ! i) (pending s ! i) (finishes (hooks s) i) (failed s \<noteq> None)"
proof -
  have "\<not> held_by s i" using assms(2) by (auto simp: held_by_def all_halted_def list_all_length)
  then show "mr_ID (results s ! i) = m_ID (ms ! i)"
    "if next_index s \<le> i then results s ! i = initial_result (ms ! i) \<and> \<not> pending s ! i \<and> finishes (hooks s) i = []
     else attempted (ms ! i) (results s ! i) (pending s ! i) (finishes (hooks s) i) (failed s \<noteq> None)"
    using sched_inv_lens(2) [OF assms(1,3)] unfolding mutant_inv_def by (auto split: if_splits)
qed

lemma initial_justified: "justified m (initial_result m)"
  by (simp add: justified_def initial_result_def)

lemma pending_attempted: "attempted m r held fin broken \<Longrightarrow> held \<Longrightarrow> attempted m r True fin broken"
  by simp

lemma finish_justified:
  assumes inv: "sched_inv ms n s" and halted: "all_halted s" and fin: "sched_finish answer cancelled s = (t, err)"
  shows "length (results t) = length ms \<and> (\<forall>i < length ms. justified (ms ! i) (results t ! i))"
proof (cases "failed s")
  case (Some e)
  then have "t = s" using fin by (simp add: sched_finish_def)
  then show ?thesis
    using sched_inv_lens(1) [OF inv] halted_mutant [OF inv halted] attempted_justified initial_justified
    by metis
next
  case None
  obtain t' u e where r: "retry answer [0..<length (results s)] s False = (t', u, e)"
    by (rule prod_cases3)
  have t: "t = t'" using fin None r by (auto simp: sched_finish_def split: option.splits if_splits)
  have lens: "length (results s) = length ms" using sched_inv_lens(1) [OF inv] by simp
  have small: "\<forall>i \<in> set [0..<length (results s)]. i < length (results s)" by simp
  note spec = retry_spec [OF r distinct_upt small, folded t, unfolded lens]
  have "justified (ms ! i) (results t ! i)" if i: "i < length ms" for i
  proof (cases "pending s ! i")
    case False
    then have "results t ! i = results s ! i" using spec i by auto
    then show ?thesis
      using halted_mutant [OF inv halted i] attempted_justified initial_justified by metis
  next
    case True
    have att: "attempted (ms ! i) (results s ! i) True (finishes (hooks s) i) (failed s \<noteq> None)"
      using halted_mutant(2) [OF inv halted i] True by (auto split: if_splits)
    have "retry_effect (answer i) (results s ! i) (finishes (hooks s) i) (results t ! i) (finishes (hooks t) i)
       \<or> retry_break (answer i) (results s ! i) (finishes (hooks s) i) (results t ! i) (finishes (hooks t) i)"
      using spec i True by auto
    then show ?thesis
      using retry_effect_justified(1) [OF att] retry_break_justified [OF att] halted_mutant(1) [OF inv halted i] by blast
  qed
  then show ?thesis using spec by simp
qed

text \<open>
  C8. Every result rests on its attempts, whatever the order in which the workers acted and
  whatever their attempts returned: a mutant has at most two attempts; a verdict other than not
  run comes from its only attempt, or, when that timed out without standing by itself, from the
  second one, which can confirm the timeout and can never turn it into a kill or a survival.
\<close>

theorem schedule_justified:
  assumes "schedule ms bins jobs rs err"
  shows "list_all2 justified ms rs"
  using assms
proof cases
  case (Runs ls s answer cancelled t)
  then show ?thesis
    using finish_justified [OF run_start_inv [OF Runs(4)] Runs(5,7)]
    by (simp add: list_all2_conv_all_nth)
qed (simp_all add: list_all2_conv_all_nth initial_justified)

lemma list_all_update: "list_all P xs \<Longrightarrow> P x \<Longrightarrow> list_all P (xs[w := x])"
  using set_update_subset_insert [of xs w x] by (auto simp: list_all_iff)

text \<open>Without an interruption a worker returns only when no mutant is left or a tree broke.\<close>

lemma run_uncancelled:
  assumes "sched_run ms s ks u" and "list_all (\<lambda>l. case l of Take w c \<Rightarrow> \<not> c | _ \<Rightarrow> True) ks"
    and "list_all (\<lambda>x. x \<noteq> Halted) (workers s)"
  shows "list_all (\<lambda>x. x \<noteq> Halted) (workers u) \<or> length ms \<le> next_index u \<or> failed u \<noteq> None"
  using assms
proof (induction rule: sched_run.induct)
  case (Done s)
  then show ?case by simp
next
  case (Step s ls t l u)
  then have IH: "list_all (\<lambda>x. x \<noteq> Halted) (workers t) \<or> length ms \<le> next_index t \<or> failed t \<noteq> None"
    by simp
  have c: "case l of Take w c \<Rightarrow> \<not> c | _ \<Rightarrow> True" using Step.prems(1) by simp
  show ?case using Step.hyps(2)
  proof cases
    case (Concludes w i a)
    show ?thesis unfolding Concludes(2)
      using IH by (auto simp: conclude_def Let_def intro: list_all_update)
  qed (use IH c in \<open>auto intro: list_all_update\<close>)
qed

lemma start_not_halted: "list_all (\<lambda>x. x \<noteq> Halted) (workers (sched_start ms jobs))"
  by (simp add: sched_start_def list_all_length)

text \<open>
  C9. No mutant is lost: when \<open>Schedule\<close> returns without an error, every mutant was attempted,
  every timeout that does not stand by itself was attempted a second time, and the hook
  \<open>Finished\<close> was called for it exactly once, with the result that is returned.
\<close>

theorem sched_complete:
  assumes "sched_run ms (sched_start ms jobs) ls s" and "all_halted s" and "context_ok ls answer (length ms) cancelled"
    and "0 < length ms" and "sched_finish answer cancelled s = (t, None)"
  shows "list_all2 concluded ms (results t) \<and> list_all (\<lambda>i. finishes (hooks t) i = [results t ! i]) [0..<length ms]"
proof -
  note inv = run_start_inv [OF assms(1)]
  have f: "failed s = None" and c: "\<not> cancelled"
    using assms(5) by (auto simp: sched_finish_def split: option.splits prod.splits if_splits)
  obtain t' u e where r: "retry answer [0..<length (results s)] s False = (t', u, e)"
    by (rule prod_cases3)
  have t: "t = t'" "e = None"
    using assms(5) f r by (auto simp: sched_finish_def split: option.splits if_splits)
  have lens: "length (results s) = length ms" using sched_inv_lens(1) [OF inv] by simp
  have small: "\<forall>i \<in> set [0..<length (results s)]. i < length (results s)" by simp
  note spec = retry_spec [OF r distinct_upt small, folded t(1), unfolded lens t(2)]
  have nocancel: "list_all (\<lambda>l. case l of Take w c \<Rightarrow> \<not> c | _ \<Rightarrow> True) ls" "i < length ms \<Longrightarrow> \<not> fst (answer i)" for i
    using assms(3) c by (auto simp: context_ok_def list_all_iff)
  from run_uncancelled [OF assms(1) nocancel(1) start_not_halted] have "length ms \<le> next_index s"
  proof (elim disjE)
    assume "list_all (\<lambda>x. x \<noteq> Halted) (workers s)"
    moreover have "0 < length (workers s)"
      using sched_inv_lens(1) [OF inv] assms(4) by (simp add: worker_count_def)
    ultimately show ?thesis using assms(2) by (cases "workers s") (simp_all add: all_halted_def)
  qed (use f in simp_all)
  have each: "concluded (ms ! i) (results t ! i) \<and> finishes (hooks t) i = [results t ! i]" if i: "i < length ms" for i
  proof -
    have att: "attempted (ms ! i) (results s ! i) (pending s ! i) (finishes (hooks s) i) False"
      using halted_mutant(2) [OF inv assms(2) i] f i \<open>length ms \<le> next_index s\<close> by auto
    note ID = halted_mutant(1) [OF inv assms(2) i]
    show ?thesis
    proof (cases "pending s ! i")
      case False
      then have same: "results t ! i = results s ! i" "finishes (hooks t) i = finishes (hooks s) i" using spec i by auto
      have "justified (ms ! i) (results s ! i)" by (rule attempted_justified [OF att ID])
      then show ?thesis
        using att False unfolding same by (auto simp: attempted_def concluded_def split: if_splits)
    next
      case True
      have eff: "retry_effect (answer i) (results s ! i) (finishes (hooks s) i) (results t ! i) (finishes (hooks t) i)"
        using spec i True by auto
      show ?thesis
        using retry_effect_justified(2,3) [OF pending_attempted [OF att True] ID eff] nocancel(2) [OF i] by blast
    qed
  qed
  then show ?thesis using spec by (simp add: list_all2_conv_all_nth list_all_length)
qed


section \<open>A run with a confirmed timeout\<close>

definition sample_mutant :: mutant_run where
  "sample_mutant = \<lparr>m_ID = ''m1'', m_Package = ''p'', m_Timeout = 10, NeverReturns = False, m_MemoryLimit = 0,
     m_Binaries = None, m_Tests = [], m_Args = [], m_OutputLimit = 0, m_RecordTestLog = False\<rparr>"

definition sample_timeout :: attempt where
  "sample_timeout = blank_attempt\<lparr>Outcome := OutcomeTimedOut, KilledBy := ''p'', Binaries := [''p'']\<rparr>"

definition sample_actions :: "action list" where
  "sample_actions = [Take 0 False, Begin 0, Conclude 0 sample_timeout, Take 0 False]"

definition sample_end :: sched where
  "sample_end = \<lparr>results = [(initial_result sample_mutant)\<lparr>Attempts := [sample_timeout]\<rparr>], pending = [True],
     next_index = Suc (Suc 0), failed = None, workers = [Halted], hooks = [HookStart 0 0]\<rparr>"

lemma sample_timeout_fields: "tree_failure sample_timeout = None" "Outcome sample_timeout = OutcomeTimedOut"
  "sample_timeout\<lparr>Worker := 0\<rparr> = sample_timeout" "Duration sample_timeout = 0" "\<not> Diverged sample_timeout"
  by (simp_all add: sample_timeout_def blank_attempt_def tree_failure_def)

lemma sample_run: "sched_run [sample_mutant] (sched_start [sample_mutant] 1) sample_actions sample_end"
proof -
  let ?s0 = "sched_start [sample_mutant] 1"
  let ?s1 = "?s0\<lparr>next_index := 1, workers := [Taken 0]\<rparr>"
  let ?s2 = "?s1\<lparr>workers := [Running 0], hooks := [HookStart 0 0]\<rparr>"
  let ?s3 = "conclude [sample_mutant] ?s2 0 0 sample_timeout"
  have s0: "workers ?s0 = [Idle]" "next_index ?s0 = 0" "hooks ?s0 = []"
    "results ?s0 = [initial_result sample_mutant]" "pending ?s0 = [False]" "failed ?s0 = None"
    by (simp_all add: sched_start_def worker_count_def)
  have s3: "?s3 = sample_end\<lparr>next_index := 1, workers := [Idle]\<rparr>"
    using sample_timeout_fields
    by (simp add: conclude_def sample_end_def s0 record_attempt_def initial_result_def sample_mutant_def)
      (simp add: sched_start_def worker_count_def initial_result_def wrap64_def sample_mutant_def)
  have 1: "sched_step [sample_mutant] ?s0 (Take 0 False) ?s1"
    using sched_step.Takes [of 0 ?s0 "[sample_mutant]"] by (simp add: s0)
  have 2: "sched_step [sample_mutant] ?s1 (Begin 0) ?s2"
    using sched_step.Begins [of 0 ?s1 0] by (simp add: s0)
  have 3: "sched_step [sample_mutant] ?s2 (Conclude 0 sample_timeout) ?s3"
    by (rule sched_step.Concludes) simp_all
  have 4: "sched_step [sample_mutant] ?s3 (Take 0 False) sample_end"
    using sched_step.Exhausted [of 0 ?s3 "[sample_mutant]"] unfolding s3 by (simp add: sample_end_def)
  show ?thesis
    using sched_run.Step [OF sched_run.Step [OF sched_run.Step [OF sched_run.Step [OF sched_run.Done 1] 2] 3] 4]
    by (simp add: sample_actions_def)
qed

definition sample_answer :: answers where "sample_answer i = (False, sample_timeout)"

definition sample_result :: mutant_result where
  "sample_result = (initial_result sample_mutant)\<lparr>Attempts := [sample_timeout, sample_timeout],
     Final := OutcomeTimedOut, mr_KilledBy := ''p''\<rparr>"

lemma sample_finish:
  "sched_finish sample_answer False sample_end =
     (sample_end\<lparr>results := [sample_result], hooks := [HookStart 0 0, HookStart 0 0, HookFinish 0 sample_result]\<rparr>, None)"
  using sample_timeout_fields
  by (simp add: sched_finish_def sample_end_def sample_answer_def record_attempt_def confirm_def Let_def)
    (simp add: sample_result_def initial_result_def sample_timeout_def blank_attempt_def wrap64_def sample_mutant_def)

lemma sample_halted: "all_halted sample_end" and sample_context: "context_ok sample_actions sample_answer (Suc 0) False"
  by (simp_all add: all_halted_def sample_end_def context_ok_def sample_actions_def sample_answer_def)

theorem workers_terminate_witness:
  "length sample_actions \<le> 3 * length [sample_mutant] + worker_count 1 (length [sample_mutant])
   \<and> (all_halted sample_end \<or> (\<exists>l t. sched_step [sample_mutant] sample_end l t))"
  by (rule workers_terminate [OF sample_run])

theorem schedule_justified_witness: "list_all2 justified [sample_mutant] [sample_result]"
proof -
  have "schedule [sample_mutant] [\<lparr>b_ImportPath = ''p'', b_Dir = [], BinPath = []\<rparr>] 1
      (results (sample_end\<lparr>results := [sample_result], hooks := [HookStart 0 0, HookStart 0 0, HookFinish 0 sample_result]\<rparr>)) None"
    using sample_context
    by (intro schedule.Runs [OF _ _ sample_run sample_halted _ sample_finish]) simp_all
  from schedule_justified [OF this] show ?thesis by simp
qed

theorem sched_complete_witness:
  "list_all2 concluded [sample_mutant] [sample_result]
   \<and> list_all (\<lambda>i. finishes [HookStart 0 0, HookStart 0 0, HookFinish 0 sample_result] i = [[sample_result] ! i])
       [0..<length [sample_mutant]]"
proof -
  have "context_ok sample_actions sample_answer (length [sample_mutant]) False" using sample_context by simp
  from sched_complete [OF sample_run sample_halted this _ sample_finish] show ?thesis by simp
qed

end
