(* ===== verification/Control.thy ===== *)
theory Control
  imports RunMutant
begin

text \<open>
  A control run (\<open>internal/execute/control.go\<close>): the original program in the selected test
  binaries, without a mutant. Its requests are checked as those of a mutant are, and an attempt
  that fails keeps what was started beside its error.
\<close>

record control_run =
  c_Timeout :: int
  c_MemoryLimit :: int
  c_Binaries :: "int list option"
  c_Tests :: "(string \<times> string list) list"
  c_Args :: "string list"
  c_OutputLimit :: int
  c_RecordTestLog :: bool

record control_attempt =
  ca_Package :: string
  ca_ExitCode :: int
  ca_TimedOut :: bool
  ca_Duration :: int
  ca_Output :: string
  ca_OutputBytes :: int
  ca_Truncated :: bool
  ca_PeakMemory :: int
  ca_MemoryExceeded :: bool
  ca_Binaries :: "string list"
  ca_ExecSeqs :: "int list"
  ca_TestLogs :: "test_log list"
  ca_Err :: "exec_error option"

definition blank_control :: control_attempt where
  "blank_control = \<lparr>ca_Package = [], ca_ExitCode = 0, ca_TimedOut = False, ca_Duration = 0, ca_Output = [],
     ca_OutputBytes = 0, ca_Truncated = False, ca_PeakMemory = 0, ca_MemoryExceeded = False,
     ca_Binaries = [], ca_ExecSeqs = [], ca_TestLogs = [], ca_Err = None\<rparr>"

definition control_errored :: "exec_error \<Rightarrow> control_attempt" where
  "control_errored err = blank_control\<lparr>ca_Err := Some err\<rparr>"

definition control_failed :: "control_attempt \<Rightarrow> exec_error \<Rightarrow> control_attempt" where
  "control_failed a err =
     blank_control\<lparr>ca_Binaries := ca_Binaries a, ca_ExecSeqs := ca_ExecSeqs a, ca_TestLogs := ca_TestLogs a,
       ca_Err := Some err\<rparr>"

definition control_keep :: "control_attempt \<Rightarrow> run_result \<Rightarrow> control_attempt" where
  "control_keep a r = a\<lparr>ca_Output := r_Output r, ca_OutputBytes := r_OutputBytes r, ca_Truncated := r_Truncated r\<rparr>"

definition control_interrupted :: "string \<Rightarrow> invocation option \<Rightarrow> exec_error" where
  "control_interrupted pkg command = \<lparr>Code = CodeInterrupted, e_Output = [], Invocation = command, e_Package = pkg\<rparr>"

definition validate_control_args :: "control_run \<Rightarrow> exec_error option" where
  "validate_control_args c =
     (if overrides_timeout (c_Args c) then Some (plain_error CodeControlInvalid)
      else if c_Tests c \<noteq> [] \<and> supplies_test_run (c_Args c) then Some (plain_error CodeControlInvalid)
      else if c_RecordTestLog c \<and> supplies_test_log (c_Args c) then Some (plain_error CodeControlInvalid)
      else None)"

definition select_control_binaries :: "control_run \<Rightarrow> test_binary list \<Rightarrow> exec_error + test_binary list" where
  "select_control_binaries c bins = select_subset (c_Binaries c) bins CodeControlInvalid"

definition check_control :: "control_run \<Rightarrow> test_binary list \<Rightarrow> exec_error + test_binary list" where
  "check_control c bins =
     (if c_Timeout c \<le> 0 then Inl (plain_error CodeControlInvalid)
      else if length bins = 0 then Inl (plain_error CodeControlInvalid)
      else
        (case validate_control_args c of
           Some err \<Rightarrow> Inl err
         | None \<Rightarrow>
             (case select_control_binaries c bins of
                Inl err \<Rightarrow> Inl err
              | Inr selected \<Rightarrow>
                  (case validate_test_selection (c_Tests c) selected CodeControlInvalid of
                     Some err \<Rightarrow> Inl err
                   | None \<Rightarrow> Inr selected))))"

text \<open>What a result makes of the attempt; None when the loop goes on.\<close>

definition judge_control ::
  "test_binary \<Rightarrow> run_spec \<Rightarrow> run_result \<Rightarrow> string \<Rightarrow> test_log option \<Rightarrow> control_attempt \<Rightarrow> control_attempt option" where
  "judge_control bin spec r logPath rec a =
     (if r_Err r \<noteq> None then
        Some (control_failed a \<lparr>Code = CodeControlStart, e_Output = output_tail (r_Output r),
          Invocation = Some (command_of spec r), e_Package = b_ImportPath bin\<rparr>)
      else if r_TimedOut r then
        Some (control_keep (a\<lparr>ca_TimedOut := True, ca_Package := b_ImportPath bin\<rparr>) r)
      else if r_MemoryExceeded r then
        Some (control_keep (a\<lparr>ca_MemoryExceeded := True, ca_Package := b_ImportPath bin\<rparr>) r)
      else if ExitCode r = ExitCodeUnavailable then
        Some (control_failed a (control_interrupted (b_ImportPath bin) (Some (command_of spec r))))
      else if test_log_unsupported logPath r rec then
        Some (control_failed a (test_log_unsupported_error bin spec r))
      else if ExitCode r \<noteq> 0 then
        Some (control_keep (a\<lparr>ca_Package := b_ImportPath bin\<rparr>) r)
      else None)"

definition account_control :: "test_binary \<Rightarrow> run_result \<Rightarrow> control_attempt \<Rightarrow> control_attempt" where
  "account_control bin r a =
     a\<lparr>ca_Duration := wrap64 (ca_Duration a + r_Duration r), ca_PeakMemory := max (ca_PeakMemory a) (r_PeakMemory r),
       ca_ExitCode := ExitCode r, ca_Binaries := ca_Binaries a @ [b_ImportPath bin],
       ca_ExecSeqs := (if TraceSeq r \<noteq> 0 then ca_ExecSeqs a @ [TraceSeq r] else ca_ExecSeqs a)\<rparr>"

definition zero_result :: run_result where
  "zero_result = \<lparr>ExitCode = 0, r_TimedOut = False, r_MemoryExceeded = False, r_PeakMemory = 0, r_Duration = 0,
     r_Output = [], r_OutputBytes = 0, r_Truncated = False, r_Err = None, TraceSeq = 0\<rparr>"

fun control_binaries ::
  "'w world \<Rightarrow> 'w options \<Rightarrow> control_run \<Rightarrow> string list \<Rightarrow> log_plan \<Rightarrow> nat \<Rightarrow> test_binary list \<Rightarrow> run_result
    \<Rightarrow> control_attempt \<Rightarrow> 'w \<Rightarrow> control_attempt \<times> 'w" where
  "control_binaries W opts c env logs i [] latest a w = (control_keep a latest, w)"
| "control_binaries W opts c env logs i (bin # bins) latest a w =
     (case ctx_err W w of
        (True, w) \<Rightarrow> (control_failed a (control_interrupted [] None), w)
      | (False, w) \<Rightarrow>
          (let logPath = plan_path logs i in
           case start_target W opts ''control-run'' (b_ImportPath bin) bin env (c_Timeout c) (c_MemoryLimit c)
                  (c_Args c) (tests_of (c_Tests c) (b_ImportPath bin)) logPath (c_OutputLimit c) True w of
             (spec, r, w) \<Rightarrow>
               (let a = account_control bin r a in
                case (if plan_record logs
                      then (case plan_read W logs bin logPath r w of
                              (rec, w) \<Rightarrow> (Some rec, a\<lparr>ca_TestLogs := ca_TestLogs a @ [rec]\<rparr>, w))
                      else (None, a, w)) of
                  (rec, a, w) \<Rightarrow>
                    (case judge_control bin spec r logPath rec a of
                       Some a \<Rightarrow> (a, w)
                     | None \<Rightarrow> control_binaries W opts c env logs (Suc i) bins r a w))))"

definition run_control :: "'w world \<Rightarrow> 'w options \<Rightarrow> control_run \<Rightarrow> test_binary list \<Rightarrow> 'w \<Rightarrow> control_attempt \<times> 'w" where
  "run_control W opts c bins w =
     (case check_control c bins of
        Inl err \<Rightarrow> (control_errored err, w)
      | Inr selected \<Rightarrow>
          (case worker_scratch W (ScratchDir opts) w of
             (Inl err, w) \<Rightarrow> (control_errored err, w)
           | (Inr scratch, w) \<Rightarrow>
               (case plan_test_log W (c_RecordTestLog c) scratch (c_Args c) w of
                  (logs, w) \<Rightarrow>
                    control_binaries W opts c (control_env_from (environ W) (o_Env opts) scratch) logs 0 selected
                      zero_result blank_control w)))"

section \<open>What a passing control rests on\<close>

definition control_passed :: "control_attempt \<Rightarrow> bool" where
  "control_passed a \<longleftrightarrow> ca_Err a = None \<and> \<not> ca_TimedOut a \<and> \<not> ca_MemoryExceeded a \<and> ca_ExitCode a = 0"

text \<open>The result is one the world delivered for the binary, with the control's time, arguments and tests.\<close>

definition control_ran :: "'w world \<Rightarrow> control_run \<Rightarrow> string list \<Rightarrow> test_binary \<Rightarrow> run_result \<Rightarrow> bool" where
  "control_ran W c env bin r \<longleftrightarrow> (\<exists>spec w1 w2 path. run_process W spec w1 = (r, w2) \<and> Env spec = env
     \<and> s_Timeout spec = c_Timeout c
     \<and> Argv spec = target_argv bin (c_Timeout c) (c_Args c) (tests_of (c_Tests c) (b_ImportPath bin)) path True)"

lemma control_start_ran:
  assumes "start_target W opts k sub bin env (c_Timeout c) mem (c_Args c)
      (tests_of (c_Tests c) (b_ImportPath bin)) path limit True w = (spec, r, w')"
  shows "control_ran W c env bin r"
proof -
  obtain dir w1 where dir: "working_dir W opts bin w = (dir, w1)" by (cases "working_dir W opts bin w")
  let ?s = "\<lparr>Argv = target_argv bin (c_Timeout c) (c_Args c) (tests_of (c_Tests c) (b_ImportPath bin)) path True,
    Dir = dir, Env = env, s_Timeout = c_Timeout c, s_MemoryLimit = mem, s_OutputLimit = limit,
    Kind = k, Subject = sub\<rparr>"
  obtain w2 where "run_process W ?s w1 = (r, w2)"
    using assms dir by (cases "run_process W ?s w1") (simp add: start_target_def)
  then show ?thesis unfolding control_ran_def by (intro exI [of _ ?s] exI) auto
qed

lemma judge_control_None: "judge_control bin spec r path rec a = None \<Longrightarrow> clean r"
  by (auto simp: judge_control_def clean_def split: if_splits)

lemma judge_control_Some:
  assumes "judge_control bin spec r path rec a = Some a'" and "ca_ExitCode a = ExitCode r"
  shows "\<not> control_passed a'" and "ca_Binaries a' = ca_Binaries a"
  using assms
  by (auto simp: judge_control_def control_passed_def control_failed_def control_keep_def split: if_splits)

lemma control_binaries_passed:
  assumes "ca_Err a = None" and "\<not> ca_TimedOut a" and "\<not> ca_MemoryExceeded a" and "ca_ExitCode a = 0"
  shows "\<exists>n \<le> length bins. \<exists>rs.
    ca_Binaries (fst (control_binaries W opts c env logs i bins latest a w)) = ca_Binaries a @ map b_ImportPath (take n bins)
    \<and> (control_passed (fst (control_binaries W opts c env logs i bins latest a w))
        = (n = length bins \<and> list_all2 (control_ran W c env) bins rs \<and> list_all clean rs))"
  using assms
proof (induction bins arbitrary: i latest a w)
  case Nil
  then show ?case
    by (intro exI [of _ 0] conjI exI [of _ "[]"]) (simp_all add: control_keep_def control_passed_def)
next
  case (Cons bin bins)
  let ?path = "plan_path logs i" and ?tests = "tests_of (c_Tests c) (b_ImportPath bin)"
  obtain d w1 where d: "ctx_err W w = (d, w1)" by (cases "ctx_err W w")
  show ?case
  proof (cases d)
    case True
    then show ?thesis using d
      by (intro exI [of _ 0]) (auto simp: control_failed_def control_passed_def)
  next
    case False
    obtain spec r w2 where st: "start_target W opts ''control-run'' (b_ImportPath bin) bin env (c_Timeout c)
        (c_MemoryLimit c) (c_Args c) ?tests ?path (c_OutputLimit c) True w1 = (spec, r, w2)"
      by (rule prod_cases3)
    let ?b = "account_control bin r a"
    obtain rec b w3 where logged: "(if plan_record logs
          then (case plan_read W logs bin ?path r w2 of (rec, w) \<Rightarrow> (Some rec, ?b\<lparr>ca_TestLogs := ca_TestLogs ?b @ [rec]\<rparr>, w))
          else (None, ?b, w2)) = (rec, b, w3)"
      by (rule prod_cases3)
    then have b: "ca_Err b = None" "\<not> ca_TimedOut b" "\<not> ca_MemoryExceeded b" "ca_ExitCode b = ExitCode r"
      "ca_Binaries b = ca_Binaries a @ [b_ImportPath bin]"
      using Cons.prems by (auto simp: account_control_def split: if_splits prod.splits)
    have step: "control_binaries W opts c env logs i (bin # bins) latest a w
        = (case judge_control bin spec r ?path rec b of
             Some a \<Rightarrow> (a, w3) | None \<Rightarrow> control_binaries W opts c env logs (Suc i) bins r b w3)"
      using d False by (simp only: control_binaries.simps prod.case bool.case Let_def st logged)
    show ?thesis
    proof (cases "judge_control bin spec r ?path rec b")
      case None
      have r: "clean r" "control_ran W c env bin r"
        using judge_control_None [OF None] control_start_ran [OF st] .
      then have "ca_ExitCode b = 0" using b(4) by (simp add: clean_def)
      then obtain n rs where n: "n \<le> length bins"
        "ca_Binaries (fst (control_binaries W opts c env logs (Suc i) bins r b w3)) = ca_Binaries b @ map b_ImportPath (take n bins)"
        "control_passed (fst (control_binaries W opts c env logs (Suc i) bins r b w3))
          = (n = length bins \<and> list_all2 (control_ran W c env) bins rs \<and> list_all clean rs)"
        using Cons.IH [OF b(1,2,3), of "Suc i" r w3] by blast
      with None b(5) r show ?thesis
        unfolding step by (intro exI [of _ "Suc n"] conjI exI [of _ "r # rs"]) simp_all
    next
      case (Some a')
      then show ?thesis
        using judge_control_Some [OF Some b(4)] b(5) unfolding step
        by (intro exI [of _ 1] conjI exI [of _ "[]"]) auto
    qed
  qed
qed

text \<open>
  C37. A passing control is evidence. When a control run passes, the request was valid and every
  selected test binary, of which there is at least one, was started with the control's time and
  arguments and in an environment without any variable of the tool, and exited with code 0
  within its time and memory.
\<close>

theorem run_control_passed:
  "case check_control c bins of
      Inl err \<Rightarrow> run_control W opts c bins w = (control_errored err, w)
    | Inr sel \<Rightarrow>
        (if control_passed (fst (run_control W opts c bins w))
         then \<exists>rs scratch. sel \<noteq> [] \<and> list_all clean rs
           \<and> list_all2 (control_ran W c (control_env_from (environ W) (o_Env opts) scratch)) sel rs
           \<and> filter owned (control_env_from (environ W) (o_Env opts) scratch) = []
           \<and> ca_Binaries (fst (run_control W opts c bins w)) = map b_ImportPath sel
         else True)"
proof (cases "check_control c bins")
  case (Inl err)
  then show ?thesis by (simp add: run_control_def)
next
  case (Inr sel)
  have "bins \<noteq> []" "select_control_binaries c bins = Inr sel"
    using Inr by (auto simp: check_control_def split: if_splits option.splits sum.splits)
  then have ne: "sel \<noteq> []"
    using select_indexes_ok [of bins _ CodeControlInvalid sel]
    by (auto simp: select_control_binaries_def select_subset_def split: option.splits if_splits)
  have own: "filter owned (control_env_from (environ W) (o_Env opts) scratch) = []" for scratch
  proof -
    have "\<not> owned (k @ ''='' @ scratch)" if "k \<in> set tempKeys" for k using temp_entries(1) [OF that] .
    then show ?thesis
      unfolding control_env_from_def base_env_from_def
      by (auto simp: filter_empty_conv owned_def)
  qed
  obtain x w1 where sc: "worker_scratch W (ScratchDir opts) w = (x, w1)" by (cases "worker_scratch W (ScratchDir opts) w")
  show ?thesis
  proof (cases x)
    case (Inl err)
    then show ?thesis using Inr sc by (simp add: run_control_def control_errored_def control_passed_def)
  next
    case (Inr scratch)
    obtain logs w2 where lg: "plan_test_log W (c_RecordTestLog c) scratch (c_Args c) w1 = (logs, w2)"
      by (cases "plan_test_log W (c_RecordTestLog c) scratch (c_Args c) w1")
    let ?env = "control_env_from (environ W) (o_Env opts) scratch"
    have run: "run_control W opts c bins w = control_binaries W opts c ?env logs 0 sel zero_result blank_control w2"
      using \<open>check_control c bins = Inr sel\<close> sc Inr lg by (simp add: run_control_def)
    obtain n rs where "ca_Binaries (fst (run_control W opts c bins w)) = map b_ImportPath (take n sel)"
      "control_passed (fst (run_control W opts c bins w))
        = (n = length sel \<and> list_all2 (control_ran W c ?env) sel rs \<and> list_all clean rs)"
      using control_binaries_passed [of blank_control sel W opts c ?env logs 0 zero_result w2]
      unfolding run by (auto simp: blank_control_def)
    then have "if control_passed (fst (run_control W opts c bins w))
        then \<exists>rs scratch. sel \<noteq> [] \<and> list_all clean rs
          \<and> list_all2 (control_ran W c (control_env_from (environ W) (o_Env opts) scratch)) sel rs
          \<and> filter owned (control_env_from (environ W) (o_Env opts) scratch) = []
          \<and> ca_Binaries (fst (run_control W opts c bins w)) = map b_ImportPath sel else True"
      using ne own by auto
    then show ?thesis using \<open>check_control c bins = Inr sel\<close> by simp
  qed
qed

end
