(* ===== verification/Bisect.thy ===== *)
theory Bisect
  imports Main "HOL-Library.Multiset" "HOL-Library.Sublist"
begin

text \<open>
  The search for the mutants that do not compile (\<open>internal/validate/bisect.go\<close>): a probe
  builds a set of mutants together and says whether the build failed. The probe is a parameter;
  it threads a state and can break off with an error.
\<close>

definition linearThreshold :: nat where "linearThreshold = 4"

record 'o verdict =
  failed :: bool
  build_output :: 'o

type_synonym ('s, 'm, 'o, 'e) probe = "'s \<Rightarrow> 'm list \<Rightarrow> ('e + 'o verdict) \<times> 's"

text \<open>A condemned mutant, with the output of the build that condemned it.\<close>

type_synonym ('m, 'o) condemned = "'m \<times> 'o"

fun incremental ::
  "('s, 'm, 'o, 'e) probe \<Rightarrow> 'm list \<Rightarrow> ('m, 'o) condemned list \<Rightarrow> 'm list \<Rightarrow> 's
    \<Rightarrow> ('e + 'm list \<times> ('m, 'o) condemned list) \<times> 's" where
  "incremental p accepted rejected [] s = (Inr (accepted, rejected), s)"
| "incremental p accepted rejected (c # cs) s =
     (case p s (accepted @ [c]) of
        (Inl err, s) \<Rightarrow> (Inl err, s)
      | (Inr v, s) \<Rightarrow>
          if failed v then incremental p accepted (rejected @ [(c, build_output v)]) cs s
          else incremental p (accepted @ [c]) rejected cs s)"

function isolate ::
  "('s, 'm, 'o, 'e) probe \<Rightarrow> 'm list \<Rightarrow> 's \<Rightarrow> ('e + 'm list \<times> ('m, 'o) condemned list) \<times> 's" where
  "isolate p cands s =
     (if cands = [] then (Inr ([], []), s)
      else
        (case p s cands of
           (Inl err, s) \<Rightarrow> (Inl err, s)
         | (Inr v, s) \<Rightarrow>
             if \<not> failed v then (Inr (cands, []), s)
             else if length cands \<le> linearThreshold then incremental p [] [] cands s
             else
               (let mid = length cands div 2 in
                case isolate p (take mid cands) s of
                  (Inl err, s) \<Rightarrow> (Inl err, s)
                | (Inr (acceptedLeft, rejectedLeft), s) \<Rightarrow>
                    (case isolate p (drop mid cands) s of
                       (Inl err, s) \<Rightarrow> (Inl err, s)
                     | (Inr (acceptedRight, rejectedRight), s) \<Rightarrow>
                         (let rejected = rejectedLeft @ rejectedRight; joined = acceptedLeft @ acceptedRight in
                          if joined = [] \<or> acceptedLeft = [] \<or> acceptedRight = [] then (Inr (joined, rejected), s)
                          else
                            (case p s joined of
                               (Inl err, s) \<Rightarrow> (Inl err, s)
                             | (Inr v, s) \<Rightarrow>
                                 if \<not> failed v then (Inr (joined, rejected), s)
                                 else
                                   (case incremental p [] [] joined s of
                                      (Inl err, s) \<Rightarrow> (Inl err, s)
                                    | (Inr (accepted, interacting), s) \<Rightarrow>
                                        (Inr (accepted, rejected @ interacting), s))))))))"
  by pat_completeness auto
termination
  by (relation "measure (\<lambda>(p, cands, s). length cands)") (auto simp: linearThreshold_def)

declare isolate.simps [simp del]

lemma isolate_Nil [simp]: "isolate p [] s = (Inr ([], []), s)"
  by (simp add: isolate.simps)

section \<open>Nothing is lost\<close>

lemma incremental_mset:
  "incremental p acc rej cs s = (Inr (a, r), s') \<Longrightarrow>
   mset a + mset (map fst r) = mset acc + mset (map fst rej) + mset cs"
  by (induction cs arbitrary: acc rej s) (auto split: prod.splits sum.splits if_splits)

lemma incremental_subseq:
  "incremental p acc rej cs s = (Inr (a, r), s') \<Longrightarrow> \<exists>b. a = acc @ b \<and> subseq b cs"
proof (induction cs arbitrary: acc rej s)
  case (Cons c cs)
  then show ?case
    by (fastforce split: prod.splits sum.splits if_splits)
qed simp

text \<open>
  Isolating loses no mutant and invents none: whatever the probe answers, when the search
  ends without an error every candidate was either accepted or condemned, as often as it was
  given, and the accepted ones stand in their order.
\<close>

theorem isolate_partition:
  "case isolate p cands s of (Inl err, s') \<Rightarrow> True
   | (Inr (accepted, rejected), s') \<Rightarrow>
       mset accepted + mset (map fst rejected) = mset cands \<and> subseq accepted cands"
proof (induction p cands s rule: isolate.induct)
  case (1 p cands s)
  have inc: "mset a + mset (map fst r) = mset cs \<and> subseq a cs"
    if "incremental p [] [] cs s = (Inr (a, r), s')" for a r cs s s'
    using incremental_mset [OF that] incremental_subseq [OF that] by simp
  show ?case
  proof (cases "isolate p cands s")
    case (Pair x s')
    show ?thesis
    proof (cases x)
      case (Inr y)
      obtain a r where y: "y = (a, r)" by (cases y)
      have res: "isolate p cands s = (Inr (a, r), s')" using Pair Inr y by simp
      have "mset a + mset (map fst r) = mset cands \<and> subseq a cands"
      proof (cases "cands = []")
        case True
        then show ?thesis using res by simp
      next
        case ne: False
        obtain v s1 where v: "p s cands = (Inr v, s1)"
          using res ne by (subst (asm) isolate.simps) (auto split: prod.splits sum.splits)
        consider "\<not> failed v" | "failed v" "length cands \<le> linearThreshold"
          | "failed v" "\<not> length cands \<le> linearThreshold" by blast
        then show ?thesis
        proof cases
          case 1
          then show ?thesis using res ne v by (simp add: isolate.simps [of p cands s])
        next
          case 2
          then have "incremental p [] [] cands s1 = (Inr (a, r), s')"
            using res ne v by (simp add: isolate.simps [of p cands s])
          then show ?thesis by (rule inc)
        next
          case 3
          let ?mid = "length cands div 2"
          obtain xl s2 where l: "isolate p (take ?mid cands) s1 = (xl, s2)" by fastforce
          moreover have "\<not> isl xl" using res ne v 3 l by (cases xl) (simp_all add: isolate.simps [of p cands s])
          ultimately obtain al rl where left: "isolate p (take ?mid cands) s1 = (Inr (al, rl), s2)"
            by (cases xl) auto
          obtain xr s3 where r': "isolate p (drop ?mid cands) s2 = (xr, s3)" by fastforce
          moreover have "\<not> isl xr" using res ne v 3 left r' by (cases xr) (simp_all add: isolate.simps [of p cands s])
          ultimately obtain ar rr where right: "isolate p (drop ?mid cands) s2 = (Inr (ar, rr), s3)"
            by (cases xr) auto
          have L: "mset al + mset (map fst rl) = mset (take ?mid cands)" "subseq al (take ?mid cands)"
            using "1.IH"(1) [OF ne v [symmetric] refl _ _ refl] 3 left by auto
          have R: "mset ar + mset (map fst rr) = mset (drop ?mid cands)" "subseq ar (drop ?mid cands)"
            using "1.IH"(2) [OF ne v [symmetric] refl _ _ refl left [symmetric] refl refl] 3 right by auto
          have both: "mset (al @ ar) + mset (map fst (rl @ rr)) = mset cands"
          proof -
            have "mset cands = mset (take ?mid cands) + mset (drop ?mid cands)"
              by (simp flip: mset_append)
            then show ?thesis using L(1) R(1) by (simp add: ac_simps)
          qed
          have sub: "subseq (al @ ar) cands"
            using list_emb_append_mono [OF L(2) R(2)] by simp
          consider "a = al @ ar" "r = rl @ rr"
            | s4 s5 i where "incremental p [] [] (al @ ar) s4 = (Inr (a, i), s5)" "r = (rl @ rr) @ i"
            using res ne v 3 left right
            by (subst (asm) isolate.simps) (auto simp: Let_def split: prod.splits sum.splits if_splits)
          then show ?thesis
          proof cases
            case 1
            then show ?thesis using both sub by simp
          next
            case 2
            from inc [OF this(1)] have "mset a + mset (map fst i) = mset (al @ ar)" "subseq a (al @ ar)" by auto
            moreover have "mset a + mset (map fst r) = (mset a + mset (map fst i)) + mset (map fst (rl @ rr))"
              by (simp add: 2(2) ac_simps)
            ultimately show ?thesis using both sub by (metis subseq_order.trans)
          qed
        qed
      qed
      then show ?thesis using res by simp
    qed (use Pair in simp)
  qed
qed

section \<open>What is condemned and what passes\<close>

text \<open>
  A build that depends only on the mutants it is given: it answers the same set in the same way.
\<close>

definition steady :: "('m list \<Rightarrow> 'e + 'o verdict) \<Rightarrow> (unit, 'm, 'o, 'e) probe" where
  "steady f s ms = (f ms, s)"

definition passes :: "('m list \<Rightarrow> 'e + 'o verdict) \<Rightarrow> 'm list \<Rightarrow> bool" where
  "passes f ms = (case f ms of Inl err \<Rightarrow> False | Inr v \<Rightarrow> \<not> failed v)"

definition fails_with :: "('m list \<Rightarrow> 'e + 'o verdict) \<Rightarrow> 'm list \<Rightarrow> 'o \<Rightarrow> bool" where
  "fails_with f ms out = (case f ms of Inl err \<Rightarrow> False | Inr v \<Rightarrow> failed v \<and> build_output v = out)"

text \<open>A build that passed, or the empty one, fails when this mutant is added.\<close>

definition guilty :: "('m list \<Rightarrow> 'e + 'o verdict) \<Rightarrow> 'm list \<Rightarrow> ('m, 'o) condemned \<Rightarrow> bool" where
  "guilty f cands d \<longleftrightarrow>
     (\<exists>trial. set trial \<subseteq> set cands \<and> (trial = [] \<or> passes f trial) \<and> fails_with f (trial @ [fst d]) (snd d))"

definition sound :: "('m list \<Rightarrow> 'e + 'o verdict) \<Rightarrow> 'm list \<Rightarrow> 'm list \<Rightarrow> ('m, 'o) condemned list \<Rightarrow> bool" where
  "sound f cands acc rej \<longleftrightarrow> (acc = [] \<or> passes f acc) \<and> set acc \<subseteq> set cands \<and> list_all (guilty f cands) rej"

lemma guilty_mono: "guilty f xs d \<Longrightarrow> set xs \<subseteq> set ys \<Longrightarrow> guilty f ys d"
  unfolding guilty_def by blast

lemma sound_mono: "sound f xs acc rej \<Longrightarrow> set xs \<subseteq> set ys \<Longrightarrow> sound f ys acc rej"
  unfolding sound_def by (auto simp: list_all_iff intro: guilty_mono)

lemma incremental_sound:
  assumes "sound f all acc rej" and "set cs \<subseteq> set all"
  shows "case fst (incremental (steady f) acc rej cs s) of Inl err \<Rightarrow> True | Inr (a, r) \<Rightarrow> sound f all a r"
  using assms
proof (induction cs arbitrary: acc rej)
  case (Cons c cs)
  show ?case
  proof (cases "f (acc @ [c])")
    case (Inr v)
    show ?thesis
    proof (cases "failed v")
      case True
      then have "guilty f all (c, build_output v)"
        using Cons.prems Inr by (auto simp: guilty_def sound_def fails_with_def)
      then have "sound f all acc (rej @ [(c, build_output v)])" using Cons.prems by (simp add: sound_def)
      from Cons.IH [OF this] Cons.prems(2) True Inr show ?thesis by (simp add: steady_def)
    next
      case False
      then have "sound f all (acc @ [c]) rej" using Cons.prems Inr by (simp add: sound_def passes_def)
      from Cons.IH [OF this] Cons.prems(2) False Inr show ?thesis by (simp add: steady_def)
    qed
  qed (simp add: steady_def)
qed (simp add: sound_def)

lemma isolate_sound_lemma:
  "case fst (isolate (steady f) cands s) of Inl err \<Rightarrow> True | Inr (a, r) \<Rightarrow> sound f cands a r"
proof (induction "steady f" cands s rule: isolate.induct)
  case (1 cands s)
  have inc: "case fst (incremental (steady f) [] [] cs s) of Inl err \<Rightarrow> True | Inr (a, r) \<Rightarrow> sound f cs a r" for cs
    by (rule incremental_sound) (simp_all add: sound_def)
  show ?case
  proof (cases "cands = []")
    case ne: False
    show ?thesis
    proof (cases "f cands")
      case (Inl err)
      then show ?thesis using ne by (simp add: isolate.simps [of _ cands] steady_def)
    next
      case (Inr v)
      have v: "steady f s cands = (Inr v, s)" using Inr by (simp add: steady_def)
      consider "\<not> failed v" | "failed v" "length cands \<le> linearThreshold"
        | "failed v" "\<not> length cands \<le> linearThreshold" by blast
      then show ?thesis
      proof cases
        case 1
        then show ?thesis using ne v Inr by (simp add: isolate.simps [of _ cands] sound_def passes_def)
      next
        case 2
        then show ?thesis using ne v inc [of cands] by (simp add: isolate.simps [of _ cands])
      next
        case 3
        let ?mid = "length cands div 2"
        obtain xl sl where left: "isolate (steady f) (take ?mid cands) s = (xl, sl)" by (cases "isolate (steady f) (take ?mid cands) s")
        obtain xr sr where right: "isolate (steady f) (drop ?mid cands) s = (xr, sr)" by (cases "isolate (steady f) (drop ?mid cands) s")
        have unit: "sl = s" "sr = s" by simp_all
        show ?thesis
        proof (cases "(\<exists>e. xl = Inl e) \<or> (\<exists>e. xr = Inl e)")
          case True
          then show ?thesis using ne v 3 left right unit
            by (auto simp: isolate.simps [of _ cands] Let_def split: sum.split)
        next
          case False
          then obtain al rl ar rr where x: "xl = Inr (al, rl)" "xr = Inr (ar, rr)"
            by (metis sum.exhaust surj_pair)
          have L: "sound f (take ?mid cands) al rl"
            using "1.hyps"(1) [OF ne v [symmetric] refl _ _ refl] 3 left x by simp
          have R: "sound f (drop ?mid cands) ar rr"
            using "1.hyps"(2) [OF ne v [symmetric] refl _ _ refl left [symmetric, unfolded x] refl refl] 3 right x unit by simp
          have all: "sound f cands al rl" "sound f cands ar rr"
            using sound_mono [OF L set_take_subset] sound_mono [OF R set_drop_subset] .
          have joined: "isolate (steady f) cands s =
            (if al @ ar = [] \<or> al = [] \<or> ar = [] then (Inr (al @ ar, rl @ rr), s)
             else case steady f s (al @ ar) of (Inl err, s) \<Rightarrow> (Inl err, s)
               | (Inr v, s) \<Rightarrow> if \<not> failed v then (Inr (al @ ar, rl @ rr), s)
                 else (case incremental (steady f) [] [] (al @ ar) s of (Inl err, s) \<Rightarrow> (Inl err, s)
                   | (Inr (accepted, interacting), s) \<Rightarrow> (Inr (accepted, (rl @ rr) @ interacting), s)))"
            by (subst isolate.simps) (use ne v 3 left right x unit in \<open>simp add: Let_def\<close>)
          have rej: "list_all (guilty f cands) (rl @ rr)" and sub: "set (al @ ar) \<subseteq> set cands"
            using all by (simp_all add: sound_def)
          show ?thesis
          proof (cases "al = [] \<or> ar = []")
            case True
            then show ?thesis unfolding joined using all by (auto simp: sound_def)
          next
            case False
            show ?thesis
            proof (cases "f (al @ ar)")
              case (Inl e)
              then show ?thesis unfolding joined using False by (simp add: steady_def)
            next
              case (Inr w)
              show ?thesis
              proof (cases "failed w")
                case True
                have I: "case fst (incremental (steady f) [] [] (al @ ar) s) of Inl err \<Rightarrow> True
                    | Inr (a, r) \<Rightarrow> sound f cands a r"
                  using incremental_sound [of f cands "[]" "[]" "al @ ar" s] sub by (simp add: sound_def)
                then show ?thesis unfolding joined using False True Inr rej
                  by (auto simp: steady_def sound_def split: prod.splits sum.splits)
              next
                case pass: False
                then show ?thesis unfolding joined using False Inr rej sub
                  by (simp add: steady_def sound_def passes_def)
              qed
            qed
          qed
        qed
      qed
    qed
  qed (simp add: sound_def)
qed

text \<open>
  C24. The search is sound for every build that answers the same mutants in the same way, however
  the mutants interact: what it accepts compiles together, and each mutant it condemns was added
  to mutants that compile together and made them fail, with the output kept for it.
\<close>

theorem isolate_sound:
  "case fst (isolate (steady f) cands s) of Inl err \<Rightarrow> True
   | Inr (accepted, rejected) \<Rightarrow> (accepted = [] \<or> passes f accepted) \<and> list_all (guilty f cands) rejected"
  using isolate_sound_lemma [of f cands s] by (auto simp: sound_def split: sum.splits prod.splits)

section \<open>The state of the probe\<close>

text \<open>What every probe keeps, the search keeps.\<close>

lemma incremental_keeps:
  assumes "\<And>s ms. I s \<Longrightarrow> I (snd (p s ms))" and "I s"
  shows "I (snd (incremental p acc rej cs s))"
  using assms(2)
proof (induction cs arbitrary: acc rej s)
  case (Cons c cs)
  then show ?case using assms(1) [of s "acc @ [c]"] by (auto split: prod.split sum.split)
qed simp

lemma isolate_keeps:
  assumes step: "\<And>s ms. I s \<Longrightarrow> I (snd (p s ms))" and "I s"
  shows "I (snd (isolate p cands s))"
  using assms(2)
proof (induction "length cands" arbitrary: cands s rule: less_induct)
  case less
  have inc: "I (snd (incremental p [] [] cs t))" if "I t" for cs t
    by (rule incremental_keeps [of I p, OF _ that]) (rule step)
  show ?case
  proof (cases "cands = []")
    case ne: False
    obtain x s1 where x: "p s cands = (x, s1)" by fastforce
    have I1: "I s1" using step [OF less.prems, of cands] by (simp add: x)
    show ?thesis
    proof (cases "isl x \<or> \<not> failed (projr x) \<or> length cands \<le> linearThreshold")
      case True
      then show ?thesis using ne x I1 inc [OF I1] by (subst isolate.simps) (auto split: sum.split)
    next
      case False
      then obtain v where v: "x = Inr v" "failed v" "\<not> length cands \<le> linearThreshold" by (cases x) auto
      let ?mid = "length cands div 2"
      have "length (take ?mid cands) < length cands" "length (drop ?mid cands) < length cands"
        using v(3) by (simp_all add: linearThreshold_def)
      note ih = less(1) [OF this(1)] less(1) [OF this(2)]
      obtain y s2 where y: "isolate p (take ?mid cands) s1 = (y, s2)" by fastforce
      obtain z s3 where z: "isolate p (drop ?mid cands) s2 = (z, s3)" by fastforce
      have I2: "I s2" using ih(1) [OF I1] by (simp add: y)
      have I3: "I s3" using ih(2) [OF I2] by (simp add: z)
      have I4: "I s4" if "p s3 ms = (o', s4)" for ms o' s4 using step [OF I3, of ms] that by simp
      show ?thesis using ne x v y z I2 I3 I4 inc
        by (subst isolate.simps) (auto simp: Let_def split: sum.split prod.split, (metis snd_conv)+)
    qed
  qed (use less.prems in simp)
qed

text \<open>
  When the probe fails exactly for a set with a faulty mutant, whatever its state does meanwhile,
  the search accepts the mutants without a fault and condemns the others.
\<close>

lemma incremental_exact:
  assumes step: "\<And>s ms. I s \<Longrightarrow> \<exists>v s'. p s ms = (Inr v, s') \<and> failed v = list_ex faulty ms \<and> I s'"
    and "I s" and "\<not> list_ex faulty acc"
  shows "\<exists>r s'. incremental p acc rej cs s = (Inr (acc @ filter (\<lambda>m. \<not> faulty m) cs, rej @ r), s')
      \<and> map fst r = filter faulty cs \<and> I s'"
  using assms(2,3)
proof (induction cs arbitrary: acc rej s)
  case (Cons c cs)
  obtain v s1 where v: "p s (acc @ [c]) = (Inr v, s1)" "failed v = list_ex faulty (acc @ [c])" "I s1"
    using step [OF Cons.prems(1)] by blast
  show ?case
  proof (cases "faulty c")
    case True
    obtain r s' where "incremental p acc (rej @ [(c, build_output v)]) cs s1
        = (Inr (acc @ filter (\<lambda>m. \<not> faulty m) cs, (rej @ [(c, build_output v)]) @ r), s')"
      "map fst r = filter faulty cs" "I s'"
      using Cons.IH [OF v(3) Cons.prems(2)] by blast
    with True v show ?thesis by (intro exI [of _ "(c, build_output v) # r"] exI [of _ s']) simp
  next
    case False
    with Cons.prems have "\<not> list_ex faulty (acc @ [c])" by simp
    from Cons.IH [OF v(3) this, of rej] False Cons.prems v show ?thesis by simp
  qed
qed simp

lemma isolate_exact:
  assumes step: "\<And>s ms. I s \<Longrightarrow> \<exists>v s'. p s ms = (Inr v, s') \<and> failed v = list_ex faulty ms \<and> I s'"
    and "I s"
  shows "\<exists>r s'. isolate p cands s = (Inr (filter (\<lambda>m. \<not> faulty m) cands, r), s') \<and> map fst r = filter faulty cands \<and> I s'"
  using assms(2)
proof (induction "length cands" arbitrary: cands s rule: less_induct)
  case less
  let ?good = "filter (\<lambda>m. \<not> faulty m)"
  show ?case
  proof (cases "cands = []")
    case ne: False
    obtain v s1 where v: "p s cands = (Inr v, s1)" "failed v = list_ex faulty cands" "I s1"
      using step [OF less.prems] by blast
    consider "\<not> failed v" | "failed v" "length cands \<le> linearThreshold" | "failed v" "\<not> length cands \<le> linearThreshold"
      by blast
    then show ?thesis
    proof cases
      case 1
      then have "?good cands = cands" "filter faulty cands = []"
        using v(2) by (auto simp: list_ex_iff filter_id_conv filter_empty_conv)
      with 1 ne v show ?thesis by (subst isolate.simps) simp
    next
      case 2
      with ne v incremental_exact [of I p faulty s1 "[]" "[]" cands, OF step v(3)] show ?thesis
        by (subst isolate.simps) simp
    next
      case 3
      let ?mid = "length cands div 2"
      have "length (take ?mid cands) < length cands" "length (drop ?mid cands) < length cands"
        using 3 by (simp_all add: linearThreshold_def)
      note ih = less(1) [OF this(1)] less(1) [OF this(2)]
      obtain rl s2 where l: "isolate p (take ?mid cands) s1 = (Inr (?good (take ?mid cands), rl), s2)"
        "map fst rl = filter faulty (take ?mid cands)" "I s2" using ih(1) [OF v(3)] by blast
      obtain rr s3 where r: "isolate p (drop ?mid cands) s2 = (Inr (?good (drop ?mid cands), rr), s3)"
        "map fst rr = filter faulty (drop ?mid cands)" "I s3" using ih(2) [OF l(3)] by blast
      obtain u s4 where u: "p s3 (?good cands) = (Inr u, s4)" "failed u = list_ex faulty (?good cands)" "I s4"
        using step [OF r(3)] by blast
      have join: "filter P (take ?mid cands) @ filter P (drop ?mid cands) = filter P cands" for P
        by (simp flip: filter_append)
      have "\<not> failed u" using u(2) by (auto simp: list_ex_iff)
      then have "isolate p cands s = (Inr (?good cands, rl @ rr), s3) \<or> isolate p cands s = (Inr (?good cands, rl @ rr), s4)"
        using ne 3 v(1) l(1) r(1) u(1) by (subst (1 2) isolate.simps) (simp add: Let_def join)
      moreover have "map fst (rl @ rr) = filter faulty cands" using l(2) r(2) join by simp
      ultimately show ?thesis using r(3) u(3) by blast
    qed
  qed (use less.prems in simp)
qed

text \<open>
  When mutants fail on their own, the search is exact: it accepts the mutants that compile
  and condemns the others, each side in the order of the candidates.
\<close>

theorem isolate_independent:
  assumes "\<forall>ms. f ms = Inr \<lparr>failed = list_ex faulty ms, build_output = out ms\<rparr>"
  shows "case fst (isolate (steady f) cands s) of Inl err \<Rightarrow> False
    | Inr (accepted, rejected) \<Rightarrow>
        accepted = filter (\<lambda>m. \<not> faulty m) cands \<and> map fst rejected = filter faulty cands"
  using isolate_exact [of "\<lambda>_. True" "steady f" faulty s cands] assms by (auto simp: steady_def)

theorem isolate_independent_witness:
  "case fst (isolate (steady (\<lambda>ms. Inr \<lparr>failed = list_ex (\<lambda>m. m = 3) ms, build_output = ()\<rparr> :: unit + unit verdict))
      [1::nat, 2, 3, 4, 5, 6] ()) of Inl err \<Rightarrow> False
    | Inr (accepted, rejected) \<Rightarrow>
        accepted = filter (\<lambda>m. \<not> m = 3) [1, 2, 3, 4, 5, 6] \<and> map fst rejected = filter (\<lambda>m. m = 3) [1, 2, 3, 4, 5, 6]"
  by (rule isolate_independent [where out = "\<lambda>_. ()"]) simp

end
