(* ===== verification/Splices.thy ===== *)
theory Splices
  imports Spans
begin

text \<open>
  Splicing replacements into a source (\<open>internal/instrument/splice.go\<close>): the splices are
  checked against the source and against one another, applied in order, and leave a map between
  the offsets of the original and of the output.
\<close>

section \<open>Checking\<close>

datatype splice_error = CodeSpliceSpan | CodeSpliceMismatch | CodeSpliceOverlap | CodeSpanStraddles

record splice =
  Span :: span
  Original :: string
  Replacement :: string
  Origin :: string

definition maxUint32 :: int where "maxUint32 = 2 ^ 32 - 1"

definition check_splice :: "string \<Rightarrow> splice \<Rightarrow> splice_error option" where
  "check_splice src s =
     (case span_validate (Span s) of
        Some err \<Rightarrow> Some CodeSpliceSpan
      | None \<Rightarrow>
          (case span_slice (Span s) src of
             Inl err \<Rightarrow> Some CodeSpliceSpan
           | Inr covered \<Rightarrow> if covered \<noteq> Original s then Some CodeSpliceMismatch else None))"

fun check_splices :: "string \<Rightarrow> splice list \<Rightarrow> splice_error option" where
  "check_splices src [] = None"
| "check_splices src (s # ss) =
     (case check_splice src s of Some err \<Rightarrow> Some err | None \<Rightarrow> check_splices src ss)"

text \<open>The loop over the order, with the splice before and the end reached so far.\<close>

fun check_overlaps :: "splice list \<Rightarrow> nat option \<Rightarrow> u32 \<Rightarrow> nat list \<Rightarrow> splice_error option" where
  "check_overlaps ss prev reach [] = None"
| "check_overlaps ss prev reach (i # is) =
     (let cur = Span (ss ! i) in
      if (case prev of None \<Rightarrow> False | Some p \<Rightarrow> cur = Span (ss ! p)) then Some CodeSpliceOverlap
      else if prev \<noteq> None \<and> StartByte cur < reach then Some CodeSpliceOverlap
      else check_overlaps ss (Some i) (if EndByte cur \<ge> reach then EndByte cur else reach) is)"

definition splice_order :: "splice list \<Rightarrow> nat list" where
  "splice_order ss = sort_by (\<lambda>a b. span_compare (Span (ss ! a)) (Span (ss ! b))) [0..<length ss]"

definition validate_splices :: "string \<Rightarrow> splice list \<Rightarrow> splice_error + nat list" where
  "validate_splices src ss =
     (if int (length src) > maxUint32 then Inl CodeSpliceSpan
      else
        (case check_splices src ss of
           Some err \<Rightarrow> Inl err
         | None \<Rightarrow>
             (case check_overlaps ss None 0 (splice_order ss) of
                Some err \<Rightarrow> Inl err
              | None \<Rightarrow> Inr (splice_order ss))))"

section \<open>Applying\<close>

record edit =
  origStart :: u32
  origEnd :: u32
  outStart :: u32
  outEnd :: u32

record offset_map =
  edits :: "edit list"
  srcLen :: u32
  outLen :: u32

fun emit :: "string \<Rightarrow> splice list \<Rightarrow> nat list \<Rightarrow> u32 \<Rightarrow> string \<Rightarrow> edit list \<Rightarrow> string \<times> edit list" where
  "emit src ss [] cursor out es = (out @ drop (unat cursor) src, es)"
| "emit src ss (i # is) cursor out es =
     (let s = ss ! i;
          before = out @ take (unat (StartByte (Span s)) - unat cursor) (drop (unat cursor) src);
          after = before @ Replacement s
      in emit src ss is (EndByte (Span s)) after
           (es @ [\<lparr>origStart = StartByte (Span s), origEnd = EndByte (Span s),
                   outStart = of_nat (length before), outEnd = of_nat (length after)\<rparr>]))"

definition grown :: "string \<Rightarrow> splice list \<Rightarrow> int" where
  "grown src ss =
     foldl (\<lambda>n s. n + int (length (Replacement s)) - uint (span_len (Span s))) (int (length src)) ss"

definition apply_splices :: "string \<Rightarrow> splice list \<Rightarrow> splice_error + (string \<times> offset_map)" where
  "apply_splices src ss =
     (case validate_splices src ss of
        Inl err \<Rightarrow> Inl err
      | Inr order \<Rightarrow>
          if grown src ss > maxUint32 then Inl CodeSpliceSpan
          else
            (let (out, es) = emit src ss order 0 [] []
             in Inr (out, \<lparr>edits = es, srcLen = of_nat (length src), outLen = of_nat (length out)\<rparr>)))"

section \<open>The map of offsets\<close>

definition shift :: "u32 \<Rightarrow> int \<Rightarrow> u32" where
  "shift off delta = word_of_int (uint off + delta)"

definition to_output :: "offset_map \<Rightarrow> u32 \<Rightarrow> u32 \<times> bool" where
  "to_output m off =
     (if off > srcLen m then (outLen m, False)
      else
        (let i = sort_search (length (edits m)) (\<lambda>i. origEnd (edits m ! i) > off) in
         if i = length (edits m) then (shift off (uint (outLen m) - uint (srcLen m)), True)
         else
           (let e = edits m ! i in
            if origStart e < off then (outStart e, False)
            else (shift off (uint (outStart e) - uint (origStart e)), True))))"

definition to_original :: "offset_map \<Rightarrow> u32 \<Rightarrow> u32 \<times> bool" where
  "to_original m off =
     (if off > outLen m then (srcLen m, False)
      else
        (let i = sort_search (length (edits m)) (\<lambda>i. outEnd (edits m ! i) > off) in
         if i = length (edits m) then (shift off (uint (srcLen m) - uint (outLen m)), True)
         else
           (let e = edits m ! i in
            if outStart e < off then (origStart e, False)
            else (shift off (uint (origStart e) - uint (outStart e)), True))))"

definition map_span :: "offset_map \<Rightarrow> span \<Rightarrow> splice_error + span" where
  "map_span m s =
     (if span_validate s \<noteq> None then Inl CodeSpliceSpan
      else if uint (EndByte s) > uint (srcLen m) then Inl CodeSpliceSpan
      else
        (case to_output m (StartByte s) of
           (start, ok) \<Rightarrow>
             if \<not> ok then Inl CodeSpanStraddles
             else
               (case to_output m (EndByte s) of
                  (end, ok) \<Rightarrow>
                    if \<not> ok then Inl CodeSpanStraddles
                    else Inr \<lparr>StartByte = start, EndByte = end\<rparr>)))"

definition count_lines :: "string \<Rightarrow> nat" where
  "count_lines b = count_byte b nl"

definition line_preserving :: "splice list \<Rightarrow> bool" where
  "line_preserving ss = list_all (\<lambda>s. count_lines (Original s) = count_lines (Replacement s)) ss"

definition splice_name :: "splice list \<Rightarrow> nat \<Rightarrow> string" where
  "splice_name ss i =
     (if Origin (ss ! i) = [] then ''splice '' @ itoa (int i)
      else ''splice '' @ itoa (int i) @ '' ('' @ Origin (ss ! i) @ '')'')"

section \<open>The layout of the output\<close>

text \<open>
  From the offsets \<open>a\<close> and \<open>b\<close> on, the edits lie in order, and what is between them is the same
  in the source and the output.
\<close>

fun laid :: "string \<Rightarrow> string \<Rightarrow> nat \<Rightarrow> nat \<Rightarrow> edit list \<Rightarrow> bool" where
  "laid src out a b [] \<longleftrightarrow> a \<le> length src \<and> b \<le> length out \<and> drop a src = drop b out"
| "laid src out a b (e # es) \<longleftrightarrow>
     a \<le> unat (origStart e) \<and> unat (origStart e) \<le> unat (origEnd e) \<and> unat (origEnd e) \<le> length src
     \<and> b \<le> unat (outStart e) \<and> unat (outStart e) \<le> unat (outEnd e) \<and> unat (outEnd e) \<le> length out
     \<and> unat (outStart e) - b = unat (origStart e) - a
     \<and> take (unat (origStart e) - a) (drop a src) = take (unat (origStart e) - a) (drop b out)
     \<and> laid src out (unat (origEnd e)) (unat (outEnd e)) es"

text \<open>The bytes an edit puts into the output, and the newlines it replaces.\<close>

definition edit_of :: "string \<Rightarrow> string \<Rightarrow> splice \<Rightarrow> edit \<Rightarrow> bool" where
  "edit_of src out s e \<longleftrightarrow> origStart e = StartByte (Span s) \<and> origEnd e = EndByte (Span s)
     \<and> take (unat (outEnd e) - unat (outStart e)) (drop (unat (outStart e)) out) = Replacement s"

text \<open>Splices in order, apart from each other and within the source.\<close>

fun apart :: "string \<Rightarrow> nat \<Rightarrow> splice list \<Rightarrow> bool" where
  "apart src a [] \<longleftrightarrow> a \<le> length src"
| "apart src a (s # ss) \<longleftrightarrow> a \<le> unat (StartByte (Span s)) \<and> StartByte (Span s) \<le> EndByte (Span s)
     \<and> unat (EndByte (Span s)) \<le> length src \<and> apart src (unat (EndByte (Span s))) ss"

lemma apart_start: "apart src a ss \<Longrightarrow> a \<le> length src"
  by (cases ss) (auto simp: word_le_nat_alt)

definition out_length :: "nat \<Rightarrow> nat \<Rightarrow> nat \<Rightarrow> splice list \<Rightarrow> int" where
  "out_length n a b ss = int b + int n - int a + (\<Sum>s \<leftarrow> ss. int (length (Replacement s)) - uint (span_len (Span s)))"

lemma unat_small: "n < 2 ^ 32 \<Longrightarrow> unat (of_nat n :: u32) = n"
  by (simp add: unsigned_of_nat take_bit_nat_eq_self)

lemma emit_laid:
  assumes "apart src (unat cursor) (map (\<lambda>i. ss ! i) is)"
    and "out_length (length src) (unat cursor) (length out) (map (\<lambda>i. ss ! i) is) \<le> maxUint32"
    and "emit src ss is cursor out es = (out', es')"
  shows "\<exists>rest new. out' = out @ rest \<and> es' = es @ new \<and> laid src out' (unat cursor) (length out) new
    \<and> list_all2 (edit_of src out') (map (\<lambda>i. ss ! i) is) new
    \<and> int (length out') = out_length (length src) (unat cursor) (length out) (map (\<lambda>i. ss ! i) is)"
  using assms
proof (induction "is" arbitrary: cursor out es)
  case Nil
  then show ?case by (auto simp: out_length_def)
next
  case (Cons i ks)
  let ?s = "ss ! i" and ?a = "unat cursor"
  let ?st = "unat (StartByte (Span ?s))" and ?en = "unat (EndByte (Span ?s))"
  let ?before = "out @ take (?st - ?a) (drop ?a src)"
  let ?after = "?before @ Replacement ?s"
  let ?e = "\<lparr>origStart = StartByte (Span ?s), origEnd = EndByte (Span ?s),
      outStart = of_nat (length ?before), outEnd = of_nat (length ?after)\<rparr> :: edit"
  have ap: "?a \<le> ?st" "?st \<le> ?en" "?en \<le> length src" "apart src ?en (map (\<lambda>i. ss ! i) ks)"
    using Cons.prems(1) by (simp_all add: word_le_nat_alt)
  have len: "length ?before = length out + (?st - ?a)" using ap by simp
  have slen: "uint (span_len (Span ?s)) = int ?en - int ?st"
  proof -
    have "StartByte (Span ?s) \<le> EndByte (Span ?s)" using Cons.prems(1) by simp
    from unat_span_len [OF this] show ?thesis using ap(2) unfolding uint_nat by (simp only: of_nat_diff)
  qed
  have ol: "out_length (length src) ?en (length ?after) (map (\<lambda>i. ss ! i) ks)
      = out_length (length src) ?a (length out) (map (\<lambda>i. ss ! i) (i # ks))"
    using ap by (simp add: out_length_def slen len)
  have run: "emit src ss ks (EndByte (Span ?s)) ?after (es @ [?e]) = (out', es')"
    using Cons.prems(3) unfolding emit.simps Let_def .
  have fits: "out_length (length src) ?en (length ?after) (map (\<lambda>i. ss ! i) ks) \<le> maxUint32"
    unfolding ol by (rule Cons.prems(2))
  from Cons.IH [OF ap(4) fits run] obtain rest new where IH: "out' = ?after @ rest" "es' = (es @ [?e]) @ new"
    "laid src out' ?en (length ?after) new" "list_all2 (edit_of src out') (map (\<lambda>i. ss ! i) ks) new"
    "int (length out') = out_length (length src) ?en (length ?after) (map (\<lambda>i. ss ! i) ks)"
    by (elim exE conjE)
  have "int (length out') \<le> maxUint32" using IH(5) Cons.prems(2) ol by simp
  then have small: "length ?before < 2 ^ 32" "length ?after < 2 ^ 32"
    using IH(1) by (simp_all add: maxUint32_def)
  have un: "unat (outStart ?e) = length ?before" "unat (outEnd ?e) = length ?after"
    unfolding edit.select_convs by (intro unat_small; fact)+
  have "laid src out' ?a (length out) (?e # new)"
    unfolding laid.simps un using ap IH(1,3) len by (simp, arith)
  moreover have "edit_of src out' ?s ?e"
    unfolding edit_of_def un using IH(1) by simp
  ultimately show ?case
    using IH ol by (intro exI [of _ "take (?st - ?a) (drop ?a src) @ Replacement ?s @ rest"] exI [of _ "?e # new"]) simp
qed

section \<open>The order of the splices\<close>

lemma check_overlaps_apart:
  assumes "check_overlaps ss prev reach is = None" and "prev = None \<longrightarrow> reach = 0"
    and "list_all (\<lambda>i. StartByte (Span (ss ! i)) \<le> EndByte (Span (ss ! i)) \<and> unat (EndByte (Span (ss ! i))) \<le> length src) is"
    and "unat reach \<le> length src"
  shows "apart src (unat reach) (map (\<lambda>i. ss ! i) is)"
  using assms
proof (induction "is" arbitrary: prev reach)
  case (Cons i ks)
  let ?s = "Span (ss ! i)"
  have ge: "reach \<le> StartByte ?s"
    using Cons.prems(1,2) by (cases prev) (auto simp: Let_def not_less split: if_splits)
  then have "reach \<le> EndByte ?s" using Cons.prems(3) by (auto intro: order_trans)
  then have "check_overlaps ss (Some i) (EndByte ?s) ks = None"
    using Cons.prems(1) by (auto simp: Let_def split: if_splits)
  from Cons.IH [OF this] Cons.prems(3) ge show ?case by (simp add: word_le_nat_alt)
qed simp

lemma check_splices_None: "check_splices src ss = None \<longleftrightarrow> list_all (\<lambda>s. check_splice src s = None) ss"
  by (induction ss) (auto split: option.split)

lemma check_splice_None:
  "check_splice src s = None \<Longrightarrow> StartByte (Span s) \<le> EndByte (Span s) \<and> unat (EndByte (Span s)) \<le> length src
   \<and> span_slice (Span s) src = Inr (Original s)"
  by (auto simp: check_splice_def span_slice_Inr split: option.splits sum.splits if_splits)

lemma set_splice_order [simp]: "set (splice_order ss) = {..<length ss}"
  by (auto simp: splice_order_def)

lemma map_splice_order: "mset (map (\<lambda>i. ss ! i) (splice_order ss)) = mset ss"
proof -
  have "mset (map (\<lambda>i. ss ! i) (splice_order ss)) = mset (map (\<lambda>i. ss ! i) [0..<length ss])"
    unfolding mset_map by (simp add: splice_order_def)
  then show ?thesis by (simp only: map_nth)
qed

lemma grown_sum: "foldl (\<lambda>n s. n + int (length (Replacement s)) - uint (span_len (Span s))) k ss
    = k + (\<Sum>s \<leftarrow> ss. int (length (Replacement s)) - uint (span_len (Span s)))"
  by (induction ss arbitrary: k) simp_all

lemma sum_list_same_mset: "mset xs = mset ys \<Longrightarrow> sum_list (map f xs) = sum_list (map f ys)"
  for f :: "'a \<Rightarrow> int"
  by (metis mset_map sum_mset_sum_list)

text \<open>What a successful application leaves.\<close>

lemma apply_laid:
  assumes "apply_splices src ss = Inr (out, m)"
  obtains ts where "mset ts = mset ss" and "laid src out 0 0 (edits m)" and "list_all2 (edit_of src out) ts (edits m)"
    and "unat (srcLen m) = length src" and "unat (outLen m) = length out" and "apart src 0 ts"
    and "list_all (\<lambda>s. check_splice src s = None) ss"
proof -
  let ?ts = "map (\<lambda>i. ss ! i) (splice_order ss)"
  have v: "int (length src) \<le> maxUint32" "check_splices src ss = None" "check_overlaps ss None 0 (splice_order ss) = None"
    "grown src ss \<le> maxUint32" "(out, edits m) = emit src ss (splice_order ss) 0 [] []"
    "srcLen m = of_nat (length src)" "outLen m = of_nat (length out)"
  proof -
    obtain order where o: "validate_splices src ss = Inr order"
      using assms by (cases "validate_splices src ss") (simp_all add: apply_splices_def)
    then show "int (length src) \<le> maxUint32" "check_splices src ss = None" "check_overlaps ss None 0 (splice_order ss) = None"
      by (auto simp: validate_splices_def split: if_splits option.splits)
    have order: "order = splice_order ss" using o by (auto simp: validate_splices_def split: if_splits option.splits)
    obtain out' es where e: "emit src ss (splice_order ss) 0 [] [] = (out', es)" by fastforce
    then show "grown src ss \<le> maxUint32" "(out, edits m) = emit src ss (splice_order ss) 0 [] []"
      "srcLen m = of_nat (length src)" "outLen m = of_nat (length out)"
      using assms by (auto simp: apply_splices_def o order split: if_splits)
  qed
  have ok: "list_all (\<lambda>s. check_splice src s = None) ss" using v(2) by (simp add: check_splices_None)
  have "list_all (\<lambda>i. StartByte (Span (ss ! i)) \<le> EndByte (Span (ss ! i))
      \<and> unat (EndByte (Span (ss ! i))) \<le> length src) (splice_order ss)"
    unfolding list_all_iff set_splice_order
  proof
    fix i assume "i \<in> {..<length ss}"
    then have "check_splice src (ss ! i) = None" using ok by (simp add: list_all_length)
    then show "StartByte (Span (ss ! i)) \<le> EndByte (Span (ss ! i)) \<and> unat (EndByte (Span (ss ! i))) \<le> length src"
      using check_splice_None by blast
  qed
  then have ap: "apart src 0 ?ts" using check_overlaps_apart [OF v(3), of src] by simp
  have "(\<Sum>s \<leftarrow> ?ts. int (length (Replacement s)) - uint (span_len (Span s)))
      = (\<Sum>s \<leftarrow> ss. int (length (Replacement s)) - uint (span_len (Span s)))"
    by (rule sum_list_same_mset [OF map_splice_order])
  then have ol: "out_length (length src) 0 0 ?ts = grown src ss"
    by (simp add: out_length_def grown_def grown_sum)
  obtain rest new where e: "out = [] @ rest" "edits m = [] @ new" "laid src out 0 0 new"
    "list_all2 (edit_of src out) ?ts new" "int (length out) = grown src ss"
    using emit_laid [of src 0 ss "splice_order ss" "[]" "[]" out "edits m"] ap v(4,5) ol by auto
  have "length src < 2 ^ 32" "length out < 2 ^ 32"
    using v(1,4) e(5) by (simp_all add: maxUint32_def)
  then have "unat (srcLen m) = length src" "unat (outLen m) = length out"
    using unat_small unfolding v(6,7) by blast+
  then show ?thesis using that [OF map_splice_order] e ap ok by simp
qed

section \<open>The offset map\<close>

lemma search_find:
  assumes mono: "\<forall>k l. k \<le> l \<longrightarrow> l < length xs \<longrightarrow> P (xs ! k) \<longrightarrow> P (xs ! l)"
  shows "(if sort_search (length xs) (\<lambda>i. P (xs ! i)) = length xs then None
     else Some (xs ! sort_search (length xs) (\<lambda>i. P (xs ! i)))) = find P xs"
proof -
  let ?i = "sort_search (length xs) (\<lambda>i. P (xs ! i))"
  have le: "?i \<le> length xs"
    by (rule sort_search_spec(1)) (use mono in blast)
  have lt: "\<not> P (xs ! k)" if "k < ?i" for k
    by (rule sort_search_spec(2) [OF _ that]) (use mono in blast)
  have ge: "P (xs ! k)" if "?i \<le> k" "k < length xs" for k
    by (rule sort_search_spec(3) [OF _ that]) (use mono in blast)
  show ?thesis
  proof (cases "?i = length xs")
    case True
    then have "find P xs = None" using lt by (auto simp: find_None_iff in_set_conv_nth)
    with True show ?thesis by simp
  next
    case False
    then have i: "?i < length xs" using le by simp
    have "find P xs = Some (xs ! ?i)"
      unfolding find_Some_iff using i ge [OF order_refl i] lt by blast
    with False show ?thesis by simp
  qed
qed

lemma laid_sorted:
  "laid src out a b es \<Longrightarrow> list_all (\<lambda>e. a \<le> unat (origEnd e) \<and> b \<le> unat (outEnd e)) es
    \<and> sorted_wrt (\<lambda>e f. unat (origEnd e) \<le> unat (origEnd f) \<and> unat (outEnd e) \<le> unat (outEnd f)) es"
proof (induction es arbitrary: a b)
  case (Cons e es)
  then have "list_all (\<lambda>f. unat (origEnd e) \<le> unat (origEnd f) \<and> unat (outEnd e) \<le> unat (outEnd f)) es"
    "sorted_wrt (\<lambda>e f. unat (origEnd e) \<le> unat (origEnd f) \<and> unat (outEnd e) \<le> unat (outEnd f)) es"
    by auto
  with Cons.prems show ?case by (auto simp: list_all_iff)
qed simp

lemma to_output_find:
  assumes "laid src out a b (edits m)"
  shows "to_output m off = (if off > srcLen m then (outLen m, False)
    else case find (\<lambda>e. origEnd e > off) (edits m) of
      None \<Rightarrow> (shift off (uint (outLen m) - uint (srcLen m)), True)
    | Some e \<Rightarrow> if origStart e < off then (outStart e, False)
        else (shift off (uint (outStart e) - uint (origStart e)), True))"
proof -
  have "origEnd (edits m ! l) > off" if "k \<le> l" "l < length (edits m)" "origEnd (edits m ! k) > off" for k l
  proof (cases "k = l")
    case False
    then have "unat (origEnd (edits m ! k)) \<le> unat (origEnd (edits m ! l))"
      using laid_sorted [OF assms] that by (simp add: sorted_wrt_iff_nth_less)
    then show ?thesis using that(3) by (simp add: word_less_nat_alt)
  qed (use that in simp)
  then have "\<forall>k l. k \<le> l \<longrightarrow> l < length (edits m) \<longrightarrow> origEnd (edits m ! k) > off \<longrightarrow> origEnd (edits m ! l) > off"
    by blast
  from search_find [of "edits m" "\<lambda>e. origEnd e > off", OF this] show ?thesis
    by (auto simp: to_output_def Let_def split: option.split if_splits)
qed

lemma to_original_find:
  assumes "laid src out a b (edits m)"
  shows "to_original m off = (if off > outLen m then (srcLen m, False)
    else case find (\<lambda>e. outEnd e > off) (edits m) of
      None \<Rightarrow> (shift off (uint (srcLen m) - uint (outLen m)), True)
    | Some e \<Rightarrow> if outStart e < off then (origStart e, False)
        else (shift off (uint (origStart e) - uint (outStart e)), True))"
proof -
  have "outEnd (edits m ! l) > off" if "k \<le> l" "l < length (edits m)" "outEnd (edits m ! k) > off" for k l
  proof (cases "k = l")
    case False
    then have "unat (outEnd (edits m ! k)) \<le> unat (outEnd (edits m ! l))"
      using laid_sorted [OF assms] that by (simp add: sorted_wrt_iff_nth_less)
    then show ?thesis using that(3) by (simp add: word_less_nat_alt)
  qed (use that in simp)
  then have "\<forall>k l. k \<le> l \<longrightarrow> l < length (edits m) \<longrightarrow> outEnd (edits m ! k) > off \<longrightarrow> outEnd (edits m ! l) > off"
    by blast
  from search_find [of "edits m" "\<lambda>e. outEnd e > off", OF this] show ?thesis
    by (auto simp: to_original_def Let_def split: option.split if_splits)
qed

text \<open>Where an offset outside all edits lies in the output.\<close>

definition moved :: "string \<Rightarrow> string \<Rightarrow> nat \<Rightarrow> edit option \<Rightarrow> int" where
  "moved src out off e =
     (case e of None \<Rightarrow> int off + int (length out) - int (length src)
      | Some e \<Rightarrow> int off + int (unat (outStart e)) - int (unat (origStart e)))"

lemma move_arith:
  "(a :: nat) \<le> off \<Longrightarrow> off < s \<Longrightarrow> b \<le> t \<Longrightarrow> t - b = s - a \<Longrightarrow>
   int (b + (off - a)) = int off + int t - int s \<and> b + (off - a) < t"
  by arith

lemma laid_moved:
  assumes "laid src out a b es" and "a \<le> off" and "off \<le> length src"
    and "list_all (\<lambda>e. \<not> (unat (origStart e) \<le> off \<and> off < unat (origEnd e))) es"
  shows "\<exists>k. int k = moved src out off (find (\<lambda>e. off < unat (origEnd e)) es) \<and> b \<le> k \<and> k \<le> length out
    \<and> find (\<lambda>e. k < unat (outEnd e)) es = find (\<lambda>e. off < unat (origEnd e)) es
    \<and> (case find (\<lambda>e. off < unat (origEnd e)) es of None \<Rightarrow> True
       | Some e \<Rightarrow> off \<le> unat (origStart e) \<and> k \<le> unat (outStart e))
    \<and> (off < length src \<longrightarrow> k < length out \<and> out ! k = src ! off)"
  using assms
proof (induction es arbitrary: a b)
  case Nil
  then have l: "drop a src = drop b out" "a \<le> length src" "b \<le> length out" by simp_all
  from l(1) have "length (drop a src) = length (drop b out)" by (rule arg_cong)
  then have len: "length src - a = length out - b" by simp
  have "out ! (b + (off - a)) = src ! off" if "off < length src"
  proof -
    have "drop b out ! (off - a) = drop a src ! (off - a)" by (simp add: l(1))
    then show ?thesis using l(2,3) len Nil that by simp
  qed
  then show ?case using l len Nil
    by (intro exI [of _ "b + (off - a)"]) (auto simp: moved_def)
next
  case (Cons e es)
  let ?s = "unat (origStart e)" and ?t = "unat (outStart e)"
  have e: "a \<le> ?s" "?s \<le> unat (origEnd e)" "b \<le> ?t" "?t \<le> unat (outEnd e)" "unat (outEnd e) \<le> length out"
    "?t - b = ?s - a" "take (?s - a) (drop a src) = take (?s - a) (drop b out)"
    "laid src out (unat (origEnd e)) (unat (outEnd e)) es" "unat (origEnd e) \<le> length src"
    using Cons.prems(1) by simp_all
  show ?case
  proof (cases "off < unat (origEnd e)")
    case False
    obtain k where k: "int k = moved src out off (find (\<lambda>e. off < unat (origEnd e)) es)"
      "unat (outEnd e) \<le> k" "k \<le> length out"
      "find (\<lambda>e. k < unat (outEnd e)) es = find (\<lambda>e. off < unat (origEnd e)) es"
      "case find (\<lambda>e. off < unat (origEnd e)) es of None \<Rightarrow> True
       | Some e \<Rightarrow> off \<le> unat (origStart e) \<and> k \<le> unat (outStart e)"
      "off < length src \<longrightarrow> k < length out \<and> out ! k = src ! off"
      using Cons.IH [OF e(8)] Cons.prems(3,4) False by auto
    then show ?thesis using False e by (intro exI [of _ k]) auto
  next
    case True
    then have off: "off < ?s" using Cons.prems(4) by auto
    let ?k = "b + (off - a)"
    have k: "int ?k = int off + int ?t - int ?s" "?k < ?t"
      using move_arith [OF Cons.prems(2) off e(3,6)] by blast+
    have "out ! ?k = src ! off"
    proof -
      have "off - a < ?s - a" using off Cons.prems(2) by simp
      then have "drop a src ! (off - a) = drop b out ! (off - a)" using e(7) by (metis nth_take)
      moreover have "drop a src ! (off - a) = src ! off" using Cons.prems(2,3) by (subst nth_drop) simp_all
      moreover have "drop b out ! (off - a) = out ! ?k" using e(3,4,5) by (subst nth_drop) simp_all
      ultimately show ?thesis by simp
    qed
    moreover have "int ?k = moved src out off (Some e)" unfolding moved_def option.case by (rule k(1))
    ultimately show ?thesis using True k(2) off e
      by (intro exI [of _ ?k]) auto
  qed
qed


lemma segment_split: "a \<le> b \<Longrightarrow> b \<le> c \<Longrightarrow> take (c - a) (drop a xs) = take (b - a) (drop a xs) @ take (c - b) (drop b xs)"
proof -
  assume "a \<le> b" and "b \<le> c"
  then have "take (c - a) (drop a xs) = take ((b - a) + (c - b)) (drop a xs)" by simp
  also have "\<dots> = take (b - a) (drop a xs) @ take (c - b) (drop (b - a) (drop a xs))" by (rule take_add)
  finally show ?thesis using \<open>a \<le> b\<close> by simp
qed

lemma count_lines_append: "count_lines (xs @ ys) = count_lines xs + count_lines ys"
  by (simp add: count_lines_def count_byte_def)

lemma laid_bound: "laid src out a b es \<Longrightarrow> e \<in> set es \<Longrightarrow> unat (origEnd e) \<le> length src"
  by (induction es arbitrary: a b) auto

text \<open>An edit that replaces as many newlines as it puts in.\<close>

definition keeps_lines :: "string \<Rightarrow> string \<Rightarrow> edit \<Rightarrow> bool" where
  "keeps_lines src out e \<longleftrightarrow>
     count_lines (take (unat (outEnd e) - unat (outStart e)) (drop (unat (outStart e)) out))
     = count_lines (take (unat (origEnd e) - unat (origStart e)) (drop (unat (origStart e)) src))"

lemma laid_lines:
  assumes "laid src out a b es" and "a \<le> off" and "off \<le> length src"
    and "list_all (\<lambda>e. \<not> (unat (origStart e) \<le> off \<and> off < unat (origEnd e))) es"
    and "list_all (keeps_lines src out) es" and "int k = moved src out off (find (\<lambda>e. off < unat (origEnd e)) es)"
  shows "count_lines (take (k - b) (drop b out)) = count_lines (take (off - a) (drop a src))"
  using assms
proof (induction es arbitrary: a b)
  case Nil
  then have l: "drop a src = drop b out" "a \<le> length src" "b \<le> length out" by simp_all
  from l(1) have "length (drop a src) = length (drop b out)" by (rule arg_cong)
  then have "length src - a = length out - b" by simp
  moreover have "int k = int off + int (length out) - int (length src)" using Nil.prems(6) by (simp add: moved_def)
  ultimately have "k - b = off - a" using l(2,3) Nil.prems(2,3) by arith
  with l(1) show ?case by simp
next
  case (Cons e es)
  let ?s = "unat (origStart e)" and ?t = "unat (outStart e)"
  have e: "a \<le> ?s" "?s \<le> unat (origEnd e)" "b \<le> ?t" "?t \<le> unat (outEnd e)" "unat (outEnd e) \<le> length out"
    "?t - b = ?s - a" "take (?s - a) (drop a src) = take (?s - a) (drop b out)"
    "laid src out (unat (origEnd e)) (unat (outEnd e)) es" "unat (origEnd e) \<le> length src"
    using Cons.prems(1) by simp_all
  show ?case
  proof (cases "off < unat (origEnd e)")
    case True
    then have off: "off < ?s" using Cons.prems(4) by auto
    have "int k = int off + int ?t - int ?s" using Cons.prems(6) True unfolding moved_def by simp
    then have "k - b = off - a" using move_arith [OF Cons.prems(2) off e(3,6)] by linarith
    moreover have "take (off - a) (drop a src) = take (off - a) (drop b out)"
    proof -
      have "take (off - a) (take (?s - a) (drop a src)) = take (off - a) (take (?s - a) (drop b out))" by (simp add: e(7))
      moreover have "min (off - a) (?s - a) = off - a" using off by simp
      ultimately show ?thesis by (simp only: take_take)
    qed
    ultimately show ?thesis by simp
  next
    case False
    have IH: "count_lines (take (k - unat (outEnd e)) (drop (unat (outEnd e)) out))
        = count_lines (take (off - unat (origEnd e)) (drop (unat (origEnd e)) src))"
      using Cons.IH [OF e(8)] Cons.prems(3-6) False by auto
    obtain k' where "int k' = moved src out off (find (\<lambda>e. off < unat (origEnd e)) es)" "unat (outEnd e) \<le> k'"
      using laid_moved [OF e(8), of off] Cons.prems(3,4) False by auto
    moreover have "int k = moved src out off (find (\<lambda>e. off < unat (origEnd e)) es)"
      using Cons.prems(6) False by simp
    ultimately have k: "unat (outEnd e) \<le> k" by simp
    have "take (k - b) (drop b out) = take (?t - b) (drop b out)
        @ take (unat (outEnd e) - ?t) (drop ?t out) @ take (k - unat (outEnd e)) (drop (unat (outEnd e)) out)"
      using e k by (subst segment_split [of b ?t k]) (simp_all add: segment_split [of ?t "unat (outEnd e)" k])
    moreover have "take (off - a) (drop a src) = take (?s - a) (drop a src)
        @ take (unat (origEnd e) - ?s) (drop ?s src) @ take (off - unat (origEnd e)) (drop (unat (origEnd e)) src)"
      using e False Cons.prems(2)
      by (subst segment_split [of a ?s off]) (simp_all add: segment_split [of ?s "unat (origEnd e)" off])
    moreover have "keeps_lines src out e" using Cons.prems(5) by simp
    ultimately show ?thesis
      using IH e(6,7) by (simp add: count_lines_append keeps_lines_def)
  qed
qed

lemma u32_bound: "unat (w :: u32) < 2 ^ 32"
  using unsigned_less [of w, where 'a = nat] by simp

lemma shift_exact: "0 \<le> n \<Longrightarrow> n < 2 ^ 32 \<Longrightarrow> uint off + d = n \<Longrightarrow> unat (shift off d) = nat n"
  by (simp add: shift_def unsigned_of_int take_bit_int_eq_self)

lemma edits_line_preserving:
  assumes "list_all2 (edit_of src out) ts es" and "list_all (\<lambda>s. check_splice src s = None) ts" and "line_preserving ts"
  shows "list_all (keeps_lines src out) es"
  using assms
proof (induction rule: list_all2_induct)
  case (Cons s ts e es)
  have "span_slice (Span s) src = Inr (Original s)" using Cons.prems(1) check_splice_None by simp
  then have "keeps_lines src out e"
    using Cons.hyps(1) Cons.prems(2) by (simp add: keeps_lines_def edit_of_def span_slice_Inr line_preserving_def)
  with Cons show ?case by (simp add: line_preserving_def)
qed simp

text \<open>
  C35. The offset map is faithful. After a successful \<open>Apply\<close>, every offset of the source
  outside the replaced spans is mapped exactly: \<open>ToOutput\<close> succeeds, \<open>ToOriginal\<close> takes the
  result back, the byte there is the byte of the source, and when the splices preserve lines,
  the line number there is the line number in the source. No 32-bit offset wraps around.
\<close>

theorem splice_offsets:
  "case apply_splices src ss of Inl err \<Rightarrow> True
   | Inr (out, m) \<Rightarrow>
       (if unat off \<le> length src \<and> list_all (\<lambda>s. \<not> (StartByte (Span s) \<le> off \<and> off < EndByte (Span s))) ss
        then snd (to_output m off) \<and> to_original m (fst (to_output m off)) = (off, True)
          \<and> (if unat off < length src then out ! unat (fst (to_output m off)) = src ! unat off
             else unat (fst (to_output m off)) = length out)
          \<and> (if line_preserving ss
             then count_lines (take (unat (fst (to_output m off))) out) = count_lines (take (unat off) src) else True)
        else True)"
proof (cases "apply_splices src ss")
  case (Inr y)
  obtain out m where y: "y = (out, m)" by (cases y)
  obtain ts where ts: "mset ts = mset ss" "laid src out 0 0 (edits m)" "list_all2 (edit_of src out) ts (edits m)"
    "unat (srcLen m) = length src" "unat (outLen m) = length out" "list_all (\<lambda>s. check_splice src s = None) ss"
    using Inr y apply_laid by blast
  have set: "set ts = set ss" using ts(1) by (rule mset_eq_setD)
  show ?thesis
  proof (cases "unat off \<le> length src \<and> list_all (\<lambda>s. \<not> (StartByte (Span s) \<le> off \<and> off < EndByte (Span s))) ss")
    case True
    have "list_all (\<lambda>s. \<not> (StartByte (Span s) \<le> off \<and> off < EndByte (Span s))) ts"
      using True set by (simp add: list_all_iff)
    with ts(3) have outside: "list_all (\<lambda>e. \<not> (unat (origStart e) \<le> unat off \<and> unat off < unat (origEnd e))) (edits m)"
      by (induction rule: list_all2_induct) (simp_all add: edit_of_def word_le_nat_alt word_less_nat_alt)
    let ?f = "find (\<lambda>e. unat off < unat (origEnd e)) (edits m)"
    obtain k where k: "int k = moved src out (unat off) ?f" "k \<le> length out"
      "find (\<lambda>e. k < unat (outEnd e)) (edits m) = ?f"
      "case ?f of None \<Rightarrow> True | Some e \<Rightarrow> unat off \<le> unat (origStart e) \<and> k \<le> unat (outStart e)"
      "unat off < length src \<longrightarrow> k < length out \<and> out ! k = src ! unat off"
      using laid_moved [OF ts(2) _ _ outside] True by auto
    have lens: "uint (srcLen m) = int (length src)" "uint (outLen m) = int (length out)"
      by (simp_all only: uint_nat ts(4,5))
    have big: "length out < 2 ^ 32" using u32_bound [of "outLen m"] ts(5) by simp
    obtain o' where o': "to_output m off = (o', True)" "unat o' = k"
    proof -
      have le: "\<not> off > srcLen m" using True ts(4) by (simp add: word_less_nat_alt)
      have "fst (to_output m off) = shift off (case ?f of None \<Rightarrow> uint (outLen m) - uint (srcLen m)
          | Some e \<Rightarrow> uint (outStart e) - uint (origStart e))" "snd (to_output m off)"
        using le k(4) unfolding to_output_find [OF ts(2)]
        by (auto simp: word_less_nat_alt split: option.split)
      moreover have "unat (shift off (case ?f of None \<Rightarrow> uint (outLen m) - uint (srcLen m)
          | Some e \<Rightarrow> uint (outStart e) - uint (origStart e))) = nat (int k)"
      proof (rule shift_exact)
        show "uint off + (case ?f of None \<Rightarrow> uint (outLen m) - uint (srcLen m)
            | Some e \<Rightarrow> uint (outStart e) - uint (origStart e)) = int k"
          unfolding k(1) moved_def using lens by (simp split: option.split)
      qed (use k(2) big in auto)
      ultimately show ?thesis using that [of "fst (to_output m off)"] by (cases "to_output m off") simp
    qed
    have inverse: "to_original m o' = (off, True)"
    proof -
      have le: "\<not> o' > outLen m" using k(2) ts(5) o'(2) by (simp add: word_less_nat_alt)
      have find: "find (\<lambda>e. outEnd e > o') (edits m) = ?f" using k(3) o'(2) by (simp add: word_less_nat_alt)
      have "to_original m o' = (shift o' (case ?f of None \<Rightarrow> uint (srcLen m) - uint (outLen m)
          | Some e \<Rightarrow> uint (origStart e) - uint (outStart e)), True)"
        using le k(4) o'(2) unfolding to_original_find [OF ts(2)] find
        by (auto simp: word_less_nat_alt split: option.split)
      moreover have "unat (shift o' (case ?f of None \<Rightarrow> uint (srcLen m) - uint (outLen m)
          | Some e \<Rightarrow> uint (origStart e) - uint (outStart e))) = nat (int (unat off))"
      proof (rule shift_exact)
        show "uint o' + (case ?f of None \<Rightarrow> uint (srcLen m) - uint (outLen m)
            | Some e \<Rightarrow> uint (origStart e) - uint (outStart e)) = int (unat off)"
          using k(1) lens unfolding moved_def uint_nat o'(2) by (cases ?f) (simp_all add: lens)
        have "int (unat off) < int (2 ^ 32)" by (simp only: of_nat_less_iff u32_bound)
        then show "int (unat off) < 2 ^ 32" by (simp only: of_nat_power of_nat_numeral)
      qed simp
      ultimately show ?thesis by (simp add: word_unat_eq_iff)
    qed
    have lines: "count_lines (take k out) = count_lines (take (unat off) src)" if "line_preserving ss"
    proof -
      have "line_preserving ts" "list_all (\<lambda>s. check_splice src s = None) ts"
        using that ts(6) set by (simp_all add: line_preserving_def list_all_iff)
      from edits_line_preserving [OF ts(3) this(2,1)] show ?thesis
        using laid_lines [OF ts(2) _ _ outside _ k(1)] True by simp
    qed
    have "k = length out" if "\<not> unat off < length src"
    proof -
      have "?f = None"
      proof (cases ?f)
        case (Some e)
        then have "e \<in> set (edits m)" "unat off < unat (origEnd e)" by (auto simp: find_Some_iff)
        then have "unat off < length src" using laid_bound [OF ts(2)] by (meson less_le_trans)
        with that show ?thesis by simp
      qed simp
      then have "int k = int (unat off) + int (length out) - int (length src)"
        using k(1) unfolding moved_def by simp
      moreover have "unat off = length src" using that True by simp
      ultimately show ?thesis by linarith
    qed
    then show ?thesis using Inr y True o' inverse k(5) lines by auto
  next
    case False
    then show ?thesis using Inr y by auto
  qed
qed simp

end
