(* ===== verification/Config.thy ===== *)
theory Config
  imports Glob OperatorSelect Outcomes MutantId
begin

text \<open>
  The configuration (\<open>internal/config\<close>): its sections and defaults (\<open>config.go\<close>), the
  settings a file or the flags make (\<open>overlay.go\<close>, \<open>set.go\<close>), their checks
  (\<open>validate.go\<close>, \<open>errors.go\<close>), and how \<open>Load\<close> layers them. A \<open>Set\<close> is an option. A
  duration is a number of nanoseconds. Minimum scores are the finite doubles, as rationals.
  Errors keep their code, their key and their place; the texts of messages are left out.
\<close>

section \<open>Sections and defaults\<close>

definition ConfigVersion :: int where "ConfigVersion = 1"
definition MinJobs :: int where "MinJobs = 1"
definition MaxJobs :: int where "MaxJobs = 32"
definition DefaultJobCap :: int where "DefaultJobCap = 8"
definition MinBaselineRuns :: int where "MinBaselineRuns = 1"
definition MaxBaselineRuns :: int where "MaxBaselineRuns = 10"
definition DefaultBaselineRuns :: int where "DefaultBaselineRuns = 3"
definition MinPercent :: int where "MinPercent = 0"
definition MaxPercent :: int where "MaxPercent = 100"

lemmas config_bounds = ConfigVersion_def MinJobs_def MaxJobs_def DefaultJobCap_def
  MinBaselineRuns_def MaxBaselineRuns_def DefaultBaselineRuns_def MinPercent_def MaxPercent_def

type_synonym cache_setting = string
type_synonym narrowing = string
type_synonym probing = string
type_synonym report_format = string

definition CacheAuto :: cache_setting where "CacheAuto = ''auto''"
definition CacheOn :: cache_setting where "CacheOn = ''on''"
definition CacheOff :: cache_setting where "CacheOff = ''off''"
definition NarrowingTest :: narrowing where "NarrowingTest = ''test''"
definition NarrowingPackage :: narrowing where "NarrowingPackage = ''package''"
definition ProbingOff :: probing where "ProbingOff = ''off''"
definition ProbingOn :: probing where "ProbingOn = ''on''"
definition FormatJSON :: report_format where "FormatJSON = ''json''"
definition FormatHTML :: report_format where "FormatHTML = ''html''"

definition cache_setting_valid :: "cache_setting \<Rightarrow> bool" where
  "cache_setting_valid m \<longleftrightarrow> m = CacheAuto \<or> m = CacheOn \<or> m = CacheOff"

definition narrowing_valid :: "narrowing \<Rightarrow> bool" where
  "narrowing_valid n \<longleftrightarrow> n = NarrowingTest \<or> n = NarrowingPackage"

definition probing_valid :: "probing \<Rightarrow> bool" where
  "probing_valid p \<longleftrightarrow> p = ProbingOff \<or> p = ProbingOn"

definition format_valid :: "report_format \<Rightarrow> bool" where
  "format_valid f \<longleftrightarrow> f = FormatJSON \<or> f = FormatHTML"

definition report_formats :: "report_format list" where
  "report_formats = [FormatJSON, FormatHTML]"

lemmas config_names = CacheAuto_def CacheOn_def CacheOff_def NarrowingTest_def NarrowingPackage_def
  ProbingOff_def ProbingOn_def FormatJSON_def FormatHTML_def

record expectation_row =
  xr_ID :: string
  xr_Reason :: string

record mutation_section =
  Include :: "string list"
  Exclude :: "string list"
  Operators :: "string list"
  Profile :: tier
  Expect :: "expectation_row list"

record test_section =
  Command :: "string list"
  Timeout :: int
  Memory :: int
  BaselineRuns :: int
  Narrowing :: narrowing
  Probing :: probing

record execution_section =
  Jobs :: int
  Isolate :: bool

record cache_section =
  CacheMode :: cache_setting
  CacheDirectory :: string

record report_section =
  ReportDirectory :: string
  Formats :: "report_format list"
  High :: int
  Low :: int

record config =
  ConfVersion :: int
  Mutation :: mutation_section
  TestSec :: test_section
  Execution :: execution_section
  CacheSec :: cache_section
  Policy :: policy
  ReportSec :: report_section

text \<open>\<open>cpus\<close> is what \<open>runtime.NumCPU\<close> returns.\<close>

definition default_jobs :: "int \<Rightarrow> int" where
  "default_jobs cpus = min cpus DefaultJobCap"

definition default_test_command :: "string list" where
  "default_test_command = [''go'', ''test'', ''./...'']"

definition default_include :: "string list" where
  "default_include = [''**/*.go'']"

definition defaults_of :: "int \<Rightarrow> config" where
  "defaults_of cpus =
     \<lparr>ConfVersion = ConfigVersion,
      Mutation = \<lparr>Include = default_include, Exclude = [], Operators = [], Profile = TierBalanced,
        Expect = []\<rparr>,
      TestSec = \<lparr>Command = default_test_command, Timeout = 0, Memory = 0,
        BaselineRuns = DefaultBaselineRuns, Narrowing = NarrowingTest, Probing = ProbingOff\<rparr>,
      Execution = \<lparr>Jobs = default_jobs cpus, Isolate = False\<rparr>,
      CacheSec = \<lparr>CacheMode = CacheAuto, CacheDirectory = []\<rparr>,
      Policy = default_policy,
      ReportSec = \<lparr>ReportDirectory = ''reports/mutation'', Formats = report_formats,
        High = 80, Low = 60\<rparr>\<rparr>"

section \<open>Settings\<close>

record overlay =
  o_Version :: "int option"
  o_Include :: "string list option"
  o_Exclude :: "string list option"
  o_Operators :: "string list option"
  o_Profile :: "tier option"
  o_Expect :: "expectation_row list option"
  o_TestCommand :: "string list option"
  o_Timeout :: "int option"
  o_Memory :: "int option"
  o_BaselineRuns :: "int option"
  o_Narrowing :: "narrowing option"
  o_Probing :: "probing option"
  o_Jobs :: "int option"
  o_Isolate :: "bool option"
  o_CacheMode :: "cache_setting option"
  o_CacheDirectory :: "string option"
  o_Strict :: "bool option"
  o_MinimumScore :: "rat option"
  o_RequireMutants :: "bool option"
  o_ReportDirectory :: "string option"
  o_ReportFormats :: "report_format list option"
  o_ReportHigh :: "int option"
  o_ReportLow :: "int option"

definition set_or :: "'a option \<Rightarrow> 'a \<Rightarrow> 'a" where
  "set_or s fallback = (case s of None \<Rightarrow> fallback | Some v \<Rightarrow> v)"

definition set_when :: "bool \<Rightarrow> 'a \<Rightarrow> 'a option" where
  "set_when changed v = (if \<not> changed then None else Some v)"

definition set_equal :: "'a option \<Rightarrow> 'a option \<Rightarrow> bool" where
  "set_equal s other =
     (if (s \<noteq> None) \<noteq> (other \<noteq> None) then False
      else if s = None then True
      else the s = the other)"

definition empty_overlay :: overlay where
  "empty_overlay =
     \<lparr>o_Version = None, o_Include = None, o_Exclude = None, o_Operators = None, o_Profile = None,
      o_Expect = None, o_TestCommand = None, o_Timeout = None, o_Memory = None,
      o_BaselineRuns = None, o_Narrowing = None, o_Probing = None, o_Jobs = None,
      o_Isolate = None, o_CacheMode = None, o_CacheDirectory = None, o_Strict = None,
      o_MinimumScore = None, o_RequireMutants = None, o_ReportDirectory = None,
      o_ReportFormats = None, o_ReportHigh = None, o_ReportLow = None\<rparr>"

definition sets_anything :: "overlay \<Rightarrow> bool" where
  "sets_anything s \<longleftrightarrow>
     o_Version s \<noteq> None \<or> o_Include s \<noteq> None \<or> o_Exclude s \<noteq> None \<or> o_Operators s \<noteq> None
     \<or> o_Profile s \<noteq> None \<or> o_Expect s \<noteq> None \<or> o_TestCommand s \<noteq> None \<or> o_Timeout s \<noteq> None
     \<or> o_Memory s \<noteq> None \<or> o_BaselineRuns s \<noteq> None \<or> o_Narrowing s \<noteq> None \<or> o_Probing s \<noteq> None
     \<or> o_Jobs s \<noteq> None \<or> o_Isolate s \<noteq> None \<or> o_CacheMode s \<noteq> None
     \<or> o_CacheDirectory s \<noteq> None \<or> o_Strict s \<noteq> None \<or> o_MinimumScore s \<noteq> None
     \<or> o_RequireMutants s \<noteq> None \<or> o_ReportDirectory s \<noteq> None \<or> o_ReportFormats s \<noteq> None
     \<or> o_ReportHigh s \<noteq> None \<or> o_ReportLow s \<noteq> None"

definition overlay_is_empty :: "overlay \<Rightarrow> bool" where
  "overlay_is_empty s \<longleftrightarrow> \<not> sets_anything s"

definition canonical_directory :: "string \<Rightarrow> string" where
  "canonical_directory d = (case normalize_path d of Inl _ \<Rightarrow> d | Inr canonical \<Rightarrow> canonical)"

text \<open>\<open>apply\<close>: each setting that is made replaces the value of its section.\<close>

definition apply_overlay :: "config \<Rightarrow> overlay \<Rightarrow> config" where
  "apply_overlay c s =
     (let m = Mutation c; t = TestSec c; e = Execution c; k = CacheSec c; p = Policy c; r = ReportSec c in
      \<lparr>ConfVersion = set_or (o_Version s) (ConfVersion c),
       Mutation = \<lparr>Include = set_or (o_Include s) (Include m),
         Exclude = set_or (o_Exclude s) (Exclude m),
         Operators = set_or (o_Operators s) (Operators m),
         Profile = set_or (o_Profile s) (Profile m),
         Expect = set_or (o_Expect s) (Expect m)\<rparr>,
       TestSec = \<lparr>Command = set_or (o_TestCommand s) (Command t),
         Timeout = set_or (o_Timeout s) (Timeout t),
         Memory = set_or (o_Memory s) (Memory t),
         BaselineRuns = set_or (o_BaselineRuns s) (BaselineRuns t),
         Narrowing = set_or (o_Narrowing s) (Narrowing t),
         Probing = set_or (o_Probing s) (Probing t)\<rparr>,
       Execution = \<lparr>Jobs = set_or (o_Jobs s) (Jobs e), Isolate = set_or (o_Isolate s) (Isolate e)\<rparr>,
       CacheSec = \<lparr>CacheMode = set_or (o_CacheMode s) (CacheMode k),
         CacheDirectory = set_or (map_option canonical_directory (o_CacheDirectory s)) (CacheDirectory k)\<rparr>,
       Policy = \<lparr>Strict = set_or (o_Strict s) (Strict p),
         MinimumScore = set_or (o_MinimumScore s) (MinimumScore p),
         RequireMutants = set_or (o_RequireMutants s) (RequireMutants p)\<rparr>,
       ReportSec =
         \<lparr>ReportDirectory = set_or (map_option canonical_directory (o_ReportDirectory s)) (ReportDirectory r),
         Formats = set_or (o_ReportFormats s) (Formats r),
         High = set_or (o_ReportHigh s) (High r),
         Low = set_or (o_ReportLow s) (Low r)\<rparr>\<rparr>)"

definition merge_overlays :: "config \<Rightarrow> overlay list \<Rightarrow> config" where
  "merge_overlays defaults layers = foldl apply_overlay defaults layers"

definition merge_config :: "config \<Rightarrow> overlay \<Rightarrow> overlay \<Rightarrow> config" where
  "merge_config defaults file flags = apply_overlay (apply_overlay defaults file) flags"

text \<open>\<open>Config.overlay\<close>: the values of a configuration as settings, to be checked again.\<close>

definition config_overlay :: "config \<Rightarrow> overlay" where
  "config_overlay c =
     empty_overlay
       \<lparr>o_Version := Some (ConfVersion c),
        o_Include := Some (Include (Mutation c)),
        o_Exclude := Some (Exclude (Mutation c)),
        o_Operators := Some (Operators (Mutation c)),
        o_Profile := Some (Profile (Mutation c)),
        o_Expect := Some (Expect (Mutation c)),
        o_TestCommand := Some (Command (TestSec c)),
        o_BaselineRuns := Some (BaselineRuns (TestSec c)),
        o_Narrowing := Some (Narrowing (TestSec c)),
        o_Probing := Some (Probing (TestSec c)),
        o_Jobs := Some (Jobs (Execution c)),
        o_CacheMode := Some (CacheMode (CacheSec c)),
        o_Strict := Some (Strict (Policy c)),
        o_MinimumScore := Some (MinimumScore (Policy c)),
        o_RequireMutants := Some (RequireMutants (Policy c)),
        o_ReportDirectory := Some (ReportDirectory (ReportSec c)),
        o_ReportFormats := Some (Formats (ReportSec c)),
        o_ReportHigh := Some (High (ReportSec c)),
        o_ReportLow := Some (Low (ReportSec c)),
        o_Timeout := (if Timeout (TestSec c) \<noteq> 0 then Some (Timeout (TestSec c)) else None),
        o_Memory := (if Memory (TestSec c) \<noteq> 0 then Some (Memory (TestSec c)) else None),
        o_CacheDirectory :=
          (if CacheDirectory (CacheSec c) \<noteq> [] then Some (CacheDirectory (CacheSec c)) else None)\<rparr>"

end
