(* ===== verification/ConfigCheck.thy ===== *)
theory ConfigCheck
  imports Config
begin

text \<open>
  The checks of a configuration (\<open>validate.go\<close>) with the errors they report (\<open>errors.go\<close>), and
  \<open>Load\<close>. A file is checked as it is read, the flags are checked on their own, and the merged
  configuration is checked once more; the theorems say what that last check can still find.
\<close>

section \<open>Errors\<close>

datatype config_code =
    CodeUnreadable | CodeInvalidTOML | CodeUnknownKey | CodeMissingVersion | CodeUnsupportedVersion
  | CodeInvalidGlob | CodeUnknownOperator | CodeUnknownProfile | CodeInvalidExpectationID
  | CodeDuplicateExpectation | CodeEmptyExpectationReason | CodeDuplicateOperator
  | CodeEmptyTestCommand | CodeInvalidDuration | CodeNonPositiveTimeout | CodeBaselineRunsOutOfRange
  | CodeEmptyCommandName | CodeInvalidSize | CodeNonPositiveMemory | CodeUnknownNarrowing
  | CodeUnknownProbing | CodeJobsOutOfRange | CodeUnknownCacheMode | CodeInvalidCacheDirectory
  | CodeMinimumScoreOutOfRange | CodeInvalidReportDirectory | CodeUnknownReportFormat
  | CodeDuplicateReportFormat | CodeThresholdOutOfRange | CodeThresholdsInverted

record place =
  Line :: int
  Column :: int

definition place_known :: "place \<Rightarrow> bool" where
  "place_known p \<longleftrightarrow> Line p > 0"

definition no_place :: place where "no_place = \<lparr>Line = 0, Column = 0\<rparr>"

definition place_string :: "place \<Rightarrow> string" where
  "place_string p =
     (if \<not> place_known p then ''-''
      else itoa (Line p) @ (if Column p > 0 then '':'' @ itoa (Column p) else []))"

record config_error =
  ce_Code :: config_code
  ce_File :: string
  ce_Position :: place
  ce_Key :: string

datatype origin = OriginFile | OriginFlag

definition flag_names :: "string \<rightharpoonup> string" where
  "flag_names = map_of
     [(''mutation.include'', ''--include''), (''mutation.exclude'', ''--exclude''),
      (''mutation.operators'', ''--operator''), (''mutation.profile'', ''--profile''),
      (''test.command'', ''-- <test argv>''), (''test.timeout'', ''--timeout''),
      (''test.memory'', ''--memory''), (''execution.jobs'', ''--jobs''),
      (''execution.isolate'', ''--isolate''), (''cache.mode'', ''--cache''),
      (''policy.strict'', ''--strict''), (''report.formats'', ''--report'')]"

definition base_key :: "string \<Rightarrow> string" where
  "base_key key = takeWhile (\<lambda>c. c \<noteq> CHR ''['') key"

record reporter =
  rep_origin :: origin
  rep_file :: string
  rep_positions :: "string \<rightharpoonup> place"

definition file_reporter :: "string \<Rightarrow> (string \<rightharpoonup> place) \<Rightarrow> reporter" where
  "file_reporter file ps = \<lparr>rep_origin = OriginFile, rep_file = file, rep_positions = ps\<rparr>"

definition flag_reporter :: reporter where
  "flag_reporter = \<lparr>rep_origin = OriginFlag, rep_file = [], rep_positions = Map.empty\<rparr>"

definition merged_reporter :: reporter where
  "merged_reporter = \<lparr>rep_origin = OriginFile, rep_file = [], rep_positions = Map.empty\<rparr>"

definition reported_name :: "reporter \<Rightarrow> string \<Rightarrow> string" where
  "reported_name r key =
     (if rep_origin r \<noteq> OriginFlag then key
      else (case flag_names key of
              Some flag \<Rightarrow> flag
            | None \<Rightarrow> (case flag_names (base_key key) of Some flag \<Rightarrow> flag | None \<Rightarrow> key)))"

definition reported_at :: "reporter \<Rightarrow> string \<Rightarrow> place" where
  "reported_at r key = (case rep_positions r key of Some p \<Rightarrow> p | None \<Rightarrow> no_place)"

definition errorf :: "reporter \<Rightarrow> config_code \<Rightarrow> string \<Rightarrow> config_error" where
  "errorf r code key =
     \<lparr>ce_Code = code, ce_File = rep_file r, ce_Position = reported_at r key,
      ce_Key = reported_name r key\<rparr>"

section \<open>Checks of single settings\<close>

definition element_key :: "string \<Rightarrow> nat \<Rightarrow> string" where
  "element_key key i = key @ ''['' @ itoa (int i) @ '']''"

definition in_percent_range :: "int \<Rightarrow> bool" where
  "in_percent_range v \<longleftrightarrow> v \<ge> MinPercent \<and> v \<le> MaxPercent"

definition in_percent_range_float :: "rat \<Rightarrow> bool" where
  "in_percent_range_float v \<longleftrightarrow> v \<ge> of_int MinPercent \<and> v \<le> of_int MaxPercent"

definition relative_directory :: "string \<Rightarrow> id_error + string" where
  "relative_directory d = normalize_path d"

fun validate_patterns :: "string list \<Rightarrow> string \<Rightarrow> nat \<Rightarrow> reporter \<Rightarrow> config_error list" where
  "validate_patterns [] key i r = []"
| "validate_patterns (p # ps) key i r =
     (case compile p of Inl _ \<Rightarrow> [errorf r CodeInvalidGlob (element_key key i)] | Inr _ \<Rightarrow> [])
     @ validate_patterns ps key (Suc i) r"

text \<open>\<open>seen\<close> holds the names already selected.\<close>

fun validate_operators :: "string list \<Rightarrow> string list \<Rightarrow> nat \<Rightarrow> reporter \<Rightarrow> config_error list" where
  "validate_operators seen [] i r = []"
| "validate_operators seen (name # names) i r =
     (let key = element_key ''mutation.operators'' i in
      if name \<in> set seen then errorf r CodeDuplicateOperator key # validate_operators seen names (Suc i) r
      else if family_position canonical_registry name \<noteq> None then
        validate_operators (name # seen) names (Suc i) r
      else if lookup canonical_registry name \<noteq> None then
        validate_operators (name # seen) names (Suc i) r
      else errorf r CodeUnknownOperator key # validate_operators (name # seen) names (Suc i) r)"

fun validate_expectations :: "string list \<Rightarrow> expectation_row list \<Rightarrow> nat \<Rightarrow> reporter \<Rightarrow> config_error list" where
  "validate_expectations seen [] i r = []"
| "validate_expectations seen (x # xs) i r =
     (let key = element_key ''mutation.expect'' i;
          (problem, seen') =
            (if xr_ID x = [] then ([errorf r CodeInvalidExpectationID (key @ ''.id'')], seen)
             else if \<not> is_id (xr_ID x) then ([errorf r CodeInvalidExpectationID (key @ ''.id'')], seen)
             else if xr_ID x \<in> set seen then ([errorf r CodeDuplicateExpectation (key @ ''.id'')], seen)
             else ([], xr_ID x # seen))
      in problem
         @ (if trim_space (xr_Reason x) = [] then [errorf r CodeEmptyExpectationReason (key @ ''.reason'')] else [])
         @ validate_expectations seen' xs (Suc i) r)"

definition validate_command :: "string list \<Rightarrow> reporter \<Rightarrow> config_error list" where
  "validate_command command r =
     (if length command = 0 then [errorf r CodeEmptyTestCommand ''test.command'']
      else if trim_space (hd command) = [] then
        [errorf r CodeEmptyCommandName (element_key ''test.command'' 0)]
      else [])"

fun validate_formats :: "report_format list \<Rightarrow> report_format list \<Rightarrow> nat \<Rightarrow> reporter \<Rightarrow> config_error list" where
  "validate_formats seen [] i r = []"
| "validate_formats seen (f # fs) i r =
     (let key = element_key ''report.formats'' i in
      if \<not> format_valid f then errorf r CodeUnknownReportFormat key # validate_formats seen fs (Suc i) r
      else if f \<in> set seen then errorf r CodeDuplicateReportFormat key # validate_formats seen fs (Suc i) r
      else validate_formats (f # seen) fs (Suc i) r)"

section \<open>Checks of all settings\<close>

text \<open>A setting that is made is checked; one that is not made is not.\<close>

definition checked :: "'a option \<Rightarrow> ('a \<Rightarrow> config_error list) \<Rightarrow> config_error list" where
  "checked setting check = (case setting of None \<Rightarrow> [] | Some v \<Rightarrow> check v)"

definition complain :: "bool \<Rightarrow> config_error \<Rightarrow> config_error list" where
  "complain wrong err = (if wrong then [err] else [])"

definition validate_directory :: "config_code \<Rightarrow> string \<Rightarrow> string \<Rightarrow> reporter \<Rightarrow> config_error list" where
  "validate_directory code key d r =
     (case relative_directory d of Inl _ \<Rightarrow> [errorf r code key] | Inr _ \<Rightarrow> [])"

definition validate_overlay :: "overlay \<Rightarrow> reporter \<Rightarrow> config_error list" where
  "validate_overlay s r =
     checked (o_Version s) (\<lambda>v. complain (v \<noteq> ConfigVersion) (errorf r CodeUnsupportedVersion ''version''))
   @ checked (o_Include s) (\<lambda>ps. validate_patterns ps ''mutation.include'' 0 r)
   @ checked (o_Exclude s) (\<lambda>ps. validate_patterns ps ''mutation.exclude'' 0 r)
   @ checked (o_Operators s) (\<lambda>names. validate_operators [] names 0 r)
   @ checked (o_Profile s) (\<lambda>t. complain (\<not> tier_valid t) (errorf r CodeUnknownProfile ''mutation.profile''))
   @ checked (o_Expect s) (\<lambda>xs. validate_expectations [] xs 0 r)
   @ checked (o_TestCommand s) (\<lambda>command. validate_command command r)
   @ checked (o_Timeout s) (\<lambda>d. complain (d \<le> 0) (errorf r CodeNonPositiveTimeout ''test.timeout''))
   @ checked (o_Memory s) (\<lambda>n. complain (n \<le> 0) (errorf r CodeNonPositiveMemory ''test.memory''))
   @ checked (o_BaselineRuns s) (\<lambda>n. complain (n < MinBaselineRuns \<or> n > MaxBaselineRuns)
       (errorf r CodeBaselineRunsOutOfRange ''test.baseline_runs''))
   @ checked (o_Probing s) (\<lambda>p. complain (\<not> probing_valid p) (errorf r CodeUnknownProbing ''test.probing''))
   @ checked (o_Narrowing s) (\<lambda>n. complain (\<not> narrowing_valid n) (errorf r CodeUnknownNarrowing ''test.narrowing''))
   @ checked (o_Jobs s) (\<lambda>n. complain (n < MinJobs \<or> n > MaxJobs) (errorf r CodeJobsOutOfRange ''execution.jobs''))
   @ checked (o_CacheMode s) (\<lambda>m. complain (\<not> cache_setting_valid m) (errorf r CodeUnknownCacheMode ''cache.mode''))
   @ checked (o_CacheDirectory s) (\<lambda>d. validate_directory CodeInvalidCacheDirectory ''cache.directory'' d r)
   @ checked (o_MinimumScore s) (\<lambda>v. complain (\<not> in_percent_range_float v)
       (errorf r CodeMinimumScoreOutOfRange ''policy.minimum_score''))
   @ checked (o_ReportDirectory s) (\<lambda>d. validate_directory CodeInvalidReportDirectory ''report.directory'' d r)
   @ checked (o_ReportFormats s) (\<lambda>fs. validate_formats [] fs 0 r)
   @ checked (o_ReportHigh s) (\<lambda>n. complain (\<not> in_percent_range n) (errorf r CodeThresholdOutOfRange ''report.high''))
   @ checked (o_ReportLow s) (\<lambda>n. complain (\<not> in_percent_range n) (errorf r CodeThresholdOutOfRange ''report.low''))"

definition overlay_validate :: "overlay \<Rightarrow> config_error list" where
  "overlay_validate s = validate_overlay s flag_reporter"

definition config_validate :: "config \<Rightarrow> config_error list" where
  "config_validate c =
     (let r = merged_reporter; low = Low (ReportSec c); high = High (ReportSec c) in
      validate_overlay (config_overlay c) r
      @ (if in_percent_range low \<and> in_percent_range high \<and> low > high
         then [errorf r CodeThresholdsInverted ''report.low''] else []))"

section \<open>Flags and loading\<close>

definition flag_error :: "config_code \<Rightarrow> string \<Rightarrow> config_error" where
  "flag_error code key =
     \<lparr>ce_Code = code, ce_File = [], ce_Position = no_place, ce_Key = the (flag_names key)\<rparr>"

definition parse_profile :: "string \<Rightarrow> config_error + tier" where
  "parse_profile name =
     (case parse_tier name of
        Inl _ \<Rightarrow> Inl (flag_error CodeUnknownProfile ''mutation.profile'')
      | Inr t \<Rightarrow> Inr t)"

definition parse_cache_mode :: "string \<Rightarrow> config_error + cache_setting" where
  "parse_cache_mode name =
     (if \<not> cache_setting_valid name then Inl (flag_error CodeUnknownCacheMode ''cache.mode'') else Inr name)"

definition parse_report_formats :: "string \<Rightarrow> config_error list + report_format list" where
  "parse_report_formats value =
     (if trim_space value = ''none'' then Inr []
      else
        (let formats = map trim_space (split_on CHR '','' value);
             problems = validate_formats [] formats 0 flag_reporter
         in if problems \<noteq> [] then Inl problems else Inr formats))"

text \<open>
  What reading a file finds. The decoder of TOML is a library: \<open>Inl\<close> holds the errors of its first
  pass, which only looks for the version; \<open>cd_Settings\<close> is the strict second pass, with its errors or
  else the values that are no profile, duration or size and the settings made
  (\<open>document.overlay\<close>).
\<close>

record config_document =
  cd_Version :: "int option"
  cd_Positions :: "string \<rightharpoonup> place"
  cd_Settings :: "config_error list + config_error list \<times> overlay"

datatype config_content = NoFile | UnreadableFile | Content "config_error list + config_document"

definition parse_settings :: "string \<Rightarrow> config_error list + config_document \<Rightarrow> config_error list + overlay" where
  "parse_settings path decoded =
     (case decoded of
        Inl errs \<Rightarrow> Inl errs
      | Inr d \<Rightarrow>
          (let r = file_reporter path (cd_Positions d) in
           case cd_Version d of
             None \<Rightarrow> Inl [\<lparr>ce_Code = CodeMissingVersion, ce_File = path, ce_Position = no_place, ce_Key = ''version''\<rparr>]
           | Some v \<Rightarrow>
               if v \<noteq> ConfigVersion then Inl [errorf r CodeUnsupportedVersion ''version'']
               else (case cd_Settings d of
                 Inl errs \<Rightarrow> Inl errs
               | Inr (problems, s) \<Rightarrow>
                   if problems @ validate_overlay s r \<noteq> [] then Inl (problems @ validate_overlay s r)
                   else Inr s)))"

definition load_file :: "string \<Rightarrow> config_content \<Rightarrow> config_error list + overlay" where
  "load_file path content =
     (case content of
        NoFile \<Rightarrow> Inr empty_overlay
      | UnreadableFile \<Rightarrow> Inl [\<lparr>ce_Code = CodeUnreadable, ce_File = path, ce_Position = no_place, ce_Key = []\<rparr>]
      | Content decoded \<Rightarrow> parse_settings path decoded)"

definition load_config :: "int \<Rightarrow> string \<Rightarrow> config_content \<Rightarrow> overlay \<Rightarrow> config_error list + config" where
  "load_config cpus path content flags =
     (case load_file path content of
        Inl errs \<Rightarrow> Inl errs
      | Inr settings \<Rightarrow>
          if overlay_validate flags \<noteq> [] then Inl (overlay_validate flags)
          else
            (let resolved = merge_config (defaults_of cpus) settings flags in
             if config_validate resolved \<noteq> [] then Inl (config_validate resolved) else Inr resolved))"

section \<open>What the checks accept\<close>

definition holds :: "('a \<Rightarrow> bool) \<Rightarrow> 'a option \<Rightarrow> bool" where
  "holds P s = (case s of None \<Rightarrow> True | Some v \<Rightarrow> P v)"

definition patterns_ok :: "string list \<Rightarrow> bool" where
  "patterns_ok ps = list_all (\<lambda>p. case compile p of Inl _ \<Rightarrow> False | Inr _ \<Rightarrow> True) ps"

definition known_operator :: "string \<Rightarrow> bool" where
  "known_operator name \<longleftrightarrow>
     family_position canonical_registry name \<noteq> None \<or> lookup canonical_registry name \<noteq> None"

definition expectations_ok :: "expectation_row list \<Rightarrow> bool" where
  "expectations_ok xs \<longleftrightarrow>
     list_all (\<lambda>x. is_id (xr_ID x) \<and> trim_space (xr_Reason x) \<noteq> []) xs \<and> distinct (map xr_ID xs)"

definition directory_ok :: "string \<Rightarrow> bool" where
  "directory_ok d = (case normalize_path d of Inl _ \<Rightarrow> False | Inr _ \<Rightarrow> True)"

definition overlay_ok :: "overlay \<Rightarrow> bool" where
  "overlay_ok s \<longleftrightarrow>
     holds (\<lambda>v. v = 1) (o_Version s)
     \<and> holds patterns_ok (o_Include s) \<and> holds patterns_ok (o_Exclude s)
     \<and> holds (\<lambda>names. list_all known_operator names \<and> distinct names) (o_Operators s)
     \<and> holds tier_valid (o_Profile s) \<and> holds expectations_ok (o_Expect s)
     \<and> holds (\<lambda>command. command \<noteq> [] \<and> trim_space (hd command) \<noteq> []) (o_TestCommand s)
     \<and> holds (\<lambda>d. 0 < d) (o_Timeout s) \<and> holds (\<lambda>n. 0 < n) (o_Memory s)
     \<and> holds (\<lambda>n. 1 \<le> n \<and> n \<le> 10) (o_BaselineRuns s)
     \<and> holds (\<lambda>p. p \<in> {''off'', ''on''}) (o_Probing s)
     \<and> holds (\<lambda>n. n \<in> {''test'', ''package''}) (o_Narrowing s)
     \<and> holds (\<lambda>n. 1 \<le> n \<and> n \<le> 32) (o_Jobs s)
     \<and> holds (\<lambda>m. m \<in> {''auto'', ''on'', ''off''}) (o_CacheMode s)
     \<and> holds directory_ok (o_CacheDirectory s)
     \<and> holds (\<lambda>v. 0 \<le> v \<and> v \<le> 100) (o_MinimumScore s)
     \<and> holds directory_ok (o_ReportDirectory s)
     \<and> holds (\<lambda>fs. set fs \<subseteq> {''json'', ''html''} \<and> distinct fs) (o_ReportFormats s)
     \<and> holds (\<lambda>n. 0 \<le> n \<and> n \<le> 100) (o_ReportHigh s)
     \<and> holds (\<lambda>n. 0 \<le> n \<and> n \<le> 100) (o_ReportLow s)"

lemma setting_holds_simps [simp]: "holds P None" "holds P (Some v) = P v"
  by (simp_all add: holds_def)

lemma holds_set_or: "holds P s \<Longrightarrow> P d \<Longrightarrow> P (set_or s d)"
  by (cases s) (simp_all add: set_or_def)

lemma checked_Nil: "checked s f = [] \<longleftrightarrow> holds (\<lambda>v. f v = []) s"
  by (simp add: checked_def holds_def split: option.splits)

lemma complain_Nil [simp]: "complain b e = [] \<longleftrightarrow> \<not> b"
  by (simp add: complain_def)

lemma patterns_Nil: "validate_patterns ps key i r = [] \<longleftrightarrow> patterns_ok ps"
  by (induction ps arbitrary: i) (auto simp: patterns_ok_def split: sum.splits)

lemma operators_Nil:
  "validate_operators seen names i r = []
   \<longleftrightarrow> list_all known_operator names \<and> distinct names \<and> set names \<inter> set seen = {}"
  by (induction names arbitrary: seen i) (auto simp: known_operator_def Let_def)

lemma is_id_nonempty: "is_id s \<Longrightarrow> s \<noteq> []"
  by (auto simp: is_id_def is_lower_hex_def IDHexLength_def)

lemma expectations_Nil:
  "validate_expectations seen xs i r = []
   \<longleftrightarrow> expectations_ok xs \<and> set (map xr_ID xs) \<inter> set seen = {}"
proof (induction xs arbitrary: seen i)
  case Nil
  then show ?case by (simp add: expectations_ok_def)
next
  case (Cons x xs)
  then show ?case
    by (auto simp: expectations_ok_def Let_def dest: is_id_nonempty)
qed

lemma command_Nil:
  "validate_command command r = [] \<longleftrightarrow> command \<noteq> [] \<and> trim_space (hd command) \<noteq> []"
  by (auto simp: validate_command_def)

lemma formats_Nil:
  "validate_formats seen fs i r = []
   \<longleftrightarrow> set fs \<subseteq> {''json'', ''html''} \<and> distinct fs \<and> set fs \<inter> set seen = {}"
  by (induction fs arbitrary: seen i)
    (auto simp: format_valid_def FormatJSON_def FormatHTML_def Let_def)

lemma directory_Nil: "validate_directory code key d r = [] \<longleftrightarrow> directory_ok d"
  by (simp add: validate_directory_def relative_directory_def directory_ok_def split: sum.splits)

lemmas check_Nil = checked_Nil patterns_Nil operators_Nil expectations_Nil command_Nil formats_Nil
  directory_Nil

lemma validate_overlay_Nil: "validate_overlay s r = [] \<longleftrightarrow> overlay_ok s"
  by (simp add: validate_overlay_def overlay_ok_def check_Nil config_bounds config_names
      probing_valid_def narrowing_valid_def cache_setting_valid_def in_percent_range_def
      in_percent_range_float_def not_less not_le)

text \<open>
  C19. The checks of settings are exact: they report nothing just when every setting that is
  made is well formed -- patterns compile, operators are known families or rules named
  once, expectations have distinct full identifiers and reasons, the command has a program,
  numbers are in range, modes are among the named ones, directories stay inside their tree --
  and that does not depend on where the settings come from.
\<close>

theorem validate_overlay_exact:
  "(validate_overlay s r = [] \<longleftrightarrow> overlay_ok s)
   \<and> (overlay_validate s = [] \<longleftrightarrow> overlay_ok s)
   \<and> (config_validate c = [] \<longleftrightarrow> overlay_ok (config_overlay c) \<and> Low (ReportSec c) \<le> High (ReportSec c))"
proof -
  have low: "overlay_ok (config_overlay c) \<Longrightarrow>
      in_percent_range (Low (ReportSec c)) \<and> in_percent_range (High (ReportSec c))"
    by (simp add: overlay_ok_def config_overlay_def empty_overlay_def in_percent_range_def config_bounds)
  then show ?thesis
    by (auto simp: validate_overlay_Nil overlay_validate_def config_validate_def Let_def)
qed

section \<open>Layers\<close>

text \<open>The value of a setting: the flag's, else the file's, else the default.\<close>

definition pick :: "'a option \<Rightarrow> 'a option \<Rightarrow> 'a \<Rightarrow> 'a" where
  "pick flag file d = (case flag of Some v \<Rightarrow> v | None \<Rightarrow> (case file of Some v \<Rightarrow> v | None \<Rightarrow> d))"

text \<open>A directory is kept in its normal form; the default is taken as it is.\<close>

definition directory_picked :: "string option \<Rightarrow> string option \<Rightarrow> string \<Rightarrow> string \<Rightarrow> bool" where
  "directory_picked flag file d x \<longleftrightarrow>
     (case flag of Some v \<Rightarrow> normalize_path v = Inr x
      | None \<Rightarrow> (case file of Some v \<Rightarrow> normalize_path v = Inr x | None \<Rightarrow> x = d))"

text \<open>The configuration in which every setting has the value of the topmost layer that makes it.\<close>

definition layered :: "int \<Rightarrow> overlay \<Rightarrow> overlay \<Rightarrow> config \<Rightarrow> bool" where
  "layered cpus s t c \<longleftrightarrow>
     ConfVersion c = pick (o_Version t) (o_Version s) 1
     \<and> Include (Mutation c) = pick (o_Include t) (o_Include s) [''**/*.go'']
     \<and> Exclude (Mutation c) = pick (o_Exclude t) (o_Exclude s) []
     \<and> Operators (Mutation c) = pick (o_Operators t) (o_Operators s) []
     \<and> Profile (Mutation c) = pick (o_Profile t) (o_Profile s) TierBalanced
     \<and> Expect (Mutation c) = pick (o_Expect t) (o_Expect s) []
     \<and> Command (TestSec c) = pick (o_TestCommand t) (o_TestCommand s) [''go'', ''test'', ''./...'']
     \<and> Timeout (TestSec c) = pick (o_Timeout t) (o_Timeout s) 0
     \<and> Memory (TestSec c) = pick (o_Memory t) (o_Memory s) 0
     \<and> BaselineRuns (TestSec c) = pick (o_BaselineRuns t) (o_BaselineRuns s) 3
     \<and> Narrowing (TestSec c) = pick (o_Narrowing t) (o_Narrowing s) ''test''
     \<and> Probing (TestSec c) = pick (o_Probing t) (o_Probing s) ''off''
     \<and> Jobs (Execution c) = pick (o_Jobs t) (o_Jobs s) (min cpus 8)
     \<and> Isolate (Execution c) = pick (o_Isolate t) (o_Isolate s) False
     \<and> CacheMode (CacheSec c) = pick (o_CacheMode t) (o_CacheMode s) ''auto''
     \<and> directory_picked (o_CacheDirectory t) (o_CacheDirectory s) [] (CacheDirectory (CacheSec c))
     \<and> Strict (Policy c) = pick (o_Strict t) (o_Strict s) False
     \<and> MinimumScore (Policy c) = pick (o_MinimumScore t) (o_MinimumScore s) 0
     \<and> RequireMutants (Policy c) = pick (o_RequireMutants t) (o_RequireMutants s) True
     \<and> directory_picked (o_ReportDirectory t) (o_ReportDirectory s) ''reports/mutation''
         (ReportDirectory (ReportSec c))
     \<and> Formats (ReportSec c) = pick (o_ReportFormats t) (o_ReportFormats s) [''json'', ''html'']
     \<and> High (ReportSec c) = pick (o_ReportHigh t) (o_ReportHigh s) 80
     \<and> Low (ReportSec c) = pick (o_ReportLow t) (o_ReportLow s) 60"

text \<open>The settings a file makes, when it can be read and every value in it is one.\<close>

definition settings_in :: "config_content \<Rightarrow> overlay option" where
  "settings_in content =
     (case content of
        NoFile \<Rightarrow> Some empty_overlay
      | Content (Inr d) \<Rightarrow>
          (if cd_Version d = Some 1 then (case cd_Settings d of Inr ([], s) \<Rightarrow> Some s | _ \<Rightarrow> None) else None)
      | _ \<Rightarrow> None)"

lemma overlay_ok_empty: "overlay_ok empty_overlay"
  by (simp add: overlay_ok_def empty_overlay_def)

lemma load_file_Inr:
  "load_file path content = Inr s \<longleftrightarrow> settings_in content = Some s \<and> overlay_ok s"
  by (auto simp: load_file_def parse_settings_def settings_in_def validate_overlay_Nil overlay_ok_empty
      Let_def config_bounds split: config_content.splits sum.splits option.splits if_splits list.splits)

lemma set_or_pick: "set_or t (set_or s d) = pick t s d"
  by (simp add: set_or_def pick_def split: option.splits)

lemma directory_picked_iff:
  assumes "holds directory_ok t" and "holds directory_ok s"
  shows "directory_picked t s d x \<longleftrightarrow>
    x = set_or (map_option canonical_directory t) (set_or (map_option canonical_directory s) d)"
  using assms
  by (auto simp: directory_picked_def set_or_def canonical_directory_def directory_ok_def
      split: option.splits sum.splits)

text \<open>Configurations that agree on every setting are equal.\<close>

lemma config_eq_iff:
  "(c::config) = d \<longleftrightarrow>
     ConfVersion c = ConfVersion d \<and> Include (Mutation c) = Include (Mutation d)
     \<and> Exclude (Mutation c) = Exclude (Mutation d)
     \<and> Operators (Mutation c) = Operators (Mutation d)
     \<and> Profile (Mutation c) = Profile (Mutation d)
     \<and> Expect (Mutation c) = Expect (Mutation d)
     \<and> Command (TestSec c) = Command (TestSec d)
     \<and> Timeout (TestSec c) = Timeout (TestSec d) \<and> Memory (TestSec c) = Memory (TestSec d)
     \<and> BaselineRuns (TestSec c) = BaselineRuns (TestSec d)
     \<and> Narrowing (TestSec c) = Narrowing (TestSec d)
     \<and> Probing (TestSec c) = Probing (TestSec d) \<and> Jobs (Execution c) = Jobs (Execution d)
     \<and> Isolate (Execution c) = Isolate (Execution d)
     \<and> CacheMode (CacheSec c) = CacheMode (CacheSec d)
     \<and> CacheDirectory (CacheSec c) = CacheDirectory (CacheSec d)
     \<and> Strict (Policy c) = Strict (Policy d)
     \<and> MinimumScore (Policy c) = MinimumScore (Policy d)
     \<and> RequireMutants (Policy c) = RequireMutants (Policy d)
     \<and> ReportDirectory (ReportSec c) = ReportDirectory (ReportSec d)
     \<and> Formats (ReportSec c) = Formats (ReportSec d)
     \<and> High (ReportSec c) = High (ReportSec d) \<and> Low (ReportSec c) = Low (ReportSec d)"
  by (cases c; cases d; cases "Mutation c"; cases "Mutation d"; cases "TestSec c"; cases "TestSec d";
      cases "Execution c"; cases "Execution d"; cases "CacheSec c"; cases "CacheSec d";
      cases "Policy c"; cases "Policy d"; cases "ReportSec c"; cases "ReportSec d") auto

lemma layered_iff:
  assumes "overlay_ok s" and "overlay_ok t"
  shows "layered cpus s t c \<longleftrightarrow> c = merge_config (defaults_of cpus) s t"
proof -
  have "holds directory_ok (o_CacheDirectory t)" "holds directory_ok (o_CacheDirectory s)"
    "holds directory_ok (o_ReportDirectory t)" "holds directory_ok (o_ReportDirectory s)"
    using assms by (simp_all add: overlay_ok_def)
  note dirs = directory_picked_iff [OF this(1,2)] directory_picked_iff [OF this(3,4)]
  show ?thesis
    unfolding layered_def dirs set_or_pick [symmetric] config_eq_iff
    by (simp add: merge_config_def apply_overlay_def defaults_of_def Let_def config_bounds config_names
        default_jobs_def default_policy_def default_include_def default_test_command_def report_formats_def)
qed

lemma canonical_ok: "directory_ok d \<Longrightarrow> directory_ok (canonical_directory d)"
  using normalize_path_relative module_relative_normalized
  by (fastforce simp: directory_ok_def canonical_directory_def split: sum.splits)

lemma holds_option: "holds P s \<Longrightarrow> s = Some v \<Longrightarrow> P v"
  by simp

lemma set_or_simps [simp]: "set_or None d = d" "set_or (Some v) d = v"
  by (simp_all add: set_or_def)

lemma holds_layer: "holds P s \<Longrightarrow> holds P (Some d) \<Longrightarrow> holds P (Some (set_or s d))"
  by (cases s) simp_all

lemma holds_layer_opt:
  "holds P s \<Longrightarrow> holds P (if d \<noteq> z then Some d else None)
   \<Longrightarrow> holds P (if set_or s d \<noteq> z then Some (set_or s d) else None)"
  by (cases s) (auto split: if_splits)

lemma holds_canonical: "holds directory_ok s \<Longrightarrow> holds directory_ok (map_option canonical_directory s)"
  by (cases s) (simp_all add: canonical_ok)

lemma config_overlay_fields:
  "o_Version (config_overlay c) = Some (ConfVersion c)"
  "o_Include (config_overlay c) = Some (Include (Mutation c))"
  "o_Exclude (config_overlay c) = Some (Exclude (Mutation c))"
  "o_Operators (config_overlay c) = Some (Operators (Mutation c))"
  "o_Profile (config_overlay c) = Some (Profile (Mutation c))"
  "o_Expect (config_overlay c) = Some (Expect (Mutation c))"
  "o_TestCommand (config_overlay c) = Some (Command (TestSec c))"
  "o_BaselineRuns (config_overlay c) = Some (BaselineRuns (TestSec c))"
  "o_Narrowing (config_overlay c) = Some (Narrowing (TestSec c))"
  "o_Probing (config_overlay c) = Some (Probing (TestSec c))"
  "o_Jobs (config_overlay c) = Some (Jobs (Execution c))"
  "o_CacheMode (config_overlay c) = Some (CacheMode (CacheSec c))"
  "o_MinimumScore (config_overlay c) = Some (MinimumScore (Policy c))"
  "o_ReportDirectory (config_overlay c) = Some (ReportDirectory (ReportSec c))"
  "o_ReportFormats (config_overlay c) = Some (Formats (ReportSec c))"
  "o_ReportHigh (config_overlay c) = Some (High (ReportSec c))"
  "o_ReportLow (config_overlay c) = Some (Low (ReportSec c))"
  "o_Timeout (config_overlay c) = (if Timeout (TestSec c) \<noteq> 0 then Some (Timeout (TestSec c)) else None)"
  "o_Memory (config_overlay c) = (if Memory (TestSec c) \<noteq> 0 then Some (Memory (TestSec c)) else None)"
  "o_CacheDirectory (config_overlay c) = (if CacheDirectory (CacheSec c) \<noteq> [] then Some (CacheDirectory (CacheSec c)) else None)"
  by (simp_all add: config_overlay_def empty_overlay_def)

lemma holds_optional: "holds P (if d \<noteq> z then Some d else None) \<longleftrightarrow> d = z \<or> P d"
  by simp

text \<open>The settings of a configuration that are checked again, one by one.\<close>

lemma config_overlay_ok:
  "overlay_ok (config_overlay c) \<longleftrightarrow>
     ConfVersion c = 1 \<and> patterns_ok (Include (Mutation c)) \<and> patterns_ok (Exclude (Mutation c))
     \<and> (list_all known_operator (Operators (Mutation c)) \<and> distinct (Operators (Mutation c)))
     \<and> tier_valid (Profile (Mutation c)) \<and> expectations_ok (Expect (Mutation c))
     \<and> (Command (TestSec c) \<noteq> [] \<and> trim_space (hd (Command (TestSec c))) \<noteq> [])
     \<and> (Timeout (TestSec c) = 0 \<or> 0 < Timeout (TestSec c)) \<and> (Memory (TestSec c) = 0 \<or> 0 < Memory (TestSec c))
     \<and> (1 \<le> BaselineRuns (TestSec c) \<and> BaselineRuns (TestSec c) \<le> 10)
     \<and> Probing (TestSec c) \<in> {''off'', ''on''} \<and> Narrowing (TestSec c) \<in> {''test'', ''package''}
     \<and> (1 \<le> Jobs (Execution c) \<and> Jobs (Execution c) \<le> 32)
     \<and> CacheMode (CacheSec c) \<in> {''auto'', ''on'', ''off''}
     \<and> (CacheDirectory (CacheSec c) = [] \<or> directory_ok (CacheDirectory (CacheSec c)))
     \<and> (0 \<le> MinimumScore (Policy c) \<and> MinimumScore (Policy c) \<le> 100)
     \<and> directory_ok (ReportDirectory (ReportSec c))
     \<and> (set (Formats (ReportSec c)) \<subseteq> {''json'', ''html''} \<and> distinct (Formats (ReportSec c)))
     \<and> (0 \<le> High (ReportSec c) \<and> High (ReportSec c) \<le> 100)
     \<and> (0 \<le> Low (ReportSec c) \<and> Low (ReportSec c) \<le> 100)"
  by (simp only: overlay_ok_def config_overlay_fields setting_holds_simps holds_optional conj_assoc)

lemma apply_fields:
  "ConfVersion (apply_overlay c s) = set_or (o_Version s) (ConfVersion c)"
  "Include (Mutation (apply_overlay c s)) = set_or (o_Include s) (Include (Mutation c))"
  "Exclude (Mutation (apply_overlay c s)) = set_or (o_Exclude s) (Exclude (Mutation c))"
  "Operators (Mutation (apply_overlay c s)) = set_or (o_Operators s) (Operators (Mutation c))"
  "Profile (Mutation (apply_overlay c s)) = set_or (o_Profile s) (Profile (Mutation c))"
  "Expect (Mutation (apply_overlay c s)) = set_or (o_Expect s) (Expect (Mutation c))"
  "Command (TestSec (apply_overlay c s)) = set_or (o_TestCommand s) (Command (TestSec c))"
  "BaselineRuns (TestSec (apply_overlay c s)) = set_or (o_BaselineRuns s) (BaselineRuns (TestSec c))"
  "Narrowing (TestSec (apply_overlay c s)) = set_or (o_Narrowing s) (Narrowing (TestSec c))"
  "Probing (TestSec (apply_overlay c s)) = set_or (o_Probing s) (Probing (TestSec c))"
  "Jobs (Execution (apply_overlay c s)) = set_or (o_Jobs s) (Jobs (Execution c))"
  "CacheMode (CacheSec (apply_overlay c s)) = set_or (o_CacheMode s) (CacheMode (CacheSec c))"
  "MinimumScore (Policy (apply_overlay c s)) = set_or (o_MinimumScore s) (MinimumScore (Policy c))"
  "ReportDirectory (ReportSec (apply_overlay c s)) = set_or (map_option canonical_directory (o_ReportDirectory s)) (ReportDirectory (ReportSec c))"
  "Formats (ReportSec (apply_overlay c s)) = set_or (o_ReportFormats s) (Formats (ReportSec c))"
  "High (ReportSec (apply_overlay c s)) = set_or (o_ReportHigh s) (High (ReportSec c))"
  "Low (ReportSec (apply_overlay c s)) = set_or (o_ReportLow s) (Low (ReportSec c))"
  "Timeout (TestSec (apply_overlay c s)) = set_or (o_Timeout s) (Timeout (TestSec c))"
  "Memory (TestSec (apply_overlay c s)) = set_or (o_Memory s) (Memory (TestSec c))"
  "CacheDirectory (CacheSec (apply_overlay c s)) = set_or (map_option canonical_directory (o_CacheDirectory s)) (CacheDirectory (CacheSec c))"
  by (simp_all add: apply_overlay_def Let_def)

lemma apply_ok:
  assumes "overlay_ok s" and "overlay_ok (config_overlay c)"
  shows "overlay_ok (config_overlay (apply_overlay c s))"
  using assms unfolding overlay_ok_def config_overlay_fields apply_fields
  by (elim conjE, intro conjI) (rule holds_layer holds_layer_opt; (rule holds_canonical)?; assumption)+

lemma defaults_ok:
  assumes "1 \<le> cpus"
  shows "overlay_ok (config_overlay (defaults_of cpus))"
proof -
  have "directory_ok ''reports/mutation''" and "patterns_ok default_include" and "patterns_ok []"
    and "expectations_ok []" and "tier_valid TierBalanced" and "list_all plain_char ''go''"
    by code_simp+
  moreover from this have "trim_space ''go'' = ''go''" by (intro trim_space_plain)
  ultimately show ?thesis using assms unfolding config_overlay_ok defaults_of_def
    by (simp add: config_bounds config_names default_jobs_def default_policy_def
        default_test_command_def report_formats_def)
qed

lemma config_validate_ok:
  assumes "overlay_ok (config_overlay c)"
  shows "config_validate c = (if Low (ReportSec c) > High (ReportSec c)
    then [errorf merged_reporter CodeThresholdsInverted ''report.low''] else [])"
proof -
  have "validate_overlay (config_overlay c) merged_reporter = []"
    using assms by (simp add: validate_overlay_Nil)
  moreover have "in_percent_range (Low (ReportSec c))" "in_percent_range (High (ReportSec c))"
    using assms [unfolded config_overlay_ok] by (simp_all add: in_percent_range_def config_bounds)
  ultimately show ?thesis by (simp add: config_validate_def Let_def)
qed

text \<open>
  C18. Loading is exact. It succeeds just when the file is absent, or can be read, is of version 1
  and makes only well-formed settings, the flags are well formed too, and the low threshold is not
  above the high one; the configuration then has, setting by setting, the value of the flag if there
  is one, else of the file, else the default, directories in normal form. The errors are those of
  the file if it has any, else those of the flags, else the crossing of the thresholds, which no layer
  alone can show: the check of the merged configuration finds nothing else.
\<close>

theorem load_exact:
  assumes "1 \<le> cpus"
  shows "(load_config cpus path content flags = Inr c \<longleftrightarrow>
      (case settings_in content of
         None \<Rightarrow> False
       | Some s \<Rightarrow> overlay_ok s \<and> overlay_ok flags \<and> layered cpus s flags c
           \<and> Low (ReportSec c) \<le> High (ReportSec c)))
    \<and> (load_config cpus path content flags = Inl errs \<longleftrightarrow>
      (case load_file path content of
         Inl problems \<Rightarrow> errs = problems
       | Inr s \<Rightarrow>
           if \<not> overlay_ok flags then errs = overlay_validate flags
           else pick (o_ReportLow flags) (o_ReportLow s) 60 > pick (o_ReportHigh flags) (o_ReportHigh s) 80
             \<and> errs = [errorf merged_reporter CodeThresholdsInverted ''report.low'']))"
proof (cases "load_file path content")
  case (Inl problems)
  have "\<not> overlay_ok s" if "settings_in content = Some s" for s
    using Inl that load_file_Inr [of path content s] by simp
  then show ?thesis using Inl by (auto simp: load_config_def split: option.splits)
next
  case (Inr s)
  then have s: "settings_in content = Some s" "overlay_ok s" by (simp_all add: load_file_Inr)
  have flags: "overlay_validate flags = [] \<longleftrightarrow> overlay_ok flags"
    by (simp add: overlay_validate_def validate_overlay_Nil)
  let ?c = "merge_config (defaults_of cpus) s flags"
  show ?thesis
  proof (cases "overlay_ok flags")
    case True
    have ok: "overlay_ok (config_overlay ?c)"
      using apply_ok [OF True apply_ok [OF s(2) defaults_ok [OF assms]]] by (simp add: merge_config_def)
    have "layered cpus s flags ?c" by (simp add: layered_iff [OF s(2) True])
    then have th: "Low (ReportSec ?c) = pick (o_ReportLow flags) (o_ReportLow s) 60"
      "High (ReportSec ?c) = pick (o_ReportHigh flags) (o_ReportHigh s) 80"
      by (simp_all add: layered_def)
    show ?thesis
      using True flags th
      by (auto simp: load_config_def Inr s layered_iff [OF s(2) True] config_validate_ok [OF ok] Let_def)
  qed (use Inr s flags in \<open>auto simp: load_config_def\<close>)
qed

text \<open>A file and flags that cross thresholds; a file out of range; a file and flags that agree.\<close>

definition file_making :: "overlay \<Rightarrow> config_content" where
  "file_making s = Content (Inr \<lparr>cd_Version = Some 1, cd_Positions = Map.empty, cd_Settings = Inr ([], s)\<rparr>)"

definition example_file :: "int \<Rightarrow> overlay" where
  "example_file h = empty_overlay\<lparr>o_ReportHigh := Some h, o_Isolate := Some True, o_Strict := Some False\<rparr>"

definition example_flags :: overlay where
  "example_flags = empty_overlay\<lparr>o_ReportLow := Some 90, o_Strict := Some True\<rparr>"

definition example_loaded :: config where
  "example_loaded =
     (let d = defaults_of 4 in
      d\<lparr>Execution := \<lparr>Jobs = 4, Isolate = True\<rparr>, Policy := Policy d\<lparr>Strict := True\<rparr>,
        ReportSec := ReportSec d\<lparr>High := 95, Low := 90\<rparr>\<rparr>)"

theorem load_exact_witness:
  "load_config 4 ''f'' (file_making (example_file 85)) example_flags
     = Inl [errorf merged_reporter CodeThresholdsInverted ''report.low'']
   \<and> load_config 4 ''f'' (file_making (example_file 101)) example_flags \<noteq> Inr example_loaded
   \<and> load_config 4 ''f'' (file_making (example_file 95)) example_flags = Inr example_loaded"
proof (intro conjI)
  have flags: "overlay_ok example_flags" and ok: "overlay_ok (example_file h) \<longleftrightarrow> 0 \<le> h \<and> h \<le> 100" for h
    by (simp_all add: overlay_ok_def empty_overlay_def example_flags_def example_file_def)
  have making: "settings_in (file_making u) = Some u" for u by (simp add: settings_in_def file_making_def)
  have read: "load_file ''f'' (file_making (example_file 85)) = Inr (example_file 85)"
    by (simp add: load_file_Inr making ok)
  show "load_config 4 ''f'' (file_making (example_file 85)) example_flags
     = Inl [errorf merged_reporter CodeThresholdsInverted ''report.low'']"
    by (intro load_exact [THEN conjunct2, THEN iffD2])
      (simp_all add: read flags, simp add: pick_def example_flags_def example_file_def empty_overlay_def)
  show "load_config 4 ''f'' (file_making (example_file 101)) example_flags \<noteq> Inr example_loaded"
    using load_exact [of 4, THEN conjunct1, THEN iffD1] by (force simp: making ok)
  have "layered 4 (example_file 95) example_flags example_loaded"
    by (simp add: layered_def pick_def directory_picked_def example_file_def example_flags_def
        example_loaded_def empty_overlay_def defaults_of_def config_bounds config_names default_jobs_def
        default_policy_def default_include_def default_test_command_def report_formats_def Let_def)
  then show "load_config 4 ''f'' (file_making (example_file 95)) example_flags = Inr example_loaded"
    by (intro load_exact [THEN conjunct1, THEN iffD2])
      (simp_all add: making ok flags, simp add: example_loaded_def Let_def)
qed

end
