(* ===== verification/RunReport.thy ===== *)
theory RunReport
  imports Catalog Config
begin

text \<open>
  The document a run writes (\<open>internal/report/report.go\<close>, \<open>expect.go\<close>): its vocabulary, its
  rows, the tally over the rows and the ledger of expected survivors. The named strings of the
  document are strings here too, so that a value outside the vocabulary exists. A pointer is an
  option and a slice a list; the JSON text itself is not modelled. Errors are their codes.
\<close>

section \<open>Errors\<close>

datatype report_error =
    ErrInvalidRunID | ErrInvalidStatus | ErrInvalidTimestamps | ErrInvalidWorkspaceDigest
  | ErrInvalidSelection | ErrInvalidTestCommand | ErrNoReport | ErrInvalidCoverage | ErrInvalidCache
  | ErrNoCatalog | ErrUnknownMutant | ErrDuplicateEntry | ErrMissingResult | ErrMissingLocation
  | ErrInvalidOutcome | ErrInvalidNotRunReason | ErrInvalidExecutions | ErrInvalidMemory
  | ErrInvalidShardSpec | ErrInvalidShard | ErrNoShardReports | ErrNotAShardReport
  | ErrIncongruentShards | ErrIncompleteShardSet | ErrShardOwnershipMismatch
  | ErrSourceUnreadable | ErrSourceDrift

text \<open>The early return: the rest of a function runs on what a step returned.\<close>

definition and_then :: "'e + 'a \<Rightarrow> ('a \<Rightarrow> 'e + 'b) \<Rightarrow> 'e + 'b" where
  "and_then r f = (case r of Inl err \<Rightarrow> Inl err | Inr v \<Rightarrow> f v)"

definition guard :: "'e option \<Rightarrow> 'e + 'a \<Rightarrow> 'e + 'a" where
  "guard problem r = (case problem of Some err \<Rightarrow> Inl err | None \<Rightarrow> r)"

lemma and_then_simps [simp]: "and_then (Inl err) f = Inl err" "and_then (Inr v) f = f v"
  by (simp_all add: and_then_def)

lemma and_then_Inr: "and_then r f = Inr v \<longleftrightarrow> (\<exists>w. r = Inr w \<and> f w = Inr v)"
  by (cases r) simp_all

lemma guard_simps [simp]: "guard None r = r" "guard (Some err) r = Inl err"
  by (simp_all add: guard_def)

lemma guard_Inr: "guard problem r = Inr v \<longleftrightarrow> problem = None \<and> r = Inr v"
  by (cases problem) simp_all

section \<open>Vocabulary\<close>

definition DocumentType :: string where "DocumentType = ''go-mutants/run-report''"
definition SchemaVersion :: int where "SchemaVersion = 1"

type_synonym run_status = string

definition StatusCompleted :: run_status where "StatusCompleted = ''completed''"
definition StatusInterrupted :: run_status where "StatusInterrupted = ''interrupted''"
definition StatusFailed :: run_status where "StatusFailed = ''failed''"

definition run_statuses :: "run_status list" where
  "run_statuses = [StatusCompleted, StatusInterrupted, StatusFailed]"

definition run_status_valid :: "run_status \<Rightarrow> bool" where
  "run_status_valid s \<longleftrightarrow> s \<in> set run_statuses"

lemmas status_names = StatusCompleted_def StatusInterrupted_def StatusFailed_def

type_synonym selection_mode = string

definition ModeAll :: selection_mode where "ModeAll = ''all''"
definition ModeMutant :: selection_mode where "ModeMutant = ''mutant''"
definition ModeChanged :: selection_mode where "ModeChanged = ''changed''"
definition ModeShard :: selection_mode where "ModeShard = ''shard''"

definition selection_modes :: "selection_mode list" where
  "selection_modes = [ModeAll, ModeMutant, ModeChanged, ModeShard]"

definition selection_mode_valid :: "selection_mode \<Rightarrow> bool" where
  "selection_mode_valid m \<longleftrightarrow> m \<in> set selection_modes"

lemmas mode_names = ModeAll_def ModeMutant_def ModeChanged_def ModeShard_def

type_synonym timeout_source = string

definition TimeoutDerived :: timeout_source where "TimeoutDerived = ''derived''"
definition TimeoutExplicit :: timeout_source where "TimeoutExplicit = ''explicit''"

definition timeout_source_valid :: "timeout_source \<Rightarrow> bool" where
  "timeout_source_valid s \<longleftrightarrow> s = TimeoutDerived \<or> s = TimeoutExplicit"

type_synonym memory_source = string

definition MemoryDerived :: memory_source where "MemoryDerived = ''derived''"
definition MemoryExplicit :: memory_source where "MemoryExplicit = ''explicit''"
definition MemoryUnavailable :: memory_source where "MemoryUnavailable = ''unavailable''"

definition memory_source_valid :: "memory_source \<Rightarrow> bool" where
  "memory_source_valid s \<longleftrightarrow> s = MemoryDerived \<or> s = MemoryExplicit \<or> s = MemoryUnavailable"

type_synonym coverage_mode = string

definition CoverageOff :: coverage_mode where "CoverageOff = ''off''"
definition CoveragePackage :: coverage_mode where "CoveragePackage = ''package''"
definition CoverageTest :: coverage_mode where "CoverageTest = ''test''"

definition coverage_modes :: "coverage_mode list" where
  "coverage_modes = [CoverageOff, CoveragePackage, CoverageTest]"

definition coverage_mode_valid :: "coverage_mode \<Rightarrow> bool" where
  "coverage_mode_valid m \<longleftrightarrow> m \<in> set coverage_modes"

definition narrowed :: "coverage_mode \<Rightarrow> bool" where
  "narrowed m \<longleftrightarrow> m = CoveragePackage \<or> m = CoverageTest"

lemmas coverage_names = CoverageOff_def CoveragePackage_def CoverageTest_def

type_synonym cache_mode = string

definition CacheModeOff :: cache_mode where "CacheModeOff = ''off''"
definition CacheModeOn :: cache_mode where "CacheModeOn = ''on''"

definition cache_modes :: "cache_mode list" where
  "cache_modes = [CacheModeOff, CacheModeOn]"

definition cache_mode_valid :: "cache_mode \<Rightarrow> bool" where
  "cache_mode_valid m \<longleftrightarrow> m \<in> set cache_modes"

lemmas cache_names = CacheModeOff_def CacheModeOn_def

type_synonym row_outcome = string

definition RowKilled :: row_outcome where "RowKilled = ''killed''"
definition RowSurvived :: row_outcome where "RowSurvived = ''survived''"
definition RowTimedOut :: row_outcome where "RowTimedOut = ''timed-out''"
definition RowInconclusive :: row_outcome where "RowInconclusive = ''inconclusive''"
definition RowErrored :: row_outcome where "RowErrored = ''errored''"
definition RowNotRun :: row_outcome where "RowNotRun = ''not-run''"

lemmas row_names = RowKilled_def RowSurvived_def RowTimedOut_def RowInconclusive_def
  RowErrored_def RowNotRun_def

text \<open>The map \<open>outcomeNames\<close>; its keys and its values are distinct.\<close>

definition row_outcome_names :: "(outcome \<times> row_outcome) list" where
  "row_outcome_names =
     [(OutcomeKilled, RowKilled), (OutcomeSurvived, RowSurvived), (OutcomeTimedOut, RowTimedOut),
      (OutcomeInconclusive, RowInconclusive), (OutcomeErrored, RowErrored), (OutcomeNotRun, RowNotRun)]"

definition observations :: "row_outcome list" where
  "observations = [RowKilled, RowSurvived, RowTimedOut, RowErrored]"

definition observed :: "row_outcome \<Rightarrow> bool" where
  "observed r \<longleftrightarrow> r \<in> set observations"

definition row_outcome_of :: "outcome \<Rightarrow> report_error + row_outcome" where
  "row_outcome_of c = (case map_of row_outcome_names c of None \<Rightarrow> Inl ErrInvalidOutcome | Some name \<Rightarrow> Inr name)"

definition row_mutation :: "row_outcome \<Rightarrow> report_error + outcome" where
  "row_mutation r =
     (case find (\<lambda>(core, name). name = r) row_outcome_names of
        None \<Rightarrow> Inl ErrInvalidOutcome | Some (core, name) \<Rightarrow> Inr core)"

type_synonym not_run_reason = string

definition NotRunInterrupted :: not_run_reason where "NotRunInterrupted = ''interrupted''"
definition NotRunOutOfSelection :: not_run_reason where "NotRunOutOfSelection = ''out-of-selection''"
definition NotRunOtherShard :: not_run_reason where "NotRunOtherShard = ''other-shard''"

definition not_run_reasons :: "not_run_reason list" where
  "not_run_reasons = [NotRunInterrupted, NotRunOutOfSelection, NotRunOtherShard]"

definition not_run_reason_valid :: "not_run_reason \<Rightarrow> bool" where
  "not_run_reason_valid r \<longleftrightarrow> r \<in> set not_run_reasons"

lemmas reason_names = NotRunInterrupted_def NotRunOutOfSelection_def NotRunOtherShard_def

datatype expectation_state = StateFulfilled | StateUnfulfilled | StateStale

section \<open>The document\<close>

record test_ref =
  tr_Package :: string
  tr_Name :: string

record execution =
  x_Attempt :: int
  x_Worker :: int
  x_Outcome :: row_outcome
  x_KilledBy :: string
  x_DurationMS :: int
  x_Binaries :: "string list"
  x_Tests :: "test_ref list"
  x_MemoryExceeded :: bool
  x_Diverged :: bool
  x_PeakMemoryBytes :: int

record snapshot_facts =
  sf_StableDir :: bool
  sf_Files :: int

record toolchain_facts =
  tf_GoBin :: string
  tf_Version :: string

record platform =
  OS :: string
  Arch :: string

record workspace_facts =
  ws_ModulePath :: string
  ws_GoVersion :: string
  ws_Digest :: string
  ws_Platform :: platform
  ws_Snapshot :: "snapshot_facts option"

record selection =
  sel_Mode :: selection_mode
  sel_ChangedRef :: "string option"
  sel_Profile :: string
  sel_Operators :: "string list"
  sel_Include :: "string list"
  sel_Exclude :: "string list"
  sel_Candidates :: int
  sel_Rejected :: int
  sel_Selected :: int

record shard =
  sh_Index :: int
  sh_Total :: int
  sh_Assignment :: string

definition shard_owns :: "shard \<Rightarrow> string \<Rightarrow> bool" where
  "shard_owns s i \<longleftrightarrow> shard_index i (sh_Total s) = sh_Index s"

record baseline =
  bl_Runs :: int
  bl_DurationsMS :: "int list"
  bl_SlowestMS :: int

record test_facts =
  tst_Command :: "string list"
  tst_Baseline :: baseline
  tst_TimeoutMS :: int
  tst_TimeoutSource :: timeout_source
  tst_MemoryBytes :: int
  tst_MemorySource :: memory_source
  tst_Toolchain :: "toolchain_facts option"
  tst_ResolvedCommand :: "string list"

record coverage_facts =
  cov_Mode :: coverage_mode
  cov_UnavailableReason :: "string option"
  cov_BuildFallback :: bool
  cov_Binaries :: "int option"
  cov_Tests :: "int option"
  cov_Uncovered :: "int option"

record cache_facts =
  cf_Mode :: cache_mode
  cf_Hits :: int
  cf_Misses :: int
  cf_Writes :: int

record policy_result =
  pr_Strict :: bool
  pr_MinimumScore :: rat
  pr_RequireMutants :: bool
  pr_Failure :: "string option"

record summary =
  sm_Total :: int
  sm_Killed :: int
  sm_Survived :: int
  sm_TimedOut :: int
  sm_Inconclusive :: int
  sm_Errored :: int
  sm_NotRun :: int
  sm_ScorePercent :: "rat option"
  sm_Policy :: policy_result

record branch =
  br_Direction :: string
  br_StartLine :: int
  br_StartColumn :: int
  br_EndLine :: int
  br_EndColumn :: int

record row =
  w_ID :: string
  w_DisplayID :: string
  w_Path :: string
  w_Package :: string
  w_Family :: string
  w_Rule :: string
  w_RuleVersion :: int
  w_Line :: int
  w_Column :: int
  w_StartByte :: u32
  w_EndByte :: u32
  w_Original :: string
  w_Replacement :: string
  w_Branch :: "branch option"
  w_Outcome :: row_outcome
  w_NotRunReason :: "string option"
  w_DurationMS :: int
  w_KilledBy :: "string option"
  w_Attempts :: int
  w_Executions :: "execution list"
  w_OutputTail :: "string option"
  w_CoveringPackages :: "string list"
  w_CoveringTests :: "test_ref list"
  w_Uncovered :: bool
  w_Unobserved :: bool
  w_Cached :: bool
  w_MemoryExceeded :: bool
  w_PeakMemoryBytes :: int
  w_Diverged :: bool

record rejected_row =
  rj_ID :: string
  rj_DisplayID :: string
  rj_Path :: string
  rj_Line :: int
  rj_Column :: int
  rj_Rule :: string
  rj_Diagnostic :: string

record skip_row =
  sk_Path :: string
  sk_Reason :: string
  sk_Count :: int

record expectation =
  ex_ID :: string
  ex_Reason :: string
  ex_State :: expectation_state

record warning =
  wn_Code :: string
  wn_Message :: string

record phase_timing =
  ph_Name :: string
  ph_DurationMS :: int

record stage_timing =
  stg_Phase :: string
  stg_Name :: string
  stg_DurationMS :: int
  stg_Result :: string

record timing =
  Phases :: "phase_timing list"
  Stages :: "stage_timing list"

text \<open>\<open>Merge\<close> and \<open>Validation\<close> each hold one number.\<close>

record report =
  DocType :: string
  DocSchema :: int
  ToolVersion :: string
  RunID :: string
  RunStatus :: run_status
  StartedAt :: string
  FinishedAt :: string
  DurationMS :: int
  Workspace :: workspace_facts
  Selection :: selection
  ShardOf :: "shard option"
  MergeOf :: "int option"
  TestOf :: test_facts
  CoverageOf :: coverage_facts
  CacheOf :: cache_facts
  Summary :: summary
  Mutants :: "row list"
  Rejected :: "rejected_row list"
  Skips :: "skip_row list"
  Expectations :: "expectation list"
  Warnings :: "warning list"
  Timing :: "timing option"
  ValidationBuilds :: "int option"

section \<open>The ledger of expected survivors\<close>

record disposition =
  Present :: bool
  IsRejected :: bool
  DispOutcome :: row_outcome

definition no_disposition :: disposition where
  "no_disposition = \<lparr>Present = False, IsRejected = False, DispOutcome = []\<rparr>"

definition state_of :: "disposition \<Rightarrow> expectation_state" where
  "state_of d =
     (if \<not> Present d then StateStale
      else if IsRejected d then StateUnfulfilled
      else if DispOutcome d = RowSurvived then StateFulfilled
      else StateUnfulfilled)"

definition evaluate :: "expectation_row list \<Rightarrow> (string \<rightharpoonup> disposition) \<Rightarrow> expectation list" where
  "evaluate ledger disp =
     map (\<lambda>e. \<lparr>ex_ID = xr_ID e, ex_Reason = xr_Reason e,
        ex_State = state_of (case disp (xr_ID e) of None \<Rightarrow> no_disposition | Some d \<Rightarrow> d)\<rparr>) ledger"

section \<open>Counting the rows\<close>

text \<open>A map filled by a loop over rows: a later row overwrites.\<close>

definition index_rows :: "('a \<Rightarrow> 'k) \<Rightarrow> ('a \<Rightarrow> 'v) \<Rightarrow> 'a list \<Rightarrow> ('k \<rightharpoonup> 'v)" where
  "index_rows key val xs = foldl (\<lambda>m x. m(key x \<mapsto> val x)) Map.empty xs"

definition fulfilled_ids :: "expectation list \<Rightarrow> string list" where
  "fulfilled_ids xs = map ex_ID (filter (\<lambda>e. ex_State e = StateFulfilled) xs)"

fun tally_rows :: "string list \<Rightarrow> tally \<Rightarrow> row list \<Rightarrow> report_error + tally" where
  "tally_rows expected t [] = Inr t"
| "tally_rows expected t (m # ms) =
     (case row_mutation (w_Outcome m) of
        Inl err \<Rightarrow> Inl err
      | Inr c \<Rightarrow>
          (case tally_record t \<lparr>Outcome = c, ExpectedSurvivor = w_ID m \<in> set expected\<rparr> of
             Inl _ \<Rightarrow> Inl ErrInvalidOutcome
           | Inr t' \<Rightarrow> tally_rows expected t' ms))"

definition report_tally :: "report \<Rightarrow> report_error + tally" where
  "report_tally r = tally_rows (fulfilled_ids (Expectations r)) empty_tally (Mutants r)"

text \<open>
  \<open>ExpectationFailure\<close> reads only the expectations and the rows; an identifier without a row
  has the empty outcome.
\<close>

definition expectation_failure :: "expectation list \<Rightarrow> row list \<Rightarrow> bool" where
  "expectation_failure xs ms =
     (let outs = index_rows w_ID w_Outcome ms in
      list_ex (\<lambda>e.
        (case ex_State e of
           StateStale \<Rightarrow> True
         | StateUnfulfilled \<Rightarrow> outs (ex_ID e) \<in> {Some RowKilled, Some RowTimedOut}
         | StateFulfilled \<Rightarrow> False)) xs)"

definition report_expectation_failure :: "report \<Rightarrow> bool" where
  "report_expectation_failure r = expectation_failure (Expectations r) (Mutants r)"

definition milliseconds :: "int \<Rightarrow> int" where
  "milliseconds d = (if d < 0 then 0 else d div 1000000)"

definition text_opt :: "string \<Rightarrow> string option" where
  "text_opt s = (if s = [] then None else Some s)"

section \<open>Facts about names and indexes\<close>

lemma row_mutation_of: "row_outcome_of c = Inr name \<longleftrightarrow> row_mutation name = Inr c"
  by (auto simp: row_outcome_of_def row_mutation_def row_outcome_names_def row_names outcome_defs
      split: if_splits option.splits)

lemma row_outcome_valid: "(\<exists>name. row_outcome_of c = Inr name) \<longleftrightarrow> outcome_valid c"
  by (simp add: row_outcome_of_def row_outcome_names_def outcome_valid_iff outcomes_def)

lemma row_outcome_inject:
  "row_outcome_of c = Inr name \<Longrightarrow> row_outcome_of d = Inr name \<Longrightarrow> c = d"
  by (metis Inr_inject row_mutation_of)

lemma index_rows_foldl:
  "foldl (\<lambda>m x. m(key x \<mapsto> val x)) m0 xs k =
     (case find (\<lambda>x. key x = k) (rev xs) of None \<Rightarrow> m0 k | Some x \<Rightarrow> Some (val x))"
  by (induction xs rule: rev_induct) auto

lemma index_rows_find:
  "index_rows key val xs k = map_option val (find (\<lambda>x. key x = k) (rev xs))"
  by (simp add: index_rows_def index_rows_foldl split: option.splits)

lemma find_distinct:
  assumes "distinct (map key xs)" and "x \<in> set xs"
  shows "find (\<lambda>y. key y = key x) xs = Some x"
  using assms by (induction xs) (auto simp: image_iff)

lemma index_rows_distinct:
  assumes "distinct (map key xs)"
  shows "index_rows key val xs k = Some v \<longleftrightarrow> (\<exists>x \<in> set xs. key x = k \<and> v = val x)"
proof -
  have d: "distinct (map key (rev xs))" using assms by (simp add: rev_map [symmetric])
  show ?thesis
  proof
    assume "index_rows key val xs k = Some v"
    then show "\<exists>x \<in> set xs. key x = k \<and> v = val x"
      by (auto simp: index_rows_find find_Some_iff) (metis nth_mem length_rev set_rev)
  next
    assume "\<exists>x \<in> set xs. key x = k \<and> v = val x"
    then show "index_rows key val xs k = Some v"
      using find_distinct [OF d] by (auto simp: index_rows_find)
  qed
qed

lemma index_rows_None: "index_rows key val xs k = None \<longleftrightarrow> k \<notin> key ` set xs"
  by (auto simp: index_rows_find find_None_iff)

end
