(* ===== verification/GoTime.thy ===== *)
theory GoTime
  imports GoStrings "HOL-Library.Monad_Syntax"
begin

text \<open>
  What the code uses of Go's \<open>time\<close>: an instant is the number of nanoseconds since the zero
  \<open>Time\<close>, midnight UTC of 1 January of year 1; differences saturate; \<open>Format\<close> and \<open>Parse\<close> with
  the layout \<open>RFC3339\<close> in UTC. \<open>Parse\<close> accepts more than RFC 3339 does: an hour of one digit, a
  comma before the fraction, and offsets of 24 hours and 60 minutes.
\<close>

section \<open>Instants\<close>

type_synonym instant = int

definition is_zero :: "instant \<Rightarrow> bool" where "is_zero t \<longleftrightarrow> t = 0"

text \<open>\<open>Time.Sub\<close>: a \<open>Duration\<close> has 64 bits, and a difference beyond them is cut off.\<close>

definition time_sub :: "instant \<Rightarrow> instant \<Rightarrow> int" where
  "time_sub t u = max min_int (min max_int (t - u))"

text \<open>\<open>Duration.Milliseconds\<close>: 64-bit division, towards zero.\<close>

definition duration_ms :: "int \<Rightarrow> int" where
  "duration_ms d = (if d < 0 then - ((- d) div 1000000) else d div 1000000)"

section \<open>The calendar\<close>

text \<open>Days are counted from 1 January of year 1, in the proleptic Gregorian calendar.\<close>

definition year_start :: "int \<Rightarrow> int" where
  "year_start y = 365 * (y - 1) + (y - 1) div 4 - (y - 1) div 100 + (y - 1) div 400"

definition is_leap :: "int \<Rightarrow> bool" where
  "is_leap y \<longleftrightarrow> y mod 4 = 0 \<and> (y mod 100 \<noteq> 0 \<or> y mod 400 = 0)"

definition month_lengths :: "int \<Rightarrow> int list" where
  "month_lengths y = [31, if is_leap y then 29 else 28, 31, 30, 31, 30, 31, 31, 30, 31, 30, 31]"

definition days_in :: "int \<Rightarrow> int \<Rightarrow> int" where
  "days_in m y = month_lengths y ! nat (m - 1)"

text \<open>The year by a division that is at most one year off.\<close>

definition year_of :: "int \<Rightarrow> int" where
  "year_of n =
     (let y = n * 400 div 146097 + 1
      in if year_start y > n then y - 1 else if year_start (y + 1) \<le> n then y + 1 else y)"

fun month_of :: "int list \<Rightarrow> int \<Rightarrow> int \<Rightarrow> int \<times> int" where
  "month_of [] m d = (m, d + 1)"
| "month_of (l # ls) m d = (if d < l then (m, d + 1) else month_of ls (m + 1) (d - l))"

definition civil_of_days :: "int \<Rightarrow> int \<times> int \<times> int" where
  "civil_of_days n = (let y = year_of n; (m, d) = month_of (month_lengths y) 1 (n - year_start y) in (y, m, d))"

definition days_of_civil :: "int \<Rightarrow> int \<Rightarrow> int \<Rightarrow> int" where
  "days_of_civil y m d = year_start y + sum_list (take (nat (m - 1)) (month_lengths y)) + d - 1"

lemma year_start_times: "400 * year_start (k + 1) = 146097 * k - 100 * (k mod 4) + 4 * (k mod 100) - k mod 400"
proof -
  have "4 * (k div 4) = k - k mod 4" and "100 * (k div 100) = k - k mod 100"
    and "400 * (k div 400) = k - k mod 400"
    by (simp_all only: minus_mod_eq_mult_div)
  then have "100 * (4 * (k div 4)) - 4 * (100 * (k div 100)) + 400 * (k div 400)
      = 100 * (k - k mod 4) - 4 * (k - k mod 100) + (k - k mod 400)"
    by (simp only:)
  then show ?thesis
    by (simp only: year_start_def add_diff_cancel_right' distrib_left right_diff_distrib mult.assoc [symmetric]
        mult_numeral_left_semiring_numeral)
qed

lemma year_start_bounds:
  "146097 * k - 699 \<le> 400 * year_start (k + 1)" "400 * year_start (k + 1) \<le> 146097 * k + 396"
proof -
  have "0 \<le> k mod 4" "k mod 4 < 4" "0 \<le> k mod 100" "k mod 100 < 100" "0 \<le> k mod 400" "k mod 400 < 400"
    by simp_all
  then show "146097 * k - 699 \<le> 400 * year_start (k + 1)" "400 * year_start (k + 1) \<le> 146097 * k + 396"
    unfolding year_start_times by linarith+
qed

lemma year_of_bounds: "year_start (year_of n) \<le> n \<and> n < year_start (year_of n + 1)"
proof -
  define e where "e = n * 400 div 146097"
  have e: "146097 * e \<le> 400 * n" "400 * n < 146097 * e + 146097"
    unfolding e_def by (simp_all add: mult.commute [of _ 146097])
  have lo: "year_start e \<le> n"
    using year_start_bounds(2) [of "e - 1"] e(1) by simp
  have hi: "n < year_start (e + 2 + 1)"
    using year_start_bounds(1) [of "e + 2"] e(2) by simp
  then have "n < year_start (e + 3)" by (simp add: add.commute)
  then show ?thesis using lo unfolding year_of_def Let_def e_def [symmetric]
    by (auto simp: add.assoc)
qed

lemma div_step:
  fixes y :: int
  assumes "0 < c"
  shows "y div c - (y - 1) div c = (if y mod c = 0 then 1 else 0)"
proof (cases "y mod c = 0")
  case True
  then have "y - 1 = c * (y div c - 1) + (c - 1)"
    using mult_div_mod_eq [of c y] by (simp add: algebra_simps)
  then have "(y - 1) div c = y div c - 1"
    by (rule int_div_pos_eq) (use assms in auto)
  with True show ?thesis by simp
next
  case False
  have "y - 1 = c * (y div c) + (y mod c - 1)" using mult_div_mod_eq [of c y] by simp
  then have "(y - 1) div c = y div c"
    by (rule int_div_pos_eq) (use assms False pos_mod_sign [OF assms, of y] pos_mod_bound [OF assms, of y] in auto)
  with False show ?thesis by simp
qed

lemma leap_cases:
  "(Q \<Longrightarrow> P) \<Longrightarrow> (R \<Longrightarrow> Q) \<Longrightarrow>
   365 + (if P then 1 else 0) - (if Q then 1 else 0) + (if R then 1 else 0)
     = 365 + (if P \<and> (\<not> Q \<or> R) then 1 else (0 :: int))"
  by (cases P; cases Q; cases R) simp_all

lemma year_length: "year_start (y + 1) - year_start y = sum_list (month_lengths y)"
proof -
  have m: "y mod 400 = 0 \<Longrightarrow> y mod 100 = 0" "y mod 100 = 0 \<Longrightarrow> y mod 4 = 0"
    unfolding dvd_eq_mod_eq_0 [symmetric] by (erule dvd_trans [rotated], simp)+
  have "year_start (y + 1) - year_start y = 365 + (y div 4 - (y - 1) div 4)
      - (y div 100 - (y - 1) div 100) + (y div 400 - (y - 1) div 400)"
    by (simp only: year_start_def add_diff_cancel_right' right_diff_distrib mult_1_right diff_diff_eq
        diff_add_eq add_diff_eq diff_diff_add)
  also have "\<dots> = 365 + (if y mod 4 = 0 then 1 else 0) - (if y mod 100 = 0 then 1 else 0)
      + (if y mod 400 = 0 then 1 else 0)"
    by (simp only: div_step zero_less_numeral)
  also have "\<dots> = 365 + (if is_leap y then 1 else 0)"
    unfolding is_leap_def by (rule leap_cases [OF m(2,1)])
  finally have "year_start (y + 1) - year_start y = 365 + (if is_leap y then 1 else 0)" .
  then show ?thesis by (simp add: month_lengths_def)
qed

lemma month_of_spec:
  "list_all (\<lambda>l. 0 < l) ls \<Longrightarrow> 0 \<le> d \<Longrightarrow> d < sum_list ls \<Longrightarrow>
   \<exists>k day. month_of ls m d = (m + int k, day) \<and> k < length ls \<and> 1 \<le> day \<and> day \<le> ls ! k
     \<and> d = sum_list (take k ls) + day - 1"
proof (induction ls arbitrary: m d)
  case Nil
  then show ?case by simp
next
  case (Cons l ls)
  show ?case
  proof (cases "d < l")
    case True
    then show ?thesis using Cons.prems by (intro exI [of _ 0] exI [of _ "d + 1"]) simp
  next
    case False
    then obtain k day where "month_of ls (m + 1) (d - l) = (m + 1 + int k, day)" "k < length ls"
      "1 \<le> day" "day \<le> ls ! k" "d - l = sum_list (take k ls) + day - 1"
      using Cons.IH [of "d - l" "m + 1"] Cons.prems by auto
    then show ?thesis using False by (intro exI [of _ "Suc k"]) auto
  qed
qed

text \<open>Every day is a date of the calendar, and the date gives the day back.\<close>

lemma civil_of_days_spec:
  "\<exists>m d. civil_of_days n = (year_of n, m, d) \<and> 1 \<le> m \<and> m \<le> 12 \<and> 1 \<le> d \<and> d \<le> days_in m (year_of n)
     \<and> days_of_civil (year_of n) m d = n"
proof -
  let ?y = "year_of n"
  have "list_all (\<lambda>l. 0 < l) (month_lengths ?y)" and len: "length (month_lengths ?y) = 12"
    by (simp_all add: month_lengths_def)
  moreover have "0 \<le> n - year_start ?y" "n - year_start ?y < sum_list (month_lengths ?y)"
    using year_of_bounds [of n] year_length [of ?y] by auto
  ultimately obtain k day where "month_of (month_lengths ?y) 1 (n - year_start ?y) = (1 + int k, day)"
    "k < 12" "1 \<le> day" "day \<le> month_lengths ?y ! k"
    "n - year_start ?y = sum_list (take k (month_lengths ?y)) + day - 1"
    using month_of_spec [of "month_lengths ?y" "n - year_start ?y" 1] by auto
  then show ?thesis
    by (intro exI [of _ "1 + int k"] exI [of _ day])
      (simp add: civil_of_days_def days_in_def days_of_civil_def Let_def)
qed

section \<open>Formatting\<close>

definition pad_to :: "nat \<Rightarrow> string \<Rightarrow> string" where
  "pad_to n s = replicate (n - length s) CHR ''0'' @ s"

definition padded :: "nat \<Rightarrow> int \<Rightarrow> string" where
  "padded n v =
     (if v < 0 then CHR ''-'' # pad_to n (itoa (- v)) else pad_to n (itoa v))"

definition format_rfc3339 :: "instant \<Rightarrow> string" where
  "format_rfc3339 t =
     (let secs = t div 1000000000; (y, m, d) = civil_of_days (secs div 86400); s = secs mod 86400
      in padded 4 y @ ''-'' @ padded 2 m @ ''-'' @ padded 2 d @ ''T''
         @ padded 2 (s div 3600) @ '':'' @ padded 2 (s div 60 mod 60) @ '':'' @ padded 2 (s mod 60) @ ''Z'')"

section \<open>Parsing\<close>

definition decimal :: "string \<Rightarrow> int" where
  "decimal s = foldl (\<lambda>n c. n * 10 + int (digit_val c)) 0 s"

text \<open>\<open>n\<close> digits; and \<open>getnum\<close>, which takes one digit or two unless the width is fixed.\<close>

definition take_digits :: "nat \<Rightarrow> string \<Rightarrow> (int \<times> string) option" where
  "take_digits n s =
     (if n \<le> length s \<and> list_all is_digit (take n s) then Some (decimal (take n s), drop n s) else None)"

definition getnum :: "bool \<Rightarrow> string \<Rightarrow> (int \<times> string) option" where
  "getnum fixed s =
     (case take_digits 2 s of
        Some r \<Rightarrow> Some r
      | None \<Rightarrow> if fixed then None else take_digits 1 s)"

definition expect_char :: "char \<Rightarrow> string \<Rightarrow> string option" where
  "expect_char c s = (case s of [] \<Rightarrow> None | x # xs \<Rightarrow> if x = c then Some xs else None)"

definition in_range :: "int \<Rightarrow> int \<Rightarrow> (int \<times> string) option \<Rightarrow> (int \<times> string) option" where
  "in_range lo hi r =
     (case r of None \<Rightarrow> None | Some (v, s) \<Rightarrow> if lo \<le> v \<and> v \<le> hi then Some (v, s) else None)"

text \<open>A fraction needs a digit; digits after the ninth are read and dropped.\<close>

definition take_fraction :: "string \<Rightarrow> int \<times> string" where
  "take_fraction s =
     (case s of
        c # cs \<Rightarrow>
          (let ds = takeWhile is_digit cs; used = take 9 ds in
           if (c = CHR ''.'' \<or> c = CHR '','') \<and> ds \<noteq> []
           then (decimal used * 10 ^ (9 - length used), drop (length ds) cs) else (0, s))
      | [] \<Rightarrow> (0, s))"

text \<open>The zone: the offset in seconds, or None.\<close>

definition parse_zone :: "string \<Rightarrow> int option" where
  "parse_zone s =
     (if s = ''Z'' then Some 0
      else if length s \<noteq> 6 \<or> s ! 3 \<noteq> CHR '':'' then None
      else
        (case (take_digits 2 (take 2 (tl s)), take_digits 2 (drop 4 s)) of
           (Some (h, _), Some (m, _)) \<Rightarrow>
             if h > 24 \<or> m > 60 then None
             else if hd s = CHR ''+'' then Some ((h * 60 + m) * 60)
             else if hd s = CHR ''-'' then Some (- ((h * 60 + m) * 60))
             else None
         | _ \<Rightarrow> None))"

definition parse_date :: "string \<Rightarrow> ((int \<times> int \<times> int) \<times> string) option" where
  "parse_date s =
     do { (y, s) \<leftarrow> take_digits 4 s; s \<leftarrow> expect_char CHR ''-'' s;
          (m, s) \<leftarrow> in_range 1 12 (getnum True s); s \<leftarrow> expect_char CHR ''-'' s;
          (d, s) \<leftarrow> getnum True s; s \<leftarrow> expect_char CHR ''T'' s;
          Some ((y, m, d), s) }"

definition parse_clock :: "string \<Rightarrow> ((int \<times> int \<times> int) \<times> string) option" where
  "parse_clock s =
     do { (h, s) \<leftarrow> in_range 0 23 (getnum False s); s \<leftarrow> expect_char CHR '':'' s;
          (m, s) \<leftarrow> in_range 0 59 (getnum True s); s \<leftarrow> expect_char CHR '':'' s;
          (x, s) \<leftarrow> in_range 0 59 (getnum True s);
          Some ((h, m, x), s) }"

definition parse_rfc3339 :: "string \<Rightarrow> instant option" where
  "parse_rfc3339 s =
     do { ((y, mo, d), s) \<leftarrow> parse_date s;
          ((h, mi, x), s) \<leftarrow> parse_clock s;
          let (ns, s) = take_fraction s;
          zone \<leftarrow> parse_zone s;
          if 1 \<le> d \<and> d \<le> days_in mo y
          then Some ((days_of_civil y mo d * 86400 + h * 3600 + mi * 60 + x - zone) * 1000000000 + ns)
          else None }"

section \<open>Parsing what was formatted\<close>

lemma year_start_mono: "y < z \<Longrightarrow> year_start y < year_start z"
proof (induction "nat (z - y)" arbitrary: z)
  case 0
  then show ?case by simp
next
  case (Suc k)
  have "year_start (z - 1) < year_start z"
    using year_length [of "z - 1"] by (simp add: month_lengths_def split: if_splits)
  moreover have "y < z - 1 \<Longrightarrow> year_start y < year_start (z - 1)" using Suc by simp
  moreover have "y = z - 1 \<or> y < z - 1" using Suc.prems by auto
  ultimately show ?case by fastforce
qed

lemma year_of_range:
  assumes "year_start 0 \<le> n" and "n < year_start 10000"
  shows "0 \<le> year_of n \<and> year_of n \<le> 9999"
proof -
  have "\<not> year_of n + 1 \<le> 0"
    using year_of_bounds [of n] year_start_mono [of "year_of n + 1" 0] assms(1) by force
  moreover have "\<not> 10000 \<le> year_of n"
    using year_of_bounds [of n] year_start_mono [of 10000 "year_of n"] assms(2) by force
  ultimately show ?thesis by linarith
qed

lemma length_digits: "length (digits_of n) \<le> k" if "n < 10 ^ k" "0 < k"
  using that
proof (induction n arbitrary: k rule: digits_of.induct)
  case (1 n)
  show ?case
  proof (cases "n < 10")
    case True
    then show ?thesis using 1(3) by (subst digits_of.simps) simp
  next
    case False
    then obtain j where k: "k = Suc j" "0 < j" using 1(2,3) by (cases k; cases "k - 1") auto
    then have "length (digits_of (n div 10)) \<le> j" using 1 False by simp
    then show ?thesis using False k by (subst digits_of.simps) simp
  qed
qed

lemma decimal_number: "list_all is_digit s \<Longrightarrow> number_from 10 k s = Some v \<Longrightarrow>
    foldl (\<lambda>n c. n * 10 + int (digit_val c)) (int k) s = int v"
proof (induction s arbitrary: k)
  case Nil
  then show ?case by simp
next
  case (Cons c cs)
  then have "number_from 10 (k * 10 + digit_val c) cs = Some v" by (simp split: if_splits)
  with Cons show ?case by force
qed

lemma decimal_zeros: "decimal (replicate k CHR ''0'' @ s) = decimal s"
  by (induction k) (simp_all add: decimal_def digit_val_def ord_def)

lemma padded_digits:
  assumes "0 \<le> v" and "v < 10 ^ k" and "0 < k"
  shows "length (padded k v) = k" and "list_all is_digit (padded k v)" and "decimal (padded k v) = v"
proof -
  have p: "padded k v = replicate (k - length (digits_of (nat v))) CHR ''0'' @ digits_of (nat v)"
    using assms(1) by (simp add: padded_def pad_to_def itoa_def)
  have "nat v < 10 ^ k" using assms by (simp add: nat_less_iff)
  then have l: "length (digits_of (nat v)) \<le> k" using length_digits assms(3) by blast
  show "length (padded k v) = k" using l by (simp add: p)
  have z: "is_digit CHR ''0''" by (simp add: is_digit_def ord_def)
  have dd: "list_all is_digit (digits_of (nat v))" using digits_of_digits by (simp add: list_all_iff)
  with z show "list_all is_digit (padded k v)" by (auto simp: p list_all_iff)
  have "decimal (digits_of (nat v)) = v"
    using decimal_number [OF dd, of 0 "nat v"] number_from_digits assms(1) by (simp add: decimal_def)
  then show "decimal (padded k v) = v" by (simp add: p decimal_zeros)
qed

lemma take_digits_padded:
  assumes "0 \<le> v" and "v < 10 ^ k" and "0 < k"
  shows "take_digits k (padded k v @ s) = Some (v, s)"
  using padded_digits [OF assms] by (simp add: take_digits_def)

lemma getnum_padded: "0 \<le> v \<Longrightarrow> v < 100 \<Longrightarrow> getnum fixed (padded 2 v @ s) = Some (v, s)"
  using take_digits_padded [of v 2 s] by (simp add: getnum_def)

lemma expect_char_Cons [simp]: "expect_char c (c # s) = Some s"
  by (simp add: expect_char_def)

lemma parse_clock_padded:
  assumes "0 \<le> h" "h \<le> 23" "0 \<le> m" "m \<le> 59" "0 \<le> x" "x \<le> 59"
  shows "parse_clock (padded 2 h @ CHR '':'' # padded 2 m @ CHR '':'' # padded 2 x @ rest) = Some ((h, m, x), rest)"
  using assms by (simp add: parse_clock_def getnum_padded in_range_def)

lemma parse_date_padded:
  assumes "0 \<le> y" "y < 10000" "1 \<le> m" "m \<le> 12" "1 \<le> d" "d < 100"
  shows "parse_date (padded 4 y @ CHR ''-'' # padded 2 m @ CHR ''-'' # padded 2 d @ CHR ''T'' # rest)
    = Some ((y, m, d), rest)"
  using assms by (simp add: parse_date_def take_digits_padded getnum_padded in_range_def)

lemma clock_of_seconds:
  fixes s :: int
  shows "s div 3600 * 3600 + s div 60 mod 60 * 60 + s mod 60 = s"
proof -
  have "s div 3600 = s div 60 div 60" by (simp add: zdiv_zmult2_eq [symmetric])
  then show ?thesis using div_mult_mod_eq [of "s div 60" 60] div_mult_mod_eq [of s 60] by linarith
qed

lemma parse_rfc3339_padded:
  assumes "0 \<le> y" "y < 10000" "1 \<le> m" "m \<le> 12" "1 \<le> d" "d \<le> days_in m y" "d < 100"
    and "0 \<le> h" "h \<le> 23" "0 \<le> mi" "mi \<le> 59" "0 \<le> x" "x \<le> 59"
  shows "parse_rfc3339 (padded 4 y @ ''-'' @ padded 2 m @ ''-'' @ padded 2 d @ ''T''
      @ padded 2 h @ '':'' @ padded 2 mi @ '':'' @ padded 2 x @ ''Z'')
    = Some ((days_of_civil y m d * 86400 + h * 3600 + mi * 60 + x) * 1000000000)"
  using assms parse_date_padded [of y m d] parse_clock_padded [of h mi x "''Z''"]
  by (simp add: parse_rfc3339_def take_fraction_def parse_zone_def)

text \<open>Within the years of four digits, parsing gives back the instant to the second.\<close>

lemma parse_format:
  assumes "year_start 0 * 86400 \<le> t div 1000000000" and "t div 1000000000 < year_start 10000 * 86400"
  shows "parse_rfc3339 (format_rfc3339 t) = Some (t - t mod 1000000000)"
proof -
  define x where "x = t div 1000000000"
  define n where "n = x div 86400"
  define s where "s = x mod 86400"
  obtain m d where md: "civil_of_days n = (year_of n, m, d)" "1 \<le> m" "m \<le> 12" "1 \<le> d" "d \<le> days_in m (year_of n)"
    "days_of_civil (year_of n) m d = n"
    using civil_of_days_spec by blast
  have "year_start 0 \<le> n" "n < year_start 10000"
    using assms unfolding n_def x_def by (simp_all add: year_start_def)
  then have y: "0 \<le> year_of n" "year_of n < 10000" using year_of_range by force+
  have "length (month_lengths (year_of n)) = 12" by (simp add: month_lengths_def)
  then have "days_in m (year_of n) \<in> set (month_lengths (year_of n))"
    unfolding days_in_def using md(2,3) by (intro nth_mem) simp
  then have d: "d < 100" using md(5) by (auto simp: month_lengths_def split: if_splits)
  have s: "0 \<le> s" "s < 86400" by (simp_all add: s_def)
  have h: "0 \<le> s div 3600" "s div 3600 \<le> 23" "0 \<le> s div 60 mod 60" "s div 60 mod 60 \<le> 59"
    "0 \<le> s mod 60" "s mod 60 \<le> 59"
    using s pos_mod_bound [of 60 "s div 60"] pos_mod_bound [of 60 s] by auto
  have "parse_rfc3339 (format_rfc3339 t)
      = Some ((n * 86400 + s div 3600 * 3600 + s div 60 mod 60 * 60 + s mod 60) * 1000000000)"
    using parse_rfc3339_padded [OF y md(2,3,4,5) d h] md(1,6)
    by (simp only: format_rfc3339_def x_def n_def s_def Let_def prod.case)
  also have "n * 86400 + s div 3600 * 3600 + s div 60 mod 60 * 60 + s mod 60 = x"
    using clock_of_seconds [of s] div_mult_mod_eq [of x 86400] unfolding n_def s_def by linarith
  finally show ?thesis by (simp add: x_def minus_mod_eq_div_mult)
qed

end
