(* ===== verification/BuildReport.thy ===== *)
theory BuildReport
  imports RunReport GoTime
begin

text \<open>
  Building the document of a run from its catalogue and what was measured
  (\<open>internal/report/build.go\<close>): every mutant of the module becomes a row or a rejection, and facts
  that contradict each other are refused. Times are instants and durations, in nanoseconds;
  \<open>host\<close> stands for \<open>runtime.GOOS\<close> and \<open>runtime.GOARCH\<close>.
\<close>

section \<open>What a run hands over\<close>

record measured =
  mo_ID :: string
  mo_Outcome :: outcome
  mo_NotRunReason :: not_run_reason
  mo_Duration :: int
  mo_KilledBy :: string
  mo_Attempts :: int
  mo_OutputTail :: string
  mo_MemoryExceeded :: bool
  mo_PeakMemory :: int
  mo_Diverged :: bool
  mo_Executions :: "execution list"
  mo_CoveringPackages :: "string list"
  mo_CoveringTests :: "test_ref list"
  mo_Uncovered :: bool
  mo_Unobserved :: bool
  mo_Cached :: bool

record rejection =
  rn_ID :: string
  rn_Diagnostic :: string

text \<open>From \<open>internal/discover\<close>: a candidate with its place, and a reason to skip a file.\<close>

record branch_proof =
  bp_Direction :: string
  bp_StartLine :: int
  bp_StartColumn :: int
  bp_EndLine :: int
  bp_EndColumn :: int

record located =
  loc_Candidate :: candidate
  loc_Line :: int
  loc_Column :: int
  loc_Package :: string
  loc_Branch :: "branch_proof option"

record skip =
  dk_Path :: string
  dk_Reason :: string
  dk_Count :: int

record report_options =
  op_ToolVersion :: string
  op_RunID :: string
  op_Status :: run_status
  op_Started :: instant
  op_Finished :: instant
  op_Config :: config
  op_Mode :: selection_mode
  op_ChangedRef :: string
  op_Shard :: "shard option"
  op_Selected :: int
  op_Module :: string
  op_ModulePath :: string
  op_GoVersion :: string
  op_WorkspaceDigest :: string
  op_Platform :: platform
  op_Catalog :: "catalog option"
  op_Located :: "located list"
  op_Skips :: "skip list"
  op_Results :: "measured list"
  op_Rejections :: "rejection list"
  op_TestCommand :: "string list"
  op_Baseline :: "int list"
  op_Timeout :: int
  op_TimeoutSource :: timeout_source
  op_Memory :: int
  op_MemorySource :: memory_source
  op_CoverageMode :: coverage_mode
  op_CoverageBinaries :: int
  op_CoverageTests :: int
  op_CoverageUnavailable :: string
  op_CoverageFallback :: bool
  op_CacheMode :: cache_mode
  op_CacheMisses :: int
  op_CacheWrites :: int
  op_Timing :: "timing option"
  op_Validation :: "int option"
  op_Snapshot :: "snapshot_facts option"
  op_Toolchain :: "toolchain_facts option"
  op_ResolvedCommand :: "string list"
  op_Warnings :: "warning list"
  op_InfrastructureError :: bool

section \<open>Checks of the run's own facts\<close>

text \<open>The patterns \<open>^[0-9]{8}T[0-9]{6}Z-[0-9a-f]{4}$\<close> and \<open>^[0-9a-f]{64}$\<close>.\<close>

definition run_id_ok :: "string \<Rightarrow> bool" where
  "run_id_ok s \<longleftrightarrow>
     length s = 21 \<and> list_all is_digit (take 8 s) \<and> s ! 8 = CHR ''T''
     \<and> list_all is_digit (take 6 (drop 9 s)) \<and> s ! 15 = CHR ''Z'' \<and> s ! 16 = CHR ''-''
     \<and> list_all is_lower_hex_char (drop 17 s)"

definition digest_ok :: "string \<Rightarrow> bool" where
  "digest_ok s \<longleftrightarrow> is_lower_hex s 64"

definition check_identity :: "report_options \<Rightarrow> report_error option" where
  "check_identity opts =
     (if \<not> run_id_ok (op_RunID opts) then Some ErrInvalidRunID
      else if \<not> run_status_valid (op_Status opts) then Some ErrInvalidStatus
      else if is_zero (op_Started opts) \<or> is_zero (op_Finished opts) then Some ErrInvalidTimestamps
      else if op_Finished opts < op_Started opts then Some ErrInvalidTimestamps
      else if \<not> digest_ok (op_WorkspaceDigest opts) then Some ErrInvalidWorkspaceDigest
      else None)"

definition check_memory :: "report_options \<Rightarrow> report_error option" where
  "check_memory opts =
     (let source = op_MemorySource opts; memory = op_Memory opts in
      if source = [] \<and> memory = 0 then None
      else if source = [] then Some ErrInvalidMemory
      else if \<not> memory_source_valid source then Some ErrInvalidMemory
      else if source = MemoryUnavailable \<and> memory \<noteq> 0 then Some ErrInvalidMemory
      else if source \<noteq> MemoryUnavailable \<and> memory \<le> 0 then Some ErrInvalidMemory
      else None)"

definition test_command :: "report_options \<Rightarrow> report_error + string list" where
  "test_command opts =
     (let command = (if length (op_TestCommand opts) = 0 then Command (TestSec (op_Config opts))
                     else op_TestCommand opts)
      in if length command = 0 then Inl ErrInvalidTestCommand else Inr command)"

section \<open>Results and rejections by identifier\<close>

fun index_results :: "(string \<rightharpoonup> measured) \<Rightarrow> measured list \<Rightarrow> report_error + (string \<rightharpoonup> measured)" where
  "index_results results [] = Inr results"
| "index_results results (r # rs) =
     (if results (mo_ID r) \<noteq> None then Inl ErrDuplicateEntry
      else index_results (results(mo_ID r \<mapsto> r)) rs)"

fun index_rejections ::
  "(string \<rightharpoonup> measured) \<Rightarrow> (string \<rightharpoonup> rejection) \<Rightarrow> rejection list \<Rightarrow> report_error + (string \<rightharpoonup> rejection)" where
  "index_rejections results rejections [] = Inr rejections"
| "index_rejections results rejections (r # rs) =
     (if rejections (rn_ID r) \<noteq> None then Inl ErrDuplicateEntry
      else if results (rn_ID r) \<noteq> None then Inl ErrDuplicateEntry
      else index_rejections results (rejections(rn_ID r \<mapsto> r)) rs)"

definition index_options :: "report_options \<Rightarrow> report_error + (string \<rightharpoonup> measured) \<times> (string \<rightharpoonup> rejection)" where
  "index_options opts =
     (case index_results Map.empty (op_Results opts) of
        Inl err \<Rightarrow> Inl err
      | Inr results \<Rightarrow>
          (case index_rejections results Map.empty (op_Rejections opts) of
             Inl err \<Rightarrow> Inl err
           | Inr rejections \<Rightarrow> Inr (results, rejections)))"

section \<open>Rows\<close>

type_synonym location_key = "string \<times> string \<times> span \<times> string"

definition key_of_candidate :: "candidate \<Rightarrow> location_key" where
  "key_of_candidate c = (c_ModulePath c, c_Path c, c_Span c, Name (c_Rule c))"

text \<open>\<open>locate\<close>: the first candidate with a key wins.\<close>

definition locate :: "located list \<Rightarrow> (location_key \<rightharpoonup> located)" where
  "locate candidates =
     foldl (\<lambda>out c. let key = key_of_candidate (loc_Candidate c)
                    in if out key \<noteq> None then out else out(key \<mapsto> c)) Map.empty candidates"

definition branch_of :: "branch_proof option \<Rightarrow> branch option" where
  "branch_of proof' =
     (case proof' of
        None \<Rightarrow> None
      | Some p \<Rightarrow> Some \<lparr>br_Direction = bp_Direction p, br_StartLine = bp_StartLine p,
          br_StartColumn = bp_StartColumn p, br_EndLine = bp_EndLine p, br_EndColumn = bp_EndColumn p\<rparr>)"

definition not_run_reason_of :: "measured \<Rightarrow> row_outcome \<Rightarrow> report_error + string option" where
  "not_run_reason_of result out =
     (let reason = mo_NotRunReason result in
      if out \<noteq> RowNotRun \<and> reason \<noteq> [] then Inl ErrInvalidNotRunReason
      else if out \<noteq> RowNotRun then Inr None
      else if reason = [] then Inl ErrInvalidNotRunReason
      else if \<not> not_run_reason_valid reason then Inl ErrInvalidNotRunReason
      else Inr (text_opt reason))"

fun check_execution_list :: "execution list \<Rightarrow> report_error option" where
  "check_execution_list [] = None"
| "check_execution_list (x # xs) =
     (if \<not> observed (x_Outcome x) then Some ErrInvalidExecutions
      else if x_MemoryExceeded x \<and> x_Outcome x \<noteq> RowKilled then Some ErrInvalidExecutions
      else check_execution_list xs)"

definition check_executions :: "measured \<Rightarrow> row_outcome \<Rightarrow> report_error option" where
  "check_executions result out =
     (if length (mo_Executions result) = 0 then None
      else if mo_Cached result then Some ErrInvalidExecutions
      else if mo_Uncovered result then Some ErrInvalidExecutions
      else if mo_Unobserved result then Some ErrInvalidExecutions
      else if out = RowNotRun then Some ErrInvalidExecutions
      else if int (length (mo_Executions result)) \<noteq> mo_Attempts result then Some ErrInvalidExecutions
      else check_execution_list (mo_Executions result))"

definition executions_of :: "execution list \<Rightarrow> execution list" where
  "executions_of xs = map (\<lambda>(i, x). x\<lparr>x_Attempt := int i + 1\<rparr>) (enumerate 0 xs)"

definition any_exceeded :: "execution list \<Rightarrow> bool" where
  "any_exceeded xs = list_ex x_MemoryExceeded xs"

definition any_diverged :: "execution list \<Rightarrow> bool" where
  "any_diverged xs = list_ex x_Diverged xs"

definition highest_peak :: "execution list \<Rightarrow> int" where
  "highest_peak xs = foldl (\<lambda>peak x. max peak (x_PeakMemoryBytes x)) 0 xs"

definition rejected_of :: "mutant \<Rightarrow> located \<Rightarrow> rejection \<Rightarrow> rejected_row" where
  "rejected_of m place rejection =
     \<lparr>rj_ID = ID m, rj_DisplayID = DisplayID m, rj_Path = c_Path (m_candidate m),
      rj_Line = loc_Line place, rj_Column = loc_Column place, rj_Rule = Name (c_Rule (m_candidate m)),
      rj_Diagnostic = rn_Diagnostic rejection\<rparr>"

definition row_of :: "mutant \<Rightarrow> located \<Rightarrow> measured \<Rightarrow> row_outcome \<Rightarrow> string option \<Rightarrow> row" where
  "row_of m place result out reason =
     (let c = m_candidate m in
      \<lparr>w_ID = ID m, w_DisplayID = DisplayID m, w_Path = c_Path c, w_Package = loc_Package place,
       w_Family = Family (c_Rule c), w_Rule = Name (c_Rule c), w_RuleVersion = Version (c_Rule c),
       w_Line = loc_Line place, w_Column = loc_Column place,
       w_StartByte = StartByte (c_Span c), w_EndByte = EndByte (c_Span c),
       w_Original = c_Original c, w_Replacement = c_Replacement c,
       w_Branch = branch_of (loc_Branch place), w_Outcome = out, w_NotRunReason = reason,
       w_DurationMS = milliseconds (mo_Duration result), w_KilledBy = text_opt (mo_KilledBy result),
       w_Attempts = mo_Attempts result, w_Executions = executions_of (mo_Executions result),
       w_OutputTail = text_opt (mo_OutputTail result),
       w_CoveringPackages = mo_CoveringPackages result, w_CoveringTests = mo_CoveringTests result,
       w_Uncovered = mo_Uncovered result, w_Unobserved = mo_Unobserved result,
       w_Cached = mo_Cached result,
       w_MemoryExceeded = (mo_MemoryExceeded result \<or> any_exceeded (mo_Executions result)),
       w_PeakMemoryBytes = max (mo_PeakMemory result) (highest_peak (mo_Executions result)),
       w_Diverged = (mo_Diverged result \<or> any_diverged (mo_Executions result))\<rparr>)"

definition measured_row :: "mutant \<Rightarrow> located \<Rightarrow> measured \<Rightarrow> report_error + row" where
  "measured_row m place result =
     (case row_outcome_of (mo_Outcome result) of
        Inl err \<Rightarrow> Inl err
      | Inr out \<Rightarrow>
          (case not_run_reason_of result out of
             Inl err \<Rightarrow> Inl err
           | Inr reason \<Rightarrow>
               (case check_executions result out of
                  Some err \<Rightarrow> Inl err
                | None \<Rightarrow> Inr (row_of m place result out reason))))"

text \<open>The loop of \<open>partition\<close> over the catalogue: the rows and the rejections, in its order.\<close>

fun partition_rows ::
  "string \<Rightarrow> (location_key \<rightharpoonup> located) \<Rightarrow> (string \<rightharpoonup> measured) \<Rightarrow> (string \<rightharpoonup> rejection)
   \<Rightarrow> mutant list \<Rightarrow> report_error + row list \<times> rejected_row list" where
  "partition_rows own places results rejections [] = Inr ([], [])"
| "partition_rows own places results rejections (m # ms) =
     (if c_ModulePath (m_candidate m) \<noteq> own then partition_rows own places results rejections ms
      else
        (case places (key_of_candidate (m_candidate m)) of
           None \<Rightarrow> Inl ErrMissingLocation
         | Some place \<Rightarrow>
             (case rejections (ID m) of
                Some rejection \<Rightarrow>
                  (case partition_rows own places results rejections ms of
                     Inl err \<Rightarrow> Inl err
                   | Inr (rows, rejected) \<Rightarrow> Inr (rows, rejected_of m place rejection # rejected))
              | None \<Rightarrow>
                  (case results (ID m) of
                     None \<Rightarrow> Inl ErrMissingResult
                   | Some result \<Rightarrow>
                       (case measured_row m place result of
                          Inl err \<Rightarrow> Inl err
                        | Inr row' \<Rightarrow>
                            (case partition_rows own places results rejections ms of
                               Inl err \<Rightarrow> Inl err
                             | Inr (rows, rejected) \<Rightarrow> Inr (row' # rows, rejected)))))))"

text \<open>\<open>checkRowsOf\<close>: every row names a catalogued mutant, and those of the module were used.\<close>

definition check_rows_of :: "catalog \<Rightarrow> string \<Rightarrow> string list \<Rightarrow> nat \<Rightarrow> report_error option" where
  "check_rows_of c own ids consumed =
     (if list_ex (\<lambda>i. by_id c i = None) ids then Some ErrUnknownMutant
      else if length (filter (\<lambda>i. case by_id c i of
                None \<Rightarrow> False | Some m \<Rightarrow> c_ModulePath (m_candidate m) = own) ids) = consumed
      then None else Some ErrUnknownMutant)"

definition check_accounted :: "report_options \<Rightarrow> catalog \<Rightarrow> nat \<Rightarrow> nat \<Rightarrow> report_error option" where
  "check_accounted opts c rows rejected =
     (case check_rows_of c (op_Module opts) (map mo_ID (op_Results opts)) rows of
        Some err \<Rightarrow> Some err
      | None \<Rightarrow> check_rows_of c (op_Module opts) (map rn_ID (op_Rejections opts)) rejected)"

definition partition_report ::
  "report_options \<Rightarrow> catalog \<Rightarrow> (string \<rightharpoonup> measured) \<Rightarrow> (string \<rightharpoonup> rejection)
   \<Rightarrow> report_error + row list \<times> rejected_row list" where
  "partition_report opts c results rejections =
     (case partition_rows (op_Module opts) (locate (op_Located opts)) results rejections (mutants c) of
        Inl err \<Rightarrow> Inl err
      | Inr (rows, rejected) \<Rightarrow>
          (case check_accounted opts c (length rows) (length rejected) of
             Some err \<Rightarrow> Inl err
           | None \<Rightarrow> Inr (rows, rejected)))"

section \<open>Expectations and the tally\<close>

definition dispositions :: "row list \<Rightarrow> rejected_row list \<Rightarrow> (string \<rightharpoonup> disposition)" where
  "dispositions rows rejected =
     foldl (\<lambda>d r. d(rj_ID r \<mapsto> \<lparr>Present = True, IsRejected = True, DispOutcome = []\<rparr>))
       (foldl (\<lambda>d m. d(w_ID m \<mapsto> \<lparr>Present = True, IsRejected = False, DispOutcome = w_Outcome m\<rparr>))
          Map.empty rows) rejected"

definition tally_results :: "row list \<Rightarrow> (string \<rightharpoonup> measured) \<Rightarrow> expectation list \<Rightarrow> report_error + tally" where
  "tally_results rows results expectations =
     (case tally_of (map (\<lambda>m. \<lparr>Outcome = (case results (w_ID m) of
              None \<Rightarrow> OutcomeNotRun | Some r \<Rightarrow> mo_Outcome r),
            ExpectedSurvivor = w_ID m \<in> set (fulfilled_ids expectations)\<rparr>) rows) of
        Inl _ \<Rightarrow> Inl ErrInvalidOutcome
      | Inr t \<Rightarrow> Inr t)"

section \<open>Selection and shard\<close>

definition selection_of :: "report_options \<Rightarrow> int \<Rightarrow> int \<Rightarrow> report_error + selection" where
  "selection_of opts candidates rejected =
     (let mode = (if op_Mode opts = [] then ModeAll else op_Mode opts);
          m = Mutation (op_Config opts) in
      if \<not> selection_mode_valid mode then Inl ErrInvalidSelection
      else if mode = ModeChanged \<and> op_ChangedRef opts = [] then Inl ErrInvalidSelection
      else if op_Shard opts \<noteq> None \<and> mode \<noteq> ModeShard then Inl ErrInvalidSelection
      else if mode = ModeShard \<and> op_Shard opts = None then Inl ErrInvalidSelection
      else if op_Selected opts < 0 \<or> op_Selected opts > candidates then Inl ErrInvalidSelection
      else Inr \<lparr>sel_Mode = mode, sel_ChangedRef = text_opt (op_ChangedRef opts),
        sel_Profile = tier_string (Profile m), sel_Operators = Operators m, sel_Include = Include m,
        sel_Exclude = Exclude m, sel_Candidates = candidates, sel_Rejected = rejected,
        sel_Selected = op_Selected opts\<rparr>)"

definition ShardAssignment :: string where "ShardAssignment = ''id-hash-v1''"

definition shard_of :: "report_options \<Rightarrow> report_error + shard option" where
  "shard_of opts =
     (case op_Shard opts of
        None \<Rightarrow> Inr None
      | Some s0 \<Rightarrow>
          (let s = (if sh_Assignment s0 = [] then s0\<lparr>sh_Assignment := ShardAssignment\<rparr> else s0) in
           if sh_Total s < 1 \<or> sh_Index s < 1 \<or> sh_Index s > sh_Total s then Inl ErrInvalidShard
           else if sh_Assignment s \<noteq> ShardAssignment then Inl ErrInvalidShard
           else Inr (Some s)))"

section \<open>Coverage and cache\<close>

definition check_coverage_facts :: "coverage_mode \<Rightarrow> row \<Rightarrow> report_error option" where
  "check_coverage_facts mode m =
     (if mode = CoverageTest then None
      else if length (w_CoveringTests m) > 0 then Some ErrInvalidCoverage
      else if list_ex (\<lambda>x. length (x_Tests x) > 0) (w_Executions m) then Some ErrInvalidCoverage
      else None)"

definition check_unobserved :: "row \<Rightarrow> report_error option" where
  "check_unobserved m =
     (if \<not> w_Unobserved m then None
      else if w_Uncovered m then Some ErrInvalidCoverage
      else if w_Outcome m \<noteq> RowSurvived \<or> w_Attempts m \<noteq> 0 then Some ErrInvalidCoverage
      else None)"

text \<open>The first loop of \<open>coverageBlock\<close>: the number of uncovered rows, or the first contradiction.\<close>

fun count_uncovered :: "coverage_mode \<Rightarrow> row list \<Rightarrow> int \<Rightarrow> report_error + int" where
  "count_uncovered mode [] n = Inr n"
| "count_uncovered mode (m # ms) n =
     (case check_coverage_facts mode m of
        Some err \<Rightarrow> Inl err
      | None \<Rightarrow>
          if \<not> w_Uncovered m then count_uncovered mode ms n
          else if \<not> narrowed mode then Inl ErrInvalidCoverage
          else if w_Outcome m \<noteq> RowSurvived \<or> w_Attempts m \<noteq> 0 then Inl ErrInvalidCoverage
          else count_uncovered mode ms (n + 1))"

fun first_unobserved :: "row list \<Rightarrow> report_error option" where
  "first_unobserved [] = None"
| "first_unobserved (m # ms) =
     (case check_unobserved m of Some err \<Rightarrow> Some err | None \<Rightarrow> first_unobserved ms)"

definition plain_coverage :: "coverage_mode \<Rightarrow> coverage_facts" where
  "plain_coverage mode = \<lparr>cov_Mode = mode, cov_UnavailableReason = None, cov_BuildFallback = False,
     cov_Binaries = None, cov_Tests = None, cov_Uncovered = None\<rparr>"

definition coverage_block :: "coverage_mode \<Rightarrow> int \<Rightarrow> int \<Rightarrow> row list \<Rightarrow> report_error + coverage_facts" where
  "coverage_block stated binaries tests rows =
     (let mode = (if stated = [] then CoverageOff else stated) in
      if \<not> coverage_mode_valid mode then Inl ErrInvalidCoverage
      else
        (case count_uncovered mode rows 0 of
           Inl err \<Rightarrow> Inl err
         | Inr uncovered \<Rightarrow>
             (case first_unobserved rows of
                Some err \<Rightarrow> Inl err
              | None \<Rightarrow>
                  if \<not> narrowed mode then Inr (plain_coverage mode)
                  else if binaries < 0 then Inl ErrInvalidCoverage
                  else
                    (let c = (plain_coverage mode)\<lparr>cov_Binaries := Some binaries, cov_Uncovered := Some uncovered\<rparr> in
                     if mode \<noteq> CoverageTest then Inr c
                     else if tests < 0 then Inl ErrInvalidCoverage
                     else Inr (c\<lparr>cov_Tests := Some tests\<rparr>)))))"

definition coverage_of :: "report_options \<Rightarrow> row list \<Rightarrow> report_error + coverage_facts" where
  "coverage_of opts rows =
     (case coverage_block (op_CoverageMode opts) (op_CoverageBinaries opts) (op_CoverageTests opts) rows of
        Inl err \<Rightarrow> Inl err
      | Inr c \<Rightarrow> Inr (c\<lparr>cov_UnavailableReason := text_opt (op_CoverageUnavailable opts),
          cov_BuildFallback := op_CoverageFallback opts\<rparr>))"

definition reusable :: "row_outcome \<Rightarrow> bool" where
  "reusable r \<longleftrightarrow> r = RowKilled \<or> r = RowSurvived \<or> r = RowTimedOut"

fun count_hits :: "cache_mode \<Rightarrow> row list \<Rightarrow> int \<Rightarrow> report_error + int" where
  "count_hits mode [] n = Inr n"
| "count_hits mode (m # ms) n =
     (if \<not> w_Cached m then count_hits mode ms n
      else if mode \<noteq> CacheModeOn then Inl ErrInvalidCache
      else if w_Uncovered m then Inl ErrInvalidCache
      else if \<not> reusable (w_Outcome m) then Inl ErrInvalidCache
      else count_hits mode ms (n + 1))"

definition cache_block :: "cache_mode \<Rightarrow> int \<Rightarrow> int \<Rightarrow> row list \<Rightarrow> report_error + cache_facts" where
  "cache_block stated misses writes rows =
     (let mode = (if stated = [] then CacheModeOff else stated) in
      if \<not> cache_mode_valid mode then Inl ErrInvalidCache
      else
        (case count_hits mode rows 0 of
           Inl err \<Rightarrow> Inl err
         | Inr hits \<Rightarrow>
             if misses < 0 \<or> writes < 0 then Inl ErrInvalidCache
             else if writes > misses then Inl ErrInvalidCache
             else if mode = CacheModeOff \<and> (misses > 0 \<or> writes > 0) then Inl ErrInvalidCache
             else Inr \<lparr>cf_Mode = mode, cf_Hits = hits, cf_Misses = misses, cf_Writes = writes\<rparr>))"

section \<open>The document\<close>

definition summary_of :: "tally \<Rightarrow> policy \<Rightarrow> bool \<Rightarrow> expectation list \<Rightarrow> row list \<Rightarrow> summary" where
  "summary_of t p infrastructure expectations rows =
     \<lparr>sm_Total = tally_total t, sm_Killed = Killed t, sm_Survived = tally_survived t,
      sm_TimedOut = TimedOut t, sm_Inconclusive = Inconclusive t, sm_Errored = Errored t,
      sm_NotRun = NotRun t, sm_ScorePercent = percent (score_of t),
      sm_Policy = \<lparr>pr_Strict = Strict p, pr_MinimumScore = MinimumScore p,
        pr_RequireMutants = RequireMutants p,
        pr_Failure =
          (case Failures (decide t p \<lparr>InfrastructureError = infrastructure,
                   ExpectationFailure = expectation_failure expectations rows\<rparr>) of
             [] \<Rightarrow> None | f # _ \<Rightarrow> text_opt (reason_string (Reason f)))\<rparr>\<rparr>"

definition baseline_of :: "int list \<Rightarrow> baseline" where
  "baseline_of runs =
     \<lparr>bl_Runs = int (length runs), bl_DurationsMS = map milliseconds runs,
      bl_SlowestMS = foldl (\<lambda>slowest run. max slowest (milliseconds run)) 0 runs\<rparr>"

definition skip_compare :: "skip_row \<Rightarrow> skip_row \<Rightarrow> int" where
  "skip_compare x y =
     (let c = cmp_str (sk_Path x) (sk_Path y) in if c \<noteq> 0 then c else cmp_str (sk_Reason x) (sk_Reason y))"

definition skips_of :: "skip list \<Rightarrow> skip_row list" where
  "skips_of skips =
     sort_by skip_compare
       (map (\<lambda>s. \<lparr>sk_Path = dk_Path s, sk_Reason = dk_Reason s, sk_Count = dk_Count s\<rparr>) skips)"

definition or_else :: "string \<Rightarrow> string \<Rightarrow> string" where
  "or_else value fallback = (if value = [] then fallback else value)"

definition unknownValue :: string where "unknownValue = ''unknown''"

definition platform_of :: "platform \<Rightarrow> platform \<Rightarrow> platform" where
  "platform_of host p = \<lparr>OS = or_else (OS p) (OS host), Arch = or_else (Arch p) (Arch host)\<rparr>"

definition timeout_source_of :: "report_options \<Rightarrow> timeout_source" where
  "timeout_source_of opts =
     (if timeout_source_valid (op_TimeoutSource opts) then op_TimeoutSource opts
      else if Timeout (TestSec (op_Config opts)) > 0 then TimeoutExplicit
      else TimeoutDerived)"

definition memory_source_of :: "report_options \<Rightarrow> memory_source" where
  "memory_source_of opts =
     (if memory_source_valid (op_MemorySource opts) then op_MemorySource opts else [])"

definition toolchain_of :: "toolchain_facts option \<Rightarrow> toolchain_facts option" where
  "toolchain_of toolchain =
     (case toolchain of
        None \<Rightarrow> None
      | Some t \<Rightarrow>
          if tf_GoBin t = [] \<and> tf_Version t = [] then None
          else Some \<lparr>tf_GoBin = or_else (tf_GoBin t) unknownValue, tf_Version = or_else (tf_Version t) unknownValue\<rparr>)"

text \<open>What \<open>Build\<close> computes before it assembles the document.\<close>

record parts =
  pt_Command :: "string list"
  pt_Rows :: "row list"
  pt_Rejected :: "rejected_row list"
  pt_Expectations :: "expectation list"
  pt_Tally :: tally
  pt_Selection :: selection
  pt_Shard :: "shard option"
  pt_Coverage :: coverage_facts
  pt_Cache :: cache_facts

definition report_parts :: "report_options \<Rightarrow> catalog \<Rightarrow> report_error + parts" where
  "report_parts opts c =
     and_then (test_command opts) (\<lambda>command.
     and_then (index_options opts) (\<lambda>(results, rejections).
     and_then (partition_report opts c results rejections) (\<lambda>(rows, rejected).
     (let expectations = evaluate (Expect (Mutation (op_Config opts))) (dispositions rows rejected) in
     and_then (tally_results rows results expectations) (\<lambda>t.
     and_then (selection_of opts (int (length rows) + int (length rejected)) (int (length rejected))) (\<lambda>sel.
     and_then (shard_of opts) (\<lambda>sh.
     and_then (coverage_of opts rows) (\<lambda>cov.
     and_then (cache_block (op_CacheMode opts) (op_CacheMisses opts) (op_CacheWrites opts) rows) (\<lambda>cache.
       Inr \<lparr>pt_Command = command, pt_Rows = rows, pt_Rejected = rejected,
         pt_Expectations = expectations, pt_Tally = t, pt_Selection = sel, pt_Shard = sh,
         pt_Coverage = cov, pt_Cache = cache\<rparr>)))))))))"

definition assemble :: "platform \<Rightarrow> report_options \<Rightarrow> parts \<Rightarrow> report" where
  "assemble host opts p =
     \<lparr>DocType = DocumentType, DocSchema = SchemaVersion, ToolVersion = op_ToolVersion opts,
      RunID = op_RunID opts, RunStatus = op_Status opts,
      StartedAt = format_rfc3339 (op_Started opts), FinishedAt = format_rfc3339 (op_Finished opts),
      DurationMS = milliseconds (time_sub (op_Finished opts) (op_Started opts)),
      Workspace =
        \<lparr>ws_ModulePath = or_else (op_ModulePath opts) unknownValue,
         ws_GoVersion = or_else (op_GoVersion opts) unknownValue,
         ws_Digest = op_WorkspaceDigest opts,
         ws_Platform = platform_of host (op_Platform opts), ws_Snapshot = op_Snapshot opts\<rparr>,
      Selection = pt_Selection p, ShardOf = pt_Shard p, MergeOf = None,
      TestOf =
        \<lparr>tst_Command = pt_Command p, tst_Baseline = baseline_of (op_Baseline opts),
         tst_TimeoutMS = milliseconds (op_Timeout opts), tst_TimeoutSource = timeout_source_of opts,
         tst_MemoryBytes = max (op_Memory opts) 0, tst_MemorySource = memory_source_of opts,
         tst_Toolchain = toolchain_of (op_Toolchain opts),
         tst_ResolvedCommand = op_ResolvedCommand opts\<rparr>,
      CoverageOf = pt_Coverage p, CacheOf = pt_Cache p,
      Summary = summary_of (pt_Tally p) (Policy (op_Config opts)) (op_InfrastructureError opts)
        (pt_Expectations p) (pt_Rows p),
      Mutants = pt_Rows p, Rejected = pt_Rejected p, Skips = skips_of (op_Skips opts),
      Expectations = pt_Expectations p, Warnings = op_Warnings opts,
      Timing = op_Timing opts, ValidationBuilds = op_Validation opts\<rparr>"

definition build_report :: "platform \<Rightarrow> report_options \<Rightarrow> report_error + report" where
  "build_report host opts =
     guard (check_identity opts)
     (guard (check_memory opts)
        (case op_Catalog opts of
           None \<Rightarrow> Inl ErrNoCatalog
         | Some c \<Rightarrow> and_then (report_parts opts c) (\<lambda>p. Inr (assemble host opts p))))"

end
