(* ===== verification/OutcomeCache.thy ===== *)
theory OutcomeCache
  imports MutantId Config Outcomes GoTime
begin

text \<open>
  The cache of outcomes (\<open>internal/cache/key.go\<close>, \<open>mode.go\<close>, \<open>store.go\<close>): the key under which a run
  looks for outcomes, when the cache is used, and which stored entry a run may reuse. A file is
  what reading and decoding it gives; the file system and JSON stay outside.
\<close>

section \<open>The key of a run\<close>

definition KeyDomain :: string where "KeyDomain = ''go-mutants-cache-v2''"
definition ContextKeyLength :: nat where "ContextKeyLength = 16"

definition key_env :: "string list" where
  "key_env = [''CGO_ENABLED'', ''GOARCH'', ''GODEBUG'', ''GOEXPERIMENT'', ''GOFLAGS'', ''GOOS'']"

record env_value =
  ev_Value :: string
  ev_Set :: bool

definition no_value :: env_value where "no_value = \<lparr>ev_Value = [], ev_Set = False\<rparr>"

definition env_from :: "(string \<Rightarrow> string option) \<Rightarrow> (string \<rightharpoonup> env_value)" where
  "env_from getenv =
     foldl (\<lambda>env name. env(name \<mapsto> (case getenv name of
         None \<Rightarrow> no_value | Some v \<Rightarrow> \<lparr>ev_Value = v, ev_Set = True\<rparr>))) Map.empty key_env"

record cache_context =
  cx_ToolVersion :: string
  cx_ToolDigest :: string
  cx_ToolchainVersion :: string
  cx_WorkspaceDigest :: string
  cx_CatalogDigest :: string
  cx_TestCommand :: "string list"
  cx_ConfiguredTimeout :: int
  cx_Env :: "string \<rightharpoonup> env_value"

datatype cache_error = ErrInvalidContext | ErrUnavailable | ErrCorruptEntry | ErrEntryNotWritten

definition cache_ms :: "int \<Rightarrow> int" where
  "cache_ms d = max 0 (duration_ms d)"

definition presence :: "bool \<Rightarrow> string" where
  "presence b = (if b then ''set'' else ''unset'')"

definition key_timeout_source :: "int \<Rightarrow> string" where
  "key_timeout_source d = (if d > 0 then ''explicit'' else ''derived'')"

definition check_context :: "cache_context \<Rightarrow> cache_error option" where
  "check_context c =
     (if cx_ToolVersion c = [] then Some ErrInvalidContext
      else if \<not> is_digest (cx_ToolDigest c) then Some ErrInvalidContext
      else if cx_ToolchainVersion c = [] then Some ErrInvalidContext
      else if \<not> is_digest (cx_WorkspaceDigest c) then Some ErrInvalidContext
      else if \<not> is_digest (cx_CatalogDigest c) then Some ErrInvalidContext
      else if length (cx_TestCommand c) = 0 then Some ErrInvalidContext
      else None)"

definition env_fields :: "(string \<rightharpoonup> env_value) \<Rightarrow> string \<Rightarrow> string list" where
  "env_fields env name =
     (let v = (case env name of None \<Rightarrow> no_value | Some v \<Rightarrow> v) in [name, presence (ev_Set v), ev_Value v])"

definition key_fields :: "cache_context \<Rightarrow> string list" where
  "key_fields c =
     [KeyDomain, cx_ToolVersion c, cx_ToolDigest c, cx_ToolchainVersion c, cx_WorkspaceDigest c,
      cx_CatalogDigest c, itoa (int (length (cx_TestCommand c)))]
     @ cx_TestCommand c
     @ [key_timeout_source (cx_ConfiguredTimeout c), itoa (cache_ms (cx_ConfiguredTimeout c))]
     @ concat (map (env_fields (cx_Env c)) key_env)"

datatype key_error = ContextError cache_error | FieldError id_error

definition cache_key :: "cache_context \<Rightarrow> key_error + string" where
  "cache_key c =
     (case check_context c of
        Some err \<Rightarrow> Inl (ContextError err)
      | None \<Rightarrow>
          (case write_fields [] (key_fields c) of
             Inl err \<Rightarrow> Inl (FieldError err)
           | Inr h \<Rightarrow> Inr (hex_encode (sha256 h))))"

definition context_key :: "cache_context \<Rightarrow> key_error + string" where
  "context_key c = (case cache_key c of Inl err \<Rightarrow> Inl err | Inr key \<Rightarrow> Inr (take ContextKeyLength key))"

section \<open>When the cache is used\<close>

record cache_decision =
  Read :: bool
  Write :: bool
  HasReason :: bool

definition cache_enabled :: "cache_decision \<Rightarrow> bool" where
  "cache_enabled d \<longleftrightarrow> Read d \<or> Write d"

definition resolve_mode :: "cache_setting \<Rightarrow> string list \<Rightarrow> cache_decision" where
  "resolve_mode mode command =
     (if mode = CacheOff then \<lparr>Read = False, Write = False, HasReason = False\<rparr>
      else if mode = CacheOn then \<lparr>Read = True, Write = True, HasReason = False\<rparr>
      else if mode = CacheAuto then
        (if command = default_test_command then \<lparr>Read = True, Write = True, HasReason = False\<rparr>
         else \<lparr>Read = False, Write = False, HasReason = True\<rparr>)
      else \<lparr>Read = False, Write = False, HasReason = True\<rparr>)"

section \<open>Entries\<close>

definition EntryVersion :: int where "EntryVersion = 2"
definition MaxOutputTail :: nat where "MaxOutputTail = 16384"

record cache_entry =
  en_Version :: int
  en_Key :: string
  en_Context :: string
  en_ID :: string
  en_Outcome :: outcome
  en_DurationMS :: int
  en_TimeoutMS :: int
  en_KilledBy :: string
  en_Attempts :: int
  en_OutputTail :: string
  en_MemoryBytes :: int
  en_MemoryExceeded :: bool
  en_PeakMemory :: int
  en_Diverged :: bool

record cache_store =
  st_Key :: string
  st_Context :: string
  st_Timeout :: int
  st_Memory :: int

definition entry_duration :: "cache_entry \<Rightarrow> int" where
  "entry_duration e = wrap64 (en_DurationMS e * 1000000)"

definition usable_under :: "cache_entry \<Rightarrow> int \<Rightarrow> bool" where
  "usable_under e timeout \<longleftrightarrow>
     (let bound = cache_ms timeout in
      if bound \<le> 0 then False
      else if en_Diverged e then True
      else if en_Outcome e = OutcomeTimedOut then bound \<le> en_TimeoutMS e
      else en_DurationMS e \<le> bound)"

definition usable_within :: "cache_entry \<Rightarrow> int \<Rightarrow> bool" where
  "usable_within e limit \<longleftrightarrow>
     (if en_MemoryExceeded e then limit > 0 \<and> limit \<le> en_MemoryBytes e
      else if en_MemoryBytes e \<le> 0 then True
      else if en_Outcome e = OutcomeKilled then True
      else limit \<le> 0 \<or> limit \<ge> en_MemoryBytes e)"

definition cacheable :: "outcome \<Rightarrow> bool" where
  "cacheable r \<longleftrightarrow> r = OutcomeKilled \<or> r = OutcomeSurvived \<or> r = OutcomeTimedOut"

text \<open>True is the error.\<close>

definition entry_bad :: "cache_entry \<Rightarrow> string \<Rightarrow> string \<Rightarrow> string \<Rightarrow> bool" where
  "entry_bad e key context i \<longleftrightarrow>
     (if en_Version e \<noteq> EntryVersion then True
      else if en_Key e \<noteq> key then True
      else if en_Context e \<noteq> context then True
      else if en_ID e \<noteq> i then True
      else if \<not> cacheable (en_Outcome e) then True
      else if en_DurationMS e < 0 \<or> en_Attempts e < 1 \<or> en_TimeoutMS e \<le> 0 \<or> en_MemoryBytes e < 0 \<or> en_PeakMemory e < 0
      then True
      else if en_MemoryExceeded e \<and> (en_MemoryBytes e \<le> 0 \<or> en_Outcome e \<noteq> OutcomeKilled) then True
      else if en_Diverged e \<and> en_Outcome e \<noteq> OutcomeTimedOut then True
      else False)"

datatype cache_file = FileAbsent | FileUnreadable | FileUndecodable | FileEntry cache_entry

definition cache_lookup :: "cache_store \<Rightarrow> string \<Rightarrow> cache_file \<Rightarrow> cache_error + cache_entry option" where
  "cache_lookup c i file =
     (if \<not> is_id i then Inl ErrInvalidContext
      else
        (case file of
           FileAbsent \<Rightarrow> Inr None
         | FileUnreadable \<Rightarrow> Inl ErrCorruptEntry
         | FileUndecodable \<Rightarrow> Inl ErrCorruptEntry
         | FileEntry e \<Rightarrow>
             if entry_bad e (st_Key c) (st_Context c) i then Inl ErrCorruptEntry
             else if \<not> usable_under e (st_Timeout c) \<or> \<not> usable_within e (st_Memory c) then Inr None
             else Inr (Some e)))"

definition tail_marker :: string where
  "tail_marker = ''[... truncated by the outcome cache ...]'' @ [nl]"

definition truncate_tail :: "string \<Rightarrow> string" where
  "truncate_tail tail =
     (if length tail \<le> MaxOutputTail then tail
      else tail_marker @ drop (length tail - MaxOutputTail) tail)"

definition stamped :: "cache_store \<Rightarrow> string \<Rightarrow> cache_entry \<Rightarrow> cache_entry" where
  "stamped c i e =
     e\<lparr>en_Version := EntryVersion, en_Key := st_Key c, en_Context := st_Context c, en_ID := i,
       en_TimeoutMS := cache_ms (st_Timeout c), en_MemoryBytes := st_Memory c,
       en_OutputTail := truncate_tail (en_OutputTail e)\<rparr>"

text \<open>The entry that is written, or the error; \<open>written\<close> says whether writing the file succeeds.\<close>

definition cache_put :: "cache_store \<Rightarrow> bool \<Rightarrow> string \<Rightarrow> cache_entry \<Rightarrow> cache_error + cache_entry" where
  "cache_put c written i e0 =
     (if \<not> is_id i then Inl ErrInvalidContext
      else
        (let e = stamped c i e0 in
         if \<not> cacheable (en_Outcome e) then Inl ErrEntryNotWritten
         else if entry_bad e (st_Key c) (st_Context c) i then Inl ErrEntryNotWritten
         else if \<not> written then Inl ErrEntryNotWritten
         else Inr e))"

section \<open>What the key distinguishes\<close>

definition same_context :: "cache_context \<Rightarrow> cache_context \<Rightarrow> bool" where
  "same_context a b \<longleftrightarrow>
     cx_ToolVersion a = cx_ToolVersion b \<and> cx_ToolDigest a = cx_ToolDigest b
     \<and> cx_ToolchainVersion a = cx_ToolchainVersion b \<and> cx_WorkspaceDigest a = cx_WorkspaceDigest b
     \<and> cx_CatalogDigest a = cx_CatalogDigest b \<and> cx_TestCommand a = cx_TestCommand b
     \<and> (cx_ConfiguredTimeout a > 0) = (cx_ConfiguredTimeout b > 0)
     \<and> cache_ms (cx_ConfiguredTimeout a) = cache_ms (cx_ConfiguredTimeout b)
     \<and> list_all (\<lambda>name. env_fields (cx_Env a) name = env_fields (cx_Env b) name) key_env"

lemma length_env_fields [simp]: "length (env_fields env name) = 3"
  by (simp add: env_fields_def Let_def)

lemma concat_same_length:
  "\<lbrakk>\<And>x. length (f x) = n; \<And>x. length (g x) = n; concat (map f xs) = concat (map g xs)\<rbrakk> \<Longrightarrow> list_all (\<lambda>x. f x = g x) xs"
  by (induction xs) auto

lemma key_fields_inject:
  assumes "key_fields a = key_fields b"
  shows "same_context a b"
proof -
  let ?tail = "\<lambda>c. [key_timeout_source (cx_ConfiguredTimeout c), itoa (cache_ms (cx_ConfiguredTimeout c))]
     @ concat (map (env_fields (cx_Env c)) key_env)"
  have len: "length (cx_TestCommand a) = length (cx_TestCommand b)"
    and rest: "cx_TestCommand a @ ?tail a = cx_TestCommand b @ ?tail b"
    and head: "cx_ToolVersion a = cx_ToolVersion b" "cx_ToolDigest a = cx_ToolDigest b"
      "cx_ToolchainVersion a = cx_ToolchainVersion b" "cx_WorkspaceDigest a = cx_WorkspaceDigest b"
      "cx_CatalogDigest a = cx_CatalogDigest b"
    using assms by (simp_all add: key_fields_def itoa_inject)
  have cmd: "cx_TestCommand a = cx_TestCommand b" and t: "?tail a = ?tail b"
    using rest len by auto
  have "list_all (\<lambda>name. env_fields (cx_Env a) name = env_fields (cx_Env b) name) key_env"
    using t by (intro concat_same_length [where n = 3]) simp_all
  moreover have "(cx_ConfiguredTimeout a > 0) = (cx_ConfiguredTimeout b > 0)"
    using t by (simp add: key_timeout_source_def split: if_splits)
  ultimately show ?thesis using head cmd t by (simp add: same_context_def itoa_inject)
qed

lemma cache_key_Inr:
  "cache_key c = Inr h \<longleftrightarrow> check_context c = None \<and> fields_fit (key_fields c)
     \<and> h = hex_encode (sha256 (framed (key_fields c)))"
  by (auto simp: cache_key_def write_fields_framed split: option.splits)


definition sample_context :: cache_context where
  "sample_context = \<lparr>cx_ToolVersion = ''1.0'', cx_ToolDigest = replicate 64 CHR ''a'', cx_ToolchainVersion = ''go1.25'',
     cx_WorkspaceDigest = replicate 64 CHR ''b'', cx_CatalogDigest = replicate 64 CHR ''c'',
     cx_TestCommand = default_test_command, cx_ConfiguredTimeout = 0, cx_Env = env_from (\<lambda>name. None)\<rparr>"

lemma sample_context_ok: "check_context sample_context = None" "fields_fit (key_fields sample_context)"
proof -
  show "check_context sample_context = None"
    using sample_letters by (simp add: check_context_def sample_context_def default_test_command_def)
  show "fields_fit (key_fields sample_context)" by code_simp
qed


section \<open>What may be reused\<close>

text \<open>
  An outcome measured under one timeout and one memory bound, asked for under another: a counted
  loop that never ends is the same under any timeout, a timeout under a shorter one, everything
  else under one that leaves it the time it took; a kill by the memory bound is the same under a
  smaller bound, and what a bound did not stop is the same under a larger one.
\<close>

definition may_reuse :: "cache_store \<Rightarrow> cache_store \<Rightarrow> cache_entry \<Rightarrow> bool" where
  "may_reuse c c' e \<longleftrightarrow>
     0 < cache_ms (st_Timeout c')
     \<and> (en_Diverged e \<or>
        (if en_Outcome e = OutcomeTimedOut then cache_ms (st_Timeout c') \<le> cache_ms (st_Timeout c)
         else en_DurationMS e \<le> cache_ms (st_Timeout c')))
     \<and> (if en_MemoryExceeded e then 0 < st_Memory c' \<and> st_Memory c' \<le> st_Memory c
        else st_Memory c = 0 \<or> en_Outcome e = OutcomeKilled \<or> st_Memory c' \<le> 0 \<or> st_Memory c \<le> st_Memory c')"

lemma cache_put_Inr:
  "cache_put c written i e = Inr s \<longleftrightarrow>
     is_id i \<and> written \<and> s = stamped c i e \<and> \<not> entry_bad s (st_Key c) (st_Context c) i"
proof -
  have "\<not> cacheable (en_Outcome (stamped c i e)) \<Longrightarrow> entry_bad (stamped c i e) (st_Key c) (st_Context c) i"
    by (simp add: entry_bad_def)
  then show ?thesis by (auto simp: cache_put_def Let_def)
qed

lemma stamped_simps [simp]:
  "en_Version (stamped c i e) = EntryVersion" "en_Key (stamped c i e) = st_Key c"
  "en_Context (stamped c i e) = st_Context c" "en_ID (stamped c i e) = i"
  "en_TimeoutMS (stamped c i e) = cache_ms (st_Timeout c)" "en_MemoryBytes (stamped c i e) = st_Memory c"
  "en_Outcome (stamped c i e) = en_Outcome e" "en_DurationMS (stamped c i e) = en_DurationMS e"
  "en_Attempts (stamped c i e) = en_Attempts e" "en_MemoryExceeded (stamped c i e) = en_MemoryExceeded e"
  "en_PeakMemory (stamped c i e) = en_PeakMemory e" "en_Diverged (stamped c i e) = en_Diverged e"
  by (simp_all add: stamped_def)

text \<open>
  C27. What one run stores another finds again just when it may: looking up a stored entry, with any
  store, gives the entry when key, context and identifier are those it was stored under and the
  outcome is the same under the bounds of the run that asks; another key, context or identifier is
  an error and other bounds are a miss. Only kills, survivals and timeouts are ever stored.
\<close>

theorem cache_put_lookup:
  assumes "cache_put c written i e = Inr s"
  shows "cacheable (en_Outcome s) \<and> en_Outcome s = en_Outcome e \<and> written
     \<and> cache_lookup c' i' (FileEntry s) =
        (if \<not> is_id i' then Inl ErrInvalidContext
         else if st_Key c' \<noteq> st_Key c \<or> st_Context c' \<noteq> st_Context c \<or> i' \<noteq> i then Inl ErrCorruptEntry
         else Inr (if may_reuse c c' s then Some s else None))"
proof -
  have s: "s = stamped c i e" "\<not> entry_bad s (st_Key c) (st_Context c) i" "is_id i" "written"
    using assms by (auto simp: cache_put_Inr)
  have bad: "entry_bad s (st_Key c') (st_Context c') i' \<longleftrightarrow> st_Key c' \<noteq> st_Key c \<or> st_Context c' \<noteq> st_Context c \<or> i' \<noteq> i"
    using s(2) by (auto simp: s(1) entry_bad_def)
  have facts: "cacheable (en_Outcome s)" "0 \<le> st_Memory c" "en_MemoryExceeded s \<Longrightarrow> en_Outcome s = OutcomeKilled"
    using s(2) by (auto simp: s(1) entry_bad_def split: if_splits)
  have u: "usable_under s (st_Timeout c') \<and> usable_within s (st_Memory c') \<longleftrightarrow> may_reuse c c' s"
    using facts by (auto simp: may_reuse_def usable_under_def usable_within_def Let_def s(1))
  have "en_Outcome s = en_Outcome e" by (simp add: s(1))
  then show ?thesis
    using s(4) facts(1) by (auto simp: cache_lookup_def bad u [symmetric])
qed

definition sample_store :: cache_store where
  "sample_store = \<lparr>st_Key = ''k'', st_Context = ''c'', st_Timeout = 5000000000, st_Memory = 0\<rparr>"

definition sample_entry :: cache_entry where
  "sample_entry = \<lparr>en_Version = 0, en_Key = [], en_Context = [], en_ID = [], en_Outcome = OutcomeTimedOut,
     en_DurationMS = 10000, en_TimeoutMS = 0, en_KilledBy = [], en_Attempts = 2, en_OutputTail = ''x'',
     en_MemoryBytes = 0, en_MemoryExceeded = False, en_PeakMemory = 0, en_Diverged = False\<rparr>"

lemma sample_put: "cache_put sample_store True (replicate 64 CHR ''a'') sample_entry
    = Inr (stamped sample_store (replicate 64 CHR ''a'') sample_entry)"
proof -
  have "cacheable OutcomeTimedOut" "cache_ms 5000000000 = 5000" by code_simp+
  then show ?thesis
    using sample_letters by (simp add: cache_put_Inr entry_bad_def sample_entry_def sample_store_def)
qed

theorem cache_put_lookup_witness:
  "cache_lookup sample_store (replicate 64 CHR ''a'') (FileEntry (stamped sample_store (replicate 64 CHR ''a'') sample_entry))
     = Inr (Some (stamped sample_store (replicate 64 CHR ''a'') sample_entry))
   \<and> cache_lookup (sample_store\<lparr>st_Timeout := 6000000000\<rparr>) (replicate 64 CHR ''a'')
       (FileEntry (stamped sample_store (replicate 64 CHR ''a'') sample_entry)) = Inr None"
proof -
  have i: "is_id (replicate 64 CHR ''a'')" using sample_letters by simp
  have "cache_ms 5000000000 = 5000" "cache_ms 6000000000 = 6000" by code_simp+
  then have "may_reuse sample_store sample_store (stamped sample_store (replicate 64 CHR ''a'') sample_entry)"
    "\<not> may_reuse sample_store (sample_store\<lparr>st_Timeout := 6000000000\<rparr>) (stamped sample_store (replicate 64 CHR ''a'') sample_entry)"
    by (simp_all add: may_reuse_def sample_store_def sample_entry_def)
  with cache_put_lookup [OF sample_put, of sample_store "replicate 64 CHR ''a''"]
    cache_put_lookup [OF sample_put, of "sample_store\<lparr>st_Timeout := 6000000000\<rparr>" "replicate 64 CHR ''a''"]
  show ?thesis using i by (simp add: sample_store_def)
qed

end
