(* ===== verification/ProbeSettle.thy ===== *)
theory ProbeSettle
  imports GoStrings MutantId
begin

text \<open>
  What a probe pass proves (\<open>internal/probe/settle.go\<close>): a mutant that no covering binary could
  observe need not be run, and a binary that could not observe it need not run it. A pass that
  was not measured has no log.
\<close>

record probe_candidate =
  pc_ID :: string
  pc_Index :: u32
  Probed :: bool
  pc_Binaries :: "int list"

record probe_pass =
  pp_Binary :: int
  Infected :: "u32 list option"

record probe_decision =
  Settled :: "string list"
  Narrowed :: "string \<rightharpoonup> int list"

datatype probe_error = ErrNothingToProbe | ErrInconsistent

definition known_index :: "probe_candidate list \<Rightarrow> u32 \<Rightarrow> bool" where
  "known_index candidates i \<longleftrightarrow> i \<in> set (map pc_Index candidates)"

text \<open>The loop over the passes: the logs by binary, a later pass over an earlier one.\<close>

fun measured_passes ::
  "probe_candidate list \<Rightarrow> (int \<rightharpoonup> u32 list) \<Rightarrow> probe_pass list \<Rightarrow> probe_error + (int \<rightharpoonup> u32 list)" where
  "measured_passes candidates logs [] = Inr logs"
| "measured_passes candidates logs (p # ps) =
     (case Infected p of
        None \<Rightarrow> measured_passes candidates logs ps
      | Some named \<Rightarrow>
          if list_ex (\<lambda>i. \<not> known_index candidates i) named then Inl ErrInconsistent
          else measured_passes candidates (logs(pp_Binary p \<mapsto> named)) ps)"

definition keeps :: "(int \<rightharpoonup> u32 list) \<Rightarrow> probe_candidate \<Rightarrow> int list" where
  "keeps logs c =
     filter (\<lambda>b. case logs b of None \<Rightarrow> True | Some named \<Rightarrow> pc_Index c \<in> set named) (pc_Binaries c)"

definition settle_step :: "(int \<rightharpoonup> u32 list) \<Rightarrow> probe_decision \<Rightarrow> probe_candidate \<Rightarrow> probe_decision" where
  "settle_step logs d c =
     (if \<not> Probed c \<or> length (pc_Binaries c) = 0 then d
      else
        (let keep = keeps logs c in
         if length keep = 0 then d\<lparr>Settled := Settled d @ [pc_ID c]\<rparr>
         else if length keep < length (pc_Binaries c) then d\<lparr>Narrowed := (Narrowed d)(pc_ID c \<mapsto> keep)\<rparr>
         else d))"

definition settle :: "probe_candidate list \<Rightarrow> probe_pass list \<Rightarrow> probe_error + probe_decision" where
  "settle candidates passes =
     (if length candidates = 0 \<or> length passes = 0 then Inl ErrNothingToProbe
      else
        (case measured_passes candidates Map.empty passes of
           Inl err \<Rightarrow> Inl err
         | Inr logs \<Rightarrow>
             (let d = foldl (settle_step logs) \<lparr>Settled = [], Narrowed = Map.empty\<rparr> candidates
              in Inr (d\<lparr>Settled := sort_by cmp_str (Settled d)\<rparr>))))"

section \<open>The rule\<close>

text \<open>
  The last measured pass of a binary, and the binaries that may observe a mutant: those without a
  measured pass and those whose pass was infected by it.
\<close>

definition log_of :: "probe_pass list \<Rightarrow> int \<Rightarrow> u32 list option" where
  "log_of passes b =
     (case find (\<lambda>p. pp_Binary p = b \<and> Infected p \<noteq> None) (rev passes) of None \<Rightarrow> None | Some p \<Rightarrow> Infected p)"

definition observers :: "probe_pass list \<Rightarrow> probe_candidate \<Rightarrow> int list" where
  "observers passes c =
     filter (\<lambda>b. case log_of passes b of None \<Rightarrow> True | Some named \<Rightarrow> pc_Index c \<in> set named) (pc_Binaries c)"

definition unobservable :: "probe_pass list \<Rightarrow> probe_candidate \<Rightarrow> bool" where
  "unobservable passes c \<longleftrightarrow> Probed c \<and> pc_Binaries c \<noteq> [] \<and> observers passes c = []"

definition narrowable :: "probe_pass list \<Rightarrow> probe_candidate \<Rightarrow> bool" where
  "narrowable passes c \<longleftrightarrow> Probed c \<and> observers passes c \<noteq> [] \<and> observers passes c \<noteq> pc_Binaries c"

lemma measured_passes_eq:
  "measured_passes cs logs ps =
     (if list_ex (\<lambda>p. case Infected p of None \<Rightarrow> False | Some named \<Rightarrow> list_ex (\<lambda>i. \<not> known_index cs i) named) ps
      then Inl ErrInconsistent
      else Inr (\<lambda>b. case log_of ps b of None \<Rightarrow> logs b | Some named \<Rightarrow> Some named))"
proof (induction ps arbitrary: logs)
  case Nil
  then show ?case by (simp add: log_of_def)
next
  case (Cons p ps)
  have find_app: "find P (xs @ [x]) = (case find P xs of None \<Rightarrow> if P x then Some x else None | Some y \<Rightarrow> Some y)"
    for P and xs :: "probe_pass list" and x
    by (induction xs) auto
  have some: "find (\<lambda>p. pp_Binary p = b \<and> Infected p \<noteq> None) (rev ps) = Some q \<Longrightarrow> \<exists>named. Infected q = Some named" for b q
    by (auto simp: find_Some_iff)
  have step: "log_of (p # ps) b = (case log_of ps b of
      None \<Rightarrow> if pp_Binary p = b then Infected p else None | Some named \<Rightarrow> Some named)" for b
    using some [of b] by (auto simp: log_of_def find_app split: option.splits)
  show ?case
  proof (cases "Infected p")
    case None
    then have "log_of (p # ps) = log_of ps" by (intro ext) (simp add: step split: option.splits)
    then show ?thesis by (simp add: None Cons.IH)
  next
    case (Some named)
    have "(\<lambda>b. case log_of (p # ps) b of None \<Rightarrow> logs b | Some named \<Rightarrow> Some named)
        = (\<lambda>b. case log_of ps b of None \<Rightarrow> (logs(pp_Binary p \<mapsto> named)) b | Some named \<Rightarrow> Some named)"
      by (intro ext) (simp add: step Some split: option.splits)
    then show ?thesis by (simp add: Some Cons.IH)
  qed
qed

lemma filter_shorter: "length (filter P xs) < length xs \<longleftrightarrow> filter P xs \<noteq> xs"
  by (metis filter_True length_filter_less less_irrefl)

lemma settle_steps:
  assumes logs: "\<And>b. logs b = log_of passes b"
  shows "foldl (settle_step logs) d cs =
    \<lparr>Settled = Settled d @ map pc_ID (filter (unobservable passes) cs),
     Narrowed = Narrowed d ++ map_of (rev (map (\<lambda>c. (pc_ID c, observers passes c)) (filter (narrowable passes) cs)))\<rparr>"
proof (induction cs arbitrary: d)
  case Nil
  then show ?case by simp
next
  case (Cons c cs)
  have keeps: "keeps logs c = observers passes c" by (simp add: keeps_def observers_def logs)
  have short: "length (observers passes c) < length (pc_Binaries c) \<longleftrightarrow> observers passes c \<noteq> pc_Binaries c"
    unfolding observers_def by (rule filter_shorter)
  have none: "pc_Binaries c = [] \<Longrightarrow> observers passes c = []" by (simp add: observers_def)
  have step: "settle_step logs d c =
      (if unobservable passes c then d\<lparr>Settled := Settled d @ [pc_ID c]\<rparr>
       else if narrowable passes c then d\<lparr>Narrowed := (Narrowed d)(pc_ID c \<mapsto> observers passes c)\<rparr> else d)"
    using none by (auto simp: settle_step_def keeps short unobservable_def narrowable_def Let_def)
  have "\<not> (unobservable passes c \<and> narrowable passes c)" by (simp add: unobservable_def narrowable_def)
  then show ?case by (auto simp: step Cons.IH map_add_upd_left)
qed

lemma settle_settled:
  assumes "ProbeSettle.settle candidates passes = Inr d"
  shows "set (Settled d) = pc_ID ` {c \<in> set candidates. unobservable passes c}"
proof -
  have "(case log_of passes b of None \<Rightarrow> Map.empty b | Some named \<Rightarrow> Some named) = log_of passes b" for b
    by (simp split: option.splits)
  then show ?thesis
    using assms unfolding ProbeSettle.settle_def measured_passes_eq
    by (auto simp: settle_steps [of _ passes] Let_def split: if_splits)
qed

text \<open>
  C29. The decision of a probe is exact: without mutants or passes, or when a log names an index
  that is not one of the mutants asked about, it is an error; otherwise a mutant is settled
  exactly when it was probed, something covers it and the pass of every covering binary was
  measured and not infected by it, and it is narrowed to the binaries that may observe it exactly
  when some of the covering binaries may and some may not.
\<close>

theorem settle_exact:
  "settle candidates passes =
     (if candidates = [] \<or> passes = [] then Inl ErrNothingToProbe
      else if list_ex (\<lambda>p. case Infected p of None \<Rightarrow> False
          | Some named \<Rightarrow> list_ex (\<lambda>i. i \<notin> pc_Index ` set candidates) named) passes then Inl ErrInconsistent
      else Inr \<lparr>Settled = sort_by cmp_str (map pc_ID (filter (unobservable passes) candidates)),
        Narrowed = map_of (rev (map (\<lambda>c. (pc_ID c, observers passes c)) (filter (narrowable passes) candidates)))\<rparr>)"
proof -
  have "(case log_of passes b of None \<Rightarrow> Map.empty b | Some named \<Rightarrow> Some named) = log_of passes b" for b
    by (simp split: option.splits)
  moreover have known: "known_index candidates i \<longleftrightarrow> i \<in> pc_Index ` set candidates" for i
    by (simp add: known_index_def)
  ultimately show ?thesis
    unfolding settle_def measured_passes_eq known by (simp add: settle_steps [of _ passes])
qed

end
