(* ===== verification/EngineRun.thy ===== *)
theory EngineRun
  imports BuildReport OutcomeCache ProbeSettle Coverage GitDiff Schedule
begin

text \<open>
  The phase of a run between validation and the report (\<open>internal/engine\<close>): mutants are selected,
  coverage and a probe settle some of them without running them, the cache answers for others,
  the rest is executed, and what is known of every mutant is handed to the report. Processes,
  files and the scheduler's interleaving are parameters: the profiles and passes they yield, the
  files of the cache, and the results the scheduler returns.
\<close>

section \<open>The state of a run\<close>

record shown =
  sn_Path :: string
  sn_Line :: int
  sn_Original :: string

definition nothing_shown :: shown where
  "nothing_shown = \<lparr>sn_Path = [], sn_Line = 0, sn_Original = []\<rparr>"

record coverage_result =
  er_mode :: coverage_mode
  er_binaries :: int
  er_tests :: int
  er_covering :: "string \<rightharpoonup> string list"
  er_coveringTests :: "string \<rightharpoonup> test_ref list"

definition no_coverage :: coverage_result where
  "no_coverage = \<lparr>er_mode = [], er_binaries = 0, er_tests = 0, er_covering = Map.empty,
     er_coveringTests = Map.empty\<rparr>"

record cache_state =
  eh_mode :: cache_mode
  eh_hits :: int
  eh_misses :: int
  eh_writes :: int

definition no_cache :: cache_state where
  "no_cache = \<lparr>eh_mode = [], eh_hits = 0, eh_misses = 0, eh_writes = 0\<rparr>"

record engine_state =
  es_catalog :: catalog
  es_changed :: "changed option"
  es_shard :: "shard option"
  es_selected :: int
  es_notRun :: "string \<rightharpoonup> not_run_reason"
  es_results :: "string \<rightharpoonup> measured"
  es_display :: "string \<rightharpoonup> shown"
  es_packages :: "string \<rightharpoonup> string"
  es_coverage :: coverage_result
  es_cache :: cache_state

definition shown_of :: "engine_state \<Rightarrow> string \<Rightarrow> shown" where
  "shown_of st i = (case es_display st i of None \<Rightarrow> nothing_shown | Some d \<Rightarrow> d)"

text \<open>A result with every other field zero.\<close>

definition measured_as :: "string \<Rightarrow> outcome \<Rightarrow> measured" where
  "measured_as i out =
     \<lparr>mo_ID = i, mo_Outcome = out, mo_NotRunReason = [], mo_Duration = 0, mo_KilledBy = [],
      mo_Attempts = 0, mo_OutputTail = [], mo_MemoryExceeded = False, mo_PeakMemory = 0,
      mo_Diverged = False, mo_Executions = [], mo_CoveringPackages = [], mo_CoveringTests = [],
      mo_Uncovered = False, mo_Unobserved = False, mo_Cached = False\<rparr>"

definition result_mode :: "coverage_result \<Rightarrow> coverage_mode" where
  "result_mode c = (if er_mode c = [] then CoverageOff else er_mode c)"

definition state_mode :: "cache_state \<Rightarrow> cache_mode" where
  "state_mode c = (if eh_mode c = [] then CacheModeOff else eh_mode c)"

section \<open>Selection\<close>

record engine_options =
  eo_Shard :: shard
  eo_Changed :: bool
  eo_MutantPrefix :: string

definition selection_mode_of :: "engine_options \<Rightarrow> selection_mode" where
  "selection_mode_of opts =
     (if sh_Total (eo_Shard opts) > 0 then ModeShard
      else if eo_Changed opts then ModeChanged
      else if eo_MutantPrefix opts \<noteq> [] then ModeMutant
      else ModeAll)"

definition shard_of_options :: "engine_options \<Rightarrow> shard option" where
  "shard_of_options opts =
     (if sh_Total (eo_Shard opts) \<le> 0 then None
      else Some ((eo_Shard opts)\<lparr>sh_Assignment := ShardAssignment\<rparr>))"

text \<open>
  \<open>displayIndex\<close>: the place, and the package when it has one, of each catalogued mutant. A mutant
  that discovery did not locate is shown at line 0.
\<close>

definition display_index :: "catalog \<Rightarrow> located list \<Rightarrow> (string \<rightharpoonup> shown) \<times> (string \<rightharpoonup> string)" where
  "display_index c candidates =
     foldl (\<lambda>(display, packages) m.
         (let place = locate candidates (key_of_candidate (m_candidate m)) in
          (display(ID m \<mapsto> \<lparr>sn_Path = c_Path (m_candidate m),
              sn_Line = (case place of None \<Rightarrow> 0 | Some p \<Rightarrow> loc_Line p), sn_Original = c_Original (m_candidate m)\<rparr>),
           (case place of
              None \<Rightarrow> packages
            | Some p \<Rightarrow> if loc_Package p \<noteq> [] then packages(ID m \<mapsto> loc_Package p) else packages))))
       (Map.empty, Map.empty) (mutants c)"

definition on_changed_lines :: "changed \<Rightarrow> engine_state \<Rightarrow> string list \<Rightarrow> string list" where
  "on_changed_lines ch st ids =
     filter (\<lambda>i. let d = shown_of st i in
        if sn_Path d = [] \<or> sn_Line d < 1 then True
        else touches ch (sn_Path d) (sn_Line d) (end_line (sn_Line d) (sn_Original d))) ids"

definition owned_by_shard :: "string list \<Rightarrow> shard \<Rightarrow> string list" where
  "owned_by_shard ids s = filter (shard_owns s) ids"

definition narrow_selection :: "engine_state \<Rightarrow> string list \<Rightarrow> string list" where
  "narrow_selection st ids =
     (let ids = (case es_changed st of None \<Rightarrow> ids | Some ch \<Rightarrow> on_changed_lines ch st ids) in
      (case es_shard st of None \<Rightarrow> ids | Some s \<Rightarrow> owned_by_shard ids s))"

definition record_not_run :: "string list \<Rightarrow> mutant_run list \<Rightarrow> engine_state \<Rightarrow> engine_state" where
  "record_not_run accepted runs st =
     (let selected = map m_ID runs in
      foldl (\<lambda>st i.
          if i \<in> set selected then st
          else st\<lparr>es_notRun := (es_notRun st)(i \<mapsto>
             (case es_shard st of
                None \<Rightarrow> NotRunOutOfSelection
              | Some s \<Rightarrow> if \<not> shard_owns s i then NotRunOtherShard else NotRunOutOfSelection))\<rparr>)
        st accepted)"

definition not_run_reason_for :: "engine_state \<Rightarrow> string \<Rightarrow> not_run_reason" where
  "not_run_reason_for st i = (case es_notRun st i of Some reason \<Rightarrow> reason | None \<Rightarrow> NotRunInterrupted)"

definition run_for :: "engine_state \<Rightarrow> int \<Rightarrow> int \<Rightarrow> (string \<Rightarrow> bool) \<Rightarrow> string \<Rightarrow> mutant_run" where
  "run_for st timeout memoryLimit neverReturns i =
     \<lparr>m_ID = i, m_Package = (case es_packages st i of None \<Rightarrow> [] | Some p \<Rightarrow> p), m_Timeout = timeout,
      NeverReturns = neverReturns i, m_MemoryLimit = memoryLimit, m_Binaries = None, m_Tests = [],
      m_Args = [], m_OutputLimit = 0, m_RecordTestLog = False\<rparr>"

definition selection_runs ::
  "engine_options \<Rightarrow> string list \<Rightarrow> int \<Rightarrow> int \<Rightarrow> (string \<Rightarrow> bool) \<Rightarrow> engine_state
   \<Rightarrow> catalog_error + mutant_run list \<times> engine_state" where
  "selection_runs opts acceptedIDs timeout memoryLimit neverReturns st =
     and_then (if eo_MutantPrefix opts = [] then Inr acceptedIDs
               else and_then (resolve_prefix (es_catalog st) (eo_MutantPrefix opts)) (\<lambda>chosen.
                 Inr (if ID chosen \<in> set acceptedIDs then [ID chosen] else [])))
       (\<lambda>ids.
         (let runs = map (run_for st timeout memoryLimit neverReturns) (narrow_selection st ids) in
          Inr (runs, record_not_run acceptedIDs runs (st\<lparr>es_selected := int (length runs)\<rparr>))))"

text \<open>\<open>selectedOf\<close>, for a module of a workspace.\<close>

definition selected_of :: "engine_state \<Rightarrow> string \<Rightarrow> int" where
  "selected_of st own =
     int (length (filter (\<lambda>m. c_ModulePath (m_candidate m) = own \<and> es_notRun st (ID m) = None)
       (mutants (es_catalog st))))"

section \<open>Coverage\<close>

definition record_result :: "measured \<Rightarrow> engine_state \<Rightarrow> engine_state" where
  "record_result r st = st\<lparr>es_results := (es_results st)(mo_ID r \<mapsto> r)\<rparr>"

definition record_uncovered :: "engine_state \<Rightarrow> string \<Rightarrow> engine_state" where
  "record_uncovered st i = record_result ((measured_as i OutcomeSurvived)\<lparr>mo_Uncovered := True\<rparr>) st"

definition module_of :: "engine_state \<Rightarrow> string \<Rightarrow> string" where
  "module_of st i = (case by_id (es_catalog st) i of None \<Rightarrow> [] | Some m \<Rightarrow> c_ModulePath (m_candidate m))"

definition coverage_mutants :: "mutant_run list \<Rightarrow> engine_state \<Rightarrow> cov_mutant list" where
  "coverage_mutants runs st =
     map (\<lambda>r. let d = shown_of st (m_ID r) in
        \<lparr>cm_ID = m_ID r, cm_Path = sn_Path d, cm_ModulePath = module_of st (m_ID r),
         cm_StartLine = sn_Line d, cm_EndLine = end_line (sn_Line d) (sn_Original d)\<rparr>)
       (filter (\<lambda>r. let d = shown_of st (m_ID r) in \<not> (sn_Line d < 1 \<or> sn_Path d = [])) runs)"

definition binary_index :: "test_binary list \<Rightarrow> (string \<rightharpoonup> int)" where
  "binary_index bins = foldl (\<lambda>m (i, b). m(b_ImportPath b \<mapsto> int i)) Map.empty (enumerate 0 bins)"

definition indices_of :: "string list \<Rightarrow> (string \<rightharpoonup> int) \<Rightarrow> int list option" where
  "indices_of covering index =
     (let is = List.map_filter index covering in if length is = 0 then None else Some is)"

text \<open>The loop of \<open>narrow\<close> over the runs: those that stay, and the identifiers of the uncovered.\<close>

fun narrow_runs ::
  "map_result \<Rightarrow> string list \<Rightarrow> (string \<rightharpoonup> int) \<Rightarrow> mutant_run list \<Rightarrow> mutant_run list \<times> string list" where
  "narrow_runs mapped asked index [] = ([], [])"
| "narrow_runs mapped asked index (r # rs) =
     (let covering = covering_of mapped (m_ID r);
          (covered, uncovered) = narrow_runs mapped asked index rs
      in if m_ID r \<notin> set asked then (r # covered, uncovered)
         else if length covering = 0 then (covered, m_ID r # uncovered)
         else (r\<lparr>m_Binaries := indices_of covering index\<rparr> # covered, uncovered))"

definition narrow_to_packages ::
  "map_result \<Rightarrow> cov_mutant list \<Rightarrow> test_binary list \<Rightarrow> mutant_run list \<Rightarrow> engine_state
   \<Rightarrow> mutant_run list \<times> engine_state" where
  "narrow_to_packages mapped decided bins runs st =
     (let (covered, uncovered) = narrow_runs mapped (map cm_ID decided) (binary_index bins) runs in
      (covered,
       (foldl record_uncovered st uncovered)\<lparr>es_coverage :=
          \<lparr>er_mode = CoveragePackage, er_binaries = int (length (Coverage.Binaries mapped)), er_tests = 0,
           er_covering = Covering mapped, er_coveringTests = Map.empty\<rparr>\<rparr>))"

section \<open>Coverage by test\<close>

record mutant_plan =
  pl_tests :: "(string \<times> string list) list"
  pl_binaries :: "string list"

definition add_test :: "(string \<times> string list) list \<Rightarrow> test_key \<Rightarrow> (string \<times> string list) list" where
  "add_test tests k =
     (case map_of tests (ImportPath k) of
        None \<Rightarrow> tests @ [(ImportPath k, [TestName k])]
      | Some names \<Rightarrow> AList.update (ImportPath k) (names @ [TestName k]) tests)"

definition plan_for :: "test_result \<Rightarrow> (string \<Rightarrow> string list) \<Rightarrow> string \<Rightarrow> mutant_plan" where
  "plan_for testMapped binCovering i =
     \<lparr>pl_tests = foldl add_test [] (test_covering_of testMapped i), pl_binaries = binCovering i\<rparr>"

definition covering_binaries :: "(string \<times> string list) list \<Rightarrow> string list \<Rightarrow> string list" where
  "covering_binaries tests dirty = sort_by cmp_str (remdups (map fst tests @ dirty))"

definition compare_test_refs :: "test_ref \<Rightarrow> test_ref \<Rightarrow> int" where
  "compare_test_refs a b =
     (let c = cmp_str (tr_Package a) (tr_Package b) in if c \<noteq> 0 then c else cmp_str (tr_Name a) (tr_Name b))"

definition test_refs_of :: "(string \<times> string list) list \<Rightarrow> test_ref list" where
  "test_refs_of tests =
     sort_by compare_test_refs
       (concat (map (\<lambda>(p, names). map (\<lambda>name. \<lparr>tr_Package = p, tr_Name = name\<rparr>) names) tests))"

text \<open>\<open>reliable\<close> is the verdict on a set of tests that was run together without a mutant.\<close>

fun decide_runs ::
  "(string \<rightharpoonup> int) \<Rightarrow> string list \<Rightarrow> (string \<Rightarrow> mutant_plan) \<Rightarrow> ((string \<times> string list) list \<Rightarrow> bool)
   \<Rightarrow> mutant_run list \<Rightarrow> coverage_result \<Rightarrow> mutant_run list \<times> string list \<times> coverage_result" where
  "decide_runs index asked plans reliable [] result = ([], [], result)"
| "decide_runs index asked plans reliable (r # rs) result =
     (let p = plans (m_ID r);
          usable = (if length (pl_tests p) > 0 \<and> \<not> reliable (pl_tests p) then [] else pl_tests p);
          binaries = covering_binaries (pl_tests p) (pl_binaries p)
      in if m_ID r \<notin> set asked then
           (let (covered, uncovered, result) = decide_runs index asked plans reliable rs result
            in (r # covered, uncovered, result))
         else if length binaries = 0 then
           (let (covered, uncovered, result) = decide_runs index asked plans reliable rs result
            in (covered, m_ID r # uncovered, result))
         else
           (let (covered, uncovered, result) = decide_runs index asked plans reliable rs
                  (result\<lparr>er_covering := (er_covering result)(m_ID r \<mapsto> binaries),
                    er_coveringTests := (er_coveringTests result)(m_ID r \<mapsto> test_refs_of usable)\<rparr>)
            in (r\<lparr>m_Binaries := indices_of binaries index, m_Tests := usable\<rparr> # covered, uncovered, result)))"

text \<open>
  An error of the Go command, the file system or the context: an interruption is what
  \<open>errors.Is\<close> finds to be a cancelled context; of every other error its code is kept.
\<close>

datatype fault = Interruption | Fault string

definition interrupted :: "fault \<Rightarrow> bool" where
  "interrupted f \<longleftrightarrow> f = Interruption"

definition CodeCoverageRender :: string where "CodeCoverageRender = ''GOM4015''"
definition CodeScratchDir :: string where "CodeScratchDir = ''GOM4004''"

text \<open>A profile that cannot be read or parsed is None.\<close>

record collected_test =
  ct_ImportPath :: string
  ct_Name :: string
  ct_Passed :: bool
  ct_Profile :: "profile option"

text \<open>The binaries that are measured as a whole: a test failed on its own, or none was profiled.\<close>

definition whole_binaries :: "collected_test list \<Rightarrow> test_binary list \<Rightarrow> string list" where
  "whole_binaries collected bins =
     map b_ImportPath (filter (\<lambda>b.
         list_ex (\<lambda>d. ct_ImportPath d = b_ImportPath b \<and> \<not> ct_Passed d) collected
         \<or> \<not> list_ex (\<lambda>d. ct_ImportPath d = b_ImportPath b) collected) bins)"

fun read_profiles :: "('k \<times> profile option) list \<Rightarrow> fault + ('k \<times> profile) list" where
  "read_profiles [] = Inr []"
| "read_profiles ((k, file) # fs) =
     (case file of
        None \<Rightarrow> Inl (Fault CodeCoverageRender)
      | Some p \<Rightarrow> and_then (read_profiles fs) (\<lambda>ps. Inr ((k, p) # ps)))"

definition test_profiles :: "collected_test list \<Rightarrow> string list \<Rightarrow> fault + (test_key \<times> profile) list" where
  "test_profiles collected whole =
     and_then (read_profiles (map (\<lambda>d. (\<lparr>ImportPath = ct_ImportPath d, TestName = ct_Name d\<rparr>, ct_Profile d))
         (filter (\<lambda>d. ct_Passed d \<and> ct_ImportPath d \<notin> set whole) collected)))
       (\<lambda>ps. Inr (foldl (\<lambda>kept (k, p). AList.update k p kept) [] ps))"

text \<open>
  What the coverage runs answer: the profile of each binary, the tests that were run one by one
  with their profiles, whether the directory for profiles could be made, the profiles of the
  binaries that have to be measured as a whole, and the verdict on a set of tests that was run
  together without a mutant.
\<close>

record coverage_world =
  cw_Collect :: "fault + (string \<times> profile option) list"
  cw_CollectTests :: "fault + collected_test list"
  cw_ProfileDir :: bool
  cw_Whole :: "string list \<Rightarrow> fault + (string \<times> profile option) list"
  cw_Reliable :: "(string \<times> string list) list \<Rightarrow> bool"

definition whole_profiles :: "coverage_world \<Rightarrow> string list \<Rightarrow> fault + (string \<times> profile) list" where
  "whole_profiles C whole = (if length whole = 0 then Inr [] else and_then (cw_Whole C whole) read_profiles)"

definition CodeUnavailable :: string where "CodeUnavailable = ''GOM7602''"

definition narrow_to_tests ::
  "string \<Rightarrow> coverage_world \<Rightarrow> collected_test list \<Rightarrow> test_binary list \<Rightarrow> mutant_run list \<Rightarrow> engine_state
   \<Rightarrow> fault + mutant_run list \<times> engine_state" where
  "narrow_to_tests modulePath C collected bins runs st =
     (let whole = whole_binaries collected bins; decided = coverage_mutants runs st in
      if \<not> cw_ProfileDir C then Inl (Fault CodeScratchDir)
      else and_then (test_profiles collected whole) (\<lambda>testProfiles.
        and_then (whole_profiles C whole) (\<lambda>binProfiles.
          (let testMapped = map_tests \<lparr>to_ModulePath = modulePath, to_Mutants = decided, to_Profiles = testProfiles\<rparr>;
               binMapped = cov_map \<lparr>mo_ModulePath = modulePath, mo_Mutants = decided, mo_Profiles = binProfiles\<rparr>;
               bins_used = length binProfiles > 0
           in if t_Matched testMapped = 0 \<and> (\<not> bins_used \<or> Matched binMapped = 0) then Inl (Fault CodeUnavailable)
              else
                (let (covered, uncovered, result) =
                       decide_runs (binary_index bins) (map cm_ID decided)
                         (plan_for testMapped (\<lambda>i. if bins_used then covering_of binMapped i else [])) (cw_Reliable C) runs
                         \<lparr>er_mode = CoverageTest, er_binaries = int (length bins), er_tests = int (length (t_Tests testMapped)),
                          er_covering = Map.empty, er_coveringTests = Map.empty\<rparr>
                 in Inr (covered, (foldl record_uncovered st uncovered)\<lparr>es_coverage := result\<rparr>))))))"

definition usable_profiles :: "(string \<times> profile) list \<Rightarrow> bool" where
  "usable_profiles ps \<longleftrightarrow> list_ex (\<lambda>p. length (Blocks (snd p)) > 0) ps"

definition package_profiles :: "coverage_world \<Rightarrow> fault + (string \<times> profile) list" where
  "package_profiles C =
     and_then (and_then (cw_Collect C) read_profiles)
       (\<lambda>ps. if usable_profiles ps then Inr ps else Inl (Fault CodeUnavailable))"

text \<open>
  An error other than an interruption turns the selection by coverage off; an interruption ends
  the phase. Both leave the runs as they were.
\<close>

definition without_coverage ::
  "fault option \<Rightarrow> mutant_run list \<Rightarrow> engine_state \<Rightarrow> fault option \<times> mutant_run list \<times> engine_state" where
  "without_coverage err runs st =
     (case err of
        None \<Rightarrow> (None, runs, st\<lparr>es_coverage := no_coverage\<rparr>)
      | Some f \<Rightarrow> (if interrupted f then Some f else None, runs, st\<lparr>es_coverage := no_coverage\<rparr>))"

definition test_coverage_phase ::
  "string \<Rightarrow> coverage_world \<Rightarrow> test_binary list \<Rightarrow> mutant_run list \<Rightarrow> engine_state
   \<Rightarrow> fault option \<times> mutant_run list \<times> engine_state" where
  "test_coverage_phase modulePath C bins runs st =
     (case cw_CollectTests C of
        Inl f \<Rightarrow> without_coverage (Some f) runs st
      | Inr collected \<Rightarrow>
          (case narrow_to_tests modulePath C collected bins runs st of
             Inl f \<Rightarrow> without_coverage (Some f) runs st
           | Inr (runs, st) \<Rightarrow> (None, runs, st)))"

definition coverage_phase ::
  "narrowing \<Rightarrow> string \<Rightarrow> coverage_world \<Rightarrow> test_binary list \<Rightarrow> mutant_run list \<Rightarrow> engine_state
   \<Rightarrow> fault option \<times> mutant_run list \<times> engine_state" where
  "coverage_phase level modulePath C bins runs st =
     (if length runs = 0 \<or> length bins = 0 then without_coverage None runs st
      else if level \<noteq> NarrowingPackage then test_coverage_phase modulePath C bins runs st
      else
        (case package_profiles C of
           Inl f \<Rightarrow> without_coverage (Some f) runs st
         | Inr profiles \<Rightarrow>
             (let decided = coverage_mutants runs st;
                  mapped = cov_map \<lparr>mo_ModulePath = modulePath, mo_Mutants = decided, mo_Profiles = profiles\<rparr>
              in if Matched mapped = 0 then without_coverage None runs st
                 else (None, narrow_to_packages mapped decided bins runs st))))"

section \<open>Probing\<close>

definition probe_candidates :: "(mutant \<Rightarrow> bool) \<Rightarrow> mutant_run list \<Rightarrow> engine_state \<Rightarrow> probe_candidate list" where
  "probe_candidates probes runs st =
     List.map_filter (\<lambda>r. case by_id (es_catalog st) (m_ID r) of
          None \<Rightarrow> None
        | Some m \<Rightarrow> Some \<lparr>pc_ID = m_ID r, pc_Index = Index m, Probed = probes m,
            pc_Binaries = (case m_Binaries r of None \<Rightarrow> [] | Some is \<Rightarrow> is)\<rparr>) runs"

definition probed_tests :: "(string \<times> string list) list \<Rightarrow> int list \<Rightarrow> test_binary list \<Rightarrow> (string \<times> string list) list" where
  "probed_tests tests binaries bins =
     (if length tests = 0 then []
      else foldl (\<lambda>kept i.
          if i < 0 \<or> i \<ge> int (length bins) then kept
          else (case map_of tests (b_ImportPath (bins ! nat i)) of
                  None \<Rightarrow> kept
                | Some names \<Rightarrow> AList.update (b_ImportPath (bins ! nat i)) names kept)) [] binaries)"

definition record_unobserved :: "engine_state \<Rightarrow> string \<Rightarrow> engine_state" where
  "record_unobserved st i = record_result ((measured_as i OutcomeSurvived)\<lparr>mo_Unobserved := True\<rparr>) st"

definition apply_probe ::
  "probe_decision \<Rightarrow> mutant_run list \<Rightarrow> test_binary list \<Rightarrow> engine_state \<Rightarrow> mutant_run list \<times> engine_state" where
  "apply_probe d runs bins st =
     (map (\<lambda>r. case Narrowed d (m_ID r) of
          None \<Rightarrow> r
        | Some is \<Rightarrow> r\<lparr>m_Binaries := Some is, m_Tests := probed_tests (m_Tests r) is bins\<rparr>)
        (filter (\<lambda>r. m_ID r \<notin> set (Settled d)) runs),
      foldl record_unobserved st (Settled d))"

text \<open>The passes, or the error of making the probe tree, of a pass or of putting the tree back.\<close>

definition probe_phase ::
  "(mutant \<Rightarrow> bool) \<Rightarrow> fault + probe_pass list \<Rightarrow> test_binary list \<Rightarrow> mutant_run list \<Rightarrow> engine_state
   \<Rightarrow> fault option \<times> mutant_run list \<times> engine_state" where
  "probe_phase probes passes bins runs st =
     (if length runs = 0 \<or> length bins = 0 then (None, runs, st)
      else
        (case passes of
           Inl f \<Rightarrow> (if interrupted f then Some f else None, runs, st)
         | Inr ps \<Rightarrow>
             (case ProbeSettle.settle (probe_candidates probes runs st) ps of
                Inl err \<Rightarrow> (None, runs, st)
              | Inr d \<Rightarrow> (None, apply_probe d runs bins st))))"

section \<open>The cache\<close>

text \<open>An open cache: its store, the file of each mutant, and whether writing its file succeeds.\<close>

record open_cache =
  oc_Store :: cache_store
  oc_Files :: "string \<Rightarrow> cache_file"
  oc_Writes :: "string \<Rightarrow> bool"

definition expected_ids :: "expectation_row list \<Rightarrow> string list" where
  "expected_ids ledger = map xr_ID ledger"

definition covering_packages :: "engine_state \<Rightarrow> string \<Rightarrow> string list" where
  "covering_packages st i = (case er_covering (es_coverage st) i of None \<Rightarrow> [] | Some ps \<Rightarrow> ps)"

definition covering_tests :: "engine_state \<Rightarrow> string \<Rightarrow> test_ref list" where
  "covering_tests st i = (case er_coveringTests (es_coverage st) i of None \<Rightarrow> [] | Some ts \<Rightarrow> ts)"

definition adopt :: "string \<Rightarrow> cache_entry \<Rightarrow> engine_state \<Rightarrow> engine_state" where
  "adopt i e st =
     (let r = (measured_as i (en_Outcome e))
            \<lparr>mo_Duration := entry_duration e, mo_KilledBy := en_KilledBy e, mo_Attempts := en_Attempts e,
             mo_OutputTail := en_OutputTail e, mo_CoveringPackages := covering_packages st i,
             mo_CoveringTests := covering_tests st i, mo_Cached := True,
             mo_MemoryExceeded := en_MemoryExceeded e, mo_PeakMemory := en_PeakMemory e,
             mo_Diverged := en_Diverged e\<rparr>;
          st = record_result r st
      in st\<lparr>es_cache := (es_cache st)\<lparr>eh_hits := eh_hits (es_cache st) + 1\<rparr>\<rparr>)"

definition count_miss :: "engine_state \<Rightarrow> engine_state" where
  "count_miss st = st\<lparr>es_cache := (es_cache st)\<lparr>eh_misses := eh_misses (es_cache st) + 1\<rparr>\<rparr>"

fun lookup_runs :: "open_cache \<Rightarrow> string list \<Rightarrow> mutant_run list \<Rightarrow> engine_state \<Rightarrow> mutant_run list \<times> engine_state" where
  "lookup_runs c expected [] st = ([], st)"
| "lookup_runs c expected (r # rs) st =
     (if m_ID r \<in> set expected then
        (let (misses, st) = lookup_runs c expected rs st in (r # misses, st))
      else
        (case cache_lookup (oc_Store c) (m_ID r) (oc_Files c (m_ID r)) of
           Inr (Some e) \<Rightarrow> lookup_runs c expected rs (adopt (m_ID r) e st)
         | _ \<Rightarrow> (let (misses, st) = lookup_runs c expected rs (count_miss st) in (r # misses, st))))"

text \<open>The cache that the run uses: none when it is off or cannot be opened.\<close>

definition cache_of_run :: "config \<Rightarrow> string list \<Rightarrow> open_cache option \<Rightarrow> open_cache option" where
  "cache_of_run cfg command c =
     (if \<not> cache_enabled (resolve_mode (CacheMode (CacheSec cfg)) command) then None else c)"

definition cache_phase ::
  "config \<Rightarrow> open_cache option \<Rightarrow> mutant_run list \<Rightarrow> engine_state \<Rightarrow> mutant_run list \<times> engine_state" where
  "cache_phase cfg used runs st =
     (case used of
        None \<Rightarrow> (runs, st)
      | Some c \<Rightarrow> lookup_runs c (expected_ids (Expect (Mutation cfg))) runs
          (st\<lparr>es_cache := (es_cache st)\<lparr>eh_mode := CacheModeOn\<rparr>\<rparr>))"

section \<open>Execution\<close>

text \<open>An attempt that was not observed, or has no outcome, drops the executions of its mutant.\<close>

fun executions_from :: "int \<Rightarrow> attempt list \<Rightarrow> execution list option" where
  "executions_from n [] = Some []"
| "executions_from n (a # as) =
     (case row_outcome_of (Outcome a) of
        Inl err \<Rightarrow> None
      | Inr out \<Rightarrow>
          if \<not> observed out then None
          else
            (case executions_from (n + 1) as of
               None \<Rightarrow> None
             | Some xs \<Rightarrow>
                 Some (\<lparr>x_Attempt = n, x_Worker = Worker a, x_Outcome = out, x_KilledBy = KilledBy a,
                   x_DurationMS = duration_ms (Duration a), x_Binaries = RunMutant.Binaries a,
                   x_Tests = test_refs_of (Tests a), x_MemoryExceeded = MemoryExceeded a,
                   x_Diverged = Diverged a, x_PeakMemoryBytes = PeakMemory a\<rparr> # xs)))"

definition executions_of_result :: "mutant_result \<Rightarrow> execution list" where
  "executions_of_result r =
     (if Final r = OutcomeNotRun then []
      else (case executions_from 1 (Attempts r) of None \<Rightarrow> [] | Some xs \<Rightarrow> xs))"

definition measured_of :: "engine_state \<Rightarrow> mutant_result \<Rightarrow> measured" where
  "measured_of st r =
     (measured_as (mr_ID r) (Final r))
       \<lparr>mo_Duration := mr_Duration r, mo_KilledBy := mr_KilledBy r, mo_Attempts := int (length (Attempts r)),
        mo_Executions := executions_of_result r, mo_OutputTail := mr_OutputTail r,
        mo_CoveringPackages := covering_packages st (mr_ID r), mo_CoveringTests := covering_tests st (mr_ID r)\<rparr>"

definition collect_results :: "mutant_result list \<Rightarrow> engine_state \<Rightarrow> engine_state" where
  "collect_results rs st = foldl (\<lambda>st r. record_result (measured_of st r) st) st rs"

definition entry_of_result :: "mutant_result \<Rightarrow> cache_entry" where
  "entry_of_result r =
     \<lparr>en_Version = 0, en_Key = [], en_Context = [], en_ID = [], en_Outcome = Final r,
      en_DurationMS = duration_ms (mr_Duration r), en_TimeoutMS = 0, en_KilledBy = mr_KilledBy r,
      en_Attempts = int (length (Attempts r)), en_OutputTail = mr_OutputTail r, en_MemoryBytes = 0,
      en_MemoryExceeded = list_ex MemoryExceeded (Attempts r),
      en_PeakMemory = foldl (\<lambda>peak a. max peak (PeakMemory a)) 0 (Attempts r),
      en_Diverged = list_ex Diverged (Attempts r)\<rparr>"

definition store_outcome :: "open_cache \<Rightarrow> string list \<Rightarrow> engine_state \<Rightarrow> mutant_result \<Rightarrow> engine_state" where
  "store_outcome c expected st r =
     (if mr_ID r \<in> set expected \<or> \<not> cacheable (Final r) then st
      else
        (case cache_put (oc_Store c) (oc_Writes c (mr_ID r)) (mr_ID r) (entry_of_result r) of
           Inl err \<Rightarrow> st
         | Inr e \<Rightarrow> st\<lparr>es_cache := (es_cache st)\<lparr>eh_writes := eh_writes (es_cache st) + 1\<rparr>\<rparr>))"

definition store_outcomes :: "config \<Rightarrow> open_cache option \<Rightarrow> mutant_result list \<Rightarrow> engine_state \<Rightarrow> engine_state" where
  "store_outcomes cfg used rs st =
     (case used of
        None \<Rightarrow> st
      | Some c \<Rightarrow> foldl (store_outcome c (expected_ids (Expect (Mutation cfg)))) st rs)"

section \<open>What is handed to the report\<close>

definition published_results :: "engine_state \<Rightarrow> rejection list \<Rightarrow> measured list" where
  "published_results st rejections =
     map (\<lambda>m. case es_results st (ID m) of
          None \<Rightarrow> (measured_as (ID m) OutcomeNotRun)\<lparr>mo_NotRunReason := not_run_reason_for st (ID m)\<rparr>
        | Some r \<Rightarrow>
            if mo_Outcome r = OutcomeNotRun \<and> mo_NotRunReason r = []
            then r\<lparr>mo_NotRunReason := NotRunInterrupted\<rparr> else r)
       (filter (\<lambda>m. ID m \<notin> set (map rn_ID rejections)) (mutants (es_catalog st)))"

section \<open>The scope of the test command\<close>

definition is_package_pattern :: "string \<Rightarrow> bool" where
  "is_package_pattern arg \<longleftrightarrow>
     (arg = ''.'' \<or> has_prefix arg ''./'') \<and> ''..'' \<notin> set (split_on CHR ''/'' (to_slash arg))"

text \<open>The patterns of a \<open>go test\<close> over packages; None is any other command.\<close>

definition test_scope :: "string list \<Rightarrow> string list option" where
  "test_scope command =
     (if length command < 3 \<or> command ! 0 \<noteq> ''go'' \<or> command ! 1 \<noteq> ''test'' then None
      else if list_ex (\<lambda>arg. \<not> is_package_pattern arg) (drop 2 command) then None
      else Some (drop 2 command))"

definition narrowed_scope :: "string list \<Rightarrow> bool" where
  "narrowed_scope patterns \<longleftrightarrow> ''./...'' \<notin> set patterns \<and> length patterns > 0"

definition scoped_binaries :: "string list \<Rightarrow> nat \<Rightarrow> bool" where
  "scoped_binaries patterns built \<longleftrightarrow> built > 0 \<or> \<not> narrowed_scope patterns"

section \<open>The run\<close>

text \<open>
  The answers of everything outside, in the order in which they are asked: validation, the worker
  trees, the run of the tests on the instrumented tree, putting the first tree back, the check for
  drift, the test binaries (built with a pattern of packages to cover, or without), the coverage
  runs, the probe, the files of the cache and the scheduler, which returns results with an error.
\<close>

record engine_world =
  ew_Accepted :: "string list"
  ew_Rejections :: "rejection list"
  ew_Validation :: "fault option"
  ew_Trees :: "fault + string list"
  ew_Baseline :: "fault option"
  ew_RestoreFirst :: "fault option"
  ew_Drift :: "fault option"
  ew_CoverPkg :: string
  ew_Build :: "string \<Rightarrow> fault + test_binary list"
  ew_ModulePath :: string
  ew_Timeout :: int
  ew_Memory :: int
  ew_NeverReturns :: "string \<Rightarrow> bool"
  ew_Coverage :: coverage_world
  ew_Probes :: "mutant \<Rightarrow> bool"
  ew_Passes :: "fault + probe_pass list"
  ew_Cache :: "open_cache option"
  ew_Schedule :: "mutant_run list \<Rightarrow> mutant_result list \<times> fault option"

text \<open>The state in which discovery leaves a run.\<close>

definition discovered_state ::
  "engine_options \<Rightarrow> changed option \<Rightarrow> catalog \<Rightarrow> located list \<Rightarrow> engine_state" where
  "discovered_state opts changed c located =
     (let (display, packages) = display_index c located in
      \<lparr>es_catalog = c, es_changed = changed, es_shard = shard_of_options opts, es_selected = 0,
       es_notRun = Map.empty, es_results = Map.empty, es_display = display, es_packages = packages,
       es_coverage = no_coverage, es_cache = no_cache\<rparr>)"

text \<open>From validation to the check for drift: the first error.\<close>

definition before_selection :: "config \<Rightarrow> engine_world \<Rightarrow> fault option" where
  "before_selection cfg W =
     (case ew_Validation W of
        Some f \<Rightarrow> Some f
      | None \<Rightarrow>
          (case (if Isolate (Execution cfg) then ew_Trees W else Inr []) of
             Inl f \<Rightarrow> Some f
           | Inr trees \<Rightarrow>
               (case ew_Baseline W of
                  Some f \<Rightarrow> Some f
                | None \<Rightarrow>
                    (case (if length trees > 0 then ew_RestoreFirst W else None) of
                       Some f \<Rightarrow> Some f
                     | None \<Rightarrow> ew_Drift W))))"

text \<open>
  The test binaries, and the packages they cover: when they do not build with coverage they are
  built without.
\<close>

definition build_test_binaries ::
  "(string \<Rightarrow> fault + test_binary list) \<Rightarrow> string \<Rightarrow> (fault + test_binary list) \<times> string" where
  "build_test_binaries build coverPkg =
     (case build coverPkg of
        Inr bins \<Rightarrow> (Inr bins, coverPkg)
      | Inl f \<Rightarrow> if coverPkg = [] \<or> interrupted f then (Inl f, coverPkg) else (build [], []))"

text \<open>
  The phases in the order of \<open>mutate\<close>; probing comes after coverage, the cache after both. The
  results of the scheduler are recorded and stored also when it returns an error.
\<close>

definition mutate_phases ::
  "config \<Rightarrow> string list \<Rightarrow> engine_world \<Rightarrow> string \<Rightarrow> test_binary list \<Rightarrow> mutant_run list \<Rightarrow> engine_state
   \<Rightarrow> fault option \<times> engine_state" where
  "mutate_phases cfg command W coverPkg bins runs st =
     (case (if coverPkg \<noteq> [] then coverage_phase (Narrowing (TestSec cfg)) (ew_ModulePath W) (ew_Coverage W) bins runs st
            else (None, runs, st)) of
        (Some f, _, st) \<Rightarrow> (Some f, st)
      | (None, runs, st) \<Rightarrow>
          (case (if Probing (TestSec cfg) = ProbingOn then probe_phase (ew_Probes W) (ew_Passes W) bins runs st
                 else (None, runs, st)) of
             (Some f, _, st) \<Rightarrow> (Some f, st)
           | (None, runs, st) \<Rightarrow>
               (let used = cache_of_run cfg command (ew_Cache W);
                    (runs, st) = cache_phase cfg used runs st;
                    (results, err) = ew_Schedule W runs
                in (err, store_outcomes cfg used results (collect_results results st)))))"

datatype engine_error = PhaseError fault | SelectionError catalog_error | ScopeError

text \<open>\<open>mutate\<close> from validation on: the error it returns, with the state in which it leaves the run.\<close>

definition run_engine ::
  "engine_options \<Rightarrow> config \<Rightarrow> string list \<Rightarrow> changed option \<Rightarrow> catalog \<Rightarrow> located list \<Rightarrow> engine_world
   \<Rightarrow> engine_error option \<times> engine_state" where
  "run_engine opts cfg command changed c located W =
     (let st = discovered_state opts changed c located in
      case before_selection cfg W of
        Some f \<Rightarrow> (Some (PhaseError f), st)
      | None \<Rightarrow>
          (case selection_runs opts (ew_Accepted W) (ew_Timeout W) (ew_Memory W) (ew_NeverReturns W) st of
             Inl e \<Rightarrow> (Some (SelectionError e), st)
           | Inr (runs, st) \<Rightarrow>
               (let scope = test_scope command;
                    patterns = (case scope of None \<Rightarrow> [] | Some ps \<Rightarrow> ps);
                    (built, coverPkg) = build_test_binaries (ew_Build W) (if scope = None then [] else ew_CoverPkg W)
                in case built of
                     Inl f \<Rightarrow> (Some (PhaseError f), st)
                   | Inr bins \<Rightarrow>
                       if \<not> scoped_binaries patterns (length bins) then (Some ScopeError, st)
                       else
                         (case mutate_phases cfg command W coverPkg bins runs st of
                            (err, st) \<Rightarrow> (map_option PhaseError err, st)))))"

text \<open>
  What \<open>pipeline\<close> publishes a run as: a run without an error is complete, an interrupted one is
  published as it stands, and every other error leaves no report.
\<close>

definition published_as :: "engine_error option \<Rightarrow> run_status option" where
  "published_as err =
     (case err of
        None \<Rightarrow> Some StatusCompleted
      | Some (PhaseError f) \<Rightarrow> if interrupted f then Some StatusInterrupted else None
      | Some _ \<Rightarrow> None)"

text \<open>The options of \<open>Build\<close> that \<open>publish\<close> fills from the state; the others are facts of the run.\<close>

definition publish_options ::
  "engine_options \<Rightarrow> run_status \<Rightarrow> engine_state \<Rightarrow> rejection list \<Rightarrow> report_options \<Rightarrow> report_options" where
  "publish_options opts status st rejections facts =
     facts\<lparr>op_Status := status, op_Mode := selection_mode_of opts,
       op_ChangedRef := (case es_changed st of None \<Rightarrow> [] | Some ch \<Rightarrow> Ref ch),
       op_Shard := es_shard st, op_Selected := es_selected st, op_Catalog := Some (es_catalog st),
       op_Results := published_results st rejections, op_Rejections := rejections,
       op_CoverageMode := result_mode (es_coverage st), op_CoverageBinaries := er_binaries (es_coverage st),
       op_CoverageTests := er_tests (es_coverage st), op_CacheMode := state_mode (es_cache st),
       op_CacheMisses := eh_misses (es_cache st), op_CacheWrites := eh_writes (es_cache st)\<rparr>"

end
