(* ===== verification/MergeReports.thy ===== *)
theory MergeReports
  imports BuildReport
begin

text \<open>
  Merging the documents of a sharded run into one (\<open>internal/report/merge.go\<close>), and the
  specification \<open>K/N\<close> of a shard. A missing document is \<open>None\<close>. Sums wrap around at 64 bits.
\<close>

section \<open>Naming a shard\<close>

definition parse_shard :: "string \<Rightarrow> report_error + shard" where
  "parse_shard spec =
     (case go_cut (trim_space spec) ''/'' of
        None \<Rightarrow> Inl ErrInvalidShardSpec
      | Some (indexText, totalText) \<Rightarrow>
          (case (atoi (trim_space indexText), atoi (trim_space totalText)) of
             (Some i, Some n) \<Rightarrow>
               if n < 1 then Inl ErrInvalidShardSpec
               else if i < 1 \<or> i > n then Inl ErrInvalidShardSpec
               else Inr \<lparr>sh_Index = i, sh_Total = n, sh_Assignment = ShardAssignment\<rparr>
           | _ \<Rightarrow> Inl ErrInvalidShardSpec))"

section \<open>What makes a set of shards\<close>

text \<open>The documents with the shard each claims to be.\<close>

fun shard_documents :: "report option list \<Rightarrow> report_error + (shard \<times> report) list" where
  "shard_documents [] = Inr []"
| "shard_documents (d # ds) =
     (case d of
        None \<Rightarrow> Inl ErrNoShardReports
      | Some r \<Rightarrow>
          (case ShardOf r of
             None \<Rightarrow> Inl ErrNotAShardReport
           | Some s \<Rightarrow>
               if MergeOf r \<noteq> None then Inl ErrNotAShardReport
               else and_then (shard_documents ds) (\<lambda>rest. Inr ((s, r) # rest))))"

definition ref_text :: "string option \<Rightarrow> string" where
  "ref_text ref = (case ref of None \<Rightarrow> [] | Some s \<Rightarrow> s)"

definition same_run :: "shard \<times> report \<Rightarrow> shard \<times> report \<Rightarrow> bool" where
  "same_run x y =
     (case (x, y) of ((s, r), (s', r')) \<Rightarrow>
        ToolVersion r = ToolVersion r'
        \<and> ws_Digest (Workspace r) = ws_Digest (Workspace r')
        \<and> ws_ModulePath (Workspace r) = ws_ModulePath (Workspace r')
        \<and> sh_Total s = sh_Total s'
        \<and> sh_Assignment s = sh_Assignment s'
        \<and> ref_text (sel_ChangedRef (Selection r)) = ref_text (sel_ChangedRef (Selection r'))
        \<and> sel_Mode (Selection r) = sel_Mode (Selection r'))"

definition same_catalog :: "report \<Rightarrow> report \<Rightarrow> bool" where
  "same_catalog r r' \<longleftrightarrow>
     length (Mutants r) = length (Mutants r') \<and> length (Rejected r) = length (Rejected r')
     \<and> list_all (\<lambda>(a, b). w_ID a = w_ID b) (zip (Mutants r) (Mutants r'))
     \<and> list_all (\<lambda>(a, b). rj_ID a = rj_ID b) (zip (Rejected r) (Rejected r'))"

fun congruent :: "shard \<times> report \<Rightarrow> (shard \<times> report) list \<Rightarrow> report_error option" where
  "congruent first [] = None"
| "congruent first (x # xs) =
     (if \<not> same_run first x then Some ErrIncongruentShards
      else if \<not> same_catalog (snd first) (snd x) then Some ErrIncongruentShards
      else congruent first xs)"

fun owners_of :: "int \<Rightarrow> (int \<rightharpoonup> report) \<Rightarrow> (shard \<times> report) list \<Rightarrow> report_error + (int \<rightharpoonup> report)" where
  "owners_of n owners [] = Inr owners"
| "owners_of n owners ((s, r) # xs) =
     (if sh_Index s < 1 \<or> sh_Index s > n then Inl ErrIncompleteShardSet
      else if owners (sh_Index s) \<noteq> None then Inl ErrIncompleteShardSet
      else owners_of n (owners(sh_Index s \<mapsto> r)) xs)"

definition complete_set :: "(shard \<times> report) list \<Rightarrow> int \<Rightarrow> report_error + (int \<rightharpoonup> report)" where
  "complete_set xs n =
     and_then (owners_of n Map.empty xs) (\<lambda>owners.
       if list_ex (\<lambda>i. owners i = None) [1 .. n] then Inl ErrIncompleteShardSet else Inr owners)"

definition disclaimed :: "row \<Rightarrow> bool" where
  "disclaimed m \<longleftrightarrow> w_Outcome m = RowNotRun \<and> w_NotRunReason m = Some NotRunOtherShard"

definition ownership :: "(shard \<times> report) list \<Rightarrow> report_error option" where
  "ownership xs =
     (if list_all (\<lambda>(s, r). list_all (\<lambda>m. shard_owns s (w_ID m) \<longleftrightarrow> \<not> disclaimed m) (Mutants r)) xs
      then None else Some ErrShardOwnershipMismatch)"

section \<open>The parts of the merged document\<close>

definition strip_row :: "row \<Rightarrow> row" where
  "strip_row m = m\<lparr>w_Executions := [], w_PeakMemoryBytes := 0, w_MemoryExceeded := False\<rparr>"

text \<open>The row of the shard that owns the mutant; \<open>complete_set\<close> has made sure that there is one.\<close>

definition merged_rows :: "(int \<rightharpoonup> report) \<Rightarrow> int \<Rightarrow> row list \<Rightarrow> row list" where
  "merged_rows owners n rows =
     map (\<lambda>(i, m). strip_row (Mutants (the (owners (shard_index (w_ID m) n))) ! i)) (enumerate 0 rows)"

definition ledger_of :: "expectation list \<Rightarrow> expectation_row list" where
  "ledger_of xs = map (\<lambda>e. \<lparr>xr_ID = ex_ID e, xr_Reason = ex_Reason e\<rparr>) xs"

definition policy_of :: "policy_result \<Rightarrow> policy" where
  "policy_of p = \<lparr>Strict = pr_Strict p, MinimumScore = pr_MinimumScore p, RequireMutants = pr_RequireMutants p\<rparr>"

definition merged_selection :: "report \<Rightarrow> report list \<Rightarrow> selection" where
  "merged_selection first rs =
     (Selection first)\<lparr>sel_Mode := (if sel_ChangedRef (Selection first) \<noteq> None then ModeChanged else ModeAll),
        sel_Selected := foldl (\<lambda>n r. wrap64 (n + sel_Selected (Selection r))) 0 rs\<rparr>"

definition status_rank :: "run_status \<Rightarrow> int" where
  "status_rank s = (if s = StatusInterrupted then 1 else if s = StatusFailed then 2 else 0)"

definition merged_status :: "report list \<Rightarrow> run_status" where
  "merged_status rs =
     foldl (\<lambda>worst r. if status_rank (RunStatus r) > status_rank worst then RunStatus r else worst)
       StatusCompleted rs"

fun merged_span :: "instant \<Rightarrow> instant \<Rightarrow> report list \<Rightarrow> report_error + instant \<times> instant" where
  "merged_span started finished [] =
     Inr (started, if finished < started then started else finished)"
| "merged_span started finished (r # rs) =
     (case parse_rfc3339 (StartedAt r) of
        None \<Rightarrow> Inl ErrInvalidTimestamps
      | Some from' \<Rightarrow>
          (case parse_rfc3339 (FinishedAt r) of
             None \<Rightarrow> Inl ErrInvalidTimestamps
           | Some to \<Rightarrow>
               merged_span (if is_zero started \<or> from' < started then from' else started)
                 (if to > finished then to else finished) rs))"

definition mode_place :: "coverage_mode \<Rightarrow> int" where
  "mode_place m = (case find (\<lambda>(i, x). x = m) (enumerate 0 coverage_modes) of None \<Rightarrow> -1 | Some (i, x) \<Rightarrow> int i)"

definition finer :: "coverage_mode \<Rightarrow> coverage_mode \<Rightarrow> bool" where
  "finer a b \<longleftrightarrow> mode_place a > mode_place b"

definition max_opt :: "int \<Rightarrow> int option \<Rightarrow> int" where
  "max_opt n s = (case s of None \<Rightarrow> n | Some m \<Rightarrow> max n m)"

definition merged_coverage :: "report list \<Rightarrow> row list \<Rightarrow> report_error + coverage_facts" where
  "merged_coverage rs rows =
     (let (mode, binaries, tests) =
        foldl (\<lambda>(mode, binaries, tests) r.
            (if finer (cov_Mode (CoverageOf r)) mode then cov_Mode (CoverageOf r) else mode,
             max_opt binaries (cov_Binaries (CoverageOf r)), max_opt tests (cov_Tests (CoverageOf r))))
          (CoverageOff, 0, 0) rs
      in coverage_block mode binaries tests rows)"

definition merged_cache :: "report list \<Rightarrow> row list \<Rightarrow> report_error + cache_facts" where
  "merged_cache rs rows =
     cache_block (if list_ex (\<lambda>r. cf_Mode (CacheOf r) = CacheModeOn) rs then CacheModeOn else CacheModeOff)
       (foldl (\<lambda>n r. wrap64 (n + cf_Misses (CacheOf r))) 0 rs)
       (foldl (\<lambda>n r. wrap64 (n + cf_Writes (CacheOf r))) 0 rs) rows"

definition merged_warnings :: "(shard \<times> report) list \<Rightarrow> warning list" where
  "merged_warnings xs =
     foldl (\<lambda>out w. if w \<in> set out then out else out @ [w]) []
       (concat (map (\<lambda>x. Warnings (snd x)) (sort_by (\<lambda>x y. sh_Index (fst x) - sh_Index (fst y)) xs)))"

definition without_snapshot :: "workspace_facts \<Rightarrow> workspace_facts" where
  "without_snapshot w = w\<lparr>ws_Snapshot := None\<rparr>"

definition without_toolchain :: "test_facts \<Rightarrow> test_facts" where
  "without_toolchain t = t\<lparr>tst_Toolchain := None, tst_ResolvedCommand := []\<rparr>"

section \<open>Merging\<close>

definition merged_report ::
  "string \<Rightarrow> (shard \<times> report) list \<Rightarrow> report \<Rightarrow> int \<Rightarrow> (instant \<times> instant) \<Rightarrow> coverage_facts \<Rightarrow> cache_facts
   \<Rightarrow> row list \<Rightarrow> expectation list \<Rightarrow> summary \<Rightarrow> report" where
  "merged_report runID xs first n between cov cache rows expectations sm =
     \<lparr>DocType = DocumentType, DocSchema = SchemaVersion, ToolVersion = ToolVersion first, RunID = runID,
      RunStatus = merged_status (map snd xs), StartedAt = format_rfc3339 (fst between),
      FinishedAt = format_rfc3339 (snd between), DurationMS = milliseconds (time_sub (snd between) (fst between)),
      Workspace = without_snapshot (Workspace first), Selection = merged_selection first (map snd xs),
      ShardOf = None, MergeOf = Some n, TestOf = without_toolchain (TestOf first),
      CoverageOf = cov, CacheOf = cache,
      Summary = sm,
      Mutants = rows, Rejected = Rejected first, Skips = Skips first, Expectations = expectations,
      Warnings = merged_warnings xs, Timing = None, ValidationBuilds = None\<rparr>"

definition merge_documents :: "string \<Rightarrow> (shard \<times> report) list \<Rightarrow> report_error + report" where
  "merge_documents runID xs =
     (let first = snd (hd xs); n = sh_Total (fst (hd xs)) in
      guard (congruent (hd xs) (tl xs))
      (and_then (complete_set xs n) (\<lambda>owners.
       guard (ownership xs)
       (let rows = merged_rows owners n (Mutants first);
            expectations = evaluate (ledger_of (Expectations first)) (dispositions rows (Rejected first)) in
        and_then (merged_span 0 0 (map snd xs)) (\<lambda>between.
        and_then (merged_coverage (map snd xs) rows) (\<lambda>cov.
        and_then (merged_cache (map snd xs) rows) (\<lambda>cache.
          if \<not> run_id_ok runID then Inl ErrInvalidRunID
          else and_then (tally_rows (fulfilled_ids expectations) empty_tally rows) (\<lambda>t.
            Inr (merged_report runID xs first n between cov cache rows expectations
              (summary_of t (policy_of (sm_Policy (Summary first))) False expectations rows))))))))))"

definition merge_shards :: "string \<Rightarrow> report option list \<Rightarrow> report_error + report" where
  "merge_shards runID shards =
     (if length shards = 0 then Inl ErrNoShardReports
      else and_then (shard_documents shards) (merge_documents runID))"

end
