(* ===== verification/ReportFacts.thy ===== *)
theory ReportFacts
  imports BuildReport
begin

text \<open>
  What holds of every document that \<open>Build\<close> returns: it accounts for the catalogue, its summary
  can be recomputed from its rows, and no row contradicts itself or the document.
\<close>

section \<open>The steps of the build\<close>

named_theorems built \<open>what a step of the build returned\<close>

lemma index_results_Inr:
  "index_results f0 rs = Inr f \<Longrightarrow>
     distinct (map mo_ID rs) \<and> (\<forall>r \<in> set rs. f0 (mo_ID r) = None)
     \<and> (\<forall>i r. f i = Some r \<longleftrightarrow> f0 i = Some r \<or> r \<in> set rs \<and> mo_ID r = i)"
proof (induction rs arbitrary: f0)
  case Nil
  then show ?case by simp
next
  case (Cons r rs)
  then have none: "f0 (mo_ID r) = None" and rest: "index_results (f0(mo_ID r \<mapsto> r)) rs = Inr f"
    by (auto split: if_splits)
  from Cons.IH [OF rest] have ih: "distinct (map mo_ID rs)" "\<forall>x \<in> set rs. (f0(mo_ID r \<mapsto> r)) (mo_ID x) = None"
    "\<And>i x. f i = Some x \<longleftrightarrow> (f0(mo_ID r \<mapsto> r)) i = Some x \<or> x \<in> set rs \<and> mo_ID x = i"
    by auto
  have new: "mo_ID x \<noteq> mo_ID r \<and> f0 (mo_ID x) = None" if "x \<in> set rs" for x
    using ih(2) that by (auto split: if_splits)
  then have "mo_ID r \<notin> mo_ID ` set rs" by force
  with ih new none show ?case by auto
qed

lemma index_rejections_Inr:
  "index_rejections results f0 rs = Inr f \<Longrightarrow>
     distinct (map rn_ID rs) \<and> (\<forall>r \<in> set rs. f0 (rn_ID r) = None \<and> results (rn_ID r) = None)
     \<and> (\<forall>i r. f i = Some r \<longleftrightarrow> f0 i = Some r \<or> r \<in> set rs \<and> rn_ID r = i)"
proof (induction rs arbitrary: f0)
  case Nil
  then show ?case by simp
next
  case (Cons r rs)
  then have none: "f0 (rn_ID r) = None" "results (rn_ID r) = None"
    and rest: "index_rejections results (f0(rn_ID r \<mapsto> r)) rs = Inr f"
    by (auto split: if_splits)
  from Cons.IH [OF rest] have ih: "distinct (map rn_ID rs)"
    "\<forall>x \<in> set rs. (f0(rn_ID r \<mapsto> r)) (rn_ID x) = None \<and> results (rn_ID x) = None"
    "\<And>i x. f i = Some x \<longleftrightarrow> (f0(rn_ID r \<mapsto> r)) i = Some x \<or> x \<in> set rs \<and> rn_ID x = i"
    by auto
  have new: "rn_ID x \<noteq> rn_ID r \<and> f0 (rn_ID x) = None" if "x \<in> set rs" for x
    using ih(2) that by (auto split: if_splits)
  then have "rn_ID r \<notin> rn_ID ` set rs" by force
  with ih new none show ?case by auto
qed

definition indexed :: "report_options \<Rightarrow> (string \<rightharpoonup> measured) \<Rightarrow> (string \<rightharpoonup> rejection) \<Rightarrow> bool" where
  "indexed opts results rejections \<longleftrightarrow>
     distinct (map mo_ID (op_Results opts)) \<and> distinct (map rn_ID (op_Rejections opts))
     \<and> (\<forall>i r. results i = Some r \<longleftrightarrow> r \<in> set (op_Results opts) \<and> mo_ID r = i)
     \<and> (\<forall>i r. rejections i = Some r \<longleftrightarrow> r \<in> set (op_Rejections opts) \<and> rn_ID r = i)
     \<and> (\<forall>i. rejections i = None \<or> results i = None)"

lemma index_options_Inr [built]:
  assumes "index_options opts = Inr (results, rejections)"
  shows "indexed opts results rejections"
proof -
  have r: "index_results Map.empty (op_Results opts) = Inr results"
    and j: "index_rejections results Map.empty (op_Rejections opts) = Inr rejections"
    using assms by (auto simp: index_options_def split: sum.splits)
  from index_results_Inr [OF r] index_rejections_Inr [OF j]
  have "\<forall>i r. results i = Some r \<longleftrightarrow> r \<in> set (op_Results opts) \<and> mo_ID r = i"
    "\<forall>i r. rejections i = Some r \<longleftrightarrow> r \<in> set (op_Rejections opts) \<and> rn_ID r = i"
    "\<forall>r \<in> set (op_Rejections opts). results (rn_ID r) = None"
    by auto
  moreover from this have "rejections i = None \<or> results i = None" for i
    by (cases "rejections i") auto
  ultimately show ?thesis
    using index_results_Inr [OF r] index_rejections_Inr [OF j] by (simp add: indexed_def)
qed

lemma measured_row_Inr:
  assumes "measured_row m place result = Inr w"
  shows "w = row_of m place result (w_Outcome w) (w_NotRunReason w)"
    and "w_ID w = ID m"
    and "row_outcome_of (mo_Outcome result) = Inr (w_Outcome w)"
    and "not_run_reason_of result (w_Outcome w) = Inr (w_NotRunReason w)"
    and "check_executions result (w_Outcome w) = None"
  using assms by (auto simp: measured_row_def row_of_def Let_def split: sum.splits option.splits)

abbreviation of_module :: "string \<Rightarrow> mutant list \<Rightarrow> mutant list" where
  "of_module own ms \<equiv> filter (\<lambda>m. c_ModulePath (m_candidate m) = own) ms"

lemma partition_rows_Inr:
  assumes "partition_rows own places results rejections ms = Inr (rows, rejected)"
  shows "list_all2 (\<lambda>m w. \<exists>place result. places (key_of_candidate (m_candidate m)) = Some place
             \<and> results (ID m) = Some result \<and> measured_row m place result = Inr w)
           (filter (\<lambda>m. rejections (ID m) = None) (of_module own ms)) rows
       \<and> list_all2 (\<lambda>m r. \<exists>place rejection. places (key_of_candidate (m_candidate m)) = Some place
             \<and> rejections (ID m) = Some rejection \<and> r = rejected_of m place rejection)
           (filter (\<lambda>m. rejections (ID m) \<noteq> None) (of_module own ms)) rejected"
  using assms
proof (induction ms arbitrary: rows rejected)
  case Nil
  then show ?case by simp
next
  case (Cons m ms)
  show ?case
  proof (cases "c_ModulePath (m_candidate m) = own")
    case False
    with Cons show ?thesis by simp
  next
    case True
    with Cons.prems obtain place where place: "places (key_of_candidate (m_candidate m)) = Some place"
      by (auto split: option.splits)
    show ?thesis
    proof (cases "rejections (ID m)")
      case (Some rejection)
      then obtain rest where "partition_rows own places results rejections ms = Inr (rows, rest)"
        "rejected = rejected_of m place rejection # rest"
        using Cons.prems True place by (auto split: sum.splits)
      with Cons.IH True Some place show ?thesis by auto
    next
      case None
      then obtain result w rest where "results (ID m) = Some result" "measured_row m place result = Inr w"
        "partition_rows own places results rejections ms = Inr (rest, rejected)" "rows = w # rest"
        using Cons.prems True place by (auto split: sum.splits option.splits)
      with Cons.IH True None place show ?thesis by auto
    qed
  qed
qed

lemma list_all2_map_eq: "list_all2 P xs ys \<Longrightarrow> (\<And>x y. P x y \<Longrightarrow> f x = g y) \<Longrightarrow> map f xs = map g ys"
  by (induction rule: list_all2_induct) auto

lemma list_all2_snd: "list_all2 P xs ys \<Longrightarrow> y \<in> set ys \<Longrightarrow> \<exists>x \<in> set xs. P x y"
  by (induction rule: list_all2_induct) auto

lemma rejected_of_ID [simp]: "rj_ID (rejected_of m place rejection) = ID m"
  by (simp add: rejected_of_def)

text \<open>The rows of a document with what they come from.\<close>

definition rows_from :: "report_options \<Rightarrow> catalog \<Rightarrow> (string \<rightharpoonup> measured) \<Rightarrow> (string \<rightharpoonup> rejection)
    \<Rightarrow> row list \<Rightarrow> rejected_row list \<Rightarrow> bool" where
  "rows_from opts c results rejections rows rejected \<longleftrightarrow>
     map w_ID rows = map ID (filter (\<lambda>m. rejections (ID m) = None) (of_module (op_Module opts) (mutants c)))
     \<and> map rj_ID rejected = map ID (filter (\<lambda>m. rejections (ID m) \<noteq> None) (of_module (op_Module opts) (mutants c)))
     \<and> (\<forall>w \<in> set rows. \<exists>m place result. results (w_ID w) = Some result \<and> measured_row m place result = Inr w)
     \<and> check_accounted opts c (length rows) (length rejected) = None"

lemma partition_report_Inr [built]:
  assumes "partition_report opts c results rejections = Inr (rows, rejected)"
  shows "rows_from opts c results rejections rows rejected"
proof -
  have p: "partition_rows (op_Module opts) (locate (op_Located opts)) results rejections (mutants c) = Inr (rows, rejected)"
    and acc: "check_accounted opts c (length rows) (length rejected) = None"
    using assms by (auto simp: partition_report_def split: sum.splits option.splits)
  note q = partition_rows_Inr [OF p]
  have "map ID (filter (\<lambda>m. rejections (ID m) = None) (of_module (op_Module opts) (mutants c))) = map w_ID rows"
    by (rule list_all2_map_eq [OF conjunct1 [OF q]]) (auto simp: measured_row_Inr(2))
  moreover have "map ID (filter (\<lambda>m. rejections (ID m) \<noteq> None) (of_module (op_Module opts) (mutants c))) = map rj_ID rejected"
    by (rule list_all2_map_eq [OF conjunct2 [OF q]]) auto
  moreover have "\<exists>m place result. results (w_ID w) = Some result \<and> measured_row m place result = Inr w"
    if "w \<in> set rows" for w
    using list_all2_snd [OF conjunct1 [OF q] that] measured_row_Inr(2) by metis
  ultimately show ?thesis using acc unfolding rows_from_def by metis
qed

text \<open>The intermediate values of a successful build.\<close>

definition built_from :: "report_options \<Rightarrow> catalog \<Rightarrow> (string \<rightharpoonup> measured) \<Rightarrow> (string \<rightharpoonup> rejection) \<Rightarrow> parts \<Rightarrow> bool" where
  "built_from opts c results rejections p \<longleftrightarrow>
     test_command opts = Inr (pt_Command p)
     \<and> index_options opts = Inr (results, rejections)
     \<and> partition_report opts c results rejections = Inr (pt_Rows p, pt_Rejected p)
     \<and> pt_Expectations p = evaluate (Expect (Mutation (op_Config opts))) (dispositions (pt_Rows p) (pt_Rejected p))
     \<and> tally_results (pt_Rows p) results (pt_Expectations p) = Inr (pt_Tally p)
     \<and> selection_of opts (int (length (pt_Rows p)) + int (length (pt_Rejected p))) (int (length (pt_Rejected p)))
         = Inr (pt_Selection p)
     \<and> shard_of opts = Inr (pt_Shard p)
     \<and> coverage_of opts (pt_Rows p) = Inr (pt_Coverage p)
     \<and> cache_block (op_CacheMode opts) (op_CacheMisses opts) (op_CacheWrites opts) (pt_Rows p) = Inr (pt_Cache p)"

lemma report_parts_Inr:
  "report_parts opts c = Inr p \<longleftrightarrow> (\<exists>results rejections. built_from opts c results rejections p)"
  by (cases p) (auto simp: report_parts_def built_from_def and_then_Inr Let_def)

lemma build_report_Inr:
  "build_report host opts = Inr r \<longleftrightarrow>
     check_identity opts = None \<and> check_memory opts = None
     \<and> (\<exists>c p. op_Catalog opts = Some c \<and> report_parts opts c = Inr p \<and> r = assemble host opts p)"
  by (auto simp: build_report_def guard_Inr and_then_Inr split: option.splits)

lemma build_report_parts:
  assumes "build_report host opts = Inr r"
  obtains c results rejections p where "op_Catalog opts = Some c"
    and "built_from opts c results rejections p" and "r = assemble host opts p"
    and "indexed opts results rejections"
    and "rows_from opts c results rejections (pt_Rows p) (pt_Rejected p)"
  using assms unfolding build_report_Inr report_parts_Inr
  by (metis built_from_def index_options_Inr partition_report_Inr)

lemma assemble_simps [simp]:
  "Mutants (assemble host opts p) = pt_Rows p" "Rejected (assemble host opts p) = pt_Rejected p"
  "Expectations (assemble host opts p) = pt_Expectations p" "Selection (assemble host opts p) = pt_Selection p"
  "ShardOf (assemble host opts p) = pt_Shard p" "CoverageOf (assemble host opts p) = pt_Coverage p"
  "CacheOf (assemble host opts p) = pt_Cache p" "MergeOf (assemble host opts p) = None"
  "Summary (assemble host opts p) = summary_of (pt_Tally p) (Policy (op_Config opts))
     (op_InfrastructureError opts) (pt_Expectations p) (pt_Rows p)"
  "RunStatus (assemble host opts p) = op_Status opts" "ToolVersion (assemble host opts p) = op_ToolVersion opts"
  "StartedAt (assemble host opts p) = format_rfc3339 (op_Started opts)"
  "FinishedAt (assemble host opts p) = format_rfc3339 (op_Finished opts)"
  "ws_Digest (Workspace (assemble host opts p)) = op_WorkspaceDigest opts"
  "ws_ModulePath (Workspace (assemble host opts p)) = or_else (op_ModulePath opts) unknownValue"
  by (simp_all add: assemble_def)

section \<open>The document accounts for the catalogue\<close>

lemma by_id_iff: "catalog_ok c \<Longrightarrow> by_id c i = Some m \<longleftrightarrow> m \<in> set (mutants c) \<and> ID m = i"
  using indexed_lookup [of ID "mutants c" i m] by (simp add: by_id_def catalog_ok_def)

text \<open>A list of distinct identifiers whose members of the module are as many as the rows, and among which the rows are.\<close>

lemma check_rows_exact:
  assumes ok: "catalog_ok c" and none: "check_rows_of c own ids (length rows) = None"
    and d: "distinct ids" "distinct rows" and sub: "set rows \<subseteq> set ids"
    and mine: "\<forall>i \<in> set rows. \<exists>m \<in> set (mutants c). ID m = i \<and> c_ModulePath (m_candidate m) = own"
  shows "list_all (\<lambda>i. case by_id c i of None \<Rightarrow> False | Some m \<Rightarrow>
    if c_ModulePath (m_candidate m) = own then i \<in> set rows else True) ids"
proof -
  let ?f = "\<lambda>i. case by_id c i of None \<Rightarrow> False | Some m \<Rightarrow> c_ModulePath (m_candidate m) = own"
  from none have ex: "\<not> list_ex (\<lambda>i. by_id c i = None) ids" and n: "length (filter ?f ids) = length rows"
    by (simp_all only: check_rows_of_def option.distinct not_True_eq_False not_False_eq_True split: if_split_asm)
  have found: "\<forall>i \<in> set ids. by_id c i \<noteq> None" using ex unfolding list_ex_iff by metis
  have "set rows \<subseteq> set (filter ?f ids)"
  proof
    fix i assume i: "i \<in> set rows"
    then obtain m where "by_id c i = Some m" "c_ModulePath (m_candidate m) = own"
      using mine by_id_iff [OF ok] by metis
    with i sub show "i \<in> set (filter ?f ids)" by auto
  qed
  moreover have "card (set (filter ?f ids)) = card (set rows)"
    using n d distinct_card [of "filter ?f ids"] distinct_card [of rows] by (simp del: set_filter)
  ultimately have "set (filter ?f ids) = set rows"
    using card_subset_eq [of "set (filter ?f ids)" "set rows"] by simp
  then have "?f i \<longrightarrow> i \<in> set rows" if "i \<in> set ids" for i
    using that by auto
  then show ?thesis using found unfolding list_all_iff by (auto split: option.splits)
qed

lemma rows_distinct:
  assumes ok: "catalog_ok c" and from': "rows_from opts c results rejections rows rejected"
  shows "distinct (map w_ID rows)" and "distinct (map rj_ID rejected)"
    and "\<forall>i \<in> set (map w_ID rows). \<exists>m \<in> set (mutants c). ID m = i \<and> c_ModulePath (m_candidate m) = op_Module opts"
    and "\<forall>i \<in> set (map rj_ID rejected). \<exists>m \<in> set (mutants c). ID m = i \<and> c_ModulePath (m_candidate m) = op_Module opts"
proof -
  have d: "distinct (map ID (mutants c))" using ok by (simp add: catalog_ok_def)
  have rows: "map w_ID rows = map ID (filter (\<lambda>m. rejections (ID m) = None) (of_module (op_Module opts) (mutants c)))"
    and rejs: "map rj_ID rejected = map ID (filter (\<lambda>m. rejections (ID m) \<noteq> None) (of_module (op_Module opts) (mutants c)))"
    using from' by (simp_all only: rows_from_def)
  show "distinct (map w_ID rows)" "distinct (map rj_ID rejected)"
    unfolding rows rejs by (intro distinct_map_filter d)+
  show "\<forall>i \<in> set (map w_ID rows). \<exists>m \<in> set (mutants c). ID m = i \<and> c_ModulePath (m_candidate m) = op_Module opts"
    "\<forall>i \<in> set (map rj_ID rejected). \<exists>m \<in> set (mutants c). ID m = i \<and> c_ModulePath (m_candidate m) = op_Module opts"
    unfolding rows rejs by auto
qed

definition accounted :: "catalog \<Rightarrow> string \<Rightarrow> string list \<Rightarrow> string list \<Rightarrow> bool" where
  "accounted c own rows ids \<longleftrightarrow>
     list_all (\<lambda>i. case by_id c i of None \<Rightarrow> False | Some m \<Rightarrow>
       if c_ModulePath (m_candidate m) = own then i \<in> set rows else True) ids"

definition accounts_for :: "report_options \<Rightarrow> catalog \<Rightarrow> report \<Rightarrow> bool" where
  "accounts_for opts c r \<longleftrightarrow>
     (let mine = of_module (op_Module opts) (mutants c); gone = map rn_ID (op_Rejections opts) in
      map w_ID (Mutants r) = map ID (filter (\<lambda>m. ID m \<notin> set gone) mine)
      \<and> map rj_ID (Rejected r) = map ID (filter (\<lambda>m. ID m \<in> set gone) mine)
      \<and> list_all (\<lambda>w. list_ex (\<lambda>x. mo_ID x = w_ID w \<and> row_outcome_of (mo_Outcome x) = Inr (w_Outcome w))
          (op_Results opts)) (Mutants r)
      \<and> accounted c (op_Module opts) (map w_ID (Mutants r)) (map mo_ID (op_Results opts))
      \<and> accounted c (op_Module opts) (map rj_ID (Rejected r)) gone)"

lemma build_accounts_for:
  assumes ok: "catalog_ok c" and c: "op_Catalog opts = Some c" and r: "build_report host opts = Inr r"
  shows "accounts_for opts c r"
proof -
  obtain results rejections p where p: "r = assemble host opts p" and idx: "indexed opts results rejections"
    and from': "rows_from opts c results rejections (pt_Rows p) (pt_Rejected p)"
    using build_report_parts [OF r] c by (metis option.inject)
  have gone: "rejections i = None \<longleftrightarrow> i \<notin> set (map rn_ID (op_Rejections opts))" for i
  proof -
    have "(\<exists>r. rejections i = Some r) \<longleftrightarrow> (\<exists>r \<in> set (op_Rejections opts). rn_ID r = i)"
      using idx unfolding indexed_def by blast
    then show ?thesis by auto
  qed
  have found: "\<exists>x \<in> set (op_Results opts). mo_ID x = w_ID w \<and> row_outcome_of (mo_Outcome x) = Inr (w_Outcome w)"
    if "w \<in> set (pt_Rows p)" for w
    using that from' idx unfolding rows_from_def indexed_def by (metis measured_row_Inr(3))
  have ids: "set (map w_ID (pt_Rows p)) \<subseteq> set (map mo_ID (op_Results opts))"
    using found by force
  have "rejections (rj_ID j) \<noteq> None" if "j \<in> set (pt_Rejected p)" for j
  proof -
    have "rj_ID j \<in> set (map rj_ID (pt_Rejected p))" using that by simp
    then show ?thesis using from' unfolding rows_from_def by auto
  qed
  then have rids: "set (map rj_ID (pt_Rejected p)) \<subseteq> set (map rn_ID (op_Rejections opts))"
    using gone by auto
  note acc = from' [unfolded rows_from_def check_accounted_def, THEN conjunct2, THEN conjunct2, THEN conjunct2]
  have a1: "check_rows_of c (op_Module opts) (map mo_ID (op_Results opts)) (length (map w_ID (pt_Rows p))) = None"
    and a2: "check_rows_of c (op_Module opts) (map rn_ID (op_Rejections opts)) (length (map rj_ID (pt_Rejected p))) = None"
    using acc by (auto split: option.splits)
  have "accounted c (op_Module opts) (map w_ID (pt_Rows p)) (map mo_ID (op_Results opts))"
    unfolding accounted_def
    using check_rows_exact [OF ok a1 _ rows_distinct(1) [OF ok from'] ids rows_distinct(3) [OF ok from']] idx
    by (simp add: indexed_def)
  moreover have "accounted c (op_Module opts) (map rj_ID (pt_Rejected p)) (map rn_ID (op_Rejections opts))"
    unfolding accounted_def
    using check_rows_exact [OF ok a2 _ rows_distinct(2) [OF ok from'] rids rows_distinct(4) [OF ok from']] idx
    by (simp add: indexed_def)
  ultimately show ?thesis
    using from' found unfolding accounts_for_def rows_from_def gone p Let_def
    by (simp add: list_all_iff list_ex_iff)
qed

text \<open>
  C12. The document accounts for the catalogue: in the order of the catalogue, each mutant of the
  module is listed exactly once, in the rejections when it was rejected and otherwise in the rows,
  with the outcome that was measured; and every result and every rejection handed over names a
  catalogued mutant and, when that is of the module, has its row. Nothing is dropped or invented.
\<close>

theorem build_accounts_catalog:
  "(case builder_build b of Inl _ \<Rightarrow> True | Inr c \<Rightarrow>
    (case build_report host (opts\<lparr>op_Catalog := Some c\<rparr>) of Inl _ \<Rightarrow> True | Inr r \<Rightarrow> accounts_for opts c r))"
proof -
  have "accounts_for (opts\<lparr>op_Catalog := Some c\<rparr>) c r = accounts_for opts c r" for c r
    by (simp add: accounts_for_def)
  then show ?thesis
    using build_accounts_for [OF build_catalog_ok, of b _ "opts\<lparr>op_Catalog := Some _\<rparr>" host]
    by (auto split: sum.splits)
qed

section \<open>The summary is a view of the rows\<close>

lemma tally_rows_from:
  assumes "\<forall>w \<in> set rows. row_outcome_of (f w) = Inr (w_Outcome w)"
    and "tally_from i t (map (\<lambda>w. \<lparr>Outcome = f w, ExpectedSurvivor = w_ID w \<in> set expected\<rparr>) rows) = Inr u"
  shows "tally_rows expected t rows = Inr u"
  using assms
proof (induction rows arbitrary: i t)
  case Nil
  then show ?case by simp
next
  case (Cons w rows)
  then have "row_mutation (w_Outcome w) = Inr (f w)" by (simp add: row_mutation_of)
  with Cons show ?case by (auto split: sum.splits)
qed

lemma count_named:
  assumes "\<forall>w \<in> set rows. row_outcome_of (f w) = Inr (w_Outcome w)" and "row_outcome_of c = Inr name"
  shows "count_outcome c (map (\<lambda>w. \<lparr>Outcome = f w, ExpectedSurvivor = e w\<rparr>) rows)
    = int (length (filter (\<lambda>w. w_Outcome w = name) rows))"
proof -
  have "f w = c \<longleftrightarrow> w_Outcome w = name" if "w \<in> set rows" for w
    using assms that row_outcome_inject by (metis Inr_inject)
  then have "filter (\<lambda>w. f w = c) rows = filter (\<lambda>w. w_Outcome w = name) rows"
    by (simp cong: filter_cong)
  then show ?thesis by (simp add: count_outcome_def filter_map o_def)
qed

lemma count_survivors_both: "count_survivors False rs + count_survivors True rs = count_outcome OutcomeSurvived rs"
  by (induction rs) (auto simp: count_survivors_def count_outcome_def)

lemma row_outcome_of_names:
  "row_outcome_of OutcomeKilled = Inr RowKilled" "row_outcome_of OutcomeSurvived = Inr RowSurvived"
  "row_outcome_of OutcomeTimedOut = Inr RowTimedOut" "row_outcome_of OutcomeInconclusive = Inr RowInconclusive"
  "row_outcome_of OutcomeErrored = Inr RowErrored" "row_outcome_of OutcomeNotRun = Inr RowNotRun"
  by (simp_all add: row_outcome_of_def row_outcome_names_def outcome_defs)

definition rows_with :: "row_outcome \<Rightarrow> row list \<Rightarrow> int" where
  "rows_with name rows = int (length (filter (\<lambda>w. w_Outcome w = name) rows))"

definition counts_rows :: "summary \<Rightarrow> row list \<Rightarrow> bool" where
  "counts_rows s rows \<longleftrightarrow>
     sm_Total s = int (length rows) \<and> sm_Killed s = rows_with RowKilled rows
     \<and> sm_Survived s = rows_with RowSurvived rows \<and> sm_TimedOut s = rows_with RowTimedOut rows
     \<and> sm_Inconclusive s = rows_with RowInconclusive rows \<and> sm_Errored s = rows_with RowErrored rows
     \<and> sm_NotRun s = rows_with RowNotRun rows"

text \<open>A tally of rows counts them, whatever it was computed for.\<close>

lemma counts_rows_summary:
  assumes f: "\<forall>w \<in> set rows. row_outcome_of (f w) = Inr (w_Outcome w)"
    and t: "tally_of (map (\<lambda>w. \<lparr>Outcome = f w, ExpectedSurvivor = w_ID w \<in> set expected\<rparr>) rows) = Inr t"
  shows "counts_rows (summary_of t p infra expectations rows) rows"
proof -
  let ?rs = "map (\<lambda>w. \<lparr>Outcome = f w, ExpectedSurvivor = w_ID w \<in> set expected\<rparr>) rows"
  have v: "list_all (outcome_valid \<circ> Outcome) ?rs" and c: "counts empty_tally ?rs t"
    using tally_of_Inr [OF t] by auto
  note n = count_named [OF f, where e = "\<lambda>w. w_ID w \<in> set expected"]
  have "tally_total t = int (length rows)"
    using c count_total [OF v] by (simp add: counts_def tally_total_def tally_detected_def tally_survived_def empty_tally_def)
  moreover have "tally_survived t = rows_with RowSurvived rows"
    using c n [OF row_outcome_of_names(2)] count_survivors_both [of ?rs]
    by (simp add: counts_def tally_survived_def empty_tally_def rows_with_def)
  ultimately show ?thesis
    using c by (simp add: counts_rows_def summary_of_def counts_def empty_tally_def rows_with_def
        n [OF row_outcome_of_names(1)] n [OF row_outcome_of_names(3)] n [OF row_outcome_of_names(4)]
        n [OF row_outcome_of_names(5)] n [OF row_outcome_of_names(6)])
qed

definition row_core :: "(string \<rightharpoonup> measured) \<Rightarrow> row \<Rightarrow> outcome" where
  "row_core results w = (case results (w_ID w) of None \<Rightarrow> OutcomeNotRun | Some r \<Rightarrow> mo_Outcome r)"

lemma rows_core:
  assumes "rows_from opts c results rejections rows rejected"
  shows "\<forall>w \<in> set rows. row_outcome_of (row_core results w) = Inr (w_Outcome w)"
proof
  fix w assume "w \<in> set rows"
  then obtain m place result where "results (w_ID w) = Some result" "measured_row m place result = Inr w"
    using assms unfolding rows_from_def by blast
  then show "row_outcome_of (row_core results w) = Inr (w_Outcome w)"
    using measured_row_Inr(3) by (simp add: row_core_def)
qed

lemma tally_results_Inr:
  "tally_results rows results expectations = Inr t \<longleftrightarrow>
     tally_of (map (\<lambda>w. \<lparr>Outcome = row_core results w, ExpectedSurvivor = w_ID w \<in> set (fulfilled_ids expectations)\<rparr>) rows) = Inr t"
  by (simp add: tally_results_def row_core_def split: sum.splits)

lemma tally_of_ok:
  assumes "list_all (outcome_valid \<circ> Outcome) rs"
  shows "\<exists>t. tally_of rs = Inr t"
proof (cases "tally_of rs")
  case (Inl e)
  obtain j err where "e = (j, err)" by (cases e)
  with Inl have "j < length rs" "\<not> outcome_valid (Outcome (rs ! j))"
    using tally_from_Inl [of 0 empty_tally rs j err] by (auto simp: tally_of_def)
  with assms show ?thesis by (auto simp: list_all_length)
qed simp

lemma tally_results_ok:
  assumes "\<forall>w \<in> set rows. outcome_valid (row_core results w)"
  shows "\<exists>t. tally_results rows results expectations = Inr t"
  using assms tally_of_ok [of "map (\<lambda>w. \<lparr>Outcome = row_core results w, ExpectedSurvivor = w_ID w \<in> set (fulfilled_ids expectations)\<rparr>) rows"]
  by (simp add: tally_results_Inr list_all_iff)

lemma build_tally:
  assumes "build_report host opts = Inr r"
  shows "\<exists>t. report_tally r = Inr t
     \<and> Summary r = summary_of t (Policy (op_Config opts)) (op_InfrastructureError opts) (Expectations r) (Mutants r)
     \<and> counts_rows (Summary r) (Mutants r)"
proof -
  obtain c results rejections p where r: "r = assemble host opts p"
    and from': "rows_from opts c results rejections (pt_Rows p) (pt_Rejected p)"
    and b: "built_from opts c results rejections p"
    using build_report_parts [OF assms] by metis
  have t: "tally_results (pt_Rows p) results (pt_Expectations p) = Inr (pt_Tally p)"
    using b unfolding built_from_def by blast
  have "report_tally r = Inr (pt_Tally p)"
    using tally_rows_from [OF rows_core [OF from']] t
    by (simp add: r report_tally_def tally_results_Inr tally_of_def)
  moreover have "counts_rows (Summary r) (Mutants r)"
    using counts_rows_summary [OF rows_core [OF from'] t [unfolded tally_results_Inr]] by (simp add: r)
  ultimately show ?thesis by (simp add: r)
qed

text \<open>
  C14. The summary is a view of the document: counting the rows and the fulfilled expectations of
  the finished document again succeeds and gives the summary it carries, score and failed policy
  included, and each number of the summary is the number of rows with that outcome.
\<close>

theorem summary_recomputed:
  "(case build_report host opts of Inl _ \<Rightarrow> True | Inr r \<Rightarrow>
     (case report_tally r of Inl _ \<Rightarrow> False | Inr t \<Rightarrow>
        Summary r = summary_of t (Policy (op_Config opts)) (op_InfrastructureError opts) (Expectations r) (Mutants r)
        \<and> counts_rows (Summary r) (Mutants r)))"
  using build_tally by (fastforce split: sum.splits)

section \<open>No row contradicts the document\<close>

definition execution_ok :: "execution \<Rightarrow> bool" where
  "execution_ok x \<longleftrightarrow> observed (x_Outcome x) \<and> (if x_MemoryExceeded x then x_Outcome x = RowKilled else True)"

definition row_ok :: "coverage_mode \<Rightarrow> cache_mode \<Rightarrow> row \<Rightarrow> bool" where
  "row_ok covm cachem w \<longleftrightarrow>
     (w_NotRunReason w = None) = (w_Outcome w \<noteq> RowNotRun)
     \<and> (case w_NotRunReason w of None \<Rightarrow> True | Some reason \<Rightarrow> not_run_reason_valid reason)
     \<and> (if w_Executions w = [] then True else
          int (length (w_Executions w)) = w_Attempts w \<and> \<not> w_Cached w \<and> \<not> w_Uncovered w \<and> \<not> w_Unobserved w
          \<and> w_Outcome w \<noteq> RowNotRun)
     \<and> list_all execution_ok (w_Executions w)
     \<and> map x_Attempt (w_Executions w) = [1 .. int (length (w_Executions w))]
     \<and> (if w_Uncovered w then narrowed covm \<and> w_Outcome w = RowSurvived \<and> w_Attempts w = 0
          \<and> \<not> w_Unobserved w \<and> \<not> w_Cached w else True)
     \<and> (if w_Unobserved w then w_Outcome w = RowSurvived \<and> w_Attempts w = 0 else True)
     \<and> (if w_Cached w then cachem = CacheModeOn \<and> reusable (w_Outcome w) else True)
     \<and> (if covm = CoverageTest then True
        else w_CoveringTests w = [] \<and> list_all (\<lambda>x. x_Tests x = []) (w_Executions w))"

definition count_rows :: "(row \<Rightarrow> bool) \<Rightarrow> row list \<Rightarrow> int" where
  "count_rows P rows = int (length (filter P rows))"

lemma check_execution_list_None: "check_execution_list xs = None \<longleftrightarrow> list_all execution_ok xs"
  by (induction xs) (auto simp: execution_ok_def)

lemma executions_of_simps [simp]:
  "executions_of xs = [] \<longleftrightarrow> xs = []" "length (executions_of xs) = length xs"
  "list_all execution_ok (executions_of xs) = list_all execution_ok xs"
  by (auto simp: executions_of_def list_all_length nth_enumerate_eq execution_ok_def enumerate_eq_zip)

lemma executions_numbered: "map x_Attempt (executions_of xs) = [1 .. int (length xs)]"
  by (rule nth_equalityI) (simp_all add: executions_of_def nth_enumerate_eq)

lemma not_run_reason_Inr:
  assumes "not_run_reason_of result out = Inr reason"
  shows "(reason = None) = (out \<noteq> RowNotRun)"
    and "case reason of None \<Rightarrow> True | Some x \<Rightarrow> not_run_reason_valid x"
  using assms by (auto simp: not_run_reason_of_def text_opt_def Let_def split: if_splits)

text \<open>What the construction of a row gives, before the checks of the coverage and cache blocks.\<close>

lemma measured_row_shape:
  assumes "measured_row m place result = Inr w"
  shows "(w_NotRunReason w = None) = (w_Outcome w \<noteq> RowNotRun)"
    and "case w_NotRunReason w of None \<Rightarrow> True | Some reason \<Rightarrow> not_run_reason_valid reason"
    and "w_Executions w \<noteq> [] \<Longrightarrow> int (length (w_Executions w)) = w_Attempts w \<and> \<not> w_Cached w
      \<and> \<not> w_Uncovered w \<and> \<not> w_Unobserved w \<and> w_Outcome w \<noteq> RowNotRun"
    and "list_all execution_ok (w_Executions w)"
    and "map x_Attempt (w_Executions w) = [1 .. int (length (w_Executions w))]"
proof -
  obtain out reason where w: "w = row_of m place result out reason"
    using measured_row_Inr(1) [OF assms] by blast
  have f: "w_Executions w = executions_of (mo_Executions result)" "w_Attempts w = mo_Attempts result"
    "w_Cached w = mo_Cached result" "w_Uncovered w = mo_Uncovered result" "w_Unobserved w = mo_Unobserved result"
    by (simp_all add: w row_of_def Let_def)
  have c: "check_executions result (w_Outcome w) = None" by (rule measured_row_Inr(5) [OF assms])
  show "(w_NotRunReason w = None) = (w_Outcome w \<noteq> RowNotRun)"
    "case w_NotRunReason w of None \<Rightarrow> True | Some reason \<Rightarrow> not_run_reason_valid reason"
    using not_run_reason_Inr [OF measured_row_Inr(4) [OF assms]] by blast+
  show "w_Executions w \<noteq> [] \<Longrightarrow> int (length (w_Executions w)) = w_Attempts w \<and> \<not> w_Cached w
      \<and> \<not> w_Uncovered w \<and> \<not> w_Unobserved w \<and> w_Outcome w \<noteq> RowNotRun"
    using c by (simp add: f check_executions_def split: if_split_asm)
  show "list_all execution_ok (w_Executions w)"
    using c by (cases "mo_Executions result = []")
      (auto simp: f check_executions_def check_execution_list_None split: if_splits)
  show "map x_Attempt (w_Executions w) = [1 .. int (length (w_Executions w))]"
    by (simp add: f executions_numbered)
qed

lemma count_uncovered_Inr:
  "count_uncovered mode rows n = Inr k \<Longrightarrow>
     k = n + count_rows w_Uncovered rows
     \<and> (\<forall>w \<in> set rows. check_coverage_facts mode w = None
          \<and> (w_Uncovered w \<longrightarrow> narrowed mode \<and> w_Outcome w = RowSurvived \<and> w_Attempts w = 0))"
  by (induction rows arbitrary: n) (fastforce simp: count_rows_def split: option.splits if_splits)+

lemma first_unobserved_None:
  "first_unobserved rows = None \<longleftrightarrow> (\<forall>w \<in> set rows. check_unobserved w = None)"
  by (induction rows) (auto split: option.splits)

lemma count_hits_Inr:
  "count_hits mode rows n = Inr k \<Longrightarrow>
     k = n + count_rows w_Cached rows
     \<and> (\<forall>w \<in> set rows. w_Cached w \<longrightarrow> mode = CacheModeOn \<and> \<not> w_Uncovered w \<and> reusable (w_Outcome w))"
  by (induction rows arbitrary: n) (fastforce simp: count_rows_def split: if_splits)+

definition document_ok :: "report \<Rightarrow> bool" where
  "document_ok r \<longleftrightarrow>
     list_all (row_ok (cov_Mode (CoverageOf r)) (cf_Mode (CacheOf r))) (Mutants r)
     \<and> coverage_mode_valid (cov_Mode (CoverageOf r)) \<and> cache_mode_valid (cf_Mode (CacheOf r))
     \<and> cov_Uncovered (CoverageOf r)
         = (if narrowed (cov_Mode (CoverageOf r)) then Some (count_rows w_Uncovered (Mutants r)) else None)
     \<and> cf_Hits (CacheOf r) = count_rows w_Cached (Mutants r)
     \<and> 0 \<le> cf_Writes (CacheOf r) \<and> cf_Writes (CacheOf r) \<le> cf_Misses (CacheOf r)
     \<and> (if cf_Mode (CacheOf r) = CacheModeOff then cf_Misses (CacheOf r) = 0 else True)
     \<and> sel_Candidates (Selection r) = int (length (Mutants r)) + int (length (Rejected r))
     \<and> sel_Rejected (Selection r) = int (length (Rejected r))
     \<and> 0 \<le> sel_Selected (Selection r) \<and> sel_Selected (Selection r) \<le> sel_Candidates (Selection r)
     \<and> (case ShardOf r of None \<Rightarrow> sel_Mode (Selection r) \<noteq> ModeShard
          | Some s \<Rightarrow> sel_Mode (Selection r) = ModeShard \<and> 1 \<le> sh_Index s \<and> sh_Index s \<le> sh_Total s
              \<and> sh_Assignment s = ShardAssignment)
     \<and> run_status_valid (RunStatus r) \<and> MergeOf r = None"

lemma coverage_of_Inr:
  assumes "coverage_of opts rows = Inr cov"
  shows "coverage_mode_valid (cov_Mode cov)"
    and "cov_Uncovered cov = (if narrowed (cov_Mode cov) then Some (count_rows w_Uncovered rows) else None)"
    and "\<forall>w \<in> set rows. check_coverage_facts (cov_Mode cov) w = None \<and> check_unobserved w = None
      \<and> (w_Uncovered w \<longrightarrow> narrowed (cov_Mode cov) \<and> w_Outcome w = RowSurvived \<and> w_Attempts w = 0)"
proof -
  let ?mode = "if op_CoverageMode opts = [] then CoverageOff else op_CoverageMode opts"
  obtain cov' where cov': "coverage_block (op_CoverageMode opts) (op_CoverageBinaries opts) (op_CoverageTests opts) rows = Inr cov'"
    and cov: "cov_Mode cov = cov_Mode cov'" "cov_Uncovered cov = cov_Uncovered cov'"
    using assms by (auto simp: coverage_of_def split: sum.splits)
  obtain k where v: "coverage_mode_valid ?mode" and k: "count_uncovered ?mode rows 0 = Inr k"
    and u: "first_unobserved rows = None"
    using cov' by (auto simp: coverage_block_def Let_def split: sum.splits option.splits if_splits)
  have m: "cov_Mode cov' = ?mode" and c: "cov_Uncovered cov' = (if narrowed ?mode then Some k else None)"
    using cov' v k u by (auto simp: coverage_block_def plain_coverage_def Let_def split: if_splits)
  show "coverage_mode_valid (cov_Mode cov)"
    "cov_Uncovered cov = (if narrowed (cov_Mode cov) then Some (count_rows w_Uncovered rows) else None)"
    "\<forall>w \<in> set rows. check_coverage_facts (cov_Mode cov) w = None \<and> check_unobserved w = None
      \<and> (w_Uncovered w \<longrightarrow> narrowed (cov_Mode cov) \<and> w_Outcome w = RowSurvived \<and> w_Attempts w = 0)"
    unfolding cov m c using v count_uncovered_Inr [OF k] u first_unobserved_None by auto
qed

lemma cache_block_Inr:
  assumes "cache_block stated misses writes rows = Inr cache"
  shows "cache_mode_valid (cf_Mode cache)" and "cf_Hits cache = count_rows w_Cached rows"
    and "0 \<le> cf_Writes cache" and "cf_Writes cache \<le> cf_Misses cache"
    and "cf_Mode cache = CacheModeOff \<Longrightarrow> cf_Misses cache = 0"
    and "\<forall>w \<in> set rows. w_Cached w \<longrightarrow> cf_Mode cache = CacheModeOn \<and> \<not> w_Uncovered w \<and> reusable (w_Outcome w)"
proof -
  let ?mode = "if stated = [] then CacheModeOff else stated"
  obtain k where v: "cache_mode_valid ?mode" and k: "count_hits ?mode rows 0 = Inr k"
    using assms by (auto simp: cache_block_def Let_def split: sum.splits if_splits)
  have c: "cache = \<lparr>cf_Mode = ?mode, cf_Hits = k, cf_Misses = misses, cf_Writes = writes\<rparr>"
    "0 \<le> writes" "writes \<le> misses" "?mode = CacheModeOff \<Longrightarrow> misses = 0"
    using assms v k by (auto simp: cache_block_def Let_def split: if_splits)
  show "cache_mode_valid (cf_Mode cache)" "cf_Hits cache = count_rows w_Cached rows"
    "0 \<le> cf_Writes cache" "cf_Writes cache \<le> cf_Misses cache"
    "cf_Mode cache = CacheModeOff \<Longrightarrow> cf_Misses cache = 0"
    "\<forall>w \<in> set rows. w_Cached w \<longrightarrow> cf_Mode cache = CacheModeOn \<and> \<not> w_Uncovered w \<and> reusable (w_Outcome w)"
    using count_hits_Inr [OF k] v c by auto
qed

lemma rows_ok:
  assumes from': "rows_from opts c results rejections rows rejected"
    and cov: "coverage_of opts rows = Inr cov"
    and cache: "cache_block stated misses writes rows = Inr cachef"
    and w: "w \<in> set rows"
  shows "row_ok (cov_Mode cov) (cf_Mode cachef) w"
proof -
  obtain m place result where "measured_row m place result = Inr w"
    using from' w unfolding rows_from_def by blast
  note shape = measured_row_shape [OF this]
  have facts: "check_coverage_facts (cov_Mode cov) w = None" "check_unobserved w = None"
    "w_Uncovered w \<longrightarrow> narrowed (cov_Mode cov) \<and> w_Outcome w = RowSurvived \<and> w_Attempts w = 0"
    "w_Cached w \<longrightarrow> cf_Mode cachef = CacheModeOn \<and> \<not> w_Uncovered w \<and> reusable (w_Outcome w)"
    using coverage_of_Inr(3) [OF cov] cache_block_Inr(6) [OF cache] w by blast+
  have "if cov_Mode cov = CoverageTest then True
      else w_CoveringTests w = [] \<and> list_all (\<lambda>x. x_Tests x = []) (w_Executions w)"
    using facts(1) by (auto simp: check_coverage_facts_def list_all_iff list_ex_iff split: if_splits)
  moreover have "w_Unobserved w \<longrightarrow> \<not> w_Uncovered w \<and> w_Outcome w = RowSurvived \<and> w_Attempts w = 0"
    using facts(2) by (auto simp: check_unobserved_def split: if_splits)
  ultimately show ?thesis
    using shape facts(3,4) unfolding row_ok_def by (simp split: if_split)
qed

lemma selection_of_Inr:
  assumes "selection_of opts candidates rejected = Inr sel" and "shard_of opts = Inr sh"
  shows "sel_Candidates sel = candidates" and "sel_Rejected sel = rejected"
    and "0 \<le> sel_Selected sel" and "sel_Selected sel \<le> candidates"
    and "case sh of None \<Rightarrow> sel_Mode sel \<noteq> ModeShard
      | Some s \<Rightarrow> sel_Mode sel = ModeShard \<and> 1 \<le> sh_Index s \<and> sh_Index s \<le> sh_Total s
          \<and> sh_Assignment s = ShardAssignment"
  using assms by (auto simp: selection_of_def shard_of_def Let_def split: if_splits option.splits)

lemma build_document:
  assumes "build_report host opts = Inr r"
  shows "document_ok r"
proof -
  obtain c results rejections p where r: "r = assemble host opts p"
    and from': "rows_from opts c results rejections (pt_Rows p) (pt_Rejected p)"
    and b: "built_from opts c results rejections p"
    using build_report_parts [OF assms] by metis
  have s: "selection_of opts (int (length (pt_Rows p)) + int (length (pt_Rejected p))) (int (length (pt_Rejected p)))
      = Inr (pt_Selection p)" "shard_of opts = Inr (pt_Shard p)"
    and cov: "coverage_of opts (pt_Rows p) = Inr (pt_Coverage p)"
    and cache: "cache_block (op_CacheMode opts) (op_CacheMisses opts) (op_CacheWrites opts) (pt_Rows p) = Inr (pt_Cache p)"
    using b unfolding built_from_def by blast+
  have status: "run_status_valid (op_Status opts)"
    using assms unfolding build_report_Inr by (simp add: check_identity_def split: if_split_asm)
  show ?thesis
    unfolding document_ok_def r assemble_simps list_all_iff
    using rows_ok [OF from' cov cache] coverage_of_Inr [OF cov] cache_block_Inr [OF cache]
      selection_of_Inr [OF s] status
    by (intro conjI ballI) (simp_all split: if_split)
qed

text \<open>
  C13. Every document \<open>Build\<close> returns is consistent: a mutant has a reason for not having been run
  exactly when it was not run; executions are numbered, as many as the attempts, observed by a
  process, and only of mutants that were really executed; an uncovered or unobserved mutant is a
  survivor without attempts, a cached one has an outcome the cache stores and the cache was on;
  the numbers of uncovered, cached, rejected and candidate mutants are those of the rows; and a
  sharded selection goes with a shard in range.
\<close>

theorem build_document_ok:
  "(case build_report host opts of Inl _ \<Rightarrow> True | Inr r \<Rightarrow> document_ok r)"
  using build_document by (auto split: sum.splits)

end
