(* ===== verification/MergeFacts.thy ===== *)
theory MergeFacts
  imports MergeReports ReportFacts
begin

text \<open>
  What merging does: the merged document takes every row from the shard that owns the mutant, and
  the documents of a sharded run merge into the document of the same run without shards.
\<close>

section \<open>Complete sets of shards\<close>

abbreviation indices :: "(shard \<times> report) list \<Rightarrow> int list" where
  "indices xs \<equiv> map (\<lambda>x. sh_Index (fst x)) xs"

definition indexed_documents :: "(shard \<times> report) list \<Rightarrow> (int \<rightharpoonup> report)" where
  "indexed_documents xs = map_of (map (\<lambda>x. (sh_Index (fst x), snd x)) xs)"

lemma indexed_documents_simps [simp]:
  "indexed_documents [] = Map.empty"
  "indexed_documents (x # xs) = (indexed_documents xs)(sh_Index (fst x) \<mapsto> snd x)"
  by (simp_all add: indexed_documents_def)

lemma indexed_documents_dom: "dom (indexed_documents xs) = set (indices xs)"
  by (simp add: indexed_documents_def dom_map_of_conv_image_fst image_image)

lemma indexed_documents_add:
  "i \<notin> set (indices xs) \<Longrightarrow> f(i \<mapsto> r) ++ indexed_documents xs = f ++ (indexed_documents xs)(i \<mapsto> r)"
  by (simp add: map_add_upd_left indexed_documents_dom)

lemma owners_of_exact:
  "owners_of n f xs = Inr g \<longleftrightarrow>
     distinct (indices xs) \<and> (\<forall>i \<in> set (indices xs). 1 \<le> i \<and> i \<le> n \<and> f i = None)
     \<and> g = f ++ indexed_documents xs"
proof (induction xs arbitrary: f)
  case Nil
  then show ?case by auto
next
  case (Cons x xs)
  obtain s r where x: "x = (s, r)" by (cases x)
  show ?case
  proof (cases "1 \<le> sh_Index s \<and> sh_Index s \<le> n \<and> f (sh_Index s) = None")
    case False
    then have "owners_of n f (x # xs) = Inl ErrIncompleteShardSet" by (auto simp: x)
    moreover have "\<not> (\<forall>i \<in> set (indices (x # xs)). 1 \<le> i \<and> i \<le> n \<and> f i = None)"
      using False by (simp add: x)
    ultimately show ?thesis by (metis sum.distinct(1))
  next
    case True
    then have "owners_of n f (x # xs) = owners_of n (f(sh_Index s \<mapsto> r)) xs" by (simp add: x)
    also have "\<dots> = Inr g \<longleftrightarrow> distinct (indices xs)
        \<and> (\<forall>i \<in> set (indices xs). 1 \<le> i \<and> i \<le> n \<and> (f(sh_Index s \<mapsto> r)) i = None)
        \<and> g = f(sh_Index s \<mapsto> r) ++ indexed_documents xs"
      by (rule Cons.IH)
    also have "\<dots> \<longleftrightarrow> distinct (indices (x # xs))
        \<and> (\<forall>i \<in> set (indices (x # xs)). 1 \<le> i \<and> i \<le> n \<and> f i = None) \<and> g = f ++ indexed_documents (x # xs)"
    proof (cases "sh_Index s \<in> set (indices xs)")
      case inside: True
      then have "\<not> (\<forall>i \<in> set (indices xs). (f(sh_Index s \<mapsto> r)) i = None)" by (metis fun_upd_same option.distinct(1))
      moreover have "\<not> distinct (indices (x # xs))" using inside by (simp add: x)
      ultimately show ?thesis by metis
    next
      case outside: False
      then have "(\<forall>i \<in> set (indices xs). 1 \<le> i \<and> i \<le> n \<and> (f(sh_Index s \<mapsto> r)) i = None)
          \<longleftrightarrow> (\<forall>i \<in> set (indices xs). 1 \<le> i \<and> i \<le> n \<and> f i = None)"
        by (metis fun_upd_other)
      with True outside show ?thesis by (simp add: x indexed_documents_add)
    qed
    finally show ?thesis .
  qed
qed

lemma complete_set_exact:
  "complete_set xs n = Inr g \<longleftrightarrow>
     distinct (indices xs) \<and> set (indices xs) = {1 .. n} \<and> g = indexed_documents xs"
proof -
  have some: "indexed_documents xs i \<noteq> None \<longleftrightarrow> i \<in> set (indices xs)" for i
    using indexed_documents_dom [of xs] by (metis domIff)
  have "complete_set xs n = Inr g \<longleftrightarrow>
      distinct (indices xs) \<and> (\<forall>i \<in> set (indices xs). 1 \<le> i \<and> i \<le> n)
      \<and> (\<forall>i \<in> {1 .. n}. indexed_documents xs i \<noteq> None) \<and> g = indexed_documents xs"
    unfolding complete_set_def and_then_Inr owners_of_exact by (auto simp: list_ex_iff)
  also have "\<dots> \<longleftrightarrow> distinct (indices xs) \<and> set (indices xs) = {1 .. n} \<and> g = indexed_documents xs"
    unfolding some by (metis atLeastAtMost_iff subsetI subset_antisym)
  finally show ?thesis .
qed

lemma indexed_documents_Some:
  assumes "distinct (indices xs)"
  shows "indexed_documents xs i = Some r \<longleftrightarrow> (\<exists>s. (s, r) \<in> set xs \<and> sh_Index s = i)"
proof -
  have "distinct (map fst (map (\<lambda>x. (sh_Index (fst x), snd x)) xs))"
    using assms by (simp add: comp_def)
  then have "indexed_documents xs i = Some r \<longleftrightarrow> (i, r) \<in> set (map (\<lambda>x. (sh_Index (fst x), snd x)) xs)"
    unfolding indexed_documents_def by (rule map_of_eq_Some_iff)
  then show ?thesis by force
qed

lemma shard_index_range: "1 \<le> n \<Longrightarrow> 1 \<le> shard_index i n \<and> shard_index i n \<le> n"
  by (auto simp: shard_index_def) (smt (verit) Euclidean_Rings.pos_mod_bound nat_0_le of_nat_mod zmod_int)

lemma congruent_iff:
  "congruent first xs = None \<longleftrightarrow> (\<forall>x \<in> set xs. same_run first x \<and> same_catalog (snd first) (snd x))"
  by (induction xs) auto

lemma shard_documents_iff:
  "shard_documents ds = Inr xs \<longleftrightarrow>
     ds = map (\<lambda>x. Some (snd x)) xs \<and> (\<forall>(s, r) \<in> set xs. ShardOf r = Some s \<and> MergeOf r = None)"
proof (induction ds arbitrary: xs)
  case Nil
  then show ?case by auto
next
  case (Cons d ds)
  show ?case
  proof (cases d)
    case None
    then show ?thesis by auto
  next
    case (Some r)
    show ?thesis
      by (cases xs) (auto simp: Some and_then_Inr Cons.IH split: option.splits)
  qed
qed

section \<open>Every row comes from its owner\<close>

lemma filter_unique:
  "distinct (map f xs) \<Longrightarrow> k \<in> set (map f xs) \<Longrightarrow> \<exists>x. filter (\<lambda>x. f x = k) xs = [x] \<and> x \<in> set xs \<and> f x = k"
proof (induction xs)
  case (Cons x xs)
  show ?case
  proof (cases "f x = k")
    case True
    with Cons.prems have "k \<notin> set (map f xs)" by simp
    then have "filter (\<lambda>x. f x = k) xs = []" unfolding filter_empty_conv by (metis image_eqI set_map)
    with True show ?thesis by simp
  next
    case False
    with Cons show ?thesis by auto
  qed
qed simp

lemma merge_documents_Inr:
  "merge_documents runID xs = Inr m \<longleftrightarrow>
     (let first = snd (hd xs); n = sh_Total (fst (hd xs)) in
      congruent (hd xs) (tl xs) = None \<and> ownership xs = None \<and> run_id_ok runID
      \<and> (\<exists>owners between cov cache t.
          (let rows = merged_rows owners n (Mutants first);
               expectations = evaluate (ledger_of (Expectations first)) (dispositions rows (Rejected first)) in
            complete_set xs n = Inr owners \<and> merged_span 0 0 (map snd xs) = Inr between
            \<and> merged_coverage (map snd xs) rows = Inr cov \<and> merged_cache (map snd xs) rows = Inr cache
            \<and> tally_rows (fulfilled_ids expectations) empty_tally rows = Inr t
            \<and> m = merged_report runID xs first n between cov cache rows expectations
                (summary_of t (policy_of (sm_Policy (Summary first))) False expectations rows))))"
  unfolding merge_documents_def Let_def and_then_Inr guard_Inr
  by (auto simp: and_then_Inr guard_Inr split: if_splits)

lemma merged_report_simps [simp]:
  "Mutants (merged_report runID xs first n between cov cache rows expectations sm) = rows"
  "Rejected (merged_report runID xs first n between cov cache rows expectations sm) = Rejected first"
  "Expectations (merged_report runID xs first n between cov cache rows expectations sm) = expectations"
  "Summary (merged_report runID xs first n between cov cache rows expectations sm) = sm"
  "MergeOf (merged_report runID xs first n between cov cache rows expectations sm) = Some n"
  "ShardOf (merged_report runID xs first n between cov cache rows expectations sm) = None"
  "ToolVersion (merged_report runID xs first n between cov cache rows expectations sm) = ToolVersion first"
  "ws_Digest (Workspace (merged_report runID xs first n between cov cache rows expectations sm))
     = ws_Digest (Workspace first)"
  "CoverageOf (merged_report runID xs first n between cov cache rows expectations sm) = cov"
  "CacheOf (merged_report runID xs first n between cov cache rows expectations sm) = cache"
  by (simp_all add: merged_report_def without_snapshot_def)

lemma strip_row_simps [simp]:
  "w_ID (strip_row w) = w_ID w" "w_Outcome (strip_row w) = w_Outcome w"
  "w_NotRunReason (strip_row w) = w_NotRunReason w" "w_Executions (strip_row w) = []"
  "w_Uncovered (strip_row w) = w_Uncovered w" "w_Unobserved (strip_row w) = w_Unobserved w"
  "w_Cached (strip_row w) = w_Cached w" "w_Attempts (strip_row w) = w_Attempts w"
  "w_CoveringTests (strip_row w) = w_CoveringTests w"
  by (simp_all add: strip_row_def)

lemma merged_rows_nth:
  "length (merged_rows owners n rows) = length rows"
  "i < length rows \<Longrightarrow> merged_rows owners n rows ! i
     = strip_row (Mutants (the (owners (shard_index (w_ID (rows ! i)) n))) ! i)"
  by (simp_all add: merged_rows_def nth_enumerate_eq)

lemma same_catalog_iff:
  "same_catalog r r' \<longleftrightarrow>
     map w_ID (Mutants r) = map w_ID (Mutants r') \<and> map rj_ID (Rejected r) = map rj_ID (Rejected r')"
  unfolding same_catalog_def
  by (auto simp: list_all_length list_eq_iff_nth_eq)

lemma same_catalog_refl [simp]: "same_catalog r r" by (simp add: same_catalog_iff)

lemma same_run_refl [simp]: "same_run x x" by (cases x) (simp add: same_run_def)

text \<open>The documents of a set that can be merged, each with the shard it is.\<close>

definition mergeable :: "(shard \<times> report) list \<Rightarrow> int \<Rightarrow> bool" where
  "mergeable xs n \<longleftrightarrow>
     xs \<noteq> [] \<and> 1 \<le> n \<and> distinct (indices xs) \<and> set (indices xs) = {1 .. n}
     \<and> (\<forall>(s, r) \<in> set xs. ShardOf r = Some s \<and> MergeOf r = None \<and> sh_Total s = n
          \<and> same_run (hd xs) (s, r) \<and> same_catalog (snd (hd xs)) r
          \<and> (\<forall>w \<in> set (Mutants r). shard_owns s (w_ID w) \<longleftrightarrow> \<not> disclaimed w))"

lemma merge_shards_mergeable:
  assumes "merge_shards runID (map Some ds) = Inr m"
  obtains xs n where "ds = map snd xs" and "mergeable xs n" and "n = sh_Total (fst (hd xs))"
    and "merge_documents runID xs = Inr m"
proof -
  obtain xs where xs: "shard_documents (map Some ds) = Inr xs" and m: "merge_documents runID xs = Inr m"
    and ne: "ds \<noteq> []"
    using assms by (auto simp: merge_shards_def and_then_Inr split: if_splits)
  define n where "n = sh_Total (fst (hd xs))"
  have "map Some ds = map Some (map snd xs)" and of: "\<forall>(s, r) \<in> set xs. ShardOf r = Some s \<and> MergeOf r = None"
    using xs by (simp_all add: shard_documents_iff comp_def)
  then have ds: "ds = map snd xs" by (metis inj_Some inj_map_eq_map)
  then have ne': "xs \<noteq> []" using ne by auto
  have con: "congruent (hd xs) (tl xs) = None" and own: "ownership xs = None"
    and set: "distinct (indices xs)" "set (indices xs) = {1 .. n}"
    using m unfolding merge_documents_Inr Let_def n_def complete_set_exact by metis+
  have hd: "x = hd xs \<or> x \<in> set (tl xs)" if "x \<in> set xs" for x
    using that ne' by (cases xs) auto
  have same: "same_run (hd xs) x \<and> same_catalog (snd (hd xs)) (snd x)" if "x \<in> set xs" for x
    using con hd [OF that] unfolding congruent_iff by (metis same_run_refl same_catalog_refl)
  have "sh_Total (fst x) = n" if "x \<in> set xs" for x
    using same [OF that] by (auto simp: n_def same_run_def split: prod.splits)
  moreover have "1 \<le> n"
  proof -
    have "sh_Index (fst (hd xs)) \<in> set (indices xs)" using ne' by simp
    then show ?thesis unfolding set by simp
  qed
  moreover have "\<forall>(s, r) \<in> set xs. \<forall>w \<in> set (Mutants r). shard_owns s (w_ID w) \<longleftrightarrow> \<not> disclaimed w"
    using own unfolding ownership_def list_all_iff by (auto split: if_splits)
  ultimately have "mergeable xs n"
    using ne' set of same unfolding mergeable_def by fastforce
  then show ?thesis using that ds n_def m by blast
qed

definition owner_rows :: "report list \<Rightarrow> nat \<Rightarrow> row \<Rightarrow> row list" where
  "owner_rows ds i w =
     map (\<lambda>d. Mutants d ! i)
       (filter (\<lambda>d. case ShardOf d of None \<Rightarrow> False | Some s \<Rightarrow> shard_owns s (w_ID w)) ds)"

definition merged_from :: "report list \<Rightarrow> report \<Rightarrow> bool" where
  "merged_from ds m \<longleftrightarrow>
     MergeOf m = Some (int (length ds)) \<and> ShardOf m = None
     \<and> list_all (\<lambda>d. map w_ID (Mutants d) = map w_ID (Mutants m) \<and> map rj_ID (Rejected d) = map rj_ID (Rejected m)
          \<and> ToolVersion d = ToolVersion m \<and> ws_Digest (Workspace d) = ws_Digest (Workspace m)) ds
     \<and> list_all (\<lambda>(i, w). case owner_rows ds i w of
            [own] \<Rightarrow> w = strip_row own \<and> \<not> disclaimed own
              \<and> length (filter (\<lambda>d. disclaimed (Mutants d ! i)) ds) = length ds - 1
          | _ \<Rightarrow> False) (enumerate 0 (Mutants m))
     \<and> (case report_tally m of Inl _ \<Rightarrow> False | Inr t \<Rightarrow> sm_Total (Summary m) = tally_total t \<and> sm_Killed (Summary m) = Killed t)"

lemma mergeable_row:
  assumes ok: "mergeable xs n" and i: "i < length (Mutants (snd (hd xs)))"
    and k: "k = shard_index (w_ID (Mutants (snd (hd xs)) ! i)) n"
  obtains s r where "indexed_documents xs k = Some r" and "(s, r) \<in> set xs"
    and "filter (\<lambda>x. sh_Index (fst x) = k) xs = [(s, r)]"
    and "w_ID (Mutants r ! i) = w_ID (Mutants (snd (hd xs)) ! i)" and "i < length (Mutants r)"
    and "\<And>x. x \<in> set xs \<Longrightarrow> disclaimed (Mutants (snd x) ! i) \<longleftrightarrow> sh_Index (fst x) \<noteq> k"
proof -
  have n: "1 \<le> n" and d: "distinct (indices xs)" and s: "set (indices xs) = {1 .. n}"
    using ok by (simp_all add: mergeable_def)
  have "k \<in> set (indices xs)" unfolding s k using shard_index_range [OF n] by simp
  from filter_unique [OF d this] obtain x where x: "filter (\<lambda>x. sh_Index (fst x) = k) xs = [x]" "x \<in> set xs"
    "sh_Index (fst x) = k" by blast
  have cat: "map w_ID (Mutants (snd (hd xs))) = map w_ID (Mutants (snd y))" if "y \<in> set xs" for y
    using ok that unfolding mergeable_def same_catalog_iff by fastforce
  have len: "i < length (Mutants (snd y))" if "y \<in> set xs" for y
    using cat [OF that] i by (metis length_map)
  have ids: "w_ID (Mutants (snd y) ! i) = w_ID (Mutants (snd (hd xs)) ! i)" if "y \<in> set xs" for y
    using cat [OF that] i len [OF that] by (metis nth_map)
  have dis: "disclaimed (Mutants (snd y) ! i) \<longleftrightarrow> sh_Index (fst y) \<noteq> k" if y: "y \<in> set xs" for y
  proof -
    have "shard_owns (fst y) (w_ID (Mutants (snd y) ! i)) \<longleftrightarrow> \<not> disclaimed (Mutants (snd y) ! i)"
      and "sh_Total (fst y) = n"
      using ok y nth_mem [OF len [OF y]] unfolding mergeable_def by fastforce+
    then show ?thesis unfolding shard_owns_def ids [OF y] k by metis
  qed
  have "indexed_documents xs k = Some (snd x)"
    using x indexed_documents_Some [OF d] by (metis prod.collapse)
  then show ?thesis
    using that [of "snd x" "fst x"] x ids len dis by simp
qed

lemma length_filter_not: "length (filter (\<lambda>x. \<not> P x) xs) = length xs - length (filter P xs)"
  using sum_length_filter_compl [of P xs] by simp

lemma merge_rows:
  assumes m: "merge_shards runID (map Some ds) = Inr m"
  shows "merged_from ds m"
proof -
  obtain xs n where ds: "ds = map snd xs" and ok: "mergeable xs n" and n: "n = sh_Total (fst (hd xs))"
    and md: "merge_documents runID xs = Inr m"
    using merge_shards_mergeable [OF m] by blast
  obtain cov cache between t expectations where
    m': "m = merged_report runID xs (snd (hd xs)) n between cov cache
        (merged_rows (indexed_documents xs) n (Mutants (snd (hd xs)))) expectations
        (summary_of t (policy_of (sm_Policy (Summary (snd (hd xs))))) False expectations
           (merged_rows (indexed_documents xs) n (Mutants (snd (hd xs)))))"
    and t: "tally_rows (fulfilled_ids expectations) empty_tally (merged_rows (indexed_documents xs) n (Mutants (snd (hd xs)))) = Inr t"
    using md unfolding merge_documents_Inr Let_def complete_set_exact n [symmetric] by blast
  let ?rows = "merged_rows (indexed_documents xs) n (Mutants (snd (hd xs)))"
  have row: "(case owner_rows ds i (?rows ! i) of
            [own] \<Rightarrow> ?rows ! i = strip_row own \<and> \<not> disclaimed own
              \<and> length (filter (\<lambda>d. disclaimed (Mutants d ! i)) ds) = length ds - 1
          | _ \<Rightarrow> False) \<and> w_ID (?rows ! i) = w_ID (Mutants (snd (hd xs)) ! i)" if i: "i < length ?rows" for i
  proof -
    have i': "i < length (Mutants (snd (hd xs)))" using i by (simp add: merged_rows_nth)
    obtain s r where r: "indexed_documents xs (shard_index (w_ID (Mutants (snd (hd xs)) ! i)) n) = Some r" "(s, r) \<in> set xs"
      and f: "filter (\<lambda>x. sh_Index (fst x) = shard_index (w_ID (Mutants (snd (hd xs)) ! i)) n) xs = [(s, r)]"
      and ids: "w_ID (Mutants r ! i) = w_ID (Mutants (snd (hd xs)) ! i)"
      and dis: "\<And>x. x \<in> set xs \<Longrightarrow> disclaimed (Mutants (snd x) ! i)
        \<longleftrightarrow> sh_Index (fst x) \<noteq> shard_index (w_ID (Mutants (snd (hd xs)) ! i)) n"
      using mergeable_row [OF ok i' refl] by metis
    have "(s, r) \<in> set (filter (\<lambda>x. sh_Index (fst x) = shard_index (w_ID (Mutants (snd (hd xs)) ! i)) n) xs)"
      unfolding f by simp
    then have mem: "sh_Index s = shard_index (w_ID (Mutants (snd (hd xs)) ! i)) n" by simp
    have e: "?rows ! i = strip_row (Mutants r ! i)" using r i' by (simp add: merged_rows_nth)
    have "filter (\<lambda>x. case ShardOf (snd x) of None \<Rightarrow> False | Some s \<Rightarrow> shard_owns s (w_ID (?rows ! i))) xs
        = filter (\<lambda>x. sh_Index (fst x) = shard_index (w_ID (Mutants (snd (hd xs)) ! i)) n) xs"
    proof (rule filter_cong [OF refl])
      fix x assume x: "x \<in> set xs"
      then have "ShardOf (snd x) = Some (fst x)" "sh_Total (fst x) = n"
        using ok unfolding mergeable_def by fastforce+
      then show "(case ShardOf (snd x) of None \<Rightarrow> False | Some s \<Rightarrow> shard_owns s (w_ID (?rows ! i)))
        = (sh_Index (fst x) = shard_index (w_ID (Mutants (snd (hd xs)) ! i)) n)"
        by (auto simp: shard_owns_def e ids)
    qed
    then have own: "owner_rows ds i (?rows ! i) = [Mutants r ! i]"
      unfolding owner_rows_def ds filter_map comp_def f by simp
    have "filter (\<lambda>d. disclaimed (Mutants d ! i)) ds
        = map snd (filter (\<lambda>x. \<not> sh_Index (fst x) = shard_index (w_ID (Mutants (snd (hd xs)) ! i)) n) xs)"
      unfolding ds filter_map comp_def using dis by (simp cong: filter_cong)
    then have "length (filter (\<lambda>d. disclaimed (Mutants d ! i)) ds) = length ds - 1"
      unfolding ds by (simp add: length_filter_not f)
    moreover have "\<not> disclaimed (Mutants r ! i)"
      using dis [OF r(2)] mem by simp
    ultimately show ?thesis unfolding own by (simp add: e ids)
  qed
  have ids: "map w_ID ?rows = map w_ID (Mutants (snd (hd xs)))"
    using row by (intro nth_equalityI) (simp_all add: merged_rows_nth)
  have n1: "1 \<le> n" using ok by (simp add: mergeable_def)
  have len: "length xs = nat n"
  proof -
    have "length (indices xs) = card (set (indices xs))"
      using ok by (metis distinct_card mergeable_def)
    then show ?thesis using ok by (simp add: mergeable_def)
  qed
  have same: "same_run (hd xs) x \<and> same_catalog (snd (hd xs)) (snd x)" if "x \<in> set xs" for x
    using ok that unfolding mergeable_def by fastforce
  moreover have "list_all (\<lambda>d. map w_ID (Mutants d) = map w_ID ?rows \<and> map rj_ID (Rejected d) = map rj_ID (Rejected (snd (hd xs)))
      \<and> ToolVersion d = ToolVersion (snd (hd xs)) \<and> ws_Digest (Workspace d) = ws_Digest (Workspace (snd (hd xs)))) ds"
    unfolding list_all_iff ds
  proof
    fix d assume "d \<in> set (map snd xs)"
    then obtain x where x: "x \<in> set xs" "d = snd x" by auto
    show "map w_ID (Mutants d) = map w_ID ?rows \<and> map rj_ID (Rejected d) = map rj_ID (Rejected (snd (hd xs)))
      \<and> ToolVersion d = ToolVersion (snd (hd xs)) \<and> ws_Digest (Workspace d) = ws_Digest (Workspace (snd (hd xs)))"
      using same [OF x(1)] unfolding ids same_catalog_iff x(2) same_run_def by (simp add: case_prod_beta)
  qed
  moreover have "list_all (\<lambda>(i, w). case owner_rows ds i w of
            [own] \<Rightarrow> w = strip_row own \<and> \<not> disclaimed own
              \<and> length (filter (\<lambda>d. disclaimed (Mutants d ! i)) ds) = length ds - 1
          | _ \<Rightarrow> False) (enumerate 0 ?rows)"
    using row unfolding list_all_length by (simp add: nth_enumerate_eq)
  moreover have "MergeOf m = Some (int (length ds))" using n1 len by (simp add: m' ds)
  ultimately show ?thesis
    using t unfolding merged_from_def m' by (simp add: report_tally_def summary_of_def)
qed

text \<open>
  C11. In a merged document every mutant has exactly one owner among the documents merged, all
  others disclaim it, and its row is the owner's row less what belongs to one process run; the
  shards are a complete set, as many as the document says, of one catalogue, one version and one
  workspace, and the counts of the summary are those of the merged rows.
\<close>

theorem merge_rows_owned:
  "(case merge_shards runID (map Some ds) of Inl _ \<Rightarrow> True | Inr m \<Rightarrow> merged_from ds m)"
  using merge_rows by (auto split: sum.splits)

section \<open>The coverage and cache blocks of merged rows\<close>

lemma mode_place_simps [simp]:
  "mode_place CoverageOff = 0" "mode_place CoveragePackage = 1" "mode_place CoverageTest = 2"
  by (simp_all add: mode_place_def coverage_modes_def coverage_names enumerate_eq_zip)

lemma mode_distinct:
  "CoverageOff \<noteq> CoveragePackage" "CoverageOff \<noteq> CoverageTest"
  by (simp_all add: coverage_names)

lemma narrowed_place: "coverage_mode_valid m \<Longrightarrow> narrowed m \<longleftrightarrow> mode_place m > 0"
  by (auto simp: coverage_mode_valid_def coverage_modes_def narrowed_def mode_distinct)

text \<open>The finest mode of the documents, and numbers that are not negative.\<close>

lemma finest_mode:
  assumes "\<forall>r \<in> set rs. coverage_mode_valid (cov_Mode (CoverageOf r))" and "coverage_mode_valid mode0"
    and "0 \<le> b0" and "0 \<le> t0"
    and "foldl (\<lambda>(mode, binaries, tests) r.
            (if finer (cov_Mode (CoverageOf r)) mode then cov_Mode (CoverageOf r) else mode,
             max_opt binaries (cov_Binaries (CoverageOf r)), max_opt tests (cov_Tests (CoverageOf r))))
          (mode0, b0, t0) rs = (mode, b, t)"
  shows "coverage_mode_valid mode \<and> 0 \<le> b \<and> 0 \<le> t \<and> mode_place mode0 \<le> mode_place mode
    \<and> (\<forall>r \<in> set rs. mode_place (cov_Mode (CoverageOf r)) \<le> mode_place mode)"
  using assms
proof (induction rs arbitrary: mode0 b0 t0)
  case Nil
  then show ?case by auto
next
  case (Cons r rs)
  define m1 where "m1 = (if finer (cov_Mode (CoverageOf r)) mode0 then cov_Mode (CoverageOf r) else mode0)"
  have b1: "0 \<le> max_opt b0 (cov_Binaries (CoverageOf r))" and t1: "0 \<le> max_opt t0 (cov_Tests (CoverageOf r))"
    using Cons.prems(3,4) by (auto simp: max_opt_def split: option.splits)
  have m1: "coverage_mode_valid m1" "mode_place mode0 \<le> mode_place m1" "mode_place (cov_Mode (CoverageOf r)) \<le> mode_place m1"
    using Cons.prems(1,2) by (auto simp: m1_def finer_def)
  have "coverage_mode_valid mode \<and> 0 \<le> b \<and> 0 \<le> t \<and> mode_place m1 \<le> mode_place mode
    \<and> (\<forall>r \<in> set rs. mode_place (cov_Mode (CoverageOf r)) \<le> mode_place mode)"
    using Cons.prems(1,5) m1(1) b1 t1 by (intro Cons.IH) (simp_all add: m1_def)
  with m1 show ?case by auto
qed

lemma row_ok_finer:
  assumes "row_ok a c w" and "coverage_mode_valid a" and "coverage_mode_valid b"
    and "mode_place a \<le> mode_place b" and "c = CacheModeOn \<Longrightarrow> d = CacheModeOn"
  shows "check_coverage_facts b (strip_row w) = None" and "check_unobserved (strip_row w) = None"
    and "w_Uncovered w \<Longrightarrow> narrowed b \<and> w_Outcome w = RowSurvived \<and> w_Attempts w = 0"
    and "w_Cached w \<Longrightarrow> d = CacheModeOn \<and> \<not> w_Uncovered w \<and> reusable (w_Outcome w)"
proof -
  have test: "a = CoverageTest \<Longrightarrow> b = CoverageTest"
    using assms(2-4) by (auto simp: coverage_mode_valid_def coverage_modes_def)
  show "check_coverage_facts b (strip_row w) = None"
    using assms(1) test by (auto simp: check_coverage_facts_def row_ok_def split: if_splits)
  show "check_unobserved (strip_row w) = None"
    using assms(1) by (auto simp: check_unobserved_def row_ok_def split: if_splits)
  show "narrowed b \<and> w_Outcome w = RowSurvived \<and> w_Attempts w = 0" if "w_Uncovered w"
    using assms(1-4) that by (auto simp: row_ok_def narrowed_place)
  show "d = CacheModeOn \<and> \<not> w_Uncovered w \<and> reusable (w_Outcome w)" if "w_Cached w"
    using assms(1,5) that by (auto simp: row_ok_def split: if_splits)
qed

lemma count_uncovered_ok:
  "\<forall>w \<in> set rows. check_coverage_facts mode w = None
      \<and> (w_Uncovered w \<longrightarrow> narrowed mode \<and> w_Outcome w = RowSurvived \<and> w_Attempts w = 0) \<Longrightarrow>
   \<exists>k. count_uncovered mode rows n = Inr k"
  by (induction rows arbitrary: n) auto

lemma count_hits_ok:
  "\<forall>w \<in> set rows. w_Cached w \<longrightarrow> mode = CacheModeOn \<and> \<not> w_Uncovered w \<and> reusable (w_Outcome w) \<Longrightarrow>
   \<exists>k. count_hits mode rows n = Inr k"
  by (induction rows arbitrary: n) auto

lemma coverage_block_ok:
  assumes "coverage_mode_valid mode" and "0 \<le> b" and "0 \<le> t"
    and "\<forall>w \<in> set rows. check_coverage_facts mode w = None \<and> check_unobserved w = None
      \<and> (w_Uncovered w \<longrightarrow> narrowed mode \<and> w_Outcome w = RowSurvived \<and> w_Attempts w = 0)"
  shows "\<exists>cov. coverage_block mode b t rows = Inr cov"
proof -
  have m: "(if mode = [] then CoverageOff else mode) = mode"
    using assms(1) by (auto simp: coverage_mode_valid_def coverage_modes_def coverage_names)
  obtain k where "count_uncovered mode rows 0 = Inr k" using count_uncovered_ok assms(4) by blast
  moreover have "first_unobserved rows = None" using assms(4) by (simp add: first_unobserved_None)
  ultimately show ?thesis using assms(1-3) unfolding coverage_block_def m by (simp add: Let_def)
qed

lemma merged_span_ok:
  "\<forall>r \<in> set rs. parse_rfc3339 (StartedAt r) \<noteq> None \<and> parse_rfc3339 (FinishedAt r) \<noteq> None \<Longrightarrow>
     \<exists>between. merged_span s f rs = Inr between"
  by (induction rs arbitrary: s f) auto

lemma foldl_wrap:
  assumes "\<forall>x \<in> set xs. 0 \<le> f x" and "0 \<le> n" and "n + sum_list (map f xs) < 2 ^ 63"
  shows "foldl (\<lambda>n x. wrap64 (n + f x)) n xs = n + sum_list (map f xs)"
  using assms
proof (induction xs arbitrary: n)
  case (Cons x xs)
  have "0 \<le> sum_list (map f xs)" using Cons.prems(1) by (intro sum_list_nonneg) auto
  then have "int64_ok (n + f x)"
    using Cons.prems by (simp add: int64_ok_def min_int_def max_int_def)
  with Cons show ?case by (simp add: add.assoc)
qed simp

lemma merged_cache_ok:
  assumes docs: "\<forall>r \<in> set rs. document_ok r" and small: "sum_list (map (\<lambda>r. cf_Misses (CacheOf r)) rs) < 2 ^ 63"
    and rows: "\<forall>w \<in> set rows. w_Cached w \<longrightarrow> list_ex (\<lambda>r. cf_Mode (CacheOf r) = CacheModeOn) rs
      \<and> \<not> w_Uncovered w \<and> reusable (w_Outcome w)"
  shows "\<exists>cache. merged_cache rs rows = Inr cache"
proof -
  define mode where "mode = (if list_ex (\<lambda>r. cf_Mode (CacheOf r) = CacheModeOn) rs then CacheModeOn else CacheModeOff)"
  have mode: "(if mode = [] then CacheModeOff else mode) = mode" "cache_mode_valid mode"
    by (auto simp: mode_def cache_mode_valid_def cache_modes_def cache_names)
  have bounds: "0 \<le> cf_Writes (CacheOf r)" "cf_Writes (CacheOf r) \<le> cf_Misses (CacheOf r)" if "r \<in> set rs" for r
    using docs that by (auto simp: document_ok_def)
  have nonneg: "\<forall>r \<in> set rs. 0 \<le> cf_Misses (CacheOf r)" using bounds by (metis order_trans)
  have le: "sum_list (map (\<lambda>r. cf_Writes (CacheOf r)) rs) \<le> sum_list (map (\<lambda>r. cf_Misses (CacheOf r)) rs)"
    using bounds by (intro sum_list_mono) auto
  have m: "foldl (\<lambda>n r. wrap64 (n + cf_Misses (CacheOf r))) 0 rs = sum_list (map (\<lambda>r. cf_Misses (CacheOf r)) rs)"
    using foldl_wrap [of rs "\<lambda>r. cf_Misses (CacheOf r)" 0] nonneg small by simp
  have w: "foldl (\<lambda>n r. wrap64 (n + cf_Writes (CacheOf r))) 0 rs = sum_list (map (\<lambda>r. cf_Writes (CacheOf r)) rs)"
    using foldl_wrap [of rs "\<lambda>r. cf_Writes (CacheOf r)" 0] bounds small le by simp
  have pos: "0 \<le> sum_list (map (\<lambda>r. cf_Writes (CacheOf r)) rs)" using bounds by (intro sum_list_nonneg) auto
  have off: "sum_list (map (\<lambda>r. cf_Misses (CacheOf r)) rs) = 0" if "mode = CacheModeOff"
  proof -
    have none: "\<not> list_ex (\<lambda>r. cf_Mode (CacheOf r) = CacheModeOn) rs"
      using that by (auto simp: mode_def cache_names split: if_splits)
    have "cf_Misses (CacheOf r) = 0" if r: "r \<in> set rs" for r
    proof -
      have "cache_mode_valid (cf_Mode (CacheOf r))" "cf_Mode (CacheOf r) \<noteq> CacheModeOn"
        using docs r none by (auto simp: document_ok_def list_ex_iff)
      then have "cf_Mode (CacheOf r) = CacheModeOff" by (auto simp: cache_mode_valid_def cache_modes_def)
      then show ?thesis using docs r by (auto simp: document_ok_def)
    qed
    then have "map (\<lambda>r. cf_Misses (CacheOf r)) rs = map (\<lambda>r. 0) rs" by simp
    then show ?thesis by (simp only: sum_list_0)
  qed
  have "\<exists>k. count_hits mode rows 0 = Inr k"
    using rows by (intro count_hits_ok) (auto simp: mode_def)
  then obtain k where k: "count_hits mode rows 0 = Inr k" by blast
  show ?thesis
    unfolding merged_cache_def mode_def [symmetric] cache_block_def m w Let_def mode(1)
    using k pos le off mode(2) by auto
qed

lemma merged_coverage_ok:
  assumes docs: "\<forall>r \<in> set rs. document_ok r"
    and rows: "\<And>mode. coverage_mode_valid mode \<Longrightarrow>
      \<forall>r \<in> set rs. mode_place (cov_Mode (CoverageOf r)) \<le> mode_place mode \<Longrightarrow>
      \<forall>w \<in> set rows. check_coverage_facts mode w = None \<and> check_unobserved w = None
        \<and> (w_Uncovered w \<longrightarrow> narrowed mode \<and> w_Outcome w = RowSurvived \<and> w_Attempts w = 0)"
  shows "\<exists>cov. merged_coverage rs rows = Inr cov"
proof -
  obtain mode b t where f: "foldl (\<lambda>(mode, binaries, tests) r.
            (if finer (cov_Mode (CoverageOf r)) mode then cov_Mode (CoverageOf r) else mode,
             max_opt binaries (cov_Binaries (CoverageOf r)), max_opt tests (cov_Tests (CoverageOf r))))
          (CoverageOff, 0, 0) rs = (mode, b, t)"
    using prod_cases3 by blast
  have "\<forall>r \<in> set rs. coverage_mode_valid (cov_Mode (CoverageOf r))" using docs by (simp add: document_ok_def)
  moreover have "coverage_mode_valid CoverageOff" by (simp add: coverage_mode_valid_def coverage_modes_def)
  ultimately have m: "coverage_mode_valid mode" "0 \<le> b" "0 \<le> t"
    "\<forall>r \<in> set rs. mode_place (cov_Mode (CoverageOf r)) \<le> mode_place mode"
    using finest_mode [OF _ _ _ _ f] by auto
  show ?thesis
    unfolding merged_coverage_def f Let_def prod.case
    by (rule coverage_block_ok [OF m(1-3) rows [OF m(1,4)]])
qed

section \<open>A run in shards\<close>

text \<open>
  The result a run records for a mutant that another shard owns, and the run of shard \<open>k\<close> of \<open>n\<close>:
  the same module, catalogue, rejections and settings, and the results of the mutants it owns.
  Times, durations of the controls, warnings and the cache may differ from run to run.
\<close>

definition elsewhere :: "string \<Rightarrow> measured" where
  "elsewhere i =
     \<lparr>mo_ID = i, mo_Outcome = OutcomeNotRun, mo_NotRunReason = NotRunOtherShard, mo_Duration = 0,
      mo_KilledBy = [], mo_Attempts = 0, mo_OutputTail = [], mo_MemoryExceeded = False,
      mo_PeakMemory = 0, mo_Diverged = False, mo_Executions = [], mo_CoveringPackages = [],
      mo_CoveringTests = [], mo_Uncovered = False, mo_Unobserved = False, mo_Cached = False\<rparr>"

definition share_result :: "int \<Rightarrow> int \<Rightarrow> measured \<Rightarrow> measured" where
  "share_result n k r = (if shard_index (mo_ID r) n = k then r else elsewhere (mo_ID r))"

definition in_calendar :: "instant \<Rightarrow> bool" where
  "in_calendar t \<longleftrightarrow> year_start 0 * 86400 \<le> t div 1000000000 \<and> t div 1000000000 < year_start 10000 * 86400"

definition shard_run :: "report_options \<Rightarrow> int \<Rightarrow> int \<Rightarrow> report_options \<Rightarrow> bool" where
  "shard_run whole n k opts \<longleftrightarrow>
     op_ToolVersion opts = op_ToolVersion whole \<and> op_Config opts = op_Config whole
     \<and> op_ChangedRef opts = op_ChangedRef whole \<and> op_Module opts = op_Module whole
     \<and> op_ModulePath opts = op_ModulePath whole \<and> op_WorkspaceDigest opts = op_WorkspaceDigest whole
     \<and> op_Catalog opts = op_Catalog whole \<and> op_Located opts = op_Located whole
     \<and> op_Rejections opts = op_Rejections whole
     \<and> op_Shard opts = Some \<lparr>sh_Index = k, sh_Total = n, sh_Assignment = ShardAssignment\<rparr>
     \<and> op_Results opts = map (share_result n k) (op_Results whole)
     \<and> in_calendar (op_Started opts) \<and> in_calendar (op_Finished opts)"

definition share_rows :: "int \<Rightarrow> int \<Rightarrow> row \<Rightarrow> row \<Rightarrow> bool" where
  "share_rows n k w x \<longleftrightarrow>
     w_ID x = w_ID w \<and> \<not> disclaimed w \<and> (if shard_index (w_ID w) n = k then x = w else disclaimed x)"

definition share_of :: "report \<Rightarrow> int \<Rightarrow> int \<Rightarrow> report \<Rightarrow> bool" where
  "share_of w n k d \<longleftrightarrow>
     ShardOf d = Some \<lparr>sh_Index = k, sh_Total = n, sh_Assignment = ShardAssignment\<rparr> \<and> MergeOf d = None
     \<and> ToolVersion d = ToolVersion w \<and> ws_Digest (Workspace d) = ws_Digest (Workspace w)
     \<and> ws_ModulePath (Workspace d) = ws_ModulePath (Workspace w)
     \<and> sel_ChangedRef (Selection d) = sel_ChangedRef (Selection w) \<and> sel_Mode (Selection d) = ModeShard
     \<and> Rejected d = Rejected w \<and> list_all2 (share_rows n k) (Mutants w) (Mutants d)
     \<and> ledger_of (Expectations d) = ledger_of (Expectations w)
     \<and> policy_of (sm_Policy (Summary d)) = policy_of (sm_Policy (Summary w)) \<and> document_ok d
     \<and> parse_rfc3339 (StartedAt d) \<noteq> None \<and> parse_rfc3339 (FinishedAt d) \<noteq> None"

lemma share_rows_of_results:
  assumes w: "measured_row m place result = Inr w" and x: "measured_row m place (share_result n k result) = Inr x"
    and "mo_ID result = ID m" and "mo_NotRunReason result \<noteq> NotRunOtherShard"
  shows "share_rows n k w x"
proof -
  have ids: "w_ID w = ID m" "w_ID x = ID m"
    using measured_row_Inr(2) [OF w] measured_row_Inr(2) [OF x] by auto
  have "\<not> disclaimed w"
    using measured_row_Inr(4) [OF w] assms(4)
    by (auto simp: disclaimed_def not_run_reason_of_def text_opt_def Let_def split: if_splits)
  moreover have "x = w" if "shard_index (ID m) n = k"
    using that w x assms(3) by (simp add: share_result_def)
  moreover have "disclaimed x" if other: "shard_index (ID m) n \<noteq> k"
  proof -
    have r: "share_result n k result = elsewhere (ID m)" using other assms(3) by (simp add: share_result_def)
    have "w_Outcome x = RowNotRun"
      using measured_row_Inr(3) [OF x] by (simp add: r elsewhere_def row_outcome_of_names)
    then show ?thesis
      using measured_row_Inr(4) [OF x]
      by (simp add: disclaimed_def r elsewhere_def not_run_reason_of_def text_opt_def reason_names
          Let_def split: if_split_asm)
  qed
  ultimately show ?thesis using ids by (simp add: share_rows_def)
qed

lemma list_all2_related:
  "list_all2 P ms xs \<Longrightarrow> list_all2 Q ms ys \<Longrightarrow> (\<And>m x y. P m x \<Longrightarrow> Q m y \<Longrightarrow> R x y) \<Longrightarrow> list_all2 R xs ys"
  by (auto simp: list_all2_conv_all_nth)

lemma list_all2_unique:
  "list_all2 P ms xs \<Longrightarrow> list_all2 Q ms ys \<Longrightarrow> (\<And>m x y. P m x \<Longrightarrow> Q m y \<Longrightarrow> x = y) \<Longrightarrow> xs = ys"
  by (intro nth_equalityI) (auto simp: list_all2_conv_all_nth)

lemma indexed_share:
  assumes "indexed whole results rejections" and "indexed opts results' rejections'"
    and "op_Results opts = map (share_result n k) (op_Results whole)" and "op_Rejections opts = op_Rejections whole"
  shows "rejections' = rejections" and "results' i = map_option (share_result n k) (results i)"
proof -
  have id: "mo_ID (share_result n k r) = mo_ID r" for r by (simp add: share_result_def elsewhere_def)
  show "rejections' = rejections"
  proof (rule ext)
    fix i
    have "rejections' i = Some r \<longleftrightarrow> rejections i = Some r" for r
      using assms(1,2,4) unfolding indexed_def by metis
    then show "rejections' i = rejections i" by (metis not_Some_eq)
  qed
  have "results' i = Some x \<longleftrightarrow> (\<exists>r. results i = Some r \<and> x = share_result n k r)" for x
    using assms(1,2,3) id unfolding indexed_def by (auto simp: image_iff)
  then show "results' i = map_option (share_result n k) (results i)"
    by (cases "results i"; cases "results' i") auto
qed

lemma partition_share:
  assumes w: "partition_report whole c results rejections = Inr (rows, rejected)"
    and d: "partition_report opts c results' rejections = Inr (rows', rejected')"
    and same: "op_Module opts = op_Module whole" "op_Located opts = op_Located whole"
    and rs: "\<And>i. results' i = map_option (share_result n k) (results i)"
    and idx: "indexed whole results rejections"
    and free: "\<forall>r \<in> set (op_Results whole). mo_NotRunReason r \<noteq> NotRunOtherShard"
  shows "list_all2 (share_rows n k) rows rows'" and "rejected' = rejected"
proof -
  let ?places = "locate (op_Located whole)"
  have p: "partition_rows (op_Module whole) ?places results rejections (mutants c) = Inr (rows, rejected)"
    "partition_rows (op_Module whole) ?places results' rejections (mutants c) = Inr (rows', rejected')"
    using w d same by (auto simp: partition_report_def split: sum.splits prod.splits option.splits)
  note a = partition_rows_Inr [OF p(1)] and b = partition_rows_Inr [OF p(2)]
  have row: "share_rows n k x y"
    if x: "\<exists>place result. ?places (key_of_candidate (m_candidate m)) = Some place \<and> results (ID m) = Some result
          \<and> measured_row m place result = Inr x"
      and y: "\<exists>place result. ?places (key_of_candidate (m_candidate m)) = Some place \<and> results' (ID m) = Some result
          \<and> measured_row m place result = Inr y" for m x y
  proof -
    obtain place result where r: "results (ID m) = Some result" "measured_row m place result = Inr x"
      "?places (key_of_candidate (m_candidate m)) = Some place" using x by blast
    have y': "measured_row m place (share_result n k result) = Inr y"
      using y r rs [of "ID m"] by auto
    have "result \<in> set (op_Results whole)" "mo_ID result = ID m"
      using r(1) idx unfolding indexed_def by blast+
    then show ?thesis using share_rows_of_results [OF r(2) y'] free by blast
  qed
  show "list_all2 (share_rows n k) rows rows'"
    by (rule list_all2_related [OF conjunct1 [OF a] conjunct1 [OF b] row])
  show "rejected' = rejected"
    by (rule list_all2_unique [OF conjunct2 [OF b] conjunct2 [OF a]]) auto
qed

lemma ledger_of_evaluate [simp]: "ledger_of (evaluate ledger disp) = ledger"
  unfolding ledger_of_def evaluate_def by (simp add: comp_def map_idI)

lemma selection_ref:
  "selection_of opts candidates rejected = Inr sel \<Longrightarrow> sel_ChangedRef sel = text_opt (op_ChangedRef opts)"
  by (auto simp: selection_of_def Let_def split: if_splits)

lemma policy_of_summary [simp]: "policy_of (sm_Policy (summary_of t p infra expectations rows)) = p"
  by (simp add: policy_of_def summary_of_def)

lemma share_of_run:
  assumes w: "build_report host whole = Inr w" and d: "build_report host' opts = Inr d"
    and run: "shard_run whole n k opts"
    and free: "\<forall>r \<in> set (op_Results whole). mo_NotRunReason r \<noteq> NotRunOtherShard"
  shows "share_of w n k d"
proof -
  obtain c results rejections p where c: "op_Catalog whole = Some c" and bw: "built_from whole c results rejections p"
    and we: "w = assemble host whole p" and iw: "indexed whole results rejections"
    using build_report_parts [OF w] by metis
  obtain c' results' rejections' q where c': "op_Catalog opts = Some c'" and bd: "built_from opts c' results' rejections' q"
    and de: "d = assemble host' opts q" and id: "indexed opts results' rejections'"
    using build_report_parts [OF d] by metis
  note same = run [unfolded shard_run_def]
  have cc: "c' = c" using same c c' by simp
  note idx = indexed_share [OF iw id] 
  have rej: "rejections' = rejections" and rs: "\<And>i. results' i = map_option (share_result n k) (results i)"
    using idx same by blast+
  have pw: "partition_report whole c results rejections = Inr (pt_Rows p, pt_Rejected p)"
    and pd: "partition_report opts c results' rejections = Inr (pt_Rows q, pt_Rejected q)"
    using bw bd unfolding built_from_def cc rej by blast+
  have rows: "list_all2 (share_rows n k) (pt_Rows p) (pt_Rows q)" and rj: "pt_Rejected q = pt_Rejected p"
    using partition_share [OF pw pd _ _ rs iw free] same by simp_all
  have sw: "selection_of whole (int (length (pt_Rows p)) + int (length (pt_Rejected p))) (int (length (pt_Rejected p))) = Inr (pt_Selection p)"
    and sd: "selection_of opts (int (length (pt_Rows q)) + int (length (pt_Rejected q))) (int (length (pt_Rejected q))) = Inr (pt_Selection q)"
    and sh: "shard_of opts = Inr (pt_Shard q)"
    using bw bd unfolding built_from_def by blast+
  have sh': "pt_Shard q = Some \<lparr>sh_Index = k, sh_Total = n, sh_Assignment = ShardAssignment\<rparr>"
    using sh same by (auto simp: shard_of_def Let_def ShardAssignment_def split: if_splits)
  have ref: "sel_ChangedRef (pt_Selection q) = sel_ChangedRef (pt_Selection p)"
    using selection_ref [OF sw] selection_ref [OF sd] same by simp
  have mode: "sel_Mode (pt_Selection q) = ModeShard"
    using selection_of_Inr(5) [OF sd sh] by (simp add: sh')
  have led: "ledger_of (pt_Expectations q) = ledger_of (pt_Expectations p)"
    using bw bd same unfolding built_from_def by simp
  have "parse_rfc3339 (StartedAt d) \<noteq> None" "parse_rfc3339 (FinishedAt d) \<noteq> None"
    using same parse_format unfolding de assemble_simps in_calendar_def by blast+
  then show ?thesis
    using build_document [OF d] rows rj sh' ref mode led same unfolding share_of_def we de by simp
qed

lemma same_rows:
  assumes "map (\<lambda>w. (w_ID w, w_Outcome w)) rows = map (\<lambda>w. (w_ID w, w_Outcome w)) rows'"
  shows "dispositions rows rejected = dispositions rows' rejected"
    and "expectation_failure xs rows = expectation_failure xs rows'"
    and "tally_rows expected t rows = tally_rows expected t rows'"
    and "summary_of u p infra xs rows = summary_of u p infra xs rows'"
proof -
  have f: "foldl (\<lambda>d m. d(w_ID m \<mapsto> g (w_Outcome m))) d rows = foldl (\<lambda>d m. d(w_ID m \<mapsto> g (w_Outcome m))) d rows'"
    for g :: "row_outcome \<Rightarrow> 'a" and d
  proof -
    have "foldl (\<lambda>d m. d(w_ID m \<mapsto> g (w_Outcome m))) d zs
        = foldl (\<lambda>d (i, out). d(i \<mapsto> g out)) d (map (\<lambda>w. (w_ID w, w_Outcome w)) zs)" for zs
      by (simp add: foldl_map)
    from this [of rows] this [of rows'] show ?thesis unfolding assms by (rule trans [OF _ sym])
  qed
  show "dispositions rows rejected = dispositions rows' rejected"
    unfolding dispositions_def f [of "\<lambda>out. \<lparr>Present = True, IsRejected = False, DispOutcome = out\<rparr>"] ..
  show e: "expectation_failure xs rows = expectation_failure xs rows'" for xs
    unfolding expectation_failure_def index_rows_def f [of "\<lambda>out. out"] ..
  show "tally_rows expected t rows = tally_rows expected t rows'"
    using assms
  proof (induction rows arbitrary: rows' t)
    case (Cons w rows)
    then obtain w' rest where "rows' = w' # rest" "w_ID w' = w_ID w" "w_Outcome w' = w_Outcome w"
      "map (\<lambda>w. (w_ID w, w_Outcome w)) rows = map (\<lambda>w. (w_ID w, w_Outcome w)) rest"
      by (cases rows') auto
    with Cons.IH show ?case by (auto split: sum.splits)
  qed simp
  show "summary_of u p infra xs rows = summary_of u p infra xs rows'"
    unfolding summary_of_def e ..
qed

lemma share_of_catalog:
  "share_of w n k d \<Longrightarrow> map w_ID (Mutants d) = map w_ID (Mutants w)"
  unfolding share_of_def share_rows_def list_all2_conv_all_nth by (intro nth_equalityI) auto

lemma share_of_simps:
  assumes "share_of w n k d"
  shows "ShardOf d = Some \<lparr>sh_Index = k, sh_Total = n, sh_Assignment = ShardAssignment\<rparr>" "MergeOf d = None"
    "Rejected d = Rejected w" "document_ok d" "ledger_of (Expectations d) = ledger_of (Expectations w)"
    "policy_of (sm_Policy (Summary d)) = policy_of (sm_Policy (Summary w))"
    "parse_rfc3339 (StartedAt d) \<noteq> None \<and> parse_rfc3339 (FinishedAt d) \<noteq> None"
    "list_all2 (share_rows n k) (Mutants w) (Mutants d)"
  using assms unfolding share_of_def by simp_all

lemma share_of_owned:
  assumes s: "share_of w n k d" and x: "x \<in> set (Mutants d)"
  shows "shard_index (w_ID x) n = k \<longleftrightarrow> \<not> disclaimed x"
proof -
  obtain i where i: "i < length (Mutants d)" "x = Mutants d ! i" using x by (metis in_set_conv_nth)
  then have "share_rows n k (Mutants w ! i) x"
    using share_of_simps(8) [OF s] by (simp add: list_all2_conv_all_nth)
  then show ?thesis by (auto simp: share_rows_def split: if_splits)
qed

lemma shares_same:
  assumes "share_of w n k d" and "share_of w n k' d'"
  shows "same_run (\<lparr>sh_Index = k, sh_Total = n, sh_Assignment = ShardAssignment\<rparr>, d)
           (\<lparr>sh_Index = k', sh_Total = n, sh_Assignment = ShardAssignment\<rparr>, d')"
    and "same_catalog d d'"
  using assms share_of_catalog [OF assms(1)] share_of_catalog [OF assms(2)]
  by (simp_all add: share_of_def same_run_def same_catalog_iff)

definition with_shards :: "int \<Rightarrow> int list \<Rightarrow> report list \<Rightarrow> (shard \<times> report) list" where
  "with_shards n ks ds =
     map (\<lambda>(k, d). (\<lparr>sh_Index = k, sh_Total = n, sh_Assignment = ShardAssignment\<rparr>, d)) (zip ks ds)"

lemma with_shards_simps:
  assumes "length ks = length ds"
  shows "map snd (with_shards n ks ds) = ds" and "indices (with_shards n ks ds) = ks"
    and "length (with_shards n ks ds) = length ds"
  using assms by (simp_all add: with_shards_def comp_def case_prod_beta)

lemma with_shards_mem:
  assumes "list_all2 (share_of w n) ks ds"
  shows "(s, d) \<in> set (with_shards n ks ds) \<Longrightarrow>
    s = \<lparr>sh_Index = sh_Index s, sh_Total = n, sh_Assignment = ShardAssignment\<rparr> \<and> share_of w n (sh_Index s) d"
  using assms by (auto simp: with_shards_def list_all2_iff)

lemma merged_rows_shares:
  assumes l: "list_all2 (share_of w n) ks ds" and ks: "distinct ks" "set ks = {1 .. n}" "1 \<le> n" and d: "d \<in> set ds"
  shows "merged_rows (indexed_documents (with_shards n ks ds)) n (Mutants d) = map strip_row (Mutants w)"
proof (rule nth_equalityI)
  let ?xs = "with_shards n ks ds"
  have ds: "length ks = length ds" using l by (rule list_all2_lengthD)
  obtain k where "share_of w n k d" using d l by (meson list_all2_snd)
  then have ids: "map w_ID (Mutants d) = map w_ID (Mutants w)" by (rule share_of_catalog)
  then have len: "length (Mutants d) = length (Mutants w)" by (metis length_map)
  show "length (merged_rows (indexed_documents ?xs) n (Mutants d)) = length (map strip_row (Mutants w))"
    by (simp add: merged_rows_nth len)
  fix i assume "i < length (merged_rows (indexed_documents ?xs) n (Mutants d))"
  then have i: "i < length (Mutants d)" "i < length (Mutants w)" by (simp_all add: merged_rows_nth len)
  define k where "k = shard_index (w_ID (Mutants w ! i)) n"
  have idi: "w_ID (Mutants d ! i) = w_ID (Mutants w ! i)" using ids i by (metis nth_map)
  have "k \<in> set (indices ?xs)" unfolding with_shards_simps(2) [OF ds] ks k_def
    using shard_index_range [OF ks(3)] by simp
  then obtain e where e: "indexed_documents ?xs k = Some e" by (metis indexed_documents_dom domD)
  then obtain s where "(s, e) \<in> set ?xs" "sh_Index s = k"
    using indexed_documents_Some [of ?xs] ks(1) unfolding with_shards_simps(2) [OF ds] by blast
  then have "list_all2 (share_rows n k) (Mutants w) (Mutants e)"
    using with_shards_mem [OF l] share_of_simps(8) by metis
  then have "share_rows n k (Mutants w ! i) (Mutants e ! i)"
    using i(2) by (simp add: list_all2_conv_all_nth)
  then have "Mutants e ! i = Mutants w ! i" by (simp add: share_rows_def k_def)
  then show "merged_rows (indexed_documents ?xs) n (Mutants d) ! i = map strip_row (Mutants w) ! i"
    using i e by (simp add: merged_rows_nth idi k_def)
qed

lemma merged_facts_shares:
  assumes l: "list_all2 (share_of w n) ks ds" and ks: "set ks = {1 .. n}" "1 \<le> n"
    and small: "sum_list (map (\<lambda>d. cf_Misses (CacheOf d)) ds) < 2 ^ 63"
  shows "\<exists>cov. merged_coverage ds (map strip_row (Mutants w)) = Inr cov"
    and "\<exists>cache. merged_cache ds (map strip_row (Mutants w)) = Inr cache"
proof -
  have docs: "\<forall>d \<in> set ds. document_ok d" using l by (meson list_all2_snd share_of_simps(4))
  have row: "\<exists>d \<in> set ds. row_ok (cov_Mode (CoverageOf d)) (cf_Mode (CacheOf d)) v" if v: "v \<in> set (Mutants w)" for v
  proof -
    obtain i where i: "i < length (Mutants w)" "v = Mutants w ! i" using v by (metis in_set_conv_nth)
    have "shard_index (w_ID v) n \<in> set ks" unfolding ks using shard_index_range [OF ks(2)] by simp
    then obtain j where j: "j < length ks" "ks ! j = shard_index (w_ID v) n" by (metis in_set_conv_nth)
    then have s: "share_of w n (shard_index (w_ID v) n) (ds ! j)" and d: "ds ! j \<in> set ds"
      using l by (auto simp: list_all2_conv_all_nth)
    have "share_rows n (shard_index (w_ID v) n) v (Mutants (ds ! j) ! i)" and "i < length (Mutants (ds ! j))"
      using share_of_simps(8) [OF s] i by (simp_all add: list_all2_conv_all_nth)
    then have "v \<in> set (Mutants (ds ! j))" by (auto simp: share_rows_def dest: nth_mem)
    then show ?thesis using docs d unfolding document_ok_def list_all_iff by blast
  qed
  have valid: "coverage_mode_valid (cov_Mode (CoverageOf d))" if "d \<in> set ds" for d
    using docs that by (simp add: document_ok_def)
  show "\<exists>cov. merged_coverage ds (map strip_row (Mutants w)) = Inr cov"
  proof (rule merged_coverage_ok [OF docs])
    fix mode assume mode: "coverage_mode_valid mode" "\<forall>r \<in> set ds. mode_place (cov_Mode (CoverageOf r)) \<le> mode_place mode"
    have "check_coverage_facts mode (strip_row v) = None \<and> check_unobserved (strip_row v) = None
        \<and> (w_Uncovered v \<longrightarrow> narrowed mode \<and> w_Outcome v = RowSurvived \<and> w_Attempts v = 0)"
      if "v \<in> set (Mutants w)" for v
    proof -
      obtain d where d: "d \<in> set ds" "row_ok (cov_Mode (CoverageOf d)) (cf_Mode (CacheOf d)) v"
        using row [OF \<open>v \<in> set (Mutants w)\<close>] by blast
      then show ?thesis
        using row_ok_finer(1-3) [OF d(2) valid [OF d(1)] mode(1)] mode(2) by blast
    qed
    then show "\<forall>v \<in> set (map strip_row (Mutants w)). check_coverage_facts mode v = None \<and> check_unobserved v = None
        \<and> (w_Uncovered v \<longrightarrow> narrowed mode \<and> w_Outcome v = RowSurvived \<and> w_Attempts v = 0)"
      by simp
  qed
  have "list_ex (\<lambda>r. cf_Mode (CacheOf r) = CacheModeOn) ds \<and> \<not> w_Uncovered v \<and> reusable (w_Outcome v)"
    if "v \<in> set (Mutants w)" "w_Cached v" for v
  proof -
    obtain d where d: "d \<in> set ds" "row_ok (cov_Mode (CoverageOf d)) (cf_Mode (CacheOf d)) v"
      using row [OF \<open>v \<in> set (Mutants w)\<close>] by blast
    have "cf_Mode (CacheOf d) = CacheModeOn \<and> \<not> w_Uncovered v \<and> reusable (w_Outcome v)"
      using row_ok_finer(4) [OF d(2) valid [OF d(1)] valid [OF d(1)] order_refl _ that(2)] by blast
    then show ?thesis using d(1) by (auto simp: list_ex_iff)
  qed
  then show "\<exists>cache. merged_cache ds (map strip_row (Mutants w)) = Inr cache"
    by (intro merged_cache_ok [OF docs small]) simp
qed

lemma with_shards_accepted:
  assumes l: "list_all2 (share_of w n) ks ds" and ne: "ds \<noteq> []"
  shows "shard_documents (map Some ds) = Inr (with_shards n ks ds)"
    and "congruent (hd (with_shards n ks ds)) (tl (with_shards n ks ds)) = None"
    and "ownership (with_shards n ks ds) = None"
    and "sh_Total (fst (hd (with_shards n ks ds))) = n" and "snd (hd (with_shards n ks ds)) = hd ds"
proof -
  let ?xs = "with_shards n ks ds"
  have ds: "length ks = length ds" using l by (rule list_all2_lengthD)
  note mem = with_shards_mem [OF l]
  have snd: "map snd ?xs = ds" using with_shards_simps(1) [OF ds] .
  have "map (\<lambda>x. Some (snd x)) ?xs = map Some (map snd ?xs)" by simp
  then have "map Some ds = map (\<lambda>x. Some (snd x)) ?xs" unfolding snd by (rule sym)
  moreover have "\<forall>(s, r) \<in> set ?xs. ShardOf r = Some s \<and> MergeOf r = None"
    using mem share_of_simps(1,2) by fastforce
  ultimately show "shard_documents (map Some ds) = Inr ?xs" by (simp add: shard_documents_iff)
  have ne': "?xs \<noteq> []" using ne snd by auto
  have same: "same_run x y \<and> same_catalog (snd x) (snd y)" if "x \<in> set ?xs" "y \<in> set ?xs" for x y
    using mem [of "fst x" "snd x"] mem [of "fst y" "snd y"] that shares_same
    by (metis prod.collapse)
  have "hd ?xs \<in> set ?xs" and "\<forall>x \<in> set (tl ?xs). x \<in> set ?xs" using ne' by (auto dest: list.set_sel(2))
  then show "congruent (hd ?xs) (tl ?xs) = None" using same by (simp add: congruent_iff)
  have "list_all (\<lambda>(s, r). list_all (\<lambda>m. shard_owns s (w_ID m) \<longleftrightarrow> \<not> disclaimed m) (Mutants r)) ?xs"
    unfolding list_all_iff
  proof
    fix x assume "x \<in> set ?xs"
    then have "(fst x, snd x) \<in> set ?xs" by simp
    note m = mem [OF this]
    have s: "sh_Total (fst x) = n" using m by (metis shard.select_convs(2))
    have r: "share_of w n (sh_Index (fst x)) (snd x)" using m by simp
    show "case x of (s, r) \<Rightarrow> \<forall>m \<in> set (Mutants r). shard_owns s (w_ID m) = (\<not> disclaimed m)"
      using share_of_owned [OF r] s by (simp add: shard_owns_def case_prod_beta)
  qed
  then show "ownership ?xs = None" by (simp add: ownership_def)
  show "sh_Total (fst (hd ?xs)) = n"
    using mem [of "fst (hd ?xs)" "snd (hd ?xs)"] \<open>hd ?xs \<in> set ?xs\<close> by (metis prod.collapse shard.select_convs(2))
  show "snd (hd ?xs) = hd ds" using ne' snd by (metis hd_map)
qed

lemma merge_shares:
  assumes l: "list_all2 (share_of w n) ks ds" and ks: "distinct ks" "set ks = {1 .. n}" "1 \<le> n"
    and small: "sum_list (map (\<lambda>d. cf_Misses (CacheOf d)) ds) < 2 ^ 63" and runID: "run_id_ok runID"
    and t: "report_tally w = Inr t" and sm: "Summary w = summary_of t p False (Expectations w) (Mutants w)"
    and ex: "Expectations w = evaluate ledger (dispositions (Mutants w) (Rejected w))"
  shows "\<exists>m. merge_shards runID (map Some ds) = Inr m \<and> Mutants m = map strip_row (Mutants w)
    \<and> Rejected m = Rejected w \<and> Expectations m = Expectations w \<and> Summary m = Summary w"
proof -
  let ?xs = "with_shards n ks ds" and ?rows = "map strip_row (Mutants w)"
  have ds: "length ks = length ds" using l by (rule list_all2_lengthD)
  have ne: "ds \<noteq> []" using ks ds by auto
  note acc = with_shards_accepted [OF l ne]
  have first: "hd ds \<in> set ds" using ne by simp
  then obtain k where hd: "share_of w n k (hd ds)" using l by (meson list_all2_snd)
  have complete: "complete_set ?xs n = Inr (indexed_documents ?xs)"
    using ks unfolding complete_set_exact with_shards_simps(2) [OF ds] by simp
  have rows: "merged_rows (indexed_documents ?xs) n (Mutants (hd ds)) = ?rows"
    by (rule merged_rows_shares [OF l ks first])
  have same: "map (\<lambda>w. (w_ID w, w_Outcome w)) ?rows = map (\<lambda>w. (w_ID w, w_Outcome w)) (Mutants w)" by simp
  have exps: "evaluate (ledger_of (Expectations (hd ds))) (dispositions ?rows (Rejected (hd ds))) = Expectations w"
    unfolding share_of_simps(3,5) [OF hd] same_rows(1) [OF same] by (simp add: ex)
  have tally: "tally_rows (fulfilled_ids (Expectations w)) empty_tally ?rows = Inr t"
    using t unfolding same_rows(3) [OF same] by (simp add: report_tally_def)
  have sum: "summary_of t (policy_of (sm_Policy (Summary (hd ds)))) False (Expectations w) ?rows = Summary w"
    unfolding share_of_simps(6) [OF hd] same_rows(4) [OF same] by (simp add: sm)
  have "\<forall>d \<in> set ds. parse_rfc3339 (StartedAt d) \<noteq> None \<and> parse_rfc3339 (FinishedAt d) \<noteq> None"
    using l by (meson list_all2_snd share_of_simps(7))
  then obtain between where "merged_span 0 0 ds = Inr between" using merged_span_ok by blast
  moreover obtain cov cache where "merged_coverage ds ?rows = Inr cov" "merged_cache ds ?rows = Inr cache"
    using merged_facts_shares [OF l ks(2,3) small] by blast
  ultimately have "merge_documents runID ?xs = Inr (merged_report runID ?xs (hd ds) n between cov cache ?rows
      (Expectations w) (Summary w))"
    unfolding merge_documents_Inr Let_def acc(4,5) with_shards_simps(1) [OF ds]
    using acc(2,3) runID complete rows exps tally sum by auto
  moreover have "merge_shards runID (map Some ds) = merge_documents runID ?xs"
    using ne by (simp add: merge_shards_def acc(1))
  ultimately show ?thesis using share_of_simps(3) [OF hd] by simp
qed

lemma cache_block_misses: "cache_block stated misses writes rows = Inr c \<Longrightarrow> cf_Misses c = misses"
  unfolding cache_block_def Let_def by (auto split: sum.splits if_splits)

lemma build_expectations:
  assumes "build_report host opts = Inr r"
  shows "Expectations r = evaluate (Expect (Mutation (op_Config opts))) (dispositions (Mutants r) (Rejected r))"
    and "cf_Misses (CacheOf r) = op_CacheMisses opts"
proof -
  obtain c results rejections p where b: "built_from opts c results rejections p" and r: "r = assemble host opts p"
    using build_report_parts [OF assms] by metis
  show "Expectations r = evaluate (Expect (Mutation (op_Config opts))) (dispositions (Mutants r) (Rejected r))"
    using b unfolding built_from_def r assemble_simps by blast
  have "cache_block (op_CacheMode opts) (op_CacheMisses opts) (op_CacheWrites opts) (pt_Rows p) = Inr (pt_Cache p)"
    using b unfolding built_from_def by blast
  then show "cf_Misses (CacheOf r) = op_CacheMisses opts" unfolding r assemble_simps by (rule cache_block_misses)
qed

text \<open>What the merged document has to agree on with the document of the whole run.\<close>

definition merged_as :: "report \<Rightarrow> report \<Rightarrow> bool" where
  "merged_as w m \<longleftrightarrow> Mutants m = map strip_row (Mutants w) \<and> Rejected m = Rejected w
     \<and> Expectations m = Expectations w \<and> Summary m = Summary w"

lemma merge_run_shards:
  assumes whole: "build_report host whole = Inr w" and infra: "\<not> op_InfrastructureError whole"
    and free: "\<forall>r \<in> set (op_Results whole). mo_NotRunReason r \<noteq> NotRunOtherShard"
    and ks: "distinct ks" "set ks = {1 .. n}" "1 \<le> n"
    and runs: "list_all2 (shard_run whole n) ks runs"
    and built: "list_all2 (\<lambda>opts d. build_report host opts = Inr d) runs ds"
    and small: "sum_list (map op_CacheMisses runs) < 2 ^ 63" and runID: "run_id_ok runID"
  shows "\<exists>m. merge_shards runID (map Some ds) = Inr m \<and> merged_as w m"
proof -
  have l: "list_all2 (share_of w n) ks ds"
    using runs built share_of_run [OF whole _ _ free] by (auto simp: list_all2_conv_all_nth)
  have c: "sum_list (map (\<lambda>d. cf_Misses (CacheOf d)) ds) < 2 ^ 63"
  proof -
    have "map (\<lambda>d. cf_Misses (CacheOf d)) ds = map op_CacheMisses runs"
      using built build_expectations(2) by (intro nth_equalityI) (auto simp: list_all2_conv_all_nth)
    then show ?thesis using small by simp
  qed
  obtain t where t: "report_tally w = Inr t"
    and s: "Summary w = summary_of t (Policy (op_Config whole)) False (Expectations w) (Mutants w)"
    using build_tally [OF whole] infra by auto
  show ?thesis
    unfolding merged_as_def by (rule merge_shares [OF l ks c runID t s build_expectations(1) [OF whole]])
qed

text \<open>
  C3. Sharding a run does not change its report. Take a run and, for each shard of a complete set,
  a run of the same module and settings that measured what the whole run measured for the mutants
  of that shard and left the others to the other shards. Then merging the documents of the shards,
  in any order, succeeds and gives the rows, rejections, expectations and summary (score and
  failed policy included) of the document of the whole run.
\<close>

theorem merge_of_shards:
  assumes whole: "build_report host whole = Inr w" and infra: "\<not> op_InfrastructureError whole"
    and free: "\<forall>r \<in> set (op_Results whole). mo_NotRunReason r \<noteq> NotRunOtherShard"
    and ks: "mset ks = mset [1 .. n]" "1 \<le> n"
    and runs: "list_all2 (shard_run whole n) ks runs"
    and built: "list_all2 (\<lambda>opts d. build_report host opts = Inr d) runs ds"
    and small: "sum_list (map op_CacheMisses runs) < 2 ^ 63" and runID: "run_id_ok runID"
  shows "case merge_shards runID (map Some ds) of
      Inl _ \<Rightarrow> False
    | Inr m \<Rightarrow> Mutants m = map strip_row (Mutants w) \<and> Rejected m = Rejected w
        \<and> Expectations m = Expectations w \<and> Summary m = Summary w"
proof -
  have "distinct ks" and "set ks = {1 .. n}"
    using ks mset_eq_imp_distinct_iff [OF ks(1)] mset_eq_setD [OF ks(1)] by simp_all
  from merge_run_shards [OF whole infra free this ks(2) runs built small runID] show ?thesis
    by (auto simp: merged_as_def)
qed

section \<open>A run in two shards\<close>

definition example_rule :: rule where
  "example_rule = \<lparr>Family = ''condition'', Name = ''negate'', Version = 1, Tier = TierBalanced\<rparr>"

definition example_candidate :: "string \<Rightarrow> candidate" where
  "example_candidate path =
     \<lparr>c_ModulePath = ''m'', c_Path = path, c_Rule = example_rule, c_Span = \<lparr>StartByte = 1, EndByte = 2\<rparr>,
      c_Original = ''a'', c_Replacement = ''!a'', c_SourceDigest = []\<rparr>"

definition example_mutant :: "string \<Rightarrow> mutant" where
  "example_mutant i = \<lparr>Index = 1, ID = i, DisplayID = i, m_candidate = example_candidate i\<rparr>"

definition example_measured :: "string \<Rightarrow> outcome \<Rightarrow> measured" where
  "example_measured i out = (elsewhere i)\<lparr>mo_Outcome := out, mo_NotRunReason := [], mo_Attempts := 1\<rparr>"

definition example_digest :: string where "example_digest = replicate 64 CHR ''0''"

definition example_whole :: report_options where
  "example_whole =
     \<lparr>op_ToolVersion = ''1'', op_RunID = ''20260218T091500Z-3f9c'', op_Status = StatusCompleted,
      op_Started = 63902822400000000000, op_Finished = 63902822401000000000,
      op_Config = defaults_of 4, op_Mode = ModeAll, op_ChangedRef = [], op_Shard = None, op_Selected = 0,
      op_Module = ''m'', op_ModulePath = ''m'', op_GoVersion = ''1.25'', op_WorkspaceDigest = example_digest,
      op_Platform = \<lparr>OS = [], Arch = []\<rparr>,
      op_Catalog = Some \<lparr>mutants = map example_mutant [''a'', ''b'', ''c''], duplicates = [],
        byID = [''a'' \<mapsto> 0, ''b'' \<mapsto> 1, ''c'' \<mapsto> 2], byDisplayID = Map.empty, displayLen = 1, cat_digest = []\<rparr>,
      op_Located = map (\<lambda>i. \<lparr>loc_Candidate = example_candidate i, loc_Line = 1, loc_Column = 1,
        loc_Package = ''m'', loc_Branch = None\<rparr>) [''a'', ''b'', ''c''],
      op_Skips = [], op_Results = [example_measured ''a'' OutcomeKilled, example_measured ''b'' OutcomeSurvived],
      op_Rejections = [\<lparr>rn_ID = ''c'', rn_Diagnostic = ''does not compile''\<rparr>], op_TestCommand = [], op_Baseline = [],
      op_Timeout = 1, op_TimeoutSource = [], op_Memory = 0, op_MemorySource = [], op_CoverageMode = [],
      op_CoverageBinaries = 0, op_CoverageTests = 0, op_CoverageUnavailable = [], op_CoverageFallback = False,
      op_CacheMode = CacheModeOn, op_CacheMisses = 2, op_CacheWrites = 1, op_Timing = None, op_Validation = None,
      op_Snapshot = None, op_Toolchain = None, op_ResolvedCommand = [], op_Warnings = [],
      op_InfrastructureError = False\<rparr>"

definition example_share :: "int \<Rightarrow> report_options" where
  "example_share k = example_whole
     \<lparr>op_Mode := ModeShard, op_Shard := Some \<lparr>sh_Index = k, sh_Total = 2, sh_Assignment = ShardAssignment\<rparr>,
      op_Results := map (share_result 2 k) (op_Results example_whole), op_CacheMisses := 1,
      op_Finished := 63902822402000000000 + k\<rparr>"

definition example_host :: platform where "example_host = \<lparr>OS = ''linux'', Arch = ''amd64''\<rparr>"

definition example_document :: "report_options \<Rightarrow> report" where
  "example_document opts = projr (build_report example_host opts)"

lemma build_report_exists:
  assumes "check_identity opts = None" and "check_memory opts = None" and "op_Catalog opts = Some c"
    and "isl (report_parts opts c) = False"
  shows "build_report host opts = Inr (projr (build_report host opts))"
  using assms by (cases "report_parts opts c") (simp_all add: build_report_def)

lemma example_formats [simp]:
  "run_id_ok ''20260218T091500Z-3f9c''" "digest_ok example_digest"
  by code_simp+

lemma example_identity:
  "check_identity example_whole = None" "check_memory example_whole = None"
  "1 \<le> k \<Longrightarrow> check_identity (example_share k) = None" "check_memory (example_share k) = None"
  by (simp_all add: example_share_def example_whole_def check_identity_def check_memory_def
      is_zero_def run_status_valid_def run_statuses_def)

text \<open>The hash that assigns the shards is left open: the documents exist whoever owns the two mutants.\<close>

definition example_shared :: "int \<Rightarrow> bool \<Rightarrow> bool \<Rightarrow> report_options" where
  "example_shared k a b = example_whole
     \<lparr>op_Mode := ModeShard, op_Shard := Some \<lparr>sh_Index = k, sh_Total = 2, sh_Assignment = ShardAssignment\<rparr>,
      op_Results := [if a then example_measured ''a'' OutcomeKilled else elsewhere ''a'',
        if b then example_measured ''b'' OutcomeSurvived else elsewhere ''b''],
      op_CacheMisses := 1, op_Finished := 63902822402000000000 + k\<rparr>"

lemma example_whole_parts: "isl (report_parts example_whole (the (op_Catalog example_whole))) = False"
  by code_simp

lemma example_shared_parts:
  "list_all (\<lambda>k. list_all (\<lambda>a. list_all (\<lambda>b.
      isl (report_parts (example_shared k a b) (the (op_Catalog (example_shared k a b)))) = False)
      [True, False]) [True, False]) [1, 2]"
  by code_simp

lemma example_share_shared:
  "example_share k = example_shared k (shard_index ''a'' 2 = k) (shard_index ''b'' 2 = k)"
  by (simp add: example_share_def example_shared_def share_result_def example_whole_def example_measured_def elsewhere_def)

lemma example_built:
  "build_report example_host example_whole = Inr (example_document example_whole)"
  "k \<in> {1, 2} \<Longrightarrow> build_report example_host (example_share k) = Inr (example_document (example_share k))"
proof -
  show "build_report example_host example_whole = Inr (example_document example_whole)"
    unfolding example_document_def
    by (rule build_report_exists [OF example_identity(1,2) _ example_whole_parts]) (simp add: example_whole_def)
  assume k: "k \<in> {1, 2}"
  have "list_all P [True, False] \<Longrightarrow> P x" for P and x :: bool by (cases x) simp_all
  moreover have "list_all (\<lambda>a. list_all (\<lambda>b.
      isl (report_parts (example_shared k a b) (the (op_Catalog (example_shared k a b)))) = False)
      [True, False]) [True, False]"
    using example_shared_parts k by (auto simp only: list_all_iff list.set insert_iff empty_iff)
  ultimately have parts: "isl (report_parts (example_share k) (the (op_Catalog (example_share k)))) = False"
    unfolding example_share_shared by blast
  show "build_report example_host (example_share k) = Inr (example_document (example_share k))"
    unfolding example_document_def
    using k by (intro build_report_exists [OF example_identity(3,4) _ parts])
      (auto simp: example_share_def example_whole_def)
qed

lemma example_calendar:
  "in_calendar 63902822400000000000" "k \<in> {1, 2} \<Longrightarrow> in_calendar (63902822402000000000 + k)"
  by (auto simp: in_calendar_def year_start_def)

theorem merge_of_shards_witness:
  "case merge_shards ''20260218T091500Z-3f9c'' (map Some [example_document (example_share 2), example_document (example_share 1)]) of
      Inl _ \<Rightarrow> False
    | Inr m \<Rightarrow> Mutants m = map strip_row (Mutants (example_document example_whole))
        \<and> Rejected m = Rejected (example_document example_whole)
        \<and> Expectations m = Expectations (example_document example_whole)
        \<and> Summary m = Summary (example_document example_whole)"
proof (rule merge_of_shards [where n = 2 and ks = "[2, 1]" and runs = "[example_share 2, example_share 1]"])
  show "build_report example_host example_whole = Inr (example_document example_whole)" by (rule example_built)
  show "list_all2 (shard_run example_whole 2) [2, 1] [example_share 2, example_share 1]"
    using example_calendar(1) example_calendar(2) [of 1] example_calendar(2) [of 2]
    by (simp add: shard_run_def example_share_def example_whole_def)
  show "list_all2 (\<lambda>opts d. build_report example_host opts = Inr d) [example_share 2, example_share 1]
      [example_document (example_share 2), example_document (example_share 1)]"
    using example_built by simp
  show "mset [2, 1] = mset [1 .. 2 :: int]" by (simp add: upto.simps)
  show "sum_list (map op_CacheMisses [example_share 2, example_share 1]) < 2 ^ 63"
    by (simp add: example_share_def)
  show "\<forall>r \<in> set (op_Results example_whole). mo_NotRunReason r \<noteq> NotRunOtherShard"
    by (simp add: example_whole_def example_measured_def elsewhere_def reason_names)
qed (simp_all add: example_whole_def)

end
