(* ===== verification/EngineFacts.thy ===== *)
theory EngineFacts
  imports EngineRun MergeFacts
begin

text \<open>
  What the phases of a run keep: whatever coverage, probe, cache and scheduler answer, the results
  recorded are consistent, of mutants that were selected, and apart from the runs still to do.
\<close>

section \<open>Results that can be published\<close>

text \<open>A result as the phases record it; a reason for not running is added when it is published.\<close>

definition measured_ok :: "coverage_mode \<Rightarrow> cache_mode \<Rightarrow> measured \<Rightarrow> bool" where
  "measured_ok covm cachem r \<longleftrightarrow>
     outcome_valid (mo_Outcome r)
     \<and> (mo_Executions r \<noteq> [] \<longrightarrow> \<not> mo_Cached r \<and> \<not> mo_Uncovered r \<and> \<not> mo_Unobserved r
          \<and> mo_Outcome r \<noteq> OutcomeNotRun \<and> int (length (mo_Executions r)) = mo_Attempts r)
     \<and> check_execution_list (mo_Executions r) = None
     \<and> (mo_Uncovered r \<longrightarrow> narrowed covm \<and> mo_Outcome r = OutcomeSurvived \<and> mo_Attempts r = 0
          \<and> \<not> mo_Unobserved r \<and> \<not> mo_Cached r)
     \<and> (mo_Unobserved r \<longrightarrow> mo_Outcome r = OutcomeSurvived \<and> mo_Attempts r = 0)
     \<and> (mo_Cached r \<longrightarrow> cachem = CacheModeOn \<and> cacheable (mo_Outcome r))
     \<and> (covm \<noteq> CoverageTest \<longrightarrow> mo_CoveringTests r = [] \<and> list_all (\<lambda>x. x_Tests x = []) (mo_Executions r))"

definition reason_ok :: "measured \<Rightarrow> bool" where
  "reason_ok r \<longleftrightarrow>
     (if mo_Outcome r = OutcomeNotRun then not_run_reason_valid (mo_NotRunReason r) else mo_NotRunReason r = [])"

lemma row_outcome_NotRun: "row_outcome_of c = Inr RowNotRun \<longleftrightarrow> c = OutcomeNotRun"
  by (metis row_outcome_inject row_outcome_of_names(6))

lemma reason_valid_nonempty: "not_run_reason_valid reason \<Longrightarrow> reason \<noteq> []"
  by (auto simp: not_run_reason_valid_def not_run_reasons_def reason_names)

lemma measured_row_ok:
  assumes "measured_ok covm cachem r" and "reason_ok r"
  shows "\<exists>w. measured_row m spot r = Inr w \<and> w_Executions w = executions_of (mo_Executions r)
    \<and> w_CoveringTests w = mo_CoveringTests r \<and> w_Uncovered w = mo_Uncovered r \<and> w_Unobserved w = mo_Unobserved r
    \<and> w_Cached w = mo_Cached r \<and> w_Attempts w = mo_Attempts r \<and> row_outcome_of (mo_Outcome r) = Inr (w_Outcome w)"
proof -
  obtain out where out: "row_outcome_of (mo_Outcome r) = Inr out"
    using assms(1) row_outcome_valid by (auto simp: measured_ok_def)
  have nr: "out = RowNotRun \<longleftrightarrow> mo_Outcome r = OutcomeNotRun"
    using out row_outcome_NotRun by (metis Inr_inject)
  have "\<exists>reason. not_run_reason_of r out = Inr reason"
    using assms(2) nr reason_valid_nonempty by (auto simp: not_run_reason_of_def reason_ok_def Let_def split: if_splits)
  moreover have "check_executions r out = None"
    using assms(1) nr by (auto simp: check_executions_def measured_ok_def)
  ultimately show ?thesis using out by (auto simp: measured_row_def row_of_def Let_def)
qed

lemma row_outcome_Survived: "row_outcome_of c = Inr name \<Longrightarrow> name = RowSurvived \<longleftrightarrow> c = OutcomeSurvived"
  by (metis Inr_inject row_outcome_inject row_outcome_of_names(2))

lemma cacheable_reusable: "row_outcome_of c = Inr name \<Longrightarrow> cacheable c \<Longrightarrow> reusable name"
  by (auto simp: cacheable_def reusable_def row_outcome_of_names)

section \<open>Building from found that can be published\<close>

lemma index_results_ok:
  "distinct (map mo_ID rs) \<Longrightarrow> \<forall>r \<in> set rs. f (mo_ID r) = None \<Longrightarrow> \<exists>g. index_results f rs = Inr g"
proof (induction rs arbitrary: f)
  case (Cons a rs)
  have "mo_ID a \<notin> mo_ID ` set rs" using Cons.prems(1) by simp
  then have "\<forall>r \<in> set rs. (f(mo_ID a \<mapsto> a)) (mo_ID r) = None"
    using Cons.prems(2) by (metis fun_upd_other image_eqI list.set_intros(2))
  with Cons show ?case by simp
qed simp

lemma index_rejections_ok:
  "distinct (map rn_ID rs) \<Longrightarrow> \<forall>r \<in> set rs. f (rn_ID r) = None \<and> found (rn_ID r) = None \<Longrightarrow>
     \<exists>g. index_rejections found f rs = Inr g"
proof (induction rs arbitrary: f)
  case (Cons a rs)
  have "rn_ID a \<notin> rn_ID ` set rs" using Cons.prems(1) by simp
  then have "\<forall>r \<in> set rs. (f(rn_ID a \<mapsto> a)) (rn_ID r) = None \<and> found (rn_ID r) = None"
    using Cons.prems(2) by (metis fun_upd_other image_eqI list.set_intros(2))
  with Cons show ?case by simp
qed simp

lemma index_options_ok:
  assumes "distinct (map mo_ID (op_Results opts))" and "distinct (map rn_ID (op_Rejections opts))"
    and "set (map mo_ID (op_Results opts)) \<inter> set (map rn_ID (op_Rejections opts)) = {}"
  shows "\<exists>found rejections. index_options opts = Inr (found, rejections)"
proof -
  obtain found where r: "index_results Map.empty (op_Results opts) = Inr found"
    using index_results_ok assms(1) by fastforce
  have "found (rn_ID x) = None" if x: "x \<in> set (op_Rejections opts)" for x
  proof (rule ccontr)
    assume "found (rn_ID x) \<noteq> None"
    then obtain y where "y \<in> set (op_Results opts)" "mo_ID y = rn_ID x"
      using index_results_Inr [OF r] by auto
    then have "rn_ID x \<in> set (map mo_ID (op_Results opts))" by force
    moreover have "rn_ID x \<in> set (map rn_ID (op_Rejections opts))" using x by simp
    ultimately show False using assms(3) by blast
  qed
  then obtain rejections where "index_rejections found Map.empty (op_Rejections opts) = Inr rejections"
    using index_rejections_ok assms(2) by fastforce
  then show ?thesis using r by (simp add: index_options_def)
qed

lemma partition_rows_ok:
  assumes "\<forall>m \<in> set ms. c_ModulePath (m_candidate m) = own \<and> places (key_of_candidate (m_candidate m)) \<noteq> None
     \<and> (rejections (ID m) = None \<longrightarrow> (\<exists>r. found (ID m) = Some r \<and> measured_ok covm cachem r \<and> reason_ok r))"
  shows "\<exists>rows rejected. partition_rows own places found rejections ms = Inr (rows, rejected)
     \<and> length rows + length rejected = length ms"
  using assms
proof (induction ms)
  case (Cons m ms)
  then obtain rows rejected where rest: "partition_rows own places found rejections ms = Inr (rows, rejected)"
    and len: "length rows + length rejected = length ms" by auto
  obtain spot where spot: "places (key_of_candidate (m_candidate m)) = Some spot" using Cons.prems by auto
  show ?case
  proof (cases "rejections (ID m)")
    case None
    then obtain r where r: "found (ID m) = Some r" "measured_ok covm cachem r" "reason_ok r" using Cons.prems by auto
    obtain w where "measured_row m spot r = Inr w" using measured_row_ok [OF r(2,3)] by blast
    then show ?thesis using Cons.prems rest len spot None r by simp
  next
    case (Some x)
    then show ?thesis using Cons.prems rest len spot by simp
  qed
qed simp

text \<open>What \<open>Build\<close> asks of the results of a run over its whole catalogue.\<close>

definition publishable :: "catalog \<Rightarrow> report_options \<Rightarrow> bool" where
  "publishable c opts \<longleftrightarrow>
     distinct (map mo_ID (op_Results opts)) \<and> distinct (map rn_ID (op_Rejections opts))
     \<and> set (map mo_ID (op_Results opts)) \<inter> set (map rn_ID (op_Rejections opts)) = {}
     \<and> set (map mo_ID (op_Results opts)) \<union> set (map rn_ID (op_Rejections opts)) = set (map ID (mutants c))
     \<and> (\<forall>m \<in> set (mutants c). c_ModulePath (m_candidate m) = op_Module opts
          \<and> locate (op_Located opts) (key_of_candidate (m_candidate m)) \<noteq> None)
     \<and> (\<forall>r \<in> set (op_Results opts). measured_ok (op_CoverageMode opts) (op_CacheMode opts) r \<and> reason_ok r)
     \<and> coverage_mode_valid (op_CoverageMode opts) \<and> 0 \<le> op_CoverageBinaries opts \<and> 0 \<le> op_CoverageTests opts
     \<and> cache_mode_valid (op_CacheMode opts) \<and> 0 \<le> op_CacheWrites opts \<and> op_CacheWrites opts \<le> op_CacheMisses opts
     \<and> (op_CacheMode opts = CacheModeOff \<longrightarrow> op_CacheMisses opts = 0)"

lemma publishable_by_id:
  assumes "publishable c opts" and "catalog_ok c" and "i \<in> set (map mo_ID (op_Results opts)) \<union> set (map rn_ID (op_Rejections opts))"
  shows "\<exists>m. by_id c i = Some m \<and> c_ModulePath (m_candidate m) = op_Module opts"
proof -
  from assms(1,3) obtain m where "m \<in> set (mutants c)" "ID m = i" unfolding publishable_def by auto
  then show ?thesis using assms(1) by_id_iff [OF assms(2)] unfolding publishable_def by blast
qed

lemma check_rows_all:
  assumes "\<forall>i \<in> set ids. \<exists>m. by_id c i = Some m \<and> c_ModulePath (m_candidate m) = own"
  shows "check_rows_of c own ids (length ids) = None"
proof -
  have "filter (\<lambda>i. case by_id c i of None \<Rightarrow> False | Some m \<Rightarrow> c_ModulePath (m_candidate m) = own) ids = ids"
    using assms by (intro filter_True) auto
  moreover have "\<not> list_ex (\<lambda>i. by_id c i = None) ids" using assms by (fastforce simp: list_ex_iff)
  ultimately show ?thesis by (simp add: check_rows_of_def)
qed

lemma set_ids_filter: "set (map ID (filter (\<lambda>m. P (ID m)) ms)) = {i \<in> set (map ID ms). P i}"
  by auto

lemma publishable_partition:
  assumes p: "publishable c opts" and ok: "catalog_ok c"
    and idx: "indexed opts found rejections"
  shows "\<exists>rows rejected. partition_report opts c found rejections = Inr (rows, rejected)
    \<and> length rows + length rejected = length (mutants c)"
proof -
  have gone: "rejections i = None \<longleftrightarrow> i \<notin> set (map rn_ID (op_Rejections opts))" for i
  proof -
    have "(\<exists>r. rejections i = Some r) \<longleftrightarrow> (\<exists>r \<in> set (op_Rejections opts). rn_ID r = i)"
      using idx unfolding indexed_def by blast
    then show ?thesis by auto
  qed
  have all: "\<forall>m \<in> set (mutants c). c_ModulePath (m_candidate m) = op_Module opts"
    and dm: "distinct (map ID (mutants c))"
    using p ok by (auto simp: publishable_def catalog_ok_def)
  have union: "set (map ID (mutants c)) = set (map mo_ID (op_Results opts)) \<union> set (map rn_ID (op_Rejections opts))"
    and disj: "set (map mo_ID (op_Results opts)) \<inter> set (map rn_ID (op_Rejections opts)) = {}"
    and d: "distinct (map mo_ID (op_Results opts))" "distinct (map rn_ID (op_Rejections opts))"
    using p unfolding publishable_def by metis+
  have kept: "set (map ID (filter (\<lambda>m. rejections (ID m) = None) (mutants c))) = set (map mo_ID (op_Results opts))"
    and dropped: "set (map ID (filter (\<lambda>m. rejections (ID m) \<noteq> None) (mutants c))) = set (map rn_ID (op_Rejections opts))"
    using union disj set_ids_filter [of "\<lambda>i. rejections i = None" "mutants c"]
      set_ids_filter [of "\<lambda>i. rejections i \<noteq> None" "mutants c"] by (auto simp only: gone)
  have len: "length ms = length ids" if "distinct ms" "distinct ids" "set ms = set ids" for ms ids :: "string list"
    using that by (metis distinct_card)
  have results': "\<forall>r \<in> set (op_Results opts). measured_ok (op_CoverageMode opts) (op_CacheMode opts) r \<and> reason_ok r"
    "\<And>i r. found i = Some r \<longleftrightarrow> r \<in> set (op_Results opts) \<and> mo_ID r = i"
    using p idx unfolding publishable_def indexed_def by metis+
  have "\<forall>m \<in> set (mutants c). rejections (ID m) = None \<longrightarrow>
     (\<exists>r. found (ID m) = Some r \<and> measured_ok (op_CoverageMode opts) (op_CacheMode opts) r \<and> reason_ok r)"
  proof (intro ballI impI)
    fix m assume "m \<in> set (mutants c)" "rejections (ID m) = None"
    then have "ID m \<in> set (map mo_ID (op_Results opts))" using union gone by auto
    then obtain r where "r \<in> set (op_Results opts)" "mo_ID r = ID m" by auto
    then show "\<exists>r. found (ID m) = Some r \<and> measured_ok (op_CoverageMode opts) (op_CacheMode opts) r \<and> reason_ok r"
      using results'(1) results'(2) by blast
  qed
  then obtain rows rejected where
    rows: "partition_rows (op_Module opts) (locate (op_Located opts)) found rejections (mutants c) = Inr (rows, rejected)"
    and total': "length rows + length rejected = length (mutants c)"
    using partition_rows_ok [of "mutants c" "op_Module opts" "locate (op_Located opts)" rejections found] p
    unfolding publishable_def by metis
  have mine: "of_module (op_Module opts) (mutants c) = mutants c" using all by (simp add: filter_True)
  have n: "length rows = length (map mo_ID (op_Results opts))" "length rejected = length (map rn_ID (op_Rejections opts))"
    using list_all2_lengthD [OF conjunct1 [OF partition_rows_Inr [OF rows]]]
      list_all2_lengthD [OF conjunct2 [OF partition_rows_Inr [OF rows]]]
      len [OF distinct_map_filter [OF dm] d(1) kept] len [OF distinct_map_filter [OF dm] d(2) dropped]
    unfolding mine by simp_all
  have "check_accounted opts c (length rows) (length rejected) = None"
    unfolding check_accounted_def n
    using check_rows_all [of "map mo_ID (op_Results opts)" c "op_Module opts"]
      check_rows_all [of "map rn_ID (op_Rejections opts)" c "op_Module opts"] publishable_by_id [OF p ok]
    by simp
  then show ?thesis using rows total' by (simp add: partition_report_def)
qed

lemma publishable_row:
  assumes p: "publishable c opts" and idx: "indexed opts found rejections"
    and from': "rows_from opts c found rejections rows rejected" and w: "w \<in> set rows"
  shows "check_coverage_facts (op_CoverageMode opts) w = None" and "check_unobserved w = None"
    and "w_Uncovered w \<longrightarrow> narrowed (op_CoverageMode opts) \<and> w_Outcome w = RowSurvived \<and> w_Attempts w = 0"
    and "w_Cached w \<longrightarrow> op_CacheMode opts = CacheModeOn \<and> \<not> w_Uncovered w \<and> reusable (w_Outcome w)"
proof -
  obtain m spot r where r: "found (w_ID w) = Some r" and mr: "measured_row m spot r = Inr w"
    using from' w unfolding rows_from_def by blast
  have ok: "measured_ok (op_CoverageMode opts) (op_CacheMode opts) r" "reason_ok r"
    using r idx p unfolding indexed_def publishable_def by blast+
  have f: "w_Executions w = executions_of (mo_Executions r)" "w_CoveringTests w = mo_CoveringTests r"
    "w_Uncovered w = mo_Uncovered r" "w_Unobserved w = mo_Unobserved r" "w_Cached w = mo_Cached r"
    "w_Attempts w = mo_Attempts r" "row_outcome_of (mo_Outcome r) = Inr (w_Outcome w)"
    using measured_row_ok [OF ok, of m spot] mr by auto
  have tests: "list_all (\<lambda>x. x_Tests x = []) (executions_of xs) = list_all (\<lambda>x. x_Tests x = []) xs" for xs
    by (auto simp: executions_of_def list_all_length nth_enumerate_eq)
  show "check_coverage_facts (op_CoverageMode opts) w = None"
    using ok(1) tests [of "mo_Executions r"] unfolding check_coverage_facts_def f measured_ok_def
    by (auto simp: list_ex_iff list_all_iff)
  note surv = row_outcome_Survived [OF f(7)]
  show "check_unobserved w = None" using ok(1) surv unfolding check_unobserved_def f(3,4,6) measured_ok_def by auto
  show "w_Uncovered w \<longrightarrow> narrowed (op_CoverageMode opts) \<and> w_Outcome w = RowSurvived \<and> w_Attempts w = 0"
    using ok(1) surv unfolding f(3,6) measured_ok_def by blast
  show "w_Cached w \<longrightarrow> op_CacheMode opts = CacheModeOn \<and> \<not> w_Uncovered w \<and> reusable (w_Outcome w)"
    using ok(1) cacheable_reusable [OF f(7)] unfolding f(3,5) measured_ok_def by blast
qed

lemma publishable_built:
  assumes p: "publishable c opts" and ok: "catalog_ok c" and cat: "op_Catalog opts = Some c"
    and facts: "check_identity opts = None" "check_memory opts = None" "test_command opts = Inr cmd"
    and sel: "\<And>k. selection_of opts (int (length (mutants c))) k \<noteq> Inl ErrInvalidSelection"
    and sh: "shard_of opts = Inr sh"
  shows "\<exists>r. build_report host opts = Inr r"
proof -
  obtain found rejections where io: "index_options opts = Inr (found, rejections)"
    using index_options_ok p unfolding publishable_def by blast
  note idx = index_options_Inr [OF io]
  obtain rows rejected where pr: "partition_report opts c found rejections = Inr (rows, rejected)"
    and len: "length rows + length rejected = length (mutants c)"
    using publishable_partition [OF p ok idx] by blast
  note from' = partition_report_Inr [OF pr]
  note row = publishable_row [OF p idx from']
  let ?exps = "evaluate (Expect (Mutation (op_Config opts))) (dispositions rows rejected)"
  have "\<forall>w \<in> set rows. outcome_valid (row_core found w)"
    using rows_core [OF from'] row_outcome_valid by blast
  then obtain t where t: "tally_results rows found ?exps = Inr t" using tally_results_ok by blast
  obtain s where "selection_of opts (int (length rows) + int (length rejected)) (int (length rejected)) = Inr s"
  proof (cases "selection_of opts (int (length (mutants c))) (int (length rejected))")
    case (Inl e)
    then have "e = ErrInvalidSelection" by (auto simp: selection_of_def Let_def split: if_splits)
    then show ?thesis using Inl sel by blast
  next
    case (Inr s)
    then show ?thesis using that len by (metis of_nat_add)
  qed
  moreover obtain cov where "coverage_of opts rows = Inr cov"
  proof -
    have "\<exists>cov. coverage_block (op_CoverageMode opts) (op_CoverageBinaries opts) (op_CoverageTests opts) rows = Inr cov"
      using p row(1,2,3) unfolding publishable_def by (intro coverage_block_ok) auto
    then show ?thesis using that by (auto simp: coverage_of_def)
  qed
  moreover obtain cachef where
    "cache_block (op_CacheMode opts) (op_CacheMisses opts) (op_CacheWrites opts) rows = Inr cachef"
  proof -
    have stated: "(if op_CacheMode opts = [] then CacheModeOff else op_CacheMode opts) = op_CacheMode opts"
      using p by (auto simp: publishable_def cache_mode_valid_def cache_modes_def cache_names)
    obtain k where "count_hits (op_CacheMode opts) rows 0 = Inr k" using count_hits_ok row(4) by blast
    then show ?thesis using that p unfolding cache_block_def stated publishable_def by (auto simp: Let_def)
  qed
  ultimately have "\<exists>q. report_parts opts c = Inr q"
    using io pr t sh facts(3) by (simp add: report_parts_def)
  then show ?thesis using facts(1,2) cat build_report_Inr by blast
qed

section \<open>The invariant of the phases\<close>

text \<open>
  The runs that are left and the results recorded so far: no mutant is in both, all are mutants
  that compiled, and every result can be published in the modes of the state.
\<close>

definition results_ok :: "engine_state \<Rightarrow> bool" where
  "results_ok st \<longleftrightarrow>
     (\<forall>i r. es_results st i = Some r \<longrightarrow> mo_ID r = i \<and> mo_NotRunReason r = []
        \<and> measured_ok (result_mode (es_coverage st)) (state_mode (es_cache st)) r)"

definition coverage_ok :: "mutant_run list \<Rightarrow> engine_state \<Rightarrow> bool" where
  "coverage_ok runs st \<longleftrightarrow>
     coverage_mode_valid (result_mode (es_coverage st))
     \<and> 0 \<le> er_binaries (es_coverage st) \<and> 0 \<le> er_tests (es_coverage st)
     \<and> (result_mode (es_coverage st) \<noteq> CoverageTest \<longrightarrow>
          (\<forall>r \<in> set runs. m_Tests r = []) \<and> (\<forall>i. covering_tests st i = []))"

definition left_over :: "string list \<Rightarrow> mutant_run list \<Rightarrow> engine_state \<Rightarrow> bool" where
  "left_over accepted runs st \<longleftrightarrow>
     distinct (map m_ID runs) \<and> set (map m_ID runs) \<subseteq> set accepted \<and> dom (es_results st) \<subseteq> set accepted
     \<and> dom (es_results st) \<inter> set (map m_ID runs) = {}"

text \<open>What no phase after the selection touches.\<close>

definition same_run_of :: "engine_state \<Rightarrow> engine_state \<Rightarrow> bool" where
  "same_run_of st st' \<longleftrightarrow> es_catalog st' = es_catalog st \<and> es_changed st' = es_changed st \<and> es_shard st' = es_shard st
     \<and> es_selected st' = es_selected st \<and> es_notRun st' = es_notRun st"

definition phase_inv :: "string list \<Rightarrow> mutant_run list \<Rightarrow> engine_state \<Rightarrow> bool" where
  "phase_inv accepted runs st \<longleftrightarrow> left_over accepted runs st \<and> results_ok st \<and> coverage_ok runs st"

lemma mode_simps [simp]:
  "result_mode no_coverage = CoverageOff" "state_mode no_cache = CacheModeOff"
  "er_mode c = CoveragePackage \<Longrightarrow> result_mode c = CoveragePackage"
  "er_mode c = CoverageTest \<Longrightarrow> result_mode c = CoverageTest"
  "eh_mode h = CacheModeOn \<Longrightarrow> state_mode h = CacheModeOn"
  "coverage_mode_valid CoverageOff" "coverage_mode_valid CoveragePackage" "coverage_mode_valid CoverageTest"
  "narrowed CoveragePackage" "narrowed CoverageTest"
  by (simp_all add: result_mode_def state_mode_def no_coverage_def no_cache_def coverage_mode_valid_def
      coverage_modes_def coverage_names cache_names narrowed_def)

lemma measured_ok_cached: "measured_ok covm cachem r \<Longrightarrow> measured_ok covm CacheModeOn r"
  by (auto simp: measured_ok_def)

lemma uncovered_ok: "narrowed covm \<Longrightarrow> measured_ok covm cachem ((measured_as i OutcomeSurvived)\<lparr>mo_Uncovered := True\<rparr>)"
  and unobserved_ok: "measured_ok covm cachem ((measured_as i OutcomeSurvived)\<lparr>mo_Unobserved := True\<rparr>)"
  and not_run_ok: "measured_ok covm cachem ((measured_as i OutcomeNotRun)\<lparr>mo_NotRunReason := reason\<rparr>)"
  by (simp_all add: measured_ok_def measured_as_def outcome_valid_iff outcomes_def)

text \<open>The fields of a state after a result was recorded.\<close>

lemma record_result_simps [simp]:
  "es_results (record_result r st) = (es_results st)(mo_ID r \<mapsto> r)"
  "es_coverage (record_result r st) = es_coverage st" "es_cache (record_result r st) = es_cache st"
  "es_catalog (record_result r st) = es_catalog st" "es_changed (record_result r st) = es_changed st"
  "es_shard (record_result r st) = es_shard st" "es_selected (record_result r st) = es_selected st"
  "es_notRun (record_result r st) = es_notRun st"
  by (simp_all add: record_result_def)

lemma same_run_of_simps [simp]:
  "same_run_of st st" "same_run_of st (record_result r st') = same_run_of st st'"
  "same_run_of st (st'\<lparr>es_coverage := cov\<rparr>) = same_run_of st st'"
  "same_run_of st (st'\<lparr>es_cache := cachef\<rparr>) = same_run_of st st'"
  by (simp_all add: same_run_of_def)

lemma record_all:
  assumes "\<And>i. mo_ID (f i) = i"
  shows "es_results (foldl (\<lambda>st i. record_result (f i) st) st ids)
      = (\<lambda>i. if i \<in> set ids then Some (f i) else es_results st i)"
    and "es_coverage (foldl (\<lambda>st i. record_result (f i) st) st ids) = es_coverage st"
    and "es_cache (foldl (\<lambda>st i. record_result (f i) st) st ids) = es_cache st"
    and "same_run_of st' (foldl (\<lambda>st i. record_result (f i) st) st ids) = same_run_of st' st"
  using assms by (induction ids arbitrary: st) (auto simp: fun_eq_iff)

lemma recorded_uncovered:
  "es_results (foldl record_uncovered st ids)
     = (\<lambda>i. if i \<in> set ids then Some ((measured_as i OutcomeSurvived)\<lparr>mo_Uncovered := True\<rparr>) else es_results st i)"
  "es_coverage (foldl record_uncovered st ids) = es_coverage st" "es_cache (foldl record_uncovered st ids) = es_cache st"
  "same_run_of st' (foldl record_uncovered st ids) = same_run_of st' st"
  using record_all [where f = "\<lambda>i. (measured_as i OutcomeSurvived)\<lparr>mo_Uncovered := True\<rparr>"]
  by (simp_all add: record_uncovered_def [abs_def] measured_as_def)

lemma recorded_unobserved:
  "es_results (foldl record_unobserved st ids)
     = (\<lambda>i. if i \<in> set ids then Some ((measured_as i OutcomeSurvived)\<lparr>mo_Unobserved := True\<rparr>) else es_results st i)"
  "es_coverage (foldl record_unobserved st ids) = es_coverage st" "es_cache (foldl record_unobserved st ids) = es_cache st"
  "same_run_of st' (foldl record_unobserved st ids) = same_run_of st' st"
  using record_all [where f = "\<lambda>i. (measured_as i OutcomeSurvived)\<lparr>mo_Unobserved := True\<rparr>"]
  by (simp_all add: record_unobserved_def [abs_def] measured_as_def)

section \<open>Coverage and the probe keep the invariant\<close>

text \<open>
  A narrowing splits the runs: those that stay, in their order and with other binaries or tests,
  and those that nothing covers.
\<close>

definition splits :: "mutant_run list \<Rightarrow> mutant_run list \<Rightarrow> string list \<Rightarrow> bool" where
  "splits runs covered uncovered \<longleftrightarrow>
     map m_ID covered = filter (\<lambda>i. i \<notin> set uncovered) (map m_ID runs) \<and> set uncovered \<subseteq> set (map m_ID runs)"

lemma splits_Nil: "splits [] [] []"
  by (simp add: splits_def)

lemma splits_keep:
  "splits rs covered uncovered \<Longrightarrow> distinct (map m_ID (r # rs)) \<Longrightarrow> m_ID r' = m_ID r \<Longrightarrow>
     splits (r # rs) (r' # covered) uncovered"
  by (auto simp: splits_def)

lemma splits_drop:
  assumes "splits rs covered uncovered" and "distinct (map m_ID (r # rs))"
  shows "splits (r # rs) covered (m_ID r # uncovered)"
proof -
  have "i \<noteq> m_ID r" if "i \<in> set (map m_ID rs)" for i
    using assms(2) that by (metis distinct.simps(2) list.simps(9))
  then have "filter (\<lambda>i. i \<notin> set (m_ID r # uncovered)) (map m_ID rs) = filter (\<lambda>i. i \<notin> set uncovered) (map m_ID rs)"
    by (intro filter_cong) auto
  then show ?thesis using assms(1) unfolding splits_def by auto
qed

lemma narrow_runs_splits:
  "narrow_runs mapped asked index runs = (covered, uncovered) \<Longrightarrow> distinct (map m_ID runs) \<Longrightarrow>
     splits runs covered uncovered \<and> ((\<forall>r \<in> set runs. m_Tests r = []) \<longrightarrow> (\<forall>r \<in> set covered. m_Tests r = []))"
proof (induction runs arbitrary: covered uncovered)
  case Nil
  then show ?case by (simp add: splits_Nil)
next
  case (Cons r rs)
  obtain cov unc where rest: "narrow_runs mapped asked index rs = (cov, unc)" by (cases "narrow_runs mapped asked index rs")
  with Cons.IH Cons.prems(2) have ih: "splits rs cov unc"
    "(\<forall>r \<in> set rs. m_Tests r = []) \<longrightarrow> (\<forall>r \<in> set cov. m_Tests r = [])" by auto
  have step: "narrow_runs mapped asked index (r # rs) =
      (if m_ID r \<notin> set asked then (r # cov, unc)
       else if length (covering_of mapped (m_ID r)) = 0 then (cov, m_ID r # unc)
       else (r\<lparr>m_Binaries := indices_of (covering_of mapped (m_ID r)) index\<rparr> # cov, unc))"
    by (simp add: rest Let_def)
  have "(\<exists>r'. covered = r' # cov \<and> uncovered = unc \<and> m_ID r' = m_ID r \<and> m_Tests r' = m_Tests r)
      \<or> covered = cov \<and> uncovered = m_ID r # unc"
    using Cons.prems(1) unfolding step by (auto split: if_split_asm)
  then show ?case
  proof (elim disjE exE conjE)
    fix r' assume r': "covered = r' # cov" "uncovered = unc" "m_ID r' = m_ID r" "m_Tests r' = m_Tests r"
    have "(\<forall>x \<in> set (r # rs). m_Tests x = []) \<longrightarrow> (\<forall>x \<in> set (r' # cov). m_Tests x = [])"
      using ih(2) r'(4) by (metis set_ConsD list.set_intros(1,2))
    then show ?thesis using splits_keep [OF ih(1) Cons.prems(2) r'(3)] unfolding r'(1,2) by blast
  next
    assume c: "covered = cov" "uncovered = m_ID r # unc"
    show ?thesis
      using splits_drop [OF ih(1) Cons.prems(2)] ih(2) unfolding c by (meson list.set_intros(2))
  qed
qed

lemma decide_runs_splits:
  "decide_runs index asked plans reliable runs result = (covered, uncovered, result') \<Longrightarrow> distinct (map m_ID runs) \<Longrightarrow>
     splits runs covered uncovered \<and> er_mode result' = er_mode result \<and> er_binaries result' = er_binaries result
     \<and> er_tests result' = er_tests result"
proof (induction runs arbitrary: covered uncovered result)
  case Nil
  then show ?case by (simp add: splits_Nil)
next
  case (Cons r rs)
  obtain cov unc from' where rest: "decide_runs index asked plans reliable rs from' = (cov, unc, result')"
    and from': "er_mode from' = er_mode result" "er_binaries from' = er_binaries result" "er_tests from' = er_tests result"
    and step: "(\<exists>r'. covered = r' # cov \<and> m_ID r' = m_ID r) \<and> uncovered = unc \<or> covered = cov \<and> uncovered = m_ID r # unc"
    using Cons.prems(1) by (auto simp: Let_def split: if_splits prod.splits)
  have "splits rs cov unc \<and> er_mode result' = er_mode from' \<and> er_binaries result' = er_binaries from'
      \<and> er_tests result' = er_tests from'"
    using Cons.IH [OF rest] Cons.prems(2) by simp
  then show ?case
    using step from' splits_keep [OF _ Cons.prems(2)] splits_drop [OF _ Cons.prems(2)] by metis
qed

lemma left_over_narrowed:
  assumes "left_over accepted runs st" and "splits runs covered uncovered"
    and "dom (es_results st') = dom (es_results st) \<union> set uncovered"
  shows "left_over accepted covered st'"
  using assms unfolding left_over_def splits_def by auto

text \<open>Coverage starts from a state without results.\<close>

definition fresh :: "engine_state \<Rightarrow> bool" where
  "fresh st \<longleftrightarrow> es_results st = Map.empty \<and> es_cache st = no_cache \<and> es_coverage st = no_coverage"

lemma narrowed_inv:
  assumes "left_over accepted runs st" and "fresh st" and "splits runs covered uncovered"
    and "narrowed (result_mode cov)" and "0 \<le> er_binaries cov" and "0 \<le> er_tests cov"
    and "result_mode cov \<noteq> CoverageTest \<longrightarrow> (\<forall>r \<in> set covered. m_Tests r = []) \<and> er_coveringTests cov = Map.empty"
  shows "phase_inv accepted covered ((foldl record_uncovered st uncovered)\<lparr>es_coverage := cov\<rparr>)"
proof -
  let ?st = "(foldl record_uncovered st uncovered)\<lparr>es_coverage := cov\<rparr>"
  have res: "es_results ?st
      = (\<lambda>i. if i \<in> set uncovered then Some ((measured_as i OutcomeSurvived)\<lparr>mo_Uncovered := True\<rparr>) else None)"
    using assms(2) by (auto simp: recorded_uncovered fresh_def)
  have "left_over accepted covered ?st"
    using assms(2) by (intro left_over_narrowed [OF assms(1,3)]) (auto simp: res fresh_def dom_def split: if_splits)
  moreover have "results_ok ?st"
    using uncovered_ok [OF assms(4)] by (auto simp: results_ok_def res measured_as_def split: if_splits)
  moreover have "coverage_ok covered ?st"
    using assms(4-7) by (auto simp: coverage_ok_def covering_tests_def narrowed_def)
  ultimately show ?thesis by (simp add: phase_inv_def)
qed

lemma and_then_Inr_iff: "and_then x f = Inr y \<longleftrightarrow> (\<exists>z. x = Inr z \<and> f z = Inr y)"
  by (cases x) (auto simp: and_then_def)

lemma without_coverage_parts: "snd (without_coverage err runs st) = (runs, st\<lparr>es_coverage := no_coverage\<rparr>)"
  by (cases err) (simp_all add: without_coverage_def)

lemma narrow_to_tests_decides:
  assumes "narrow_to_tests modulePath C collected bins runs st = Inr (runs', st')"
  obtains index asked plans reliable uncovered start cov where
    "decide_runs index asked plans reliable runs start = (runs', uncovered, cov)"
    "er_mode start = CoverageTest" "0 \<le> er_binaries start" "0 \<le> er_tests start"
    "st' = (foldl record_uncovered st uncovered)\<lparr>es_coverage := cov\<rparr>"
  using assms
  by (auto simp: narrow_to_tests_def Let_def and_then_Inr_iff split: if_split_asm prod.split_asm)

lemma test_coverage_phase_cases:
  assumes "test_coverage_phase modulePath C bins runs st = (err, runs', st')"
  shows "runs' = runs \<and> st' = st\<lparr>es_coverage := no_coverage\<rparr>
    \<or> (\<exists>collected. narrow_to_tests modulePath C collected bins runs st = Inr (runs', st'))"
  using assms without_coverage_parts
  by (auto simp: test_coverage_phase_def split: sum.split_asm) (metis prod.inject snd_conv)+

lemma coverage_phase_cases:
  assumes "coverage_phase level modulePath C bins runs st = (err, runs', st')"
  shows "runs' = runs \<and> st' = st\<lparr>es_coverage := no_coverage\<rparr>
    \<or> (\<exists>mapped decided. narrow_to_packages mapped decided bins runs st = (runs', st'))
    \<or> (\<exists>collected. narrow_to_tests modulePath C collected bins runs st = Inr (runs', st'))"
proof -
  have w: "without_coverage e runs st = (err, runs', st') \<Longrightarrow> runs' = runs \<and> st' = st\<lparr>es_coverage := no_coverage\<rparr>" for e
    using without_coverage_parts [of e runs st] by simp
  consider e where "without_coverage e runs st = (err, runs', st')"
    | "test_coverage_phase modulePath C bins runs st = (err, runs', st')"
    | mapped decided where "narrow_to_packages mapped decided bins runs st = (runs', st')"
    using assms unfolding coverage_phase_def Let_def by (auto split: if_split_asm sum.split_asm)
  then show ?thesis
    by cases (use w test_coverage_phase_cases in blast)+
qed

lemma fresh_phase_inv:
  assumes "left_over accepted runs st" and "fresh st" and "\<forall>r \<in> set runs. m_Tests r = []"
  shows "phase_inv accepted runs st"
  using assms by (simp add: phase_inv_def results_ok_def fresh_def coverage_ok_def covering_tests_def no_coverage_def)
    (simp add: no_coverage_def [symmetric])

lemma coverage_phase_inv:
  assumes "left_over accepted runs st" and "fresh st" and "\<forall>r \<in> set runs. m_Tests r = []"
    and "coverage_phase level modulePath C bins runs st = (err, runs', st')"
  shows "phase_inv accepted runs' st' \<and> es_cache st' = no_cache \<and> same_run_of st st'"
proof -
  have "st\<lparr>es_coverage := no_coverage\<rparr> = st" using assms(2) by (simp add: fresh_def)
  then have unchanged: "phase_inv accepted runs (st\<lparr>es_coverage := no_coverage\<rparr>)"
    using fresh_phase_inv [OF assms(1-3)] by simp
  have d: "distinct (map m_ID runs)" using assms(1) by (simp add: left_over_def)
  consider "runs' = runs" "st' = st\<lparr>es_coverage := no_coverage\<rparr>"
    | mapped decided where "narrow_to_packages mapped decided bins runs st = (runs', st')"
    | collected where "narrow_to_tests modulePath C collected bins runs st = Inr (runs', st')"
    using coverage_phase_cases [OF assms(4)] by blast
  then show ?thesis
  proof cases
    case 1
    then show ?thesis using unchanged assms(2) by (simp add: fresh_def)
  next
    case 2
    obtain uncovered where n: "narrow_runs mapped (map cm_ID decided) (binary_index bins) runs = (runs', uncovered)"
      and st': "st' = (foldl record_uncovered st uncovered)\<lparr>es_coverage :=
          \<lparr>er_mode = CoveragePackage, er_binaries = int (length (Coverage.Binaries mapped)), er_tests = 0,
           er_covering = Covering mapped, er_coveringTests = Map.empty\<rparr>\<rparr>"
      using 2 by (auto simp: narrow_to_packages_def Let_def split: prod.splits)
    show ?thesis
      unfolding st' using narrow_runs_splits [OF n d] assms(2,3)
      by (intro conjI narrowed_inv [OF assms(1,2)]) (auto simp: recorded_uncovered fresh_def)
  next
    case 3
    then obtain index asked plans reliable uncovered start cov where
      n: "decide_runs index asked plans reliable runs start = (runs', uncovered, cov)"
      and start: "er_mode start = CoverageTest" "0 \<le> er_binaries start" "0 \<le> er_tests start"
      and st': "st' = (foldl record_uncovered st uncovered)\<lparr>es_coverage := cov\<rparr>"
      by (rule narrow_to_tests_decides)
    show ?thesis
      unfolding st' using decide_runs_splits [OF n d] start assms(2)
      by (intro conjI narrowed_inv [OF assms(1,2)]) (auto simp: recorded_uncovered fresh_def)
  qed
qed

lemma probe_phase_cases:
  assumes "probe_phase probes passes bins runs st = (err, runs', st')"
  shows "runs' = runs \<and> st' = st
   \<or> (\<exists>d ps. ProbeSettle.settle (probe_candidates probes runs st) ps = Inr d \<and> (runs', st') = apply_probe d runs bins st)"
  using assms unfolding probe_phase_def by (auto split: if_split_asm sum.split_asm)

lemma probe_candidates_ids: "pc_ID ` set (probe_candidates probes runs st) \<subseteq> set (map m_ID runs)"
  by (force simp: probe_candidates_def List.map_filter_def split: option.splits)

lemma probed_tests_Nil [simp]: "probed_tests [] is bins = []"
  by (simp add: probed_tests_def)

lemma probe_phase_inv:
  assumes inv: "phase_inv accepted runs st" and probe: "probe_phase probes passes bins runs st = (err, runs', st')"
  shows "phase_inv accepted runs' st' \<and> es_cache st' = es_cache st \<and> same_run_of st st'"
  using probe_phase_cases [OF probe]
proof (elim disjE exE conjE)
  fix d ps
  assume d: "ProbeSettle.settle (probe_candidates probes runs st) ps = Inr d" and a: "(runs', st') = apply_probe d runs bins st"
  let ?f = "\<lambda>r. case Narrowed d (m_ID r) of None \<Rightarrow> r
    | Some is \<Rightarrow> r\<lparr>m_Binaries := Some is, m_Tests := probed_tests (m_Tests r) is bins\<rparr>"
  have runs': "runs' = map ?f (filter (\<lambda>r. m_ID r \<notin> set (Settled d)) runs)"
    and st': "st' = foldl record_unobserved st (Settled d)"
    using a by (simp_all add: apply_probe_def)
  have f: "m_ID (?f r) = m_ID r" "m_Tests r = [] \<longrightarrow> m_Tests (?f r) = []" for r
    by (simp_all split: option.splits)
  have "set (Settled d) \<subseteq> set (map m_ID runs)"
    using settle_settled [OF d] probe_candidates_ids [of probes runs st] by auto
  then have "splits runs runs' (Settled d)" using f(1) by (auto simp: splits_def runs' filter_map o_def)
  moreover have res: "es_results st'
      = (\<lambda>i. if i \<in> set (Settled d) then Some ((measured_as i OutcomeSurvived)\<lparr>mo_Unobserved := True\<rparr>) else es_results st i)"
    "es_coverage st' = es_coverage st" "es_cache st' = es_cache st" "same_run_of st st'"
    by (simp_all add: st' recorded_unobserved)
  moreover have inv': "left_over accepted runs st" "results_ok st" "coverage_ok runs st"
    using inv by (simp_all add: phase_inv_def)
  moreover have "dom (es_results st') = dom (es_results st) \<union> set (Settled d)"
    unfolding res by (auto split: if_splits)
  ultimately have left: "left_over accepted runs' st'" using left_over_narrowed by blast
  have "results_ok st'"
    using inv'(2) unobserved_ok unfolding results_ok_def res by (simp add: measured_as_def)
  moreover have "coverage_ok runs' st'"
    using inv'(3) f(2) unfolding coverage_ok_def covering_tests_def res runs' by fastforce
  ultimately show ?thesis using left res by (simp add: phase_inv_def)
qed (use inv in simp_all)

section \<open>The cache and the results keep the invariant\<close>

lemma cacheable_valid: "cacheable out \<Longrightarrow> outcome_valid out"
  by (auto simp: cacheable_def outcome_valid_iff outcomes_def)

lemma lookup_cacheable: "cache_lookup c i file = Inr (Some e) \<Longrightarrow> cacheable (en_Outcome e)"
  by (auto simp: cache_lookup_def entry_bad_def split: if_splits cache_file.splits)

lemma adopt_simps:
  "es_coverage (adopt i e st) = es_coverage st" "dom (es_results (adopt i e st)) = insert i (dom (es_results st))"
  "eh_mode (es_cache (adopt i e st)) = eh_mode (es_cache st)" "eh_misses (es_cache (adopt i e st)) = eh_misses (es_cache st)"
  "eh_writes (es_cache (adopt i e st)) = eh_writes (es_cache st)" "same_run_of st' (adopt i e st) = same_run_of st' st"
  by (auto simp: adopt_def Let_def measured_as_def)

lemma count_miss_simps:
  "es_coverage (count_miss st) = es_coverage st" "es_results (count_miss st) = es_results st"
  "eh_mode (es_cache (count_miss st)) = eh_mode (es_cache st)" "eh_misses (es_cache (count_miss st)) = eh_misses (es_cache st) + 1"
  "eh_writes (es_cache (count_miss st)) = eh_writes (es_cache st)" "same_run_of st' (count_miss st) = same_run_of st' st"
  by (auto simp: count_miss_def)

lemma results_ok_same:
  "es_results st' = es_results st \<Longrightarrow> es_coverage st' = es_coverage st \<Longrightarrow> eh_mode (es_cache st') = eh_mode (es_cache st) \<Longrightarrow>
     results_ok st' = results_ok st"
  by (simp add: results_ok_def state_mode_def)

lemma results_ok_record:
  "results_ok st \<Longrightarrow> mo_NotRunReason r = [] \<Longrightarrow>
     measured_ok (result_mode (es_coverage st)) (state_mode (es_cache st)) r \<Longrightarrow> results_ok (record_result r st)"
  by (simp add: results_ok_def)

lemma adopt_ok:
  assumes "results_ok st" and "coverage_ok runs st" and "eh_mode (es_cache st) = CacheModeOn" and "cacheable (en_Outcome e)"
  shows "results_ok (adopt i e st)"
proof -
  have cov: "result_mode (es_coverage st) \<noteq> CoverageTest \<Longrightarrow> covering_tests st i = []"
    using assms(2) by (simp add: coverage_ok_def)
  let ?r = "(measured_as i (en_Outcome e))
            \<lparr>mo_Duration := entry_duration e, mo_KilledBy := en_KilledBy e, mo_Attempts := en_Attempts e,
             mo_OutputTail := en_OutputTail e, mo_CoveringPackages := covering_packages st i,
             mo_CoveringTests := covering_tests st i, mo_Cached := True,
             mo_MemoryExceeded := en_MemoryExceeded e, mo_PeakMemory := en_PeakMemory e,
             mo_Diverged := en_Diverged e\<rparr>"
  have "measured_ok (result_mode (es_coverage st)) CacheModeOn ?r"
    using cov cacheable_valid [OF assms(4)] assms(4) by (simp add: measured_ok_def measured_as_def)
  then have "results_ok (record_result ?r st)"
    using assms(1,3) by (intro results_ok_record) (simp_all add: measured_as_def)
  then show ?thesis
    using results_ok_same [of "adopt i e st" "record_result ?r st"] by (simp add: adopt_def Let_def)
qed

definition unexpected :: "string list \<Rightarrow> string list \<Rightarrow> int" where
  "unexpected expected ids = int (length (filter (\<lambda>i. i \<notin> set expected) ids))"

lemma lookup_runs_inv:
  assumes "results_ok st" and "\<And>rs. coverage_ok rs st = coverage_ok' rs" and "coverage_ok' runs0"
    and "eh_mode (es_cache st) = CacheModeOn" and "lookup_runs c expected runs st = (misses, st')" and "distinct (map m_ID runs)"
  shows "results_ok st' \<and> es_coverage st' = es_coverage st \<and> eh_mode (es_cache st') = CacheModeOn
    \<and> eh_writes (es_cache st') = eh_writes (es_cache st) \<and> same_run_of st st'
    \<and> eh_misses (es_cache st') = eh_misses (es_cache st) + unexpected expected (map m_ID misses)
    \<and> (\<exists>hits. splits runs misses hits \<and> set misses \<subseteq> set runs \<and> dom (es_results st') = dom (es_results st) \<union> set hits)"
  using assms
proof (induction runs arbitrary: st misses)
  case Nil
  then show ?case by (auto simp: unexpected_def intro: exI [of _ "[]"] splits_Nil)
next
  case (Cons r rs)
  have step: ?case if q: "lookup_runs c expected rs st1 = (misses1, st')" "results_ok st1" "es_coverage st1 = es_coverage st"
    "eh_mode (es_cache st1) = CacheModeOn" "eh_writes (es_cache st1) = eh_writes (es_cache st)" "same_run_of st st1"
    and m: "misses = r # misses1 \<and> dom (es_results st1) = dom (es_results st)
        \<and> eh_misses (es_cache st1) = eh_misses (es_cache st) + (if m_ID r \<in> set expected then 0 else 1)
      \<or> misses = misses1 \<and> dom (es_results st1) = insert (m_ID r) (dom (es_results st))
        \<and> eh_misses (es_cache st1) = eh_misses (es_cache st)" for st1 misses1
  proof -
    have cov: "coverage_ok rs' st1 = coverage_ok' rs'" for rs'
      using Cons.prems(2) q(3) by (simp add: coverage_ok_def covering_tests_def)
    have "distinct (map m_ID rs)" using Cons.prems(6) by simp
    note ih = Cons.IH [OF q(2) cov Cons.prems(3) q(4,1) this]
    obtain hits where h: "splits rs misses1 hits" "set misses1 \<subseteq> set rs" "dom (es_results st') = dom (es_results st1) \<union> set hits"
      using ih by blast
    have same: "same_run_of st st'" using ih q(6) by (simp add: same_run_of_def)
    from m show ?thesis
    proof (elim disjE)
      assume m: "misses = r # misses1 \<and> dom (es_results st1) = dom (es_results st)
        \<and> eh_misses (es_cache st1) = eh_misses (es_cache st) + (if m_ID r \<in> set expected then 0 else 1)"
      have "splits (r # rs) misses hits" using splits_keep [OF h(1) Cons.prems(6)] m by blast
      then show ?thesis using ih q m h same by (auto simp: unexpected_def)
    next
      assume m: "misses = misses1 \<and> dom (es_results st1) = insert (m_ID r) (dom (es_results st))
        \<and> eh_misses (es_cache st1) = eh_misses (es_cache st)"
      have "splits (r # rs) misses (m_ID r # hits)" using splits_drop [OF h(1) Cons.prems(6)] m by blast
      then show ?thesis using ih q m h same by (auto intro!: exI [of _ "m_ID r # hits"])
    qed
  qed
  consider (expected) "m_ID r \<in> set expected"
    | (hit) e where "m_ID r \<notin> set expected" "cache_lookup (oc_Store c) (m_ID r) (oc_Files c (m_ID r)) = Inr (Some e)"
    | (miss) "m_ID r \<notin> set expected" "\<nexists>e. cache_lookup (oc_Store c) (m_ID r) (oc_Files c (m_ID r)) = Inr (Some e)"
    by blast
  then show ?case
  proof cases
    case expected
    then obtain misses1 where "lookup_runs c expected rs st = (misses1, st')" "misses = r # misses1"
      using Cons.prems(5) by (auto split: prod.splits)
    then show ?thesis using step [of st misses1] Cons.prems(1,4) expected by simp
  next
    case hit
    then have "lookup_runs c expected rs (adopt (m_ID r) e st) = (misses, st')" using Cons.prems(5) by simp
    moreover have "results_ok (adopt (m_ID r) e st)"
      using adopt_ok [OF Cons.prems(1) _ Cons.prems(4) lookup_cacheable [OF hit(2)]] Cons.prems(2,3) by blast
    ultimately show ?thesis using step [of "adopt (m_ID r) e st" misses] Cons.prems(4) by (simp add: adopt_simps)
  next
    case miss
    then obtain misses1 where "lookup_runs c expected rs (count_miss st) = (misses1, st')" "misses = r # misses1"
      using Cons.prems(5) by (auto split: prod.splits sum.splits option.splits)
    moreover have "results_ok (count_miss st)"
      using Cons.prems(1) results_ok_same [of "count_miss st" st] by (simp add: count_miss_simps)
    ultimately show ?thesis using step [of "count_miss st" misses1] Cons.prems(4) miss(1) by (simp add: count_miss_simps)
  qed
qed

lemma splits_left_over:
  "left_over accepted runs st \<Longrightarrow> splits runs misses hits \<Longrightarrow> dom (es_results st') = dom (es_results st) \<union> set hits \<Longrightarrow>
     left_over accepted misses st'"
  by (rule left_over_narrowed)

lemma cache_phase_inv:
  assumes inv: "phase_inv accepted runs st" and "es_cache st = no_cache" and cache: "cache_phase cfg used runs st = (runs', st')"
  shows "phase_inv accepted runs' st' \<and> same_run_of st st' \<and> eh_writes (es_cache st') = 0
    \<and> (case used of None \<Rightarrow> es_cache st' = no_cache
        | Some c \<Rightarrow> eh_mode (es_cache st') = CacheModeOn
            \<and> eh_misses (es_cache st') = unexpected (expected_ids (Expect (Mutation cfg))) (map m_ID runs'))"
proof (cases used)
  case None
  then show ?thesis using assms by (simp add: cache_phase_def no_cache_def)
next
  case (Some c)
  let ?st = "st\<lparr>es_cache := (es_cache st)\<lparr>eh_mode := CacheModeOn\<rparr>\<rparr>"
  have "results_ok st" using inv by (simp add: phase_inv_def)
  then have on: "results_ok ?st" unfolding results_ok_def using measured_ok_cached by simp blast
  have cov: "coverage_ok rs ?st = coverage_ok rs st" for rs by (simp add: coverage_ok_def covering_tests_def)
  have i: "coverage_ok runs st" "left_over accepted runs st" "left_over accepted runs ?st" "distinct (map m_ID runs)"
    using inv by (simp_all add: phase_inv_def left_over_def)
  have "lookup_runs c (expected_ids (Expect (Mutation cfg))) runs ?st = (runs', st')"
    using cache Some by (simp add: cache_phase_def)
  from lookup_runs_inv [OF on cov i(1) _ this i(4)] obtain hits where
    l: "results_ok st'" "es_coverage st' = es_coverage st" "eh_mode (es_cache st') = CacheModeOn"
      "eh_writes (es_cache st') = 0" "same_run_of st st'"
      "eh_misses (es_cache st') = unexpected (expected_ids (Expect (Mutation cfg))) (map m_ID runs')"
      "splits runs runs' hits" "set runs' \<subseteq> set runs" "dom (es_results st') = dom (es_results st) \<union> set hits"
    using assms(2) by (auto simp: no_cache_def same_run_of_def)
  have "coverage_ok runs' st'" using i(1) l(2,8) by (auto simp: coverage_ok_def covering_tests_def)
  then show ?thesis using l splits_left_over [OF i(2) l(7,9)] Some by (simp add: phase_inv_def)
qed

text \<open>
  What the phases need of the results of the scheduler: they rest on attempts (\<open>justified\<close>, which
  every result of the scheduler is), and every attempt is one that \<open>run_one\<close> can return.
\<close>

definition attempt_ok :: "mutant_run \<Rightarrow> attempt \<Rightarrow> bool" where
  "attempt_ok m a \<longleftrightarrow> outcome_valid (Outcome a) \<and> (if MemoryExceeded a then Outcome a = OutcomeKilled else True)
     \<and> (if m_Tests m = [] then Tests a = [] else True)"

definition result_sound :: "mutant_run \<Rightarrow> mutant_result \<Rightarrow> bool" where
  "result_sound m r \<longleftrightarrow> justified m r \<and> list_all (attempt_ok m) (Attempts r)"

lemma outcome_names_valid [simp]:
  "outcome_valid OutcomeNotRun" "outcome_valid OutcomeKilled" "outcome_valid OutcomeSurvived"
  "outcome_valid OutcomeTimedOut" "outcome_valid OutcomeInconclusive" "outcome_valid OutcomeErrored"
  by (simp_all add: outcome_valid_iff outcomes_def)

lemma result_sound_final:
  assumes "result_sound m r"
  shows "mr_ID r = m_ID m" and "outcome_valid (Final r)"
  using assms by (auto simp: result_sound_def justified_def attempt_ok_def second_opinion_def split: list.splits if_splits)

lemma executions_from_ok:
  "executions_from n as = Some xs \<Longrightarrow> list_all (attempt_ok m) as \<Longrightarrow>
     length xs = length as \<and> check_execution_list xs = None
     \<and> (m_Tests m = [] \<longrightarrow> list_all (\<lambda>x. x_Tests x = []) xs)"
proof (induction as arbitrary: n xs)
  case Nil
  then show ?case by simp
next
  case (Cons a as)
  then obtain out ys where out: "row_outcome_of (Outcome a) = Inr out" "observed out"
    and ys: "executions_from (n + 1) as = Some ys"
    and xs: "xs = \<lparr>x_Attempt = n, x_Worker = Worker a, x_Outcome = out, x_KilledBy = KilledBy a,
                   x_DurationMS = duration_ms (Duration a), x_Binaries = RunMutant.Binaries a,
                   x_Tests = test_refs_of (Tests a), x_MemoryExceeded = MemoryExceeded a,
                   x_Diverged = Diverged a, x_PeakMemoryBytes = PeakMemory a\<rparr> # ys"
    by (auto split: sum.splits option.splits if_splits)
  have a: "MemoryExceeded a \<Longrightarrow> Outcome a = OutcomeKilled" "m_Tests m = [] \<Longrightarrow> Tests a = []"
    using Cons.prems(2) by (auto simp: attempt_ok_def)
  have "MemoryExceeded a \<Longrightarrow> out = RowKilled" using a(1) out(1) row_outcome_of_names(1) by simp
  moreover have "test_refs_of [] = []" by (simp add: test_refs_of_def)
  ultimately show ?case using Cons.IH [OF ys] Cons.prems(2) out(2) a(2) by (auto simp: xs)
qed

lemma measured_of_ok:
  assumes r: "result_sound m r" and cov: "covm \<noteq> CoverageTest \<longrightarrow> m_Tests m = [] \<and> covering_tests st (mr_ID r) = []"
  shows "measured_ok covm cachem (measured_of st r)"
proof -
  have "executions_of_result r = [] \<or> executions_from 1 (Attempts r) = Some (executions_of_result r) \<and> Final r \<noteq> OutcomeNotRun"
    by (auto simp: executions_of_result_def split: option.splits)
  then have x: "executions_of_result r = [] \<or> Final r \<noteq> OutcomeNotRun \<and> length (executions_of_result r) = length (Attempts r)"
    "check_execution_list (executions_of_result r) = None"
    "m_Tests m = [] \<longrightarrow> list_all (\<lambda>x. x_Tests x = []) (executions_of_result r)"
    using executions_from_ok [of 1 "Attempts r" "executions_of_result r" m] r by (auto simp: result_sound_def)
  then show ?thesis
    using result_sound_final(2) [OF r] cov by (auto simp: measured_ok_def measured_of_def measured_as_def)
qed

lemma measured_of_simps [simp]: "mo_ID (measured_of st r) = mr_ID r" "mo_NotRunReason (measured_of st r) = []"
  by (simp_all add: measured_of_def measured_as_def)

lemma collect_results_inv:
  assumes "list_all2 result_sound runs rs" and "results_ok st" and "coverage_ok runs st"
  shows "results_ok (collect_results rs st) \<and> dom (es_results (collect_results rs st)) = dom (es_results st) \<union> set (map m_ID runs)
    \<and> es_coverage (collect_results rs st) = es_coverage st \<and> es_cache (collect_results rs st) = es_cache st
    \<and> same_run_of st (collect_results rs st)"
  using assms
proof (induction runs rs arbitrary: st rule: list_all2_induct)
  case Nil
  then show ?case by (simp add: collect_results_def)
next
  case (Cons m ms r rs)
  let ?st = "record_result (measured_of st r) st"
  have cov: "coverage_ok ms ?st" using Cons.prems(2) by (simp add: coverage_ok_def covering_tests_def)
  have "measured_ok (result_mode (es_coverage st)) (state_mode (es_cache st)) (measured_of st r)"
    using Cons.hyps(1) Cons.prems(2) by (intro measured_of_ok) (auto simp: coverage_ok_def)
  then have "results_ok ?st" using Cons.prems(1) by (intro results_ok_record) simp_all
  from Cons.IH [OF this cov] show ?case
    using result_sound_final(1) [OF Cons.hyps(1)] by (auto simp: collect_results_def same_run_of_def)
qed

lemma store_outcome_simps:
  "es_results (store_outcome c expected st r) = es_results st" "es_coverage (store_outcome c expected st r) = es_coverage st"
  "eh_mode (es_cache (store_outcome c expected st r)) = eh_mode (es_cache st)"
  "eh_misses (es_cache (store_outcome c expected st r)) = eh_misses (es_cache st)"
  "same_run_of st' (store_outcome c expected st r) = same_run_of st' st"
  "eh_writes (es_cache (store_outcome c expected st r))
     = eh_writes (es_cache st) + (if mr_ID r \<notin> set expected \<and> cacheable (Final r)
         \<and> \<not> isl (cache_put (oc_Store c) (oc_Writes c (mr_ID r)) (mr_ID r) (entry_of_result r)) then 1 else 0)"
  by (auto simp: store_outcome_def split: sum.splits)

lemma store_outcomes_some:
  "es_results (foldl (store_outcome c expected) st rs) = es_results st
   \<and> es_coverage (foldl (store_outcome c expected) st rs) = es_coverage st
   \<and> eh_mode (es_cache (foldl (store_outcome c expected) st rs)) = eh_mode (es_cache st)
   \<and> eh_misses (es_cache (foldl (store_outcome c expected) st rs)) = eh_misses (es_cache st)
   \<and> same_run_of st' (foldl (store_outcome c expected) st rs) = same_run_of st' st
   \<and> eh_writes (es_cache st) \<le> eh_writes (es_cache (foldl (store_outcome c expected) st rs))
   \<and> eh_writes (es_cache (foldl (store_outcome c expected) st rs))
       \<le> eh_writes (es_cache st) + unexpected expected (map mr_ID rs)"
proof (induction rs arbitrary: st)
  case Nil
  then show ?case by (simp add: unexpected_def)
next
  case (Cons r rs)
  have n: "unexpected expected (map mr_ID (r # rs)) = (if mr_ID r \<in> set expected then 0 else 1) + unexpected expected (map mr_ID rs)"
    by (simp add: unexpected_def)
  show ?case using Cons.IH [of "store_outcome c expected st r"] unfolding n foldl_Cons store_outcome_simps
    by (auto split: if_splits)
qed

section \<open>The selection\<close>

lemma run_for_simps [simp]: "m_ID (run_for st timeout limit never i) = i" "m_Tests (run_for st timeout limit never i) = []"
  by (simp_all add: run_for_def)

lemma narrow_selection_filter: "\<exists>P. narrow_selection st ids = filter P ids"
  unfolding narrow_selection_def on_changed_lines_def owned_by_shard_def Let_def
  by (auto split: option.splits intro: exI [of _ "\<lambda>i. True"])

text \<open>The reason that the selection records for a mutant that it leaves out.\<close>

definition left_out_reason :: "shard option \<Rightarrow> string \<Rightarrow> not_run_reason" where
  "left_out_reason s i =
     (case s of None \<Rightarrow> NotRunOutOfSelection
      | Some s \<Rightarrow> if shard_owns s i then NotRunOutOfSelection else NotRunOtherShard)"

lemma record_not_run_fields:
  "es_notRun (record_not_run accepted runs st)
     = (\<lambda>i. if i \<in> set accepted \<and> i \<notin> set (map m_ID runs) then Some (left_out_reason (es_shard st) i) else es_notRun st i)
   \<and> es_shard (record_not_run accepted runs st) = es_shard st
   \<and> es_results (record_not_run accepted runs st) = es_results st \<and> es_cache (record_not_run accepted runs st) = es_cache st
   \<and> es_catalog (record_not_run accepted runs st) = es_catalog st \<and> es_changed (record_not_run accepted runs st) = es_changed st
   \<and> es_selected (record_not_run accepted runs st) = es_selected st
   \<and> es_coverage (record_not_run accepted runs st) = es_coverage st"
  unfolding record_not_run_def Let_def
proof (induction accepted arbitrary: st)
  case (Cons i ids)
  show ?case
    unfolding foldl_Cons by (simp only: Cons.IH) (auto simp: fun_eq_iff left_out_reason_def split: option.splits)
qed simp

text \<open>The mutants that the options choose.\<close>

definition chosen :: "engine_options \<Rightarrow> string list \<Rightarrow> engine_state \<Rightarrow> string list" where
  "chosen opts accepted st =
     narrow_selection st
       (if eo_MutantPrefix opts = [] then accepted
        else (case resolve_prefix (es_catalog st) (eo_MutantPrefix opts) of
                Inl e \<Rightarrow> [] | Inr m \<Rightarrow> if ID m \<in> set accepted then [ID m] else []))"

lemma chosen_accepted:
  assumes "distinct accepted"
  shows "set (chosen opts accepted st) \<subseteq> set accepted" and "distinct (chosen opts accepted st)"
proof -
  let ?ids = "if eo_MutantPrefix opts = [] then accepted
        else (case resolve_prefix (es_catalog st) (eo_MutantPrefix opts) of
                Inl e \<Rightarrow> [] | Inr m \<Rightarrow> if ID m \<in> set accepted then [ID m] else [])"
  obtain P where "chosen opts accepted st = filter P ?ids"
    using narrow_selection_filter [of st ?ids] unfolding chosen_def by blast
  moreover have "set ?ids \<subseteq> set accepted" "distinct ?ids" using assms by (auto split: sum.splits)
  ultimately show "set (chosen opts accepted st) \<subseteq> set accepted" "distinct (chosen opts accepted st)" by auto
qed

lemma selection_runs_cases:
  "selection_runs opts accepted timeout limit never st =
     (if eo_MutantPrefix opts \<noteq> [] \<and> isl (resolve_prefix (es_catalog st) (eo_MutantPrefix opts))
      then Inl (projl (resolve_prefix (es_catalog st) (eo_MutantPrefix opts)))
      else (let runs = map (run_for st timeout limit never) (chosen opts accepted st)
            in Inr (runs, record_not_run accepted runs (st\<lparr>es_selected := int (length runs)\<rparr>))))"
  by (cases "resolve_prefix (es_catalog st) (eo_MutantPrefix opts)") (auto simp: selection_runs_def chosen_def Let_def)

lemma selection_fresh:
  assumes "selection_runs opts accepted timeout limit never st = Inr (runs, st')" and "fresh st" and "distinct accepted"
  shows "left_over accepted runs st'" and "fresh st'" and "\<forall>r \<in> set runs. m_Tests r = []"
    and "map m_ID runs = chosen opts accepted st" and "es_selected st' = int (length runs)"
    and "es_catalog st' = es_catalog st" and "es_changed st' = es_changed st" and "es_shard st' = es_shard st"
    and "es_notRun st' = (\<lambda>i. if i \<in> set accepted \<and> i \<notin> set (chosen opts accepted st)
           then Some (left_out_reason (es_shard st) i) else es_notRun st i)"
proof -
  let ?runs = "map (run_for st timeout limit never) (chosen opts accepted st)"
  have r: "runs = ?runs" and st': "st' = record_not_run accepted ?runs (st\<lparr>es_selected := int (length ?runs)\<rparr>)"
    using assms(1) unfolding selection_runs_cases by (auto simp: Let_def split: if_splits)
  have f: "es_notRun st' = (\<lambda>i. if i \<in> set accepted \<and> i \<notin> set (map m_ID ?runs)
           then Some (left_out_reason (es_shard st) i) else es_notRun st i)"
    "es_shard st' = es_shard st" "es_results st' = es_results st" "es_cache st' = es_cache st"
    "es_catalog st' = es_catalog st" "es_changed st' = es_changed st" "es_selected st' = int (length ?runs)"
    "es_coverage st' = es_coverage st"
    unfolding st' using record_not_run_fields [of accepted ?runs "st\<lparr>es_selected := int (length ?runs)\<rparr>"]
    by (simp_all cong: if_cong)
  have ids: "map m_ID runs = chosen opts accepted st" by (simp add: r o_def)
  show "map m_ID runs = chosen opts accepted st" by (rule ids)
  show "fresh st'" using f assms(2) by (simp add: fresh_def)
  then show "left_over accepted runs st'"
    using chosen_accepted [OF assms(3)] unfolding left_over_def ids fresh_def by auto
  show "\<forall>r \<in> set runs. m_Tests r = []" by (simp add: r)
  show "es_selected st' = int (length runs)" "es_catalog st' = es_catalog st" "es_changed st' = es_changed st"
    "es_shard st' = es_shard st"
    "es_notRun st' = (\<lambda>i. if i \<in> set accepted \<and> i \<notin> set (chosen opts accepted st)
           then Some (left_out_reason (es_shard st) i) else es_notRun st i)"
    using f unfolding ids [unfolded r] by (simp_all add: r)
qed

end
