(* ===== verification/EngineReport.thy ===== *)
theory EngineReport
  imports EngineFacts
begin

text \<open>
  A run gets its report: what the phases of the engine hand over is accepted by \<open>Build\<close>, and the
  document states the selection.
\<close>

section \<open>A run gets its report\<close>

text \<open>
  The state in which a run reaches its report: what the phases settled and measured can be
  published, and as many outcomes were stored at most as were looked for in vain.
\<close>

definition ended :: "string list \<Rightarrow> engine_state \<Rightarrow> bool" where
  "ended accepted st \<longleftrightarrow> dom (es_results st) \<subseteq> set accepted \<and> results_ok st \<and> coverage_ok [] st
     \<and> cache_mode_valid (state_mode (es_cache st)) \<and> 0 \<le> eh_writes (es_cache st)
     \<and> eh_writes (es_cache st) \<le> eh_misses (es_cache st)
     \<and> (state_mode (es_cache st) = CacheModeOff \<longrightarrow> eh_misses (es_cache st) = 0)"

lemma unexpected_cong: "map f xs = map g ys \<Longrightarrow> unexpected e (map f xs) = unexpected e (map g ys)"
  by simp

lemma same_run_of_trans: "same_run_of a b \<Longrightarrow> same_run_of b c \<Longrightarrow> same_run_of a c"
  by (simp add: same_run_of_def)

lemma phase_inv_ended:
  assumes "phase_inv accepted runs st" and "es_cache st = no_cache"
  shows "ended accepted st"
proof -
  have "state_mode no_cache = CacheModeOff" "eh_misses no_cache = 0" "eh_writes no_cache = 0"
    by (simp_all add: no_cache_def state_mode_def)
  moreover have "coverage_ok [] st" using assms(1) unfolding phase_inv_def coverage_ok_def by simp
  ultimately show ?thesis
    using assms by (auto simp: phase_inv_def left_over_def ended_def cache_mode_valid_def cache_modes_def)
qed

lemma fresh_ended: "fresh st \<Longrightarrow> ended accepted st"
  by (rule phase_inv_ended [of _ "[]"]) (auto simp: phase_inv_def left_over_def results_ok_def fresh_def coverage_ok_def
      covering_tests_def no_coverage_def [symmetric], simp_all add: no_coverage_def)

text \<open>The last phase: the cache answers, the scheduler runs the rest, outcomes are stored.\<close>

lemma executed_ended:
  assumes inv: "phase_inv accepted runs st" and cache: "es_cache st = no_cache" and p: "cache_phase cfg used runs st = (runs', st')"
    and sched: "list_all2 result_sound runs' rs"
  shows "ended accepted (store_outcomes cfg used rs (collect_results rs st'))
    \<and> same_run_of st (store_outcomes cfg used rs (collect_results rs st'))"
proof -
  note i3 = cache_phase_inv [OF inv cache p]
  let ?st4 = "collect_results rs st'"
  let ?st5 = "store_outcomes cfg used rs ?st4"
  have i4: "results_ok ?st4 \<and> dom (es_results ?st4) = dom (es_results st') \<union> set (map m_ID runs')
      \<and> es_coverage ?st4 = es_coverage st' \<and> es_cache ?st4 = es_cache st' \<and> same_run_of st' ?st4"
    using i3 by (intro collect_results_inv [OF sched]) (auto simp: phase_inv_def)
  have ids: "map mr_ID rs = map m_ID runs'"
    using sched by (intro nth_equalityI) (auto simp: list_all2_conv_all_nth result_sound_final(1))
  have sub: "dom (es_results ?st4) \<subseteq> set accepted" "coverage_ok [] ?st4"
    using i3 i4 by (auto simp: phase_inv_def left_over_def coverage_ok_def covering_tests_def)
  have same: "same_run_of st ?st4" using i3 i4 same_run_of_trans by blast
  show ?thesis
  proof (cases used)
    case None
    then have "?st5 = ?st4" "es_cache ?st4 = no_cache" using i3 i4 by (simp_all add: store_outcomes_def)
    then show ?thesis using i4 sub same
      by (simp add: ended_def cache_mode_valid_def cache_modes_def) (simp add: no_cache_def)
  next
    case (Some c)
    let ?e = "expected_ids (Expect (Mutation cfg))"
    have s: "eh_mode (es_cache ?st4) = CacheModeOn" "eh_writes (es_cache ?st4) = 0"
      "eh_misses (es_cache ?st4) = unexpected ?e (map mr_ID rs)"
      using i3 i4 Some by (simp_all add: ids)
    have st5: "?st5 = foldl (store_outcome c ?e) ?st4 rs" by (simp add: store_outcomes_def Some)
    note f = store_outcomes_some [of c ?e ?st4 rs, folded st5]
    have "results_ok ?st5" using i4 f results_ok_same by blast
    moreover have "coverage_ok [] ?st5" using sub(2) f by (simp add: coverage_ok_def covering_tests_def)
    moreover have "state_mode (es_cache ?st5) = CacheModeOn" using f s(1) by simp
    moreover have "CacheModeOn \<noteq> CacheModeOff" "cache_mode_valid CacheModeOn"
      by (simp_all add: cache_names cache_mode_valid_def cache_modes_def)
    ultimately show ?thesis unfolding ended_def using f s sub(1) same by auto
  qed
qed

lemma mutate_phases_ended:
  assumes "left_over accepted runs st" and "fresh st" and "\<forall>r \<in> set runs. m_Tests r = []"
    and sched: "\<And>ms. list_all2 result_sound ms (fst (ew_Schedule W ms))"
    and run: "mutate_phases cfg command W coverPkg bins runs st = (err, st')"
  shows "ended accepted st' \<and> same_run_of st st'"
proof -
  obtain e1 runs1 st1 where p1: "(if coverPkg \<noteq> []
      then coverage_phase (Narrowing (TestSec cfg)) (ew_ModulePath W) (ew_Coverage W) bins runs st
      else (None, runs, st)) = (e1, runs1, st1)" by (rule prod_cases3)
  have i1: "phase_inv accepted runs1 st1 \<and> es_cache st1 = no_cache \<and> same_run_of st st1"
    using p1 coverage_phase_inv [OF assms(1-3)] fresh_phase_inv [OF assms(1-3)] assms(2)
    by (auto simp: fresh_def same_run_of_def split: if_split_asm)
  show ?thesis
  proof (cases e1)
    case (Some f)
    then have "st' = st1" using run p1 by (simp add: mutate_phases_def)
    then show ?thesis using i1 phase_inv_ended by blast
  next
    case None
    obtain e2 runs2 st2 where p2: "(if Probing (TestSec cfg) = ProbingOn
        then probe_phase (ew_Probes W) (ew_Passes W) bins runs1 st1 else (None, runs1, st1)) = (e2, runs2, st2)"
      by (rule prod_cases3)
    have i2: "phase_inv accepted runs2 st2 \<and> es_cache st2 = no_cache \<and> same_run_of st1 st2"
      using i1 p2 probe_phase_inv [of accepted runs1 st1] by (auto split: if_split_asm)
    have same: "same_run_of st st2" using i1 i2 same_run_of_trans by blast
    show ?thesis
    proof (cases e2)
      case (Some f)
      then have "st' = st2" using run p1 p2 None by (simp add: mutate_phases_def)
      then show ?thesis using i2 same phase_inv_ended by blast
    next
      case none2: None
      let ?used = "cache_of_run cfg command (ew_Cache W)"
      obtain runs3 st3 where p3: "cache_phase cfg ?used runs2 st2 = (runs3, st3)" by fastforce
      have "st' = store_outcomes cfg ?used (fst (ew_Schedule W runs3)) (collect_results (fst (ew_Schedule W runs3)) st3)"
        using run p1 p2 p3 None none2 by (simp add: mutate_phases_def Let_def split: prod.split_asm)
      moreover have "phase_inv accepted runs2 st2" "es_cache st2 = no_cache" using i2 by blast+
      ultimately show ?thesis using executed_ended [OF _ _ p3 sched] same same_run_of_trans by blast
    qed
  qed
qed

lemma published_ids: "map mo_ID (published_results st rejections)
    = map ID (filter (\<lambda>m. ID m \<notin> set (map rn_ID rejections)) (mutants (es_catalog st)))"
  if "results_ok st"
  using that by (auto simp: published_results_def results_ok_def measured_as_def split: option.splits)

definition reasons_ok :: "engine_state \<Rightarrow> bool" where
  "reasons_ok st \<longleftrightarrow> (\<forall>i reason. es_notRun st i = Some reason \<longrightarrow> not_run_reason_valid reason)"

lemma reason_names_valid [simp]:
  "not_run_reason_valid NotRunInterrupted" "not_run_reason_valid NotRunOtherShard" "not_run_reason_valid NotRunOutOfSelection"
  by (simp_all add: not_run_reason_valid_def not_run_reasons_def)

lemma published_ok:
  assumes "results_ok st" and "reasons_ok st" and r: "r \<in> set (published_results st rejections)"
  shows "measured_ok (result_mode (es_coverage st)) (state_mode (es_cache st)) r \<and> reason_ok r"
proof -
  obtain i where i: "r = (case es_results st i of
      None \<Rightarrow> (measured_as i OutcomeNotRun)\<lparr>mo_NotRunReason := not_run_reason_for st i\<rparr>
    | Some r \<Rightarrow> if mo_Outcome r = OutcomeNotRun \<and> mo_NotRunReason r = []
        then r\<lparr>mo_NotRunReason := NotRunInterrupted\<rparr> else r)"
    using r by (auto simp: published_results_def)
  have reason: "not_run_reason_valid (not_run_reason_for st i)"
    using assms(2) by (auto simp: not_run_reason_for_def reasons_ok_def split: option.splits)
  show ?thesis
  proof (cases "es_results st i")
    case None
    then show ?thesis using i reason not_run_ok by (simp add: reason_ok_def measured_as_def)
  next
    case (Some x)
    then have x: "mo_NotRunReason x = []" "measured_ok (result_mode (es_coverage st)) (state_mode (es_cache st)) x"
      using assms(1) by (auto simp: results_ok_def)
    then have "measured_ok (result_mode (es_coverage st)) (state_mode (es_cache st)) (x\<lparr>mo_NotRunReason := reason\<rparr>)" for reason
      by (simp add: measured_ok_def)
    then show ?thesis using i Some x by (simp add: reason_ok_def)
  qed
qed

lemma display_index_parts:
  "es_catalog (discovered_state opts changed c located) = c"
  "es_shard (discovered_state opts changed c located) = shard_of_options opts"
  "es_changed (discovered_state opts changed c located) = changed"
  "es_notRun (discovered_state opts changed c located) = Map.empty"
  "fresh (discovered_state opts changed c located)"
  by (simp_all add: discovered_state_def fresh_def split: prod.splits)

text \<open>The mutants a run chose: none when it was stopped before the selection.\<close>

definition chosen_by :: "engine_options \<Rightarrow> changed option \<Rightarrow> catalog \<Rightarrow> located list \<Rightarrow> engine_world \<Rightarrow> string list" where
  "chosen_by opts changed c located W = chosen opts (ew_Accepted W) (discovered_state opts changed c located)"

text \<open>The state in which a run that is published leaves the engine, whatever phase it ended in.\<close>

definition left_as :: "engine_options \<Rightarrow> changed option \<Rightarrow> catalog \<Rightarrow> string list \<Rightarrow> engine_state \<Rightarrow> bool" where
  "left_as opts changed c selected st \<longleftrightarrow>
     ended selected st \<and> es_catalog st = c \<and> es_changed st = changed \<and> es_shard st = shard_of_options opts
     \<and> es_selected st = int (length selected)"

lemma run_engine_stopped:
  assumes "run_engine opts cfg command changed c located W = (err, st)" and "before_selection cfg W = Some f"
  shows "err = Some (PhaseError f)" and "left_as opts changed c [] st" and "es_notRun st = Map.empty"
proof -
  have st: "st = discovered_state opts changed c located" and "err = Some (PhaseError f)"
    using assms by (simp_all add: run_engine_def)
  then show "err = Some (PhaseError f)" "es_notRun st = Map.empty" by (simp_all add: display_index_parts)
  have "es_selected st = 0" by (simp add: st discovered_state_def split: prod.split)
  then show "left_as opts changed c [] st"
    using fresh_ended [OF display_index_parts(5)] by (simp add: left_as_def st display_index_parts)
qed

lemma run_engine_selected:
  assumes run: "run_engine opts cfg command changed c located W = (err, st)" and "before_selection cfg W = None"
    and published: "published_as err \<noteq> None" and da: "distinct (ew_Accepted W)"
    and sched: "\<And>ms. list_all2 result_sound ms (fst (ew_Schedule W ms))"
  defines "selected \<equiv> chosen_by opts changed c located W"
  shows "left_as opts changed c selected st"
    and "es_notRun st = (\<lambda>i. if i \<in> set (ew_Accepted W) \<and> i \<notin> set selected
           then Some (left_out_reason (shard_of_options opts) i) else None)"
proof -
  have "\<exists>runs st0. selection_runs opts (ew_Accepted W) (ew_Timeout W) (ew_Memory W) (ew_NeverReturns W)
      (discovered_state opts changed c located) = Inr (runs, st0)
      \<and> (st = st0 \<or> (\<exists>coverPkg bins e. mutate_phases cfg command W coverPkg bins runs st0 = (e, st)))"
    using run published assms(2)
    by (auto simp: run_engine_def published_as_def Let_def split: sum.split_asm prod.split_asm option.split_asm if_split_asm)
  then obtain runs st0 where sel: "selection_runs opts (ew_Accepted W) (ew_Timeout W) (ew_Memory W) (ew_NeverReturns W)
      (discovered_state opts changed c located) = Inr (runs, st0)"
    and st: "st = st0 \<or> (\<exists>coverPkg bins e. mutate_phases cfg command W coverPkg bins runs st0 = (e, st))" by blast
  note f = selection_fresh [OF sel display_index_parts(5) da, unfolded display_index_parts]
  have "left_over selected runs st0"
    using f(1,2,4) by (simp add: left_over_def fresh_def selected_def chosen_by_def)
  then have e: "ended selected st \<and> same_run_of st0 st"
    using st mutate_phases_ended [OF _ f(2,3) sched] fresh_ended [OF f(2)] by (auto simp: same_run_of_def)
  have "length selected = length runs" using f(4) by (metis length_map selected_def chosen_by_def)
  then show "left_as opts changed c selected st"
    "es_notRun st = (\<lambda>i. if i \<in> set (ew_Accepted W) \<and> i \<notin> set selected
           then Some (left_out_reason (shard_of_options opts) i) else None)"
    using f(5-9) e by (simp_all add: left_as_def same_run_of_def selected_def chosen_by_def)
qed

text \<open>What the engine knows of the run it started: the facts that \<open>Build\<close> checks on its own.\<close>

definition facts_ok :: "engine_options \<Rightarrow> changed option \<Rightarrow> report_options \<Rightarrow> bool" where
  "facts_ok opts changed facts \<longleftrightarrow>
     check_identity facts = None \<and> check_memory facts = None \<and> test_command facts \<noteq> Inl ErrInvalidTestCommand
     \<and> (if sh_Total (eo_Shard opts) > 0 then 1 \<le> sh_Index (eo_Shard opts) \<and> sh_Index (eo_Shard opts) \<le> sh_Total (eo_Shard opts)
        else True)
     \<and> (if eo_Changed opts then (case changed of None \<Rightarrow> False | Some ch \<Rightarrow> Ref ch \<noteq> []) else True)"

text \<open>
  The catalogue is located in the module; and validation, unless it fails for another reason than
  an interruption, accepts or rejects every mutant of it once.
\<close>

definition world_ok :: "catalog \<Rightarrow> report_options \<Rightarrow> engine_world \<Rightarrow> bool" where
  "world_ok c facts W \<longleftrightarrow>
     (case ew_Validation W of
        Some f \<Rightarrow> (if interrupted f then mset (ew_Accepted W @ map rn_ID (ew_Rejections W)) = mset (map ID (mutants c)) else True)
      | None \<Rightarrow> mset (ew_Accepted W @ map rn_ID (ew_Rejections W)) = mset (map ID (mutants c)))
     \<and> list_all (\<lambda>m. c_ModulePath (m_candidate m) = op_Module facts
          \<and> locate (op_Located facts) (key_of_candidate (m_candidate m)) \<noteq> None) (mutants c)"

definition judged :: "catalog \<Rightarrow> engine_world \<Rightarrow> bool" where
  "judged c W \<longleftrightarrow> mset (ew_Accepted W @ map rn_ID (ew_Rejections W)) = mset (map ID (mutants c))"

lemma judged_ids:
  assumes "judged c W"
  shows "set (ew_Accepted W) \<union> set (map rn_ID (ew_Rejections W)) = set (map ID (mutants c))"
    and "distinct (map ID (mutants c)) \<Longrightarrow> distinct (ew_Accepted W @ map rn_ID (ew_Rejections W))"
  using assms mset_eq_setD [of "ew_Accepted W @ map rn_ID (ew_Rejections W)" "map ID (mutants c)"]
    mset_eq_imp_distinct_iff unfolding judged_def set_append by blast+

lemma published_judged:
  assumes "world_ok c facts W" and "run_engine opts cfg command changed c located W = (err, st)"
    and "published_as err \<noteq> None"
  shows "judged c W"
proof (cases "ew_Validation W")
  case (Some f)
  then have "before_selection cfg W = Some f" by (simp add: before_selection_def)
  then have "interrupted f" using assms(3) run_engine_stopped(1) [OF assms(2)] by (auto simp: published_as_def split: if_split_asm)
  then show ?thesis using assms(1) Some by (simp add: world_ok_def judged_def)
qed (use assms(1) in \<open>simp add: world_ok_def judged_def\<close>)

lemma publish_simps [simp]:
  "check_identity facts = None \<Longrightarrow> run_status_valid status \<Longrightarrow>
     check_identity (publish_options opts status st rejections facts) = None"
  "check_memory (publish_options opts status st rejections facts) = check_memory facts"
  "test_command (publish_options opts status st rejections facts) = test_command facts"
  "op_Module (publish_options opts status st rejections facts) = op_Module facts"
  "op_Located (publish_options opts status st rejections facts) = op_Located facts"
  "op_Catalog (publish_options opts status st rejections facts) = Some (es_catalog st)"
  "op_Results (publish_options opts status st rejections facts) = published_results st rejections"
  "op_Rejections (publish_options opts status st rejections facts) = rejections"
  "op_Status (publish_options opts status st rejections facts) = status"
  by (auto simp: publish_options_def check_identity_def check_memory_def test_command_def split: if_split_asm)

lemma published_status: "published_as err = Some status \<Longrightarrow> run_status_valid status"
  by (auto simp: published_as_def run_status_valid_def run_statuses_def split: option.split_asm engine_error.split_asm if_split_asm)

lemma shard_of_publish:
  assumes "facts_ok opts changed facts" and "es_shard st = shard_of_options opts"
  shows "\<exists>sh. shard_of (publish_options opts status st rejections facts) = Inr sh"
  using assms by (auto simp: facts_ok_def shard_of_def publish_options_def shard_of_options_def Let_def split: if_splits)

lemma selection_of_publish:
  assumes f: "facts_ok opts changed facts" and st: "es_shard st = shard_of_options opts" "es_changed st = changed"
    and n: "0 \<le> es_selected st" "es_selected st \<le> n"
  shows "selection_of (publish_options opts status st rejections facts) n k \<noteq> Inl ErrInvalidSelection"
proof -
  have modes: "ModeAll \<noteq> []" "ModeShard \<noteq> []" "ModeChanged \<noteq> []" "ModeMutant \<noteq> []" "ModeShard \<noteq> ModeChanged"
    "ModeMutant \<noteq> ModeChanged" "ModeAll \<noteq> ModeChanged" "ModeChanged \<noteq> ModeShard" "ModeMutant \<noteq> ModeShard" "ModeAll \<noteq> ModeShard"
    "selection_mode_valid ModeAll" "selection_mode_valid ModeShard" "selection_mode_valid ModeChanged" "selection_mode_valid ModeMutant"
    by (simp_all add: mode_names selection_mode_valid_def selection_modes_def)
  have o: "op_Mode (publish_options opts status st rejections facts) = selection_mode_of opts"
    "op_Shard (publish_options opts status st rejections facts) = shard_of_options opts"
    "op_Selected (publish_options opts status st rejections facts) = es_selected st"
    "op_ChangedRef (publish_options opts status st rejections facts) = (case changed of None \<Rightarrow> [] | Some ch \<Rightarrow> Ref ch)"
    using st by (simp_all add: publish_options_def)
  show ?thesis
    using f n unfolding selection_of_def o Let_def selection_mode_of_def shard_of_options_def facts_ok_def
    by (auto simp: modes split: if_splits option.splits)
qed

lemma published_publishable:
  assumes ok: "catalog_ok c" and w: "world_ok c facts W" "judged c W" and e: "ended accepted st" and c: "es_catalog st = c"
    and reasons: "reasons_ok st"
  shows "publishable c (publish_options opts status st (ew_Rejections W) facts)"
proof -
  have r: "results_ok st" and v: "coverage_ok [] st" using e by (simp_all add: ended_def)
  have "distinct (map ID (mutants c))" using ok by (simp add: catalog_ok_def)
  then have d: "distinct (ew_Accepted W @ map rn_ID (ew_Rejections W))" by (rule judged_ids(2) [OF w(2)])
  note ids = judged_ids(1) [OF w(2)]
  have res: "set (map mo_ID (published_results st (ew_Rejections W)))
      = {i \<in> set (map ID (mutants c)). i \<notin> set (map rn_ID (ew_Rejections W))}"
    unfolding published_ids [OF r] c by (rule set_ids_filter)
  have "distinct (map mo_ID (published_results st (ew_Rejections W)))"
    unfolding published_ids [OF r] c using ok by (intro distinct_map_filter) (simp add: catalog_ok_def)
  moreover have "distinct (map rn_ID (ew_Rejections W))" using d by simp
  moreover have "set (map mo_ID (published_results st (ew_Rejections W))) \<inter> set (map rn_ID (ew_Rejections W)) = {}"
    "set (map mo_ID (published_results st (ew_Rejections W))) \<union> set (map rn_ID (ew_Rejections W)) = set (map ID (mutants c))"
    unfolding res using ids by auto
  moreover have "\<forall>x \<in> set (published_results st (ew_Rejections W)).
      measured_ok (result_mode (es_coverage st)) (state_mode (es_cache st)) x \<and> reason_ok x"
    using published_ok [OF r reasons] by blast
  moreover have "op_CoverageMode (publish_options opts status st (ew_Rejections W) facts) = result_mode (es_coverage st)"
    "op_CacheMode (publish_options opts status st (ew_Rejections W) facts) = state_mode (es_cache st)"
    "op_CoverageBinaries (publish_options opts status st (ew_Rejections W) facts) = er_binaries (es_coverage st)"
    "op_CoverageTests (publish_options opts status st (ew_Rejections W) facts) = er_tests (es_coverage st)"
    "op_CacheMisses (publish_options opts status st (ew_Rejections W) facts) = eh_misses (es_cache st)"
    "op_CacheWrites (publish_options opts status st (ew_Rejections W) facts) = eh_writes (es_cache st)"
    by (simp_all add: publish_options_def)
  moreover have "\<forall>m \<in> set (mutants c). c_ModulePath (m_candidate m) = op_Module facts
          \<and> locate (op_Located facts) (key_of_candidate (m_candidate m)) \<noteq> None"
    using w(1) unfolding world_ok_def list_all_iff by blast
  ultimately show ?thesis
    using e v unfolding publishable_def publish_simps ended_def coverage_ok_def by simp
qed

lemma built_row:
  assumes "build_report host opts = Inr r" and "w \<in> set (Mutants r)"
  shows "\<exists>x \<in> set (op_Results opts). mo_ID x = w_ID w \<and> not_run_reason_of x (w_Outcome w) = Inr (w_NotRunReason w)
     \<and> row_outcome_of (mo_Outcome x) = Inr (w_Outcome w)"
proof -
  obtain c found rejections p where p: "r = assemble host opts p" and idx: "indexed opts found rejections"
    and from': "rows_from opts c found rejections (pt_Rows p) (pt_Rejected p)"
    using build_report_parts [OF assms(1)] by metis
  then obtain m spot x where "found (w_ID w) = Some x" "measured_row m spot x = Inr w"
    using assms(2) unfolding rows_from_def by auto
  then show ?thesis using idx measured_row_Inr(3,4) unfolding indexed_def by metis
qed

lemma built_status: "build_report host opts = Inr r \<Longrightarrow> RunStatus r = op_Status opts"
  by (metis build_report_parts assemble_simps(10))

lemma selection_of_selected: "selection_of opts n k = Inr sel \<Longrightarrow> sel_Selected sel = op_Selected opts"
  by (auto simp: selection_of_def Let_def split: if_split_asm)

lemma built_selected:
  assumes "build_report host opts = Inr r"
  shows "sel_Selected (Selection r) = op_Selected opts"
proof -
  obtain c found rejections p where p: "r = assemble host opts p" and b: "built_from opts c found rejections p"
    using build_report_parts [OF assms] by metis
  have "selection_of opts (int (length (pt_Rows p)) + int (length (pt_Rejected p))) (int (length (pt_Rejected p)))
      = Inr (pt_Selection p)" using b unfolding built_from_def by blast
  then show ?thesis unfolding p assemble_simps by (rule selection_of_selected)
qed

text \<open>
  What a report says of the selection: how many mutants were selected, a selected one was not run
  only when the run was interrupted, and every other one was not run, with the reason of its exclusion.
\<close>

definition reports_selection :: "engine_options \<Rightarrow> string list \<Rightarrow> report \<Rightarrow> bool" where
  "reports_selection opts selected r \<longleftrightarrow>
     sel_Selected (Selection r) = int (length selected)
     \<and> list_all (\<lambda>w. if w_ID w \<in> set selected then w_NotRunReason w \<in> {None, Some NotRunInterrupted}
          else w_Outcome w = RowNotRun \<and> w_NotRunReason w = Some (left_out_reason (shard_of_options opts) (w_ID w)))
          (Mutants r)"

lemma left_out_valid: "not_run_reason_valid (left_out_reason s i)"
  by (simp add: left_out_reason_def split: option.split)

lemma published_reason:
  assumes r: "results_ok st" and x: "x \<in> set (published_results st rejections)"
    and row: "not_run_reason_of x out = Inr reason" "row_outcome_of (mo_Outcome x) = Inr out"
  shows "case es_results st (mo_ID x) of
      None \<Rightarrow> out = RowNotRun \<and> reason = Some (not_run_reason_for st (mo_ID x))
    | Some _ \<Rightarrow> reason \<in> {None, Some NotRunInterrupted}"
proof -
  obtain i where i: "x = (case es_results st i of
      None \<Rightarrow> (measured_as i OutcomeNotRun)\<lparr>mo_NotRunReason := not_run_reason_for st i\<rparr>
    | Some r \<Rightarrow> if mo_Outcome r = OutcomeNotRun \<and> mo_NotRunReason r = []
        then r\<lparr>mo_NotRunReason := NotRunInterrupted\<rparr> else r)"
    using x by (auto simp: published_results_def)
  have id: "mo_ID x = i" using r by (auto simp: i measured_as_def results_ok_def split: option.splits)
  show ?thesis
  proof (cases "es_results st i")
    case None
    then have "x = (measured_as i OutcomeNotRun)\<lparr>mo_NotRunReason := not_run_reason_for st i\<rparr>" using i by simp
    then show ?thesis
      using row None by (auto simp: id not_run_reason_of_def measured_as_def row_outcome_of_names text_opt_def Let_def split: if_splits)
  next
    case (Some y)
    then have "mo_NotRunReason y = []" using r by (simp add: results_ok_def)
    then have "mo_NotRunReason x \<in> {[], NotRunInterrupted}" using i Some by simp
    then have "reason \<in> {None, Some NotRunInterrupted}"
      using row(1) by (auto simp: not_run_reason_of_def text_opt_def Let_def split: if_splits)
    then show ?thesis using Some by (simp add: id)
  qed
qed

text \<open>A run that was stopped before the selection reports that nothing ran because of the interruption.\<close>

definition reports_nothing :: "report \<Rightarrow> bool" where
  "reports_nothing r \<longleftrightarrow> sel_Selected (Selection r) = 0
     \<and> list_all (\<lambda>w. w_Outcome w = RowNotRun \<and> w_NotRunReason w = Some NotRunInterrupted) (Mutants r)"

lemma left_reports:
  assumes ok: "catalog_ok c" and w: "world_ok c facts W" "judged c W" and f: "facts_ok opts changed facts"
    and left: "left_as opts changed c selected st" and sub: "set selected \<subseteq> set (ew_Accepted W)" "distinct selected"
    and reasons: "reasons_ok st" and status: "run_status_valid status"
  shows "\<exists>r. build_report host (publish_options opts status st (ew_Rejections W) facts) = Inr r
    \<and> RunStatus r = status \<and> sel_Selected (Selection r) = int (length selected)
    \<and> (\<forall>x \<in> set (Mutants r). w_ID x \<in> set (ew_Accepted W)
        \<and> (case es_results st (w_ID x) of
            None \<Rightarrow> w_Outcome x = RowNotRun \<and> w_NotRunReason x = Some (not_run_reason_for st (w_ID x))
          | Some _ \<Rightarrow> w_NotRunReason x \<in> {None, Some NotRunInterrupted}))"
proof -
  let ?opts = "publish_options opts status st (ew_Rejections W) facts"
  have e: "ended selected st" "es_catalog st = c" "es_changed st = changed" "es_shard st = shard_of_options opts"
    "es_selected st = int (length selected)" using left by (simp_all add: left_as_def)
  have dc: "distinct (map ID (mutants c))" using ok by (simp add: catalog_ok_def)
  note ids = judged_ids(1) [OF w(2)]
  have "card (set selected) \<le> card (set (map ID (mutants c)))"
    by (rule card_mono) (use sub(1) ids in auto)
  then have n: "0 \<le> es_selected st" "es_selected st \<le> int (length (mutants c))"
    unfolding e(5) using distinct_card [OF sub(2)] distinct_card [OF dc] by auto
  obtain command where "test_command facts = Inr command"
    using f by (cases "test_command facts") (auto simp: facts_ok_def test_command_def Let_def split: if_splits)
  moreover obtain sh where "shard_of ?opts = Inr sh" using shard_of_publish [OF f e(4)] by blast
  ultimately obtain d where d: "build_report host ?opts = Inr d"
    using publishable_built [OF published_publishable [OF ok w e(1,2) reasons] ok, of opts status command sh host]
      f selection_of_publish [OF f e(4,3) n] e(2) status by (auto simp: facts_ok_def)
  have r: "results_ok st" using e(1) by (simp add: ended_def)
  have "w_ID x \<in> set (ew_Accepted W) \<and> (case es_results st (w_ID x) of
      None \<Rightarrow> w_Outcome x = RowNotRun \<and> w_NotRunReason x = Some (not_run_reason_for st (w_ID x))
    | Some _ \<Rightarrow> w_NotRunReason x \<in> {None, Some NotRunInterrupted})" if x: "x \<in> set (Mutants d)" for x
  proof -
    obtain y where y: "y \<in> set (published_results st (ew_Rejections W))" "mo_ID y = w_ID x"
      "not_run_reason_of y (w_Outcome x) = Inr (w_NotRunReason x)" "row_outcome_of (mo_Outcome y) = Inr (w_Outcome x)"
      using built_row [OF d x] by auto
    have "w_ID x \<in> set (map mo_ID (published_results st (ew_Rejections W)))" using y(1,2) by (metis image_eqI set_map)
    then have "w_ID x \<in> set (ew_Accepted W)"
      unfolding published_ids [OF r] e(2) set_ids_filter [of "\<lambda>i. i \<notin> set (map rn_ID (ew_Rejections W))"]
      using ids by blast
    then show ?thesis using published_reason [OF r y(1,3,4), unfolded y(2)] by blast
  qed
  moreover have "RunStatus d = status" using built_status [OF d] by simp
  moreover have "sel_Selected (Selection d) = int (length selected)"
    using built_selected [OF d] e(5) by (simp add: publish_options_def)
  ultimately show ?thesis using d by blast
qed

lemma run_engine_error:
  assumes run: "run_engine opts cfg command changed c located W = (err, st)" and "published_as err = None"
  shows "case err of
            None \<Rightarrow> False
          | Some (PhaseError f) \<Rightarrow> \<not> interrupted f
          | Some (SelectionError e) \<Rightarrow> eo_MutantPrefix opts \<noteq> [] \<and> resolve_prefix c (eo_MutantPrefix opts) = Inl e
          | Some ScopeError \<Rightarrow> (case test_scope command of None \<Rightarrow> False | Some ps \<Rightarrow> narrowed_scope ps)"
proof (cases err)
  case (Some x)
  then show ?thesis
  proof (cases x)
    case (SelectionError e)
    then have "selection_runs opts (ew_Accepted W) (ew_Timeout W) (ew_Memory W) (ew_NeverReturns W)
        (discovered_state opts changed c located) = Inl e"
      using run Some by (auto simp: run_engine_def Let_def split: option.split_asm sum.split_asm prod.split_asm if_split_asm)
    then show ?thesis unfolding Some SelectionError
      by (cases "resolve_prefix c (eo_MutantPrefix opts)")
        (auto simp: selection_runs_cases display_index_parts Let_def split: if_split_asm)
  next
    case ScopeError
    then have "\<not> scoped_binaries (case test_scope command of None \<Rightarrow> [] | Some ps \<Rightarrow> ps) n" if "n = 0" for n
      using that run Some
      by (auto simp: run_engine_def Let_def scoped_binaries_def split: option.split_asm sum.split_asm prod.split_asm if_split_asm)
    then show ?thesis unfolding Some ScopeError
      by (cases "test_scope command") (auto simp: scoped_binaries_def narrowed_scope_def)
  qed (use assms(2) in \<open>auto simp: published_as_def split: if_split_asm\<close>)
qed (use assms(2) in \<open>simp add: published_as_def\<close>)

text \<open>A run that is published, whatever phase it ended in, is accepted and reports its selection.\<close>

lemma engine_reports:
  assumes ok: "catalog_ok c" and w: "world_ok c facts W" and f: "facts_ok opts changed facts"
    and sched: "\<And>ms. list_all2 result_sound ms (fst (ew_Schedule W ms))"
    and run: "run_engine opts cfg command changed c located W = (err, st)" and status: "published_as err = Some status"
  shows "\<exists>r. build_report host (publish_options opts status st (ew_Rejections W) facts) = Inr r \<and> RunStatus r = status
    \<and> (if before_selection cfg W = None then reports_selection opts (chosen_by opts changed c located W) r
        else reports_nothing r)"
proof -
  have j: "judged c W" using published_judged [OF w run] status by simp
  have "distinct (map ID (mutants c))" using ok by (simp add: catalog_ok_def)
  then have da: "distinct (ew_Accepted W)" using judged_ids(2) [OF j] by simp
  note valid = published_status [OF status]
  show ?thesis
  proof (cases "before_selection cfg W")
    case (Some x)
    note st = run_engine_stopped(2,3) [OF run Some]
    have "reasons_ok st" by (simp add: reasons_ok_def st(2))
    from left_reports [OF ok w j f st(1) _ _ this valid, where host = host] obtain r where
      r: "build_report host (publish_options opts status st (ew_Rejections W) facts) = Inr r" "RunStatus r = status"
      "sel_Selected (Selection r) = 0"
      and rows: "\<forall>x \<in> set (Mutants r). case es_results st (w_ID x) of
          None \<Rightarrow> w_Outcome x = RowNotRun \<and> w_NotRunReason x = Some (not_run_reason_for st (w_ID x))
        | Some _ \<Rightarrow> w_NotRunReason x \<in> {None, Some NotRunInterrupted}"
      by auto
    have "es_results st = Map.empty" using st(1) by (auto simp: left_as_def ended_def)
    then have "list_all (\<lambda>x. w_Outcome x = RowNotRun \<and> w_NotRunReason x = Some NotRunInterrupted) (Mutants r)"
      using rows st(2) by (simp add: list_all_iff not_run_reason_for_def)
    then show ?thesis using Some r by (simp add: reports_nothing_def)
  next
    case None
    let ?chosen = "chosen_by opts changed c located W"
    note st = run_engine_selected [OF run None _ da sched]
    have p: "published_as err \<noteq> None" using status by simp
    have "reasons_ok st" unfolding reasons_ok_def st(2) [OF p] using left_out_valid by auto
    moreover have "set ?chosen \<subseteq> set (ew_Accepted W)" "distinct ?chosen"
      unfolding chosen_by_def using chosen_accepted [OF da] by blast+
    ultimately obtain r where
      r: "build_report host (publish_options opts status st (ew_Rejections W) facts) = Inr r" "RunStatus r = status"
      "sel_Selected (Selection r) = int (length ?chosen)"
      and rows: "\<forall>x \<in> set (Mutants r). w_ID x \<in> set (ew_Accepted W) \<and> (case es_results st (w_ID x) of
          None \<Rightarrow> w_Outcome x = RowNotRun \<and> w_NotRunReason x = Some (not_run_reason_for st (w_ID x))
        | Some _ \<Rightarrow> w_NotRunReason x \<in> {None, Some NotRunInterrupted})"
      using left_reports [OF ok w j f st(1) [OF p] _ _ _ valid, where host = host] by blast
    have dom: "dom (es_results st) \<subseteq> set ?chosen" using st(1) [OF p] by (simp add: left_as_def ended_def)
    have "if w_ID x \<in> set ?chosen then w_NotRunReason x \<in> {None, Some NotRunInterrupted}
        else w_Outcome x = RowNotRun \<and> w_NotRunReason x = Some (left_out_reason (shard_of_options opts) (w_ID x))"
      if x: "x \<in> set (Mutants r)" for x
      using bspec [OF rows x] dom
      by (auto simp: not_run_reason_for_def st(2) [OF p] split: option.split_asm)
    then have "reports_selection opts ?chosen r" using r(3) unfolding reports_selection_def list_all_iff by blast
    then show ?thesis using None r by simp
  qed
qed

text \<open>
  C4. A run that ends or is interrupted gets its report. Given a catalogue whose mutants validation
  judged once each and discovery located in the module, and a scheduler whose results rest on
  their attempts: however a run ends, in whatever phase after discovery and whatever validation,
  baseline, builds, coverage, probe, cache and scheduler answer, when it completes or is
  interrupted, what it hands over is accepted by \<open>Build\<close>. The document has the status of the run
  and states its selection: the size, and for each mutant left out that it was not run and why; a
  run interrupted before the selection says of every mutant that it was interrupted. A run without
  a report ended with an error that is no interruption: one of the outside, a prefix that does not
  resolve, or a scope without tests.
\<close>

theorem run_gets_report:
  assumes "catalog_ok c" and "world_ok c facts W" and "facts_ok opts changed facts"
    and "\<And>ms. list_all2 result_sound ms (fst (ew_Schedule W ms))"
  shows "case run_engine opts (op_Config facts) command changed c (op_Located facts) W of (err, st) \<Rightarrow>
    (case published_as err of
       Some status \<Rightarrow>
         (case build_report host (publish_options opts status st (ew_Rejections W) facts) of
            Inl e \<Rightarrow> False
          | Inr r \<Rightarrow> RunStatus r = status
              \<and> (if before_selection (op_Config facts) W = None
                  then reports_selection opts (chosen_by opts changed c (op_Located facts) W) r
                  else reports_nothing r))
     | None \<Rightarrow>
         (case err of
            None \<Rightarrow> False
          | Some (PhaseError f) \<Rightarrow> \<not> interrupted f
          | Some (SelectionError e) \<Rightarrow> eo_MutantPrefix opts \<noteq> [] \<and> resolve_prefix c (eo_MutantPrefix opts) = Inl e
          | Some ScopeError \<Rightarrow> (case test_scope command of None \<Rightarrow> False | Some ps \<Rightarrow> narrowed_scope ps)))"
proof -
  obtain err st where run: "run_engine opts (op_Config facts) command changed c (op_Located facts) W = (err, st)" by fastforce
  show ?thesis
  proof (cases "published_as err")
    case (Some status)
    then show ?thesis using engine_reports [OF assms run Some, of host] run by auto
  next
    case None
    then show ?thesis using run_engine_error [OF run None] run by simp
  qed
qed

section \<open>What the scheduler's attempts satisfy\<close>

text \<open>Every attempt \<open>run_one\<close> returns is one the phases accept.\<close>

lemma judge_ok: "judge m bin spec r path rec a = Some b \<Longrightarrow> \<not> MemoryExceeded a \<Longrightarrow>
    outcome_valid (Outcome b) \<and> (if MemoryExceeded b then Outcome b = OutcomeKilled else True) \<and> Tests b = Tests a"
  by (auto simp: judge_def keep_def Let_def split: if_splits)

lemma account_simps [simp]: "MemoryExceeded (account bin tests r a) = MemoryExceeded a"
  "Outcome (account bin tests r a) = Outcome a" "Tests (account bin [] r a) = Tests a"
  by (simp_all add: account_def)

lemma run_binaries_ok:
  "run_binaries W opts m env logs i bins a w = (b, w') \<Longrightarrow> attempt_ok m a \<Longrightarrow> \<not> MemoryExceeded a \<Longrightarrow> attempt_ok m b"
proof (induction bins arbitrary: i a w)
  case Nil
  then show ?case by simp
next
  case (Cons bin bins)
  let ?tests = "tests_of (m_Tests m) (b_ImportPath bin)"
  have tests: "m_Tests m = [] \<Longrightarrow> ?tests = []" by (simp add: tests_of_def)
  obtain stopped w1 where c: "ctx_err W w = (stopped, w1)" by fastforce
  show ?case
  proof (cases stopped)
    case True
    then show ?thesis using Cons.prems c by (auto simp: attempt_ok_def)
  next
    case False
    obtain spec r w2 where t: "start_target W opts ''mutant-run'' (m_ID m) bin env (m_Timeout m) (m_MemoryLimit m) (m_Args m)
        ?tests (plan_path logs i) (m_OutputLimit m) True w1 = (spec, r, w2)" by (metis prod_cases3)
    obtain rec a' w3 where l: "(if plan_record logs
        then (case plan_read W logs bin (plan_path logs i) r w2 of
                (rec, w) \<Rightarrow> (Some rec, (account bin ?tests r a)\<lparr>TestLogs := TestLogs (account bin ?tests r a) @ [rec]\<rparr>, w))
        else (None, account bin ?tests r a, w2)) = (rec, a', w3)" by (rule prod_cases3)
    have acc: "attempt_ok m (account bin ?tests r a)" "\<not> MemoryExceeded (account bin ?tests r a)"
      using Cons.prems(2,3) tests by (cases "m_Tests m = []"; simp add: attempt_ok_def)+
    have "Outcome a' = Outcome (account bin ?tests r a) \<and> MemoryExceeded a' = MemoryExceeded (account bin ?tests r a)
        \<and> Tests a' = Tests (account bin ?tests r a)"
      using l by (cases "plan_record logs"; cases "plan_read W logs bin (plan_path logs i) r w2") auto
    then have a': "attempt_ok m a'" "\<not> MemoryExceeded a'" using acc unfolding attempt_ok_def by metis+
    show ?thesis
    proof (cases "judge m bin spec r (plan_path logs i) rec a'")
      case None
      then have "run_binaries W opts m env logs (Suc i) bins a' w3 = (b, w')"
        using Cons.prems(1) c False t l by (simp add: Let_def)
      then show ?thesis using Cons.IH a' by blast
    next
      case (Some b')
      then have "b = b'" using Cons.prems(1) c False t l by (simp add: Let_def)
      then show ?thesis using judge_ok [OF Some a'(2)] a'(1) by (simp add: attempt_ok_def)
    qed
  qed
qed

lemma run_narrowed_ok: "run_narrowed W opts m bins w = (a, w') \<Longrightarrow> attempt_ok m a"
proof -
  have e: "attempt_ok m (errored err)" for err by (simp add: attempt_ok_def errored_def blank_attempt_def)
  have s: "attempt_ok m (blank_attempt\<lparr>Outcome := OutcomeSurvived\<rparr>)" "\<not> MemoryExceeded (blank_attempt\<lparr>Outcome := OutcomeSurvived\<rparr>)"
    by (simp_all add: attempt_ok_def blank_attempt_def)
  have p: "attempt_ok m b" if "run_pass W opts m bins w = (b, w'')" for b w''
    using that run_binaries_ok [OF _ s] e unfolding run_pass_def by (auto split: sum.splits prod.splits)
  assume "run_narrowed W opts m bins w = (a, w')"
  then show ?thesis using p e by (auto simp: run_narrowed_def split: prod.splits if_splits)
qed

lemma run_one_ok:
  assumes "run_one W opts m bins w = (a, w')"
  shows "attempt_ok m a"
proof -
  obtain b w1 where b: "run_narrowed W opts m bins w = (b, w1)" by fastforce
  show ?thesis
  proof (cases "m_Tests m = [] \<or> Outcome b \<noteq> OutcomeSurvived")
    case True
    then show ?thesis using assms b run_narrowed_ok [OF b] by (simp add: run_one_def)
  next
    case False
    then have "run_narrowed W opts (m\<lparr>m_Tests := []\<rparr>) bins w1 = (a, w')" using assms b by (simp add: run_one_def)
    from run_narrowed_ok [OF this] show ?thesis using False by (auto simp: attempt_ok_def)
  qed
qed

section \<open>A run of two mutants\<close>

definition engine_letter :: "nat \<Rightarrow> char" where
  "engine_letter n = (if n = 0 then CHR ''a'' else if n = 1 then CHR ''b'' else CHR ''c'')"

definition engine_mutant :: "nat \<Rightarrow> mutant" where
  "engine_mutant n = \<lparr>Index = of_nat n, ID = replicate 64 (engine_letter n), DisplayID = [engine_letter n],
     m_candidate = example_candidate [engine_letter n]\<rparr>"

definition engine_catalog :: catalog where
  "engine_catalog = (let ms = map engine_mutant [0, 1, 2] in
     \<lparr>mutants = ms, duplicates = [], byID = index_by ID ms, byDisplayID = index_by DisplayID ms,
      displayLen = 1, cat_digest = []\<rparr>)"

definition killed_result :: "mutant_run \<Rightarrow> mutant_result" where
  "killed_result m = \<lparr>mr_ID = m_ID m, Attempts = [blank_attempt\<lparr>Outcome := OutcomeKilled, KilledBy := ''m''\<rparr>],
     Final = OutcomeKilled, mr_KilledBy = ''m'', mr_Duration = 1, mr_OutputTail = [], mr_Err = None\<rparr>"

text \<open>A run that is interrupted while the second of its two mutants waits for a worker.\<close>

definition no_profiles :: coverage_world where
  "no_profiles = \<lparr>cw_Collect = Inl (Fault CodeUnavailable), cw_CollectTests = Inl (Fault CodeUnavailable),
     cw_ProfileDir = True, cw_Whole = (\<lambda>whole. Inr []), cw_Reliable = (\<lambda>tests. True)\<rparr>"

definition engine_example :: engine_world where
  "engine_example = \<lparr>ew_Accepted = map (ID \<circ> engine_mutant) [0, 1],
     ew_Rejections = [\<lparr>rn_ID = ID (engine_mutant 2), rn_Diagnostic = ''does not compile''\<rparr>],
     ew_Validation = None, ew_Trees = Inr [], ew_Baseline = None, ew_RestoreFirst = None, ew_Drift = None,
     ew_CoverPkg = ''m/...'', ew_Build = (\<lambda>cover. Inr [\<lparr>b_ImportPath = ''m'', b_Dir = [], BinPath = ''b''\<rparr>]),
     ew_ModulePath = ''m'', ew_Timeout = 1, ew_Memory = 0, ew_NeverReturns = (\<lambda>i. False),
     ew_Coverage = no_profiles, ew_Probes = (\<lambda>m. False), ew_Passes = Inr [], ew_Cache = None,
     ew_Schedule = (\<lambda>ms. (map killed_result (take 1 ms) @ map initial_result (drop 1 ms), Some Interruption))\<rparr>"

definition whole_options :: engine_options where
  "whole_options = \<lparr>eo_Shard = \<lparr>sh_Index = 0, sh_Total = 0, sh_Assignment = []\<rparr>, eo_Changed = False, eo_MutantPrefix = []\<rparr>"

lemma engine_catalog_ok: "catalog_ok engine_catalog"
proof -
  have "distinct [engine_letter 0, engine_letter 1, engine_letter 2]" by (simp add: engine_letter_def)
  moreover have "list_all is_lower_hex_char [engine_letter 0, engine_letter 1, engine_letter 2]"
    using sample_letters by (simp add: engine_letter_def)
  ultimately show ?thesis
    by (auto simp: catalog_ok_def engine_catalog_def engine_mutant_def Let_def upt_rec replicate_eq_replicate numeral_2_eq_2)
qed

lemma engine_example_ok:
  "world_ok engine_catalog example_whole engine_example" "facts_ok whole_options None example_whole"
proof -
  have "list_all (\<lambda>m. c_ModulePath (m_candidate m) = op_Module example_whole
          \<and> locate (op_Located example_whole) (key_of_candidate (m_candidate m)) \<noteq> None) (map engine_mutant [0, 1, 2])"
    by code_simp
  then show "world_ok engine_catalog example_whole engine_example"
    by (simp add: world_ok_def engine_catalog_def engine_example_def Let_def)
  have command: "test_command example_whole = Inr default_test_command" by code_simp
  show "facts_ok whole_options None example_whole"
    using command by (simp add: facts_ok_def example_identity(1,2) whole_options_def)
qed

lemma engine_example_sound: "list_all2 result_sound ms (fst (ew_Schedule engine_example ms))"
proof (cases ms)
  case (Cons m rest)
  have "result_sound m (killed_result m)" for m
    by (simp add: result_sound_def killed_result_def justified_def tree_failure_def attempt_ok_def blank_attempt_def)
  moreover have "list_all2 result_sound rest (map initial_result rest)"
    by (simp add: list_all2_conv_all_nth result_sound_def initial_result_def justified_def)
  ultimately show ?thesis by (simp add: Cons engine_example_def)
qed (simp add: engine_example_def)

lemma engine_example_run:
  "fst (run_engine whole_options (op_Config example_whole) default_test_command None engine_catalog (op_Located example_whole)
      engine_example) = Some (PhaseError Interruption)"
  "before_selection (op_Config example_whole) engine_example = None"
  by code_simp+

theorem run_gets_report_witness:
  "case run_engine whole_options (op_Config example_whole) default_test_command None engine_catalog (op_Located example_whole)
        engine_example of (err, st) \<Rightarrow>
     (case build_report example_host
          (publish_options whole_options StatusInterrupted st (ew_Rejections engine_example) example_whole) of
        Inl e \<Rightarrow> False
      | Inr r \<Rightarrow> RunStatus r = StatusInterrupted \<and> sel_Selected (Selection r) = 2)"
proof -
  note run_gets_report [OF engine_catalog_ok engine_example_ok engine_example_sound,
      where command = default_test_command and host = example_host]
  moreover have "length (chosen_by whole_options None engine_catalog (op_Located example_whole)
      engine_example) = 2"
    by (simp add: chosen_by_def chosen_def narrow_selection_def display_index_parts whole_options_def
        shard_of_options_def engine_example_def)
  ultimately show ?thesis
    using engine_example_run
    by (auto simp: published_as_def interrupted_def reports_selection_def split: prod.split_asm sum.split_asm prod.split sum.split)
qed

end
