(* ===== verification/WorkspaceReport.thy ===== *)
theory WorkspaceReport
  imports MergeFacts
begin

text \<open>
  The document of a run over several modules (\<open>internal/report/workspace.go\<close>): one report per
  module, the ledger of expectations divided among them, and a summary over all. Merging takes the
  documents of the shards apart module by module. JSON encoding and decoding are left out.
\<close>

section \<open>The document\<close>

definition WorkspaceDocumentType :: string where "WorkspaceDocumentType = ''go-mutants/workspace-report''"
definition WorkspaceSchemaVersion :: int where "WorkspaceSchemaVersion = 1"

record multi_facts =
  wf_GoVersion :: string
  wf_WorkspaceDigest :: string
  wf_Platform :: platform
  wf_Snapshot :: "snapshot_facts option"

record module_report =
  md_Dir :: string
  md_ModulePath :: string
  md_Report :: "report option"

record workspace_report =
  wr_DocumentType :: string
  wr_SchemaVersion :: int
  wr_ToolVersion :: string
  wr_RunID :: string
  wr_Status :: run_status
  wr_StartedAt :: string
  wr_FinishedAt :: string
  wr_DurationMS :: int
  wr_Workspace :: multi_facts
  wr_Summary :: summary
  wr_Expectations :: "expectation list"
  wr_Modules :: "module_report list"

record workspace_module =
  wm_Dir :: string
  wm_Path :: string
  wm_Located :: "located list"
  wm_Skips :: "skip list"
  wm_Selected :: int

record workspace_options =
  wo_Options :: report_options
  wo_Modules :: "workspace_module list"

definition workspace_reports :: "workspace_report \<Rightarrow> report option list" where
  "workspace_reports w = map md_Report (wr_Modules w)"

definition add_tally :: "tally \<Rightarrow> tally \<Rightarrow> tally" where
  "add_tally s t =
     \<lparr>Killed = Killed s + Killed t, TimedOut = TimedOut s + TimedOut t,
      UnexpectedSurvivors = UnexpectedSurvivors s + UnexpectedSurvivors t,
      ExpectedSurvivors = ExpectedSurvivors s + ExpectedSurvivors t,
      Inconclusive = Inconclusive s + Inconclusive t, Errored = Errored s + Errored t,
      NotRun = NotRun s + NotRun t\<rparr>"

fun tally_modules :: "tally \<Rightarrow> module_report list \<Rightarrow> report_error + tally" where
  "tally_modules so_far [] = Inr so_far"
| "tally_modules so_far (d # ds) =
     (case md_Report d of
        None \<Rightarrow> Inl ErrNoReport
      | Some r \<Rightarrow> and_then (report_tally r) (\<lambda>t. tally_modules (add_tally so_far t) ds))"

definition workspace_tally :: "workspace_report \<Rightarrow> report_error + tally" where
  "workspace_tally w = tally_modules empty_tally (wr_Modules w)"

definition workspace_expectation_failure :: "workspace_report \<Rightarrow> bool" where
  "workspace_expectation_failure w \<longleftrightarrow>
     list_ex (\<lambda>e. ex_State e = StateStale) (wr_Expectations w)
     \<or> list_ex (\<lambda>d. case md_Report d of None \<Rightarrow> False | Some r \<Rightarrow> report_expectation_failure r) (wr_Modules w)"

definition summarised ::
  "workspace_report \<Rightarrow> policy \<Rightarrow> bool \<Rightarrow> expectation list \<Rightarrow> row list \<Rightarrow> report_error + workspace_report" where
  "summarised w p infrastructure expectations rows =
     and_then (workspace_tally w) (\<lambda>t.
       Inr (w\<lparr>wr_Summary := summary_of t p infrastructure expectations rows\<rparr>))"

section \<open>Building\<close>

text \<open>\<open>partitionLedger\<close>: a Go map answers a missing key with an empty list, and so does the function.\<close>

definition divide_row :: "catalog \<Rightarrow> (string \<Rightarrow> expectation_row list) \<times> expectation_row list
    \<Rightarrow> expectation_row \<Rightarrow> (string \<Rightarrow> expectation_row list) \<times> expectation_row list" where
  "divide_row c divided e =
     (case divided of (byModule, orphans) \<Rightarrow>
       (case by_id c (xr_ID e) of
          None \<Rightarrow> (byModule, orphans @ [e])
        | Some m \<Rightarrow>
            (let path = c_ModulePath (m_candidate m) in (byModule(path := byModule path @ [e]), orphans))))"

definition partition_ledger ::
  "catalog \<Rightarrow> expectation_row list \<Rightarrow> (string \<Rightarrow> expectation_row list) \<times> expectation_row list" where
  "partition_ledger c ledger = foldl (divide_row c) (\<lambda>_. [], []) ledger"

definition module_options :: "report_options \<Rightarrow> (string \<Rightarrow> expectation_row list) \<Rightarrow> workspace_module \<Rightarrow> report_options" where
  "module_options opts byModule m =
     opts\<lparr>op_Module := wm_Path m, op_ModulePath := wm_Path m, op_Located := wm_Located m,
       op_Skips := wm_Skips m, op_Selected := wm_Selected m,
       op_Config := (op_Config opts)\<lparr>Mutation := (Mutation (op_Config opts))\<lparr>Expect := byModule (wm_Path m)\<rparr>\<rparr>\<rparr>"

text \<open>The loop over the modules, with the lists it collects: reports, expectations and rows.\<close>

fun build_modules ::
  "platform \<Rightarrow> report_options \<Rightarrow> (string \<Rightarrow> expectation_row list) \<Rightarrow> workspace_module list
   \<Rightarrow> module_report list \<times> expectation list \<times> row list
   \<Rightarrow> report_error + module_report list \<times> expectation list \<times> row list" where
  "build_modules host opts byModule [] collected = Inr collected"
| "build_modules host opts byModule (m # ms) (modules, expectations, rows) =
     (case build_report host (module_options opts byModule m) of
        Inl err \<Rightarrow> Inl err
      | Inr r \<Rightarrow>
          build_modules host opts byModule ms
            (modules @ [\<lparr>md_Dir = wm_Dir m, md_ModulePath = wm_Path m, md_Report = Some r\<rparr>],
             expectations @ Expectations r, rows @ Mutants r))"

text \<open>The summary of a document before it has been counted: every field zero.\<close>

definition no_summary :: summary where
  "no_summary =
     \<lparr>sm_Total = 0, sm_Killed = 0, sm_Survived = 0, sm_TimedOut = 0, sm_Inconclusive = 0, sm_Errored = 0,
      sm_NotRun = 0, sm_ScorePercent = None,
      sm_Policy = \<lparr>pr_Strict = False, pr_MinimumScore = 0, pr_RequireMutants = False, pr_Failure = None\<rparr>\<rparr>"

definition workspace_document ::
  "platform \<Rightarrow> report_options \<Rightarrow> expectation list \<Rightarrow> module_report list \<Rightarrow> workspace_report" where
  "workspace_document host opts stale modules =
     \<lparr>wr_DocumentType = WorkspaceDocumentType, wr_SchemaVersion = WorkspaceSchemaVersion,
      wr_ToolVersion = op_ToolVersion opts, wr_RunID = op_RunID opts, wr_Status = op_Status opts,
      wr_StartedAt = format_rfc3339 (op_Started opts), wr_FinishedAt = format_rfc3339 (op_Finished opts),
      wr_DurationMS = milliseconds (time_sub (op_Finished opts) (op_Started opts)),
      wr_Workspace =
        \<lparr>wf_GoVersion = or_else (op_GoVersion opts) unknownValue,
         wf_WorkspaceDigest = op_WorkspaceDigest opts,
         wf_Platform = platform_of host (op_Platform opts), wf_Snapshot = op_Snapshot opts\<rparr>,
      wr_Summary = no_summary, wr_Expectations = stale, wr_Modules = modules\<rparr>"

definition build_workspace :: "platform \<Rightarrow> workspace_options \<Rightarrow> report_error + workspace_report" where
  "build_workspace host wo =
     (let opts = wo_Options wo in
      case op_Catalog opts of
        None \<Rightarrow> Inl ErrNoCatalog
      | Some c \<Rightarrow>
          if length (wo_Modules wo) = 0 then Inl ErrNoCatalog
          else
            (let (byModule, orphans) = partition_ledger c (Expect (Mutation (op_Config opts))) in
             and_then (build_modules host opts byModule (wo_Modules wo) ([], [], [])) (\<lambda>(modules, expectations, rows).
               (let stale = evaluate orphans Map.empty in
                summarised (workspace_document host opts stale modules) (Policy (op_Config opts))
                  (op_InfrastructureError opts) (expectations @ stale) rows))))"

section \<open>Merging\<close>

fun present_workspaces :: "workspace_report option list \<Rightarrow> report_error + workspace_report list" where
  "present_workspaces [] = Inr []"
| "present_workspaces (d # ds) =
     (case d of None \<Rightarrow> Inl ErrNoShardReports
      | Some w \<Rightarrow> and_then (present_workspaces ds) (\<lambda>ws. Inr (w # ws)))"

definition same_modules :: "workspace_report \<Rightarrow> workspace_report \<Rightarrow> report_error option" where
  "same_modules first w =
     (if length (wr_Modules first) \<noteq> length (wr_Modules w) then Some ErrIncongruentShards
      else if list_ex (\<lambda>(a, b). md_ModulePath b \<noteq> md_ModulePath a) (zip (wr_Modules first) (wr_Modules w))
      then Some ErrIncongruentShards
      else None)"

fun all_same_modules :: "workspace_report \<Rightarrow> workspace_report list \<Rightarrow> report_error option" where
  "all_same_modules first [] = None"
| "all_same_modules first (w # ws) =
     (case same_modules first w of Some err \<Rightarrow> Some err | None \<Rightarrow> all_same_modules first ws)"

text \<open>The loop over the modules of the first document, \<open>i\<close> the index of the next one.\<close>

fun merge_modules ::
  "string \<Rightarrow> workspace_report list \<Rightarrow> nat \<Rightarrow> module_report list
   \<Rightarrow> module_report list \<times> expectation list \<times> row list
   \<Rightarrow> report_error + module_report list \<times> expectation list \<times> row list" where
  "merge_modules runID shards i [] collected = Inr collected"
| "merge_modules runID shards i (d # ds) (modules, expectations, rows) =
     (case merge_shards runID (map (\<lambda>w. md_Report (wr_Modules w ! i)) shards) of
        Inl err \<Rightarrow> Inl err
      | Inr r \<Rightarrow>
          merge_modules runID shards (Suc i) ds
            (modules @ [\<lparr>md_Dir = md_Dir d, md_ModulePath = md_ModulePath d, md_Report = Some r\<rparr>],
             expectations @ Expectations r, rows @ Mutants r))"

definition merge_workspaces :: "string \<Rightarrow> workspace_report option list \<Rightarrow> report_error + workspace_report" where
  "merge_workspaces runID documents =
     (if length documents = 0 then Inl ErrNoShardReports
      else and_then (present_workspaces documents) (\<lambda>shards.
        (let first = hd shards in
         guard (all_same_modules first (tl shards))
         (and_then (merge_modules runID shards 0 (wr_Modules first) ([], [], [])) (\<lambda>(modules, expectations, rows).
            (let merged = first\<lparr>wr_RunID := runID, wr_Modules := modules\<rparr> in
             summarised merged (policy_of (sm_Policy (wr_Summary first))) False
               (expectations @ wr_Expectations merged) rows))))))"

end
