(* ===== verification/WorkspaceFacts.thy ===== *)
theory WorkspaceFacts
  imports WorkspaceReport
begin

text \<open>
  What holds of the document of a run over several modules: its summary is that of all rows
  together, nothing of the catalogue or of the ledger is lost between the modules, and merging
  the documents of a sharded run gives back the document of the whole run.
\<close>

section \<open>The steps\<close>

abbreviation module_row :: "workspace_module \<Rightarrow> report \<Rightarrow> module_report" where
  "module_row m r \<equiv> \<lparr>md_Dir = wm_Dir m, md_ModulePath = wm_Path m, md_Report = Some r\<rparr>"

lemma build_modules_Inr:
  "build_modules host opts byModule ms (modules, expectations, rows) = Inr out \<longleftrightarrow>
     (\<exists>rs. list_all2 (\<lambda>m r. build_report host (module_options opts byModule m) = Inr r) ms rs
        \<and> out = (modules @ map2 module_row ms rs, expectations @ concat (map Expectations rs),
                 rows @ concat (map Mutants rs)))"
proof (induction ms arbitrary: modules expectations rows)
  case Nil
  show ?case by (simp add: list_all2_Nil eq_commute)
next
  case (Cons m ms)
  show ?case
  proof (cases "build_report host (module_options opts byModule m)")
    case (Inl err)
    then show ?thesis by (simp add: list_all2_Cons1)
  next
    case (Inr r)
    then show ?thesis unfolding build_modules.simps by (simp only: sum.case Cons.IH list_all2_Cons1) force
  qed
qed

definition in_module :: "catalog \<Rightarrow> string \<Rightarrow> expectation_row \<Rightarrow> bool" where
  "in_module c path e \<longleftrightarrow>
     (case by_id c (xr_ID e) of None \<Rightarrow> False | Some m \<Rightarrow> c_ModulePath (m_candidate m) = path)"

lemma divide_rows:
  "foldl (divide_row c) (byModule, orphans) ledger =
     (\<lambda>path. byModule path @ filter (in_module c path) ledger,
      orphans @ filter (\<lambda>e. by_id c (xr_ID e) = None) ledger)"
proof (induction ledger arbitrary: byModule orphans)
  case Nil
  show ?case by simp
next
  case (Cons e ledger)
  show ?case
  proof (cases "by_id c (xr_ID e)")
    case None
    then have "divide_row c (byModule, orphans) e = (byModule, orphans @ [e])" by (simp add: divide_row_def)
    moreover have "\<not> in_module c path e" for path using None by (simp add: in_module_def)
    ultimately show ?thesis using None by (simp add: Cons.IH)
  next
    case (Some m)
    then have "divide_row c (byModule, orphans) e
        = (byModule(c_ModulePath (m_candidate m) := byModule (c_ModulePath (m_candidate m)) @ [e]), orphans)"
      by (simp add: divide_row_def Let_def)
    moreover have "in_module c path e \<longleftrightarrow> c_ModulePath (m_candidate m) = path" for path
      using Some by (simp add: in_module_def)
    ultimately show ?thesis using Some by (simp add: Cons.IH fun_eq_iff)
  qed
qed

lemma partition_ledger_simp:
  "partition_ledger c ledger =
     (\<lambda>path. filter (in_module c path) ledger, filter (\<lambda>e. by_id c (xr_ID e) = None) ledger)"
  by (simp add: partition_ledger_def divide_rows)

lemma module_options_simps [simp]:
  "op_Module (module_options opts byModule m) = wm_Path m"
  "op_Catalog (module_options opts byModule m) = op_Catalog opts"
  "op_Results (module_options opts byModule m) = op_Results opts"
  "op_Rejections (module_options opts byModule m) = op_Rejections opts"
  "Policy (op_Config (module_options opts byModule m)) = Policy (op_Config opts)"
  "Expect (Mutation (op_Config (module_options opts byModule m))) = byModule (wm_Path m)"
  "op_InfrastructureError (module_options opts byModule m) = op_InfrastructureError opts"
  "op_CacheMisses (module_options opts byModule m) = op_CacheMisses opts"
  by (simp_all add: module_options_def)

text \<open>The reports of the modules, their rows and their part of the ledger.\<close>

definition reports_of :: "workspace_report \<Rightarrow> report list" where
  "reports_of w = map the (workspace_reports w)"

definition workspace_rows :: "workspace_report \<Rightarrow> row list" where
  "workspace_rows w = concat (map Mutants (reports_of w))"

definition workspace_ledger :: "workspace_report \<Rightarrow> expectation list" where
  "workspace_ledger w = concat (map Expectations (reports_of w)) @ wr_Expectations w"

lemma reports_of_map2 [simp]:
  "length ms = length rs \<Longrightarrow> map the (map md_Report (map2 module_row ms rs)) = rs"
  by (rule nth_equalityI) simp_all

definition sum_tallies :: "report list \<Rightarrow> tally \<Rightarrow> report_error + tally" where
  "sum_tallies rs s = foldl (\<lambda>so_far r. and_then so_far (\<lambda>s. and_then (report_tally r) (\<lambda>t. Inr (add_tally s t)))) (Inr s) rs"

lemma foldl_Inl: "foldl (\<lambda>so_far r. and_then so_far (f r)) (Inl err) rs = Inl err"
  by (induction rs) auto

lemma tally_modules_reports:
  "list_all2 (\<lambda>d r. md_Report d = Some r) ds rs \<Longrightarrow> tally_modules s ds = sum_tallies rs s"
proof (induction ds rs arbitrary: s rule: list_all2_induct)
  case Nil
  then show ?case by (simp add: sum_tallies_def)
next
  case (Cons d ds r rs)
  then show ?case by (cases "report_tally r") (simp_all add: sum_tallies_def foldl_Inl)
qed

lemma list_all2_module_rows: "length ms = length rs \<Longrightarrow> list_all2 (\<lambda>d r. md_Report d = Some r) (map2 module_row ms rs) rs"
  by (simp add: list_all2_conv_all_nth)

lemma build_workspace_Inr:
  assumes "build_workspace host wo = Inr w" and c: "op_Catalog (wo_Options wo) = Some c"
  obtains rs t where
    "list_all2 (\<lambda>m r. build_report host (module_options (wo_Options wo)
        (\<lambda>path. filter (in_module c path) (Expect (Mutation (op_Config (wo_Options wo))))) m) = Inr r) (wo_Modules wo) rs"
    and "reports_of w = rs" and "wr_Modules w = map2 module_row (wo_Modules wo) rs"
    and "wr_Expectations w = evaluate (filter (\<lambda>e. by_id c (xr_ID e) = None) (Expect (Mutation (op_Config (wo_Options wo))))) Map.empty"
    and "workspace_tally w = Inr t" and "sum_tallies rs empty_tally = Inr t"
    and "wr_Summary w = summary_of t (Policy (op_Config (wo_Options wo))) (op_InfrastructureError (wo_Options wo))
      (workspace_ledger w) (workspace_rows w)"
    and "wo_Modules wo \<noteq> []"
proof -
  let ?opts = "wo_Options wo" and ?ledger = "Expect (Mutation (op_Config (wo_Options wo)))"
  let ?stale = "evaluate (filter (\<lambda>e. by_id c (xr_ID e) = None) ?ledger) Map.empty"
  obtain modules expectations rows where
    b: "build_modules host ?opts (\<lambda>path. filter (in_module c path) ?ledger) (wo_Modules wo) ([], [], []) = Inr (modules, expectations, rows)"
    and s: "summarised (workspace_document host ?opts ?stale modules) (Policy (op_Config ?opts)) (op_InfrastructureError ?opts)
        (expectations @ ?stale) rows = Inr w" and ne: "wo_Modules wo \<noteq> []"
    using assms by (auto simp: build_workspace_def Let_def partition_ledger_simp and_then_Inr split: if_splits)
  obtain rs where rs: "list_all2 (\<lambda>m r. build_report host (module_options ?opts (\<lambda>path. filter (in_module c path) ?ledger) m) = Inr r) (wo_Modules wo) rs"
    and out: "modules = map2 module_row (wo_Modules wo) rs" "expectations = concat (map Expectations rs)" "rows = concat (map Mutants rs)"
    using b unfolding build_modules_Inr by auto
  note len = list_all2_lengthD [OF rs]
  obtain t where t: "tally_modules empty_tally modules = Inr t"
    and w: "w = (workspace_document host ?opts ?stale modules)\<lparr>wr_Summary := summary_of t (Policy (op_Config ?opts))
        (op_InfrastructureError ?opts) (expectations @ ?stale) rows\<rparr>"
    using s by (auto simp: summarised_def workspace_tally_def and_then_Inr workspace_document_def)
  have r: "reports_of w = rs"
    using len by (simp only: w reports_of_def workspace_reports_def workspace_document_def out
        workspace_report.simps reports_of_map2)
  have st: "wr_Expectations w = ?stale" by (simp add: w workspace_document_def)
  have "wr_Summary w = summary_of t (Policy (op_Config ?opts)) (op_InfrastructureError ?opts) (workspace_ledger w) (workspace_rows w)"
    unfolding workspace_ledger_def workspace_rows_def r st by (simp add: w out workspace_document_def)
  moreover have "sum_tallies rs empty_tally = Inr t"
    using t tally_modules_reports [OF list_all2_module_rows [OF len]] by (simp add: out)
  moreover have "workspace_tally w = Inr t" using t by (simp add: workspace_tally_def w workspace_document_def)
  moreover have "wr_Modules w = map2 module_row (wo_Modules wo) rs" by (simp add: w out workspace_document_def)
  ultimately show ?thesis using that rs r st ne by blast
qed

section \<open>The summary over all modules\<close>

lemma rows_with_append: "rows_with name (xs @ ys) = rows_with name xs + rows_with name ys"
  by (simp add: rows_with_def)

definition tally_counts :: "tally \<Rightarrow> row list \<Rightarrow> bool" where
  "tally_counts t rows \<longleftrightarrow> counts_rows (summary_of t default_policy False [] []) rows"

lemma counts_rows_tally: "counts_rows (summary_of t p infra expectations rows') rows \<longleftrightarrow> tally_counts t rows"
  by (simp add: tally_counts_def counts_rows_def summary_of_def)

lemma tally_counts_empty: "tally_counts empty_tally []"
  by (simp add: tally_counts_def counts_rows_def summary_of_def empty_tally_def rows_with_def
      tally_total_def tally_detected_def tally_survived_def)

lemma tally_counts_add:
  "tally_counts s xs \<Longrightarrow> tally_counts t ys \<Longrightarrow> tally_counts (add_tally s t) (xs @ ys)"
  by (simp add: tally_counts_def counts_rows_def summary_of_def add_tally_def rows_with_append
      tally_total_def tally_detected_def tally_survived_def)

lemma sum_tallies_counts:
  assumes "\<forall>r \<in> set rs. \<exists>t. report_tally r = Inr t \<and> tally_counts t (Mutants r)"
    and "tally_counts s xs" and "sum_tallies rs s = Inr u"
  shows "tally_counts u (xs @ concat (map Mutants rs))"
  using assms
proof (induction rs arbitrary: s xs)
  case Nil
  then show ?case by (simp add: sum_tallies_def)
next
  case (Cons r rs)
  then obtain t where t: "report_tally r = Inr t" "tally_counts t (Mutants r)" by auto
  then have "sum_tallies rs (add_tally s t) = Inr u" using Cons.prems(3) by (simp add: sum_tallies_def)
  with Cons t show ?case using tally_counts_add [of s xs t "Mutants r"] by fastforce
qed

text \<open>
  The summary of a workspace document is that of its modules taken together: counting the
  documents of the modules again succeeds, the summary the document carries is computed from that
  count, from all expectations and from all rows, and each of its numbers is the number of rows,
  in any module, with that outcome.
\<close>

theorem workspace_summary_recomputed:
  "(case build_workspace host wo of Inl _ \<Rightarrow> True | Inr w \<Rightarrow>
     (case workspace_tally w of Inl _ \<Rightarrow> False | Inr t \<Rightarrow>
        wr_Summary w = summary_of t (Policy (op_Config (wo_Options wo))) (op_InfrastructureError (wo_Options wo))
          (workspace_ledger w) (workspace_rows w)
        \<and> counts_rows (wr_Summary w) (workspace_rows w)))"
proof (cases "build_workspace host wo")
  case (Inr w)
  then obtain c where c: "op_Catalog (wo_Options wo) = Some c"
    by (auto simp: build_workspace_def Let_def split: option.splits)
  obtain rs t where rs: "list_all2 (\<lambda>m r. build_report host (module_options (wo_Options wo)
        (\<lambda>path. filter (in_module c path) (Expect (Mutation (op_Config (wo_Options wo))))) m) = Inr r) (wo_Modules wo) rs"
    and r: "reports_of w = rs" and t: "workspace_tally w = Inr t" "sum_tallies rs empty_tally = Inr t"
    and s: "wr_Summary w = summary_of t (Policy (op_Config (wo_Options wo))) (op_InfrastructureError (wo_Options wo))
      (workspace_ledger w) (workspace_rows w)"
    by (rule build_workspace_Inr [OF Inr c])
  have "\<exists>t. report_tally r = Inr t \<and> tally_counts t (Mutants r)" if "r \<in> set rs" for r
    using list_all2_snd [OF rs that] build_tally counts_rows_tally by metis
  then have "tally_counts t (workspace_rows w)"
    using sum_tallies_counts [OF _ tally_counts_empty t(2)] by (simp add: workspace_rows_def r)
  then show ?thesis using Inr t(1) s by (simp add: counts_rows_tally)
qed simp

section \<open>Nothing is lost between the modules\<close>

lemma mset_by_key:
  "distinct ps \<Longrightarrow> mset (concat (map (\<lambda>p. filter (\<lambda>x. key x = p) xs) ps)) = mset (filter (\<lambda>x. key x \<in> set ps) xs)"
proof (induction ps)
  case (Cons p ps)
  have "mset (filter (\<lambda>x. key x \<in> set (p # ps)) xs)
      = mset (filter (\<lambda>x. key x = p) xs) + mset (filter (\<lambda>x. key x \<in> set ps) xs)"
    using Cons.prems by (induction xs) auto
  then show ?case using Cons by simp
qed simp

definition module_of_row :: "catalog \<Rightarrow> expectation_row \<Rightarrow> string option" where
  "module_of_row c e = map_option (\<lambda>m. c_ModulePath (m_candidate m)) (by_id c (xr_ID e))"

lemma in_module_iff: "in_module c path = (\<lambda>e. module_of_row c e = Some path)"
  by (rule ext) (auto simp: in_module_def module_of_row_def split: option.splits)

lemma mset_split: "mset (filter P xs @ filter (\<lambda>x. \<not> P x) xs) = mset xs"
  by (induction xs) auto

lemma mset_option_key:
  "mset (filter (\<lambda>x. key x \<in> set (map Some ps)) xs) + mset (filter (\<lambda>x. key x = None) xs)
     = mset (filter (\<lambda>x. case key x of None \<Rightarrow> True | Some p \<Rightarrow> p \<in> set ps) xs)"
  by (induction xs) (auto split: option.splits)

abbreviation named_paths :: "workspace_options \<Rightarrow> string list" where
  "named_paths wo \<equiv> map wm_Path (wo_Modules wo)"

text \<open>
  The row names a mutant of the catalogue that satisfies a condition. This is read off the list of
  mutants, not the catalogue's index.
\<close>

definition names_mutant :: "catalog \<Rightarrow> (mutant \<Rightarrow> bool) \<Rightarrow> expectation_row \<Rightarrow> bool" where
  "names_mutant c P e \<longleftrightarrow> list_ex (\<lambda>m. ID m = xr_ID e \<and> P m) (mutants c)"

abbreviation has_path :: "string \<Rightarrow> mutant \<Rightarrow> bool" where
  "has_path path m \<equiv> c_ModulePath (m_candidate m) = path"

definition module_accounts :: "workspace_options \<Rightarrow> catalog \<Rightarrow> workspace_module \<Rightarrow> report \<Rightarrow> bool" where
  "module_accounts wo c m r \<longleftrightarrow>
     mset (map w_ID (Mutants r) @ map rj_ID (Rejected r)) = mset (map ID (filter (has_path (wm_Path m)) (mutants c)))
     \<and> ledger_of (Expectations r)
       = filter (names_mutant c (has_path (wm_Path m))) (Expect (Mutation (op_Config (wo_Options wo))))"

definition workspace_accounts :: "workspace_options \<Rightarrow> catalog \<Rightarrow> workspace_report \<Rightarrow> bool" where
  "workspace_accounts wo c w \<longleftrightarrow>
     list_all2 (module_accounts wo c) (wo_Modules wo) (reports_of w)
     \<and> mset (map w_ID (workspace_rows w) @ map rj_ID (concat (map Rejected (reports_of w))))
       = mset (map ID (filter (\<lambda>m. c_ModulePath (m_candidate m) \<in> set (named_paths wo)) (mutants c)))
     \<and> ledger_of (wr_Expectations w)
       = filter (\<lambda>e. \<not> names_mutant c (\<lambda>m. True) e) (Expect (Mutation (op_Config (wo_Options wo))))
     \<and> list_all (\<lambda>e. ex_State e = StateStale) (wr_Expectations w)
     \<and> mset (ledger_of (workspace_ledger w))
       = mset (filter (\<lambda>e. \<not> names_mutant c (\<lambda>m. c_ModulePath (m_candidate m) \<notin> set (named_paths wo)) e)
           (Expect (Mutation (op_Config (wo_Options wo)))))"

lemma names_mutant_by_id:
  assumes "catalog_ok c"
  shows "names_mutant c P e \<longleftrightarrow> (case by_id c (xr_ID e) of None \<Rightarrow> False | Some m \<Rightarrow> P m)"
proof (cases "by_id c (xr_ID e)")
  case None
  then have "\<not> (m \<in> set (mutants c) \<and> ID m = xr_ID e)" for m using by_id_iff [OF assms, of "xr_ID e" m] by simp
  then show ?thesis using None by (auto simp: names_mutant_def list_ex_iff)
next
  case (Some n)
  then have "m = n" if "m \<in> set (mutants c)" "ID m = xr_ID e" for m
    using that by_id_iff [OF assms, of "xr_ID e" m] by simp
  then show ?thesis using Some by_id_iff [OF assms, of "xr_ID e" n] by (auto simp: names_mutant_def list_ex_iff)
qed

lemma names_mutant_row:
  assumes "catalog_ok c"
  shows "names_mutant c (has_path path) = in_module c path"
    and "names_mutant c (\<lambda>m. True) e \<longleftrightarrow> by_id c (xr_ID e) \<noteq> None"
    and "names_mutant c (\<lambda>m. c_ModulePath (m_candidate m) \<notin> N) e \<longleftrightarrow>
      (case module_of_row c e of None \<Rightarrow> False | Some path \<Rightarrow> path \<notin> N)"
  by (auto simp: fun_eq_iff names_mutant_by_id [OF assms] in_module_def module_of_row_def split: option.splits)

lemma concat_all2:
  "list_all2 (\<lambda>m r. f r = g m) ms rs \<Longrightarrow> concat (map f rs) = concat (map g ms)"
  by (induction rule: list_all2_induct) auto

lemma mset_concat_all2:
  "list_all2 P ms rs \<Longrightarrow> (\<And>m r. P m r \<Longrightarrow> mset (f r) = mset (g m))
     \<Longrightarrow> mset (concat (map f rs)) = mset (concat (map g ms))"
  by (induction rule: list_all2_induct) auto

lemma mset_concat_pair:
  "mset (concat (map f xs) @ concat (map g xs)) = mset (concat (map (\<lambda>x. f x @ g x) xs))"
  by (induction xs) auto

lemma stale_expectations: "list_all (\<lambda>e. ex_State e = StateStale) (evaluate ledger Map.empty)"
  by (simp add: evaluate_def list_all_iff state_of_def no_disposition_def)

lemma ledger_of_append: "ledger_of (xs @ ys) = ledger_of xs @ ledger_of ys"
  by (simp add: ledger_of_def)

lemma ledger_of_concat: "ledger_of (concat xss) = concat (map ledger_of xss)"
  by (induction xss) (simp_all add: ledger_of_append, simp add: ledger_of_def)

lemma build_workspace_accounts:
  assumes ok: "catalog_ok c" and c: "op_Catalog (wo_Options wo) = Some c"
    and d: "distinct (named_paths wo)" and w: "build_workspace host wo = Inr w"
  shows "workspace_accounts wo c w"
proof -
  let ?ledger = "Expect (Mutation (op_Config (wo_Options wo)))"
  let ?opts = "module_options (wo_Options wo) (\<lambda>path. filter (in_module c path) ?ledger)"
  obtain rs where rs: "list_all2 (\<lambda>m r. build_report host (?opts m) = Inr r) (wo_Modules wo) rs"
    and r: "reports_of w = rs" and st: "wr_Expectations w = evaluate (filter (\<lambda>e. by_id c (xr_ID e) = None) ?ledger) Map.empty"
    by (rule build_workspace_Inr [OF w c])
  have one: "accounts_for (?opts m) c x" if "build_report host (?opts m) = Inr x" for m x
    using build_accounts_for [OF ok _ that] c by simp
  have own: "mset (map w_ID (Mutants x) @ map rj_ID (Rejected x)) = mset (map ID (of_module (wm_Path m) (mutants c)))"
    if "accounts_for (?opts m) c x" for m x
  proof -
    let ?mine = "of_module (wm_Path m) (mutants c)" and ?gone = "\<lambda>m. ID m \<in> set (map rn_ID (op_Rejections (wo_Options wo)))"
    have "map w_ID (Mutants x) @ map rj_ID (Rejected x) = map ID (filter (\<lambda>m. \<not> ?gone m) ?mine @ filter ?gone ?mine)"
      using that by (simp add: accounts_for_def Let_def)
    then show ?thesis using mset_split [of ?gone ?mine] by (simp add: add.commute flip: image_mset_union)
  qed
  have parts: "list_all2 (module_accounts wo c) (wo_Modules wo) (reports_of w)"
    unfolding r using rs
    by (rule list_all2_mono)
      (unfold module_accounts_def, intro conjI own [OF one],
        simp_all add: build_expectations(1) names_mutant_row(1) [OF ok])
  have "mset (concat (map (\<lambda>x. map w_ID (Mutants x) @ map rj_ID (Rejected x)) rs))
      = mset (concat (map (\<lambda>m. map ID (of_module (wm_Path m) (mutants c))) (wo_Modules wo)))"
    using own [OF one] by (intro mset_concat_all2 [OF rs]) blast
  also have "\<dots> = mset (map ID (concat (map (\<lambda>p. of_module p (mutants c)) (named_paths wo))))"
    by (simp add: map_concat comp_def)
  also have "\<dots> = mset (map ID (filter (\<lambda>m. c_ModulePath (m_candidate m) \<in> set (named_paths wo)) (mutants c)))"
    using mset_by_key [OF d, of "\<lambda>m. c_ModulePath (m_candidate m)" "mutants c"] by simp
  finally have ids: "mset (map w_ID (workspace_rows w) @ map rj_ID (concat (map Rejected (reports_of w)))) = \<dots>"
    unfolding mset_concat_pair [symmetric] by (simp add: workspace_rows_def r map_concat comp_def)
  have "concat (map (\<lambda>x. ledger_of (Expectations x)) rs) = concat (map (\<lambda>m. filter (in_module c (wm_Path m)) ?ledger) (wo_Modules wo))"
    using rs by (intro concat_all2) (auto simp: build_expectations(1) elim!: list_all2_mono)
  then have led: "ledger_of (workspace_ledger w)
      = concat (map (\<lambda>p. filter (\<lambda>e. module_of_row c e = p) ?ledger) (map Some (named_paths wo)))
        @ filter (\<lambda>e. by_id c (xr_ID e) = None) ?ledger"
    by (simp add: workspace_ledger_def ledger_of_append ledger_of_concat r st comp_def in_module_iff)
  have "distinct (map Some (named_paths wo))" using d by (auto simp: distinct_map inj_on_def)
  then have "mset (ledger_of (workspace_ledger w))
      = mset (filter (\<lambda>e. module_of_row c e \<in> set (map Some (named_paths wo))) ?ledger)
        + mset (filter (\<lambda>e. by_id c (xr_ID e) = None) ?ledger)"
    unfolding led mset_append by (simp only: mset_by_key)
  also have "\<dots> = mset (filter (\<lambda>e. case module_of_row c e of None \<Rightarrow> True | Some path \<Rightarrow> path \<in> set (named_paths wo)) ?ledger)"
    unfolding mset_option_key [symmetric] by (simp add: module_of_row_def)
  also have "\<dots> = mset (filter (\<lambda>e. \<not> names_mutant c (\<lambda>m. c_ModulePath (m_candidate m) \<notin> set (named_paths wo)) e) ?ledger)"
    by (intro arg_cong [where f = mset] filter_cong refl)
      (simp add: names_mutant_row(3) [OF ok] split: option.splits)
  finally have all: "mset (ledger_of (workspace_ledger w)) = \<dots>" .
  have "ledger_of (wr_Expectations w) = filter (\<lambda>e. \<not> names_mutant c (\<lambda>m. True) e) ?ledger"
    by (simp add: st names_mutant_row(2) [OF ok])
  then show ?thesis unfolding workspace_accounts_def using parts ids all stale_expectations by (simp only: st)
qed

text \<open>
  C16. Dividing a run among its modules loses nothing of them. When the modules have different
  paths, the document of each module holds, as a row or a rejection, every catalogued mutant of the
  module once and no other, and judges exactly the rows of the ledger that name one of its mutants,
  in the ledger's order. Hence every catalogued mutant of a named module is in exactly one document.
  The expectations of the workspace document itself are the rows that name no catalogued mutant, and
  all are stale. So a row is judged once -- unless it names a mutant of a module that is not among
  the named ones: those, and only those, are judged nowhere.
\<close>

theorem workspace_accounts_catalog:
  assumes "catalog_ok c" and "op_Catalog (wo_Options wo) = Some c" and "distinct (named_paths wo)"
  shows "case build_workspace host wo of Inl _ \<Rightarrow> True | Inr w \<Rightarrow> workspace_accounts wo c w"
  using build_workspace_accounts [OF assms] by (simp split: sum.split)

section \<open>One verdict on the expectations\<close>

lemma list_ex_concat: "list_ex P (concat xss) \<longleftrightarrow> list_ex (list_ex P) xss"
  by (induction xss) auto

lemma index_rows_sub:
  assumes d: "distinct (map w_ID all)" and sub: "set rows \<subseteq> set all"
    and mine: "\<And>x. x \<in> set all \<Longrightarrow> w_ID x = i \<Longrightarrow> x \<in> set rows" and dr: "distinct (map w_ID rows)"
  shows "index_rows w_ID f all i = index_rows w_ID f rows i"
proof -
  have "index_rows w_ID f all i = Some v \<longleftrightarrow> index_rows w_ID f rows i = Some v" for v
    unfolding index_rows_distinct [OF d] index_rows_distinct [OF dr] using sub mine by blast
  then show ?thesis by (metis not_Some_eq)
qed

text \<open>When the rows of all modules answer each expectation as those of its own module do.\<close>

lemma expectation_failure_parts:
  assumes st: "list_all (\<lambda>e. ex_State e = StateStale) stale"
    and same: "\<And>r e. r \<in> set rs \<Longrightarrow> e \<in> set (Expectations r) \<Longrightarrow>
      index_rows w_ID w_Outcome all (ex_ID e) = index_rows w_ID w_Outcome (Mutants r) (ex_ID e)"
  shows "expectation_failure (concat (map Expectations rs) @ stale) all
    \<longleftrightarrow> list_ex (\<lambda>e. ex_State e = StateStale) stale \<or> list_ex report_expectation_failure rs"
proof -
  have "list_ex (\<lambda>e. ex_State e = StateStale) stale \<longleftrightarrow> expectation_failure stale all"
    using st unfolding expectation_failure_def Let_def list_all_iff list_ex_iff by auto
  moreover have "list_ex report_expectation_failure rs \<longleftrightarrow> expectation_failure (concat (map Expectations rs)) all"
  proof -
    define bad where "bad rows e = (case ex_State e of StateStale \<Rightarrow> True
      | StateUnfulfilled \<Rightarrow> index_rows w_ID w_Outcome rows (ex_ID e) \<in> {Some RowKilled, Some RowTimedOut}
      | StateFulfilled \<Rightarrow> False)" for rows :: "row list" and e :: expectation
    have "bad all e = bad (Mutants r) e" if "r \<in> set rs" "e \<in> set (Expectations r)" for r e
      unfolding bad_def same [OF that] ..
    then have "(\<exists>r \<in> set rs. \<exists>e \<in> set (Expectations r). bad all e)
        \<longleftrightarrow> (\<exists>r \<in> set rs. \<exists>e \<in> set (Expectations r). bad (Mutants r) e)"
      by blast
    then show ?thesis
      by (simp add: expectation_failure_def report_expectation_failure_def bad_def list_ex_concat list_ex_iff)
  qed
  ultimately show ?thesis unfolding expectation_failure_def Let_def by auto
qed

lemma build_workspace_verdict:
  assumes ok: "catalog_ok c" and c: "op_Catalog (wo_Options wo) = Some c"
    and d: "distinct (named_paths wo)" and w: "build_workspace host wo = Inr w"
  shows "workspace_expectation_failure w \<longleftrightarrow> expectation_failure (workspace_ledger w) (workspace_rows w)"
proof -
  let ?ledger = "Expect (Mutation (op_Config (wo_Options wo)))"
  let ?opts = "module_options (wo_Options wo) (\<lambda>path. filter (in_module c path) ?ledger)"
  obtain rs where rs: "list_all2 (\<lambda>m r. build_report host (?opts m) = Inr r) (wo_Modules wo) rs"
    and r: "reports_of w = rs" and ms: "wr_Modules w = map2 module_row (wo_Modules wo) rs"
    by (rule build_workspace_Inr [OF w c])
  have acc: "workspace_accounts wo c w" by (rule build_workspace_accounts [OF ok c d w])
  have dm: "distinct (map ID (mutants c))" using ok by (simp add: catalog_ok_def)
  have "distinct (map w_ID (workspace_rows w) @ map rj_ID (concat (map Rejected (reports_of w))))"
    using acc distinct_map_filter [OF dm] mset_eq_imp_distinct_iff unfolding workspace_accounts_def by metis
  then have dr: "distinct (map w_ID (workspace_rows w))" by simp
  have own: "\<exists>m \<in> set (mutants c). ID m = w_ID x \<and> c_ModulePath (m_candidate m) = wm_Path k"
    if "build_report host (?opts k) = Inr y" "x \<in> set (Mutants y)" for k x y
  proof -
    have "map w_ID (Mutants y) = map ID (filter (\<lambda>m. ID m \<notin> set (map rn_ID (op_Rejections (?opts k)))) (of_module (wm_Path k) (mutants c)))"
      using build_accounts_for [OF ok _ that(1)] c unfolding accounts_for_def Let_def by simp
    moreover have "w_ID x \<in> set (map w_ID (Mutants y))" using that(2) by simp
    ultimately show ?thesis by auto
  qed
  have same: "index_rows w_ID w_Outcome (workspace_rows w) (ex_ID e) = index_rows w_ID w_Outcome (Mutants y) (ex_ID e)"
    if y: "y \<in> set rs" and e: "e \<in> set (Expectations y)" for y e
  proof -
    obtain i where i: "i < length rs" "y = rs ! i" using y by (metis in_set_conv_nth)
    then have k: "build_report host (?opts (wo_Modules wo ! i)) = Inr y" "i < length (wo_Modules wo)"
      using rs by (simp_all add: list_all2_conv_all_nth)
    have "in_module c (wm_Path (wo_Modules wo ! i)) \<lparr>xr_ID = ex_ID e, xr_Reason = ex_Reason e\<rparr>"
    proof -
      have "ledger_of (Expectations y) = filter (in_module c (wm_Path (wo_Modules wo ! i))) ?ledger"
        by (simp add: build_expectations(1) [OF k(1)])
      moreover have "\<lparr>xr_ID = ex_ID e, xr_Reason = ex_Reason e\<rparr> \<in> set (ledger_of (Expectations y))"
        using e by (simp add: ledger_of_def)
      ultimately show ?thesis by simp
    qed
    then obtain m where m: "m \<in> set (mutants c)" "ID m = ex_ID e" "c_ModulePath (m_candidate m) = wm_Path (wo_Modules wo ! i)"
      by (auto simp: in_module_def by_id_iff [OF ok] split: option.splits)
    have "x \<in> set (Mutants y)" if x: "x \<in> set (workspace_rows w)" "w_ID x = ex_ID e" for x
    proof -
      obtain z where "z \<in> set rs" "x \<in> set (Mutants z)" using x(1) by (auto simp: workspace_rows_def r)
      then obtain j where j: "j < length rs" "x \<in> set (Mutants (rs ! j))" by (metis in_set_conv_nth)
      then have kj: "build_report host (?opts (wo_Modules wo ! j)) = Inr (rs ! j)" "j < length (wo_Modules wo)"
        using rs by (simp_all add: list_all2_conv_all_nth)
      from own [OF kj(1) j(2)] x(2) m have "wm_Path (wo_Modules wo ! j) = wm_Path (wo_Modules wo ! i)"
        using dm unfolding distinct_map inj_on_def by metis
      then have "j = i" using d kj(2) k(2) by (metis length_map nth_eq_iff_index_eq nth_map)
      then show ?thesis using j i by simp
    qed
    moreover have "set (Mutants y) \<subseteq> set (workspace_rows w)" using y by (auto simp: workspace_rows_def r)
    moreover have "distinct (map w_ID (Mutants y))"
      using build_report_parts [OF k(1)] rows_distinct(1) [OF ok] c
      by (metis assemble_simps(1) module_options_simps(2) option.inject)
    ultimately show ?thesis by (intro index_rows_sub [OF dr])
  qed
  have "workspace_expectation_failure w \<longleftrightarrow> list_ex (\<lambda>e. ex_State e = StateStale) (wr_Expectations w)
      \<or> list_ex report_expectation_failure rs"
  proof -
    have "list_all2 (\<lambda>d x. (case md_Report d of None \<Rightarrow> False | Some x \<Rightarrow> report_expectation_failure x) = report_expectation_failure x)
        (wr_Modules w) rs"
      using list_all2_lengthD [OF rs] by (simp add: ms list_all2_conv_all_nth)
    then have "list_ex (\<lambda>d. case md_Report d of None \<Rightarrow> False | Some x \<Rightarrow> report_expectation_failure x) (wr_Modules w)
        \<longleftrightarrow> list_ex report_expectation_failure rs"
      by (induction rule: list_all2_induct) auto
    then show ?thesis by (simp add: workspace_expectation_failure_def)
  qed
  then show ?thesis
    using expectation_failure_parts [where rs = rs and all = "workspace_rows w" and stale = "wr_Expectations w"] same acc
    by (simp add: workspace_ledger_def r workspace_accounts_def)
qed


section \<open>A workspace of two modules\<close>

definition twin_mutant :: "nat \<Rightarrow> char \<Rightarrow> string \<Rightarrow> mutant" where
  "twin_mutant n ch path =
     \<lparr>Index = of_nat n, ID = replicate 64 ch, DisplayID = [ch],
      m_candidate = (example_candidate [ch])\<lparr>c_ModulePath := path\<rparr>\<rparr>"

definition twin_catalog :: catalog where
  "twin_catalog =
     (let ms = [twin_mutant 0 CHR ''a'' ''m'', twin_mutant 1 CHR ''b'' ''n'', twin_mutant 2 CHR ''c'' ''m''] in
      \<lparr>mutants = ms, duplicates = [], byID = index_by ID ms, byDisplayID = index_by DisplayID ms,
       displayLen = 1, cat_digest = []\<rparr>)"

text \<open>The survivor of the second module is expected; a third row names no mutant.\<close>

definition twin_options :: report_options where
  "twin_options = example_whole
     \<lparr>op_Catalog := Some twin_catalog,
      op_Results := [example_measured (replicate 64 CHR ''a'') OutcomeKilled, example_measured (replicate 64 CHR ''b'') OutcomeSurvived],
      op_Rejections := [\<lparr>rn_ID = replicate 64 CHR ''c'', rn_Diagnostic = ''does not compile''\<rparr>],
      op_Config := (defaults_of 4)\<lparr>Mutation := (Mutation (defaults_of 4))\<lparr>Expect :=
        [\<lparr>xr_ID = replicate 64 CHR ''b'', xr_Reason = ''equivalent''\<rparr>, \<lparr>xr_ID = ''d'', xr_Reason = ''gone''\<rparr>]\<rparr>\<rparr>\<rparr>"

definition twin_module :: "string \<Rightarrow> char list \<Rightarrow> workspace_module" where
  "twin_module path chs =
     \<lparr>wm_Dir = path, wm_Path = path,
      wm_Located = map (\<lambda>ch. \<lparr>loc_Candidate = (example_candidate [ch])\<lparr>c_ModulePath := path\<rparr>, loc_Line = 1, loc_Column = 1,
        loc_Package = path, loc_Branch = None\<rparr>) chs,
      wm_Skips = [], wm_Selected = 1\<rparr>"

definition twin_workspace :: workspace_options where
  "twin_workspace = \<lparr>wo_Options = twin_options, wo_Modules = [twin_module ''m'' ''ac'', twin_module ''n'' ''b'']\<rparr>"

lemma twin_catalog_ok: "catalog_ok twin_catalog"
  using sample_letters
  by (auto simp: catalog_ok_def twin_catalog_def twin_mutant_def Let_def upt_rec replicate_eq_replicate numeral_2_eq_2)

text \<open>A workspace whose modules all build has a document.\<close>

lemma build_workspace_exists:
  assumes c: "op_Catalog (wo_Options wo) = Some c" and ne: "wo_Modules wo \<noteq> []"
    and ms: "\<And>m. m \<in> set (wo_Modules wo) \<Longrightarrow> \<exists>r. build_report host (module_options (wo_Options wo)
        (\<lambda>path. filter (in_module c path) (Expect (Mutation (op_Config (wo_Options wo))))) m) = Inr r"
  shows "\<exists>w. build_workspace host wo = Inr w"
proof -
  let ?ledger = "Expect (Mutation (op_Config (wo_Options wo)))"
  let ?opts = "module_options (wo_Options wo) (\<lambda>path. filter (in_module c path) ?ledger)"
  obtain f where f: "\<And>m. m \<in> set (wo_Modules wo) \<Longrightarrow> build_report host (?opts m) = Inr (f m)" using ms by metis
  let ?rs = "map f (wo_Modules wo)"
  have rs: "list_all2 (\<lambda>m r. build_report host (?opts m) = Inr r) (wo_Modules wo) ?rs"
    using f by (simp add: list_all2_conv_all_nth)
  then have b: "build_modules host (wo_Options wo) (\<lambda>path. filter (in_module c path) ?ledger) (wo_Modules wo) ([], [], [])
      = Inr (map2 module_row (wo_Modules wo) ?rs, concat (map Expectations ?rs), concat (map Mutants ?rs))"
    unfolding build_modules_Inr by auto
  have "\<exists>u. sum_tallies rs s = Inr u" if "\<forall>r \<in> set rs. \<exists>t. report_tally r = Inr t" for rs s
    using that
  proof (induction rs arbitrary: s)
    case (Cons r rs)
    then obtain t where t: "report_tally r = Inr t" by auto
    have "sum_tallies (r # rs) s = sum_tallies rs (add_tally s t)" by (simp add: sum_tallies_def t)
    with Cons show ?case by simp
  qed (simp add: sum_tallies_def)
  moreover have "\<forall>r \<in> set ?rs. \<exists>t. report_tally r = Inr t"
    using f build_tally by fastforce
  ultimately obtain u where "sum_tallies ?rs empty_tally = Inr u" by blast
  then have "tally_modules empty_tally (map2 module_row (wo_Modules wo) ?rs) = Inr u"
    using tally_modules_reports [OF list_all2_module_rows, of "wo_Modules wo" ?rs empty_tally] by simp
  then show ?thesis
    using c ne b
    by (simp add: build_workspace_def partition_ledger_simp summarised_def workspace_tally_def workspace_document_def Let_def)
qed

lemma twin_parts:
  "list_all (\<lambda>m. isl (report_parts (module_options twin_options
        (\<lambda>path. filter (in_module twin_catalog path) (Expect (Mutation (op_Config twin_options)))) m) twin_catalog) = False)
     (wo_Modules twin_workspace)"
  by code_simp

lemma twin_options_simps:
  "op_Catalog twin_options = Some twin_catalog" "check_identity twin_options = None" "check_memory twin_options = None"
proof -
  show "op_Catalog twin_options = Some twin_catalog" by (simp add: twin_options_def)
  have "check_identity twin_options = check_identity example_whole"
    unfolding twin_options_def check_identity_def by simp
  moreover have "check_memory twin_options = check_memory example_whole"
    unfolding twin_options_def check_memory_def by simp
  ultimately show "check_identity twin_options = None" "check_memory twin_options = None"
    by (simp_all add: example_identity(1,2))
qed

lemma module_checks:
  "check_identity (module_options opts f m) = check_identity opts" "check_memory (module_options opts f m) = check_memory opts"
  by (simp_all add: module_options_def check_identity_def check_memory_def)

lemma twin_built: "\<exists>w. build_workspace example_host twin_workspace = Inr w"
proof (rule build_workspace_exists)
  show "op_Catalog (wo_Options twin_workspace) = Some twin_catalog" "wo_Modules twin_workspace \<noteq> []"
    by (simp_all add: twin_workspace_def twin_options_simps)
  fix m assume "m \<in> set (wo_Modules twin_workspace)"
  then have "isl (report_parts (module_options twin_options
        (\<lambda>path. filter (in_module twin_catalog path) (Expect (Mutation (op_Config twin_options)))) m) twin_catalog) = False"
    using twin_parts unfolding list_all_iff by blast
  then have "build_report example_host (module_options twin_options
        (\<lambda>path. filter (in_module twin_catalog path) (Expect (Mutation (op_Config twin_options)))) m)
      = Inr (projr (build_report example_host (module_options twin_options
        (\<lambda>path. filter (in_module twin_catalog path) (Expect (Mutation (op_Config twin_options)))) m)))"
    by (intro build_report_exists) (simp_all add: module_checks twin_options_simps)
  then show "\<exists>r. build_report example_host (module_options (wo_Options twin_workspace)
        (\<lambda>path. filter (in_module twin_catalog path) (Expect (Mutation (op_Config (wo_Options twin_workspace))))) m) = Inr r"
    by (intro exI) (simp add: twin_workspace_def)
qed

lemma twin_paths: "op_Catalog (wo_Options twin_workspace) = Some twin_catalog" "distinct (named_paths twin_workspace)"
  by (simp_all add: twin_workspace_def twin_module_def twin_options_simps)

theorem workspace_accounts_catalog_witness:
  "case build_workspace example_host twin_workspace of Inl _ \<Rightarrow> False | Inr w \<Rightarrow> workspace_accounts twin_workspace twin_catalog w"
  using workspace_accounts_catalog [OF twin_catalog_ok twin_paths, of example_host] twin_built by auto


end
