(* ===== verification/WorkspaceMerge.thy ===== *)
theory WorkspaceMerge
  imports WorkspaceFacts
begin

text \<open>
  Merging the documents of a sharded run over several modules gives back the document of the
  whole run: the refinement of \<open>MergeFacts\<close>, module by module, with one summary over all.
\<close>

section \<open>The steps\<close>

lemma present_workspaces_Inr [simp]: "present_workspaces (map Some ws) = Inr ws"
  by (induction ws) auto

lemma all_same_modules_None: "all_same_modules first ws = None \<longleftrightarrow> (\<forall>w \<in> set ws. same_modules first w = None)"
  by (induction ws) (auto split: option.splits)

lemma same_modules_paths:
  "same_modules first w = None \<longleftrightarrow> map md_ModulePath (wr_Modules w) = map md_ModulePath (wr_Modules first)"
proof -
  have "\<not> list_ex (\<lambda>(a, b). md_ModulePath b \<noteq> md_ModulePath a) (zip xs ys)
      \<longleftrightarrow> map md_ModulePath ys = map md_ModulePath xs" if "length xs = length ys" for xs ys
    using that by (induction xs ys rule: list_induct2) auto
  then show ?thesis by (auto simp: same_modules_def dest: map_eq_imp_length_eq)
qed

abbreviation column :: "nat \<Rightarrow> workspace_report list \<Rightarrow> report option list" where
  "column i ws \<equiv> map (\<lambda>w. md_Report (wr_Modules w ! i)) ws"

abbreviation merged_module :: "module_report \<Rightarrow> report \<Rightarrow> module_report" where
  "merged_module d r \<equiv> \<lparr>md_Dir = md_Dir d, md_ModulePath = md_ModulePath d, md_Report = Some r\<rparr>"

lemma merge_modules_Inr:
  assumes "list_all2 (\<lambda>j r. merge_shards runID (column j shards) = Inr r) [i ..< i + length ds] rs"
  shows "merge_modules runID shards i ds (modules, expectations, rows) =
    Inr (modules @ map2 merged_module ds rs, expectations @ concat (map Expectations rs), rows @ concat (map Mutants rs))"
  using assms
proof (induction ds arbitrary: i rs modules expectations rows)
  case Nil
  then show ?case by simp
next
  case (Cons d ds)
  have "[i ..< i + length (d # ds)] = i # [Suc i ..< Suc i + length ds]" by (simp add: upt_rec)
  then obtain r rest where "rs = r # rest" "merge_shards runID (column i shards) = Inr r"
    "list_all2 (\<lambda>j r. merge_shards runID (column j shards) = Inr r) [Suc i ..< Suc i + length ds] rest"
    using Cons.prems by (auto simp: list_all2_Cons1)
  with Cons.IH [of "Suc i" rest] show ?case by simp
qed

section \<open>A sharded run\<close>

text \<open>
  The run of one shard of a workspace: the settings, the modules and the catalogue of the whole
  run; of each module, its own number of selected mutants.
\<close>

definition workspace_shard_run :: "workspace_options \<Rightarrow> int \<Rightarrow> int \<Rightarrow> workspace_options \<Rightarrow> bool" where
  "workspace_shard_run whole n k wo \<longleftrightarrow>
     shard_run (wo_Options whole) n k (wo_Options wo)
     \<and> list_all2 (\<lambda>m m'. wm_Dir m' = wm_Dir m \<and> wm_Path m' = wm_Path m \<and> wm_Located m' = wm_Located m)
         (wo_Modules whole) (wo_Modules wo)"

lemma shard_run_module:
  assumes "shard_run whole n k opts" and "wm_Path m' = wm_Path m" and "wm_Located m' = wm_Located m"
  shows "shard_run (module_options whole f m) n k (module_options opts f m')"
  using assms by (simp add: shard_run_def module_options_def)

lemma report_tally_strip:
  assumes "Mutants m = map strip_row (Mutants w)" and "Expectations m = Expectations w"
  shows "report_tally m = report_tally w"
proof -
  have "map (\<lambda>w. (w_ID w, w_Outcome w)) (Mutants m) = map (\<lambda>w. (w_ID w, w_Outcome w)) (Mutants w)"
    by (simp add: assms)
  from same_rows(3) [OF this] show ?thesis by (simp add: report_tally_def assms(2))
qed

lemma sum_tallies_same:
  "list_all2 (\<lambda>w m. report_tally m = report_tally w) ws ms \<Longrightarrow> sum_tallies ms s = sum_tallies ws s"
proof (induction arbitrary: s rule: list_all2_induct)
  case (Cons w ws m ms)
  then show ?case by (cases "report_tally w") (simp_all add: sum_tallies_def foldl_Inl)
qed simp

definition merged_workspace :: "workspace_report \<Rightarrow> workspace_report \<Rightarrow> bool" where
  "merged_workspace w m \<longleftrightarrow>
     list_all2 (\<lambda>d e. md_Dir e = md_Dir d \<and> md_ModulePath e = md_ModulePath d
         \<and> (case (md_Report d, md_Report e) of (Some x, Some y) \<Rightarrow> merged_as x y | _ \<Rightarrow> False))
       (wr_Modules w) (wr_Modules m)
     \<and> wr_Expectations m = wr_Expectations w \<and> wr_Summary m = wr_Summary w"

text \<open>A document with the options it was built from: what the merge reads of it.\<close>

definition workspace_of :: "platform \<Rightarrow> catalog \<Rightarrow> workspace_options \<Rightarrow> workspace_report \<Rightarrow> report list \<Rightarrow> tally \<Rightarrow> bool" where
  "workspace_of host c wo w rs t \<longleftrightarrow>
     list_all2 (\<lambda>m r. build_report host (module_options (wo_Options wo)
        (\<lambda>path. filter (in_module c path) (Expect (Mutation (op_Config (wo_Options wo))))) m) = Inr r) (wo_Modules wo) rs
     \<and> reports_of w = rs \<and> wr_Modules w = map2 module_row (wo_Modules wo) rs
     \<and> wr_Expectations w
         = evaluate (filter (\<lambda>e. by_id c (xr_ID e) = None) (Expect (Mutation (op_Config (wo_Options wo))))) Map.empty
     \<and> sum_tallies rs empty_tally = Inr t
     \<and> wr_Summary w = summary_of t (Policy (op_Config (wo_Options wo))) (op_InfrastructureError (wo_Options wo))
         (workspace_ledger w) (workspace_rows w)"

lemma workspace_of_build:
  assumes "build_workspace host wo = Inr w" and "op_Catalog (wo_Options wo) = Some c"
  obtains rs t where "workspace_of host c wo w rs t"
  by (rule build_workspace_Inr [OF assms], rule that, unfold workspace_of_def, intro conjI)

lemma workspace_of_module:
  assumes "workspace_of host c wo w rs t" and "i < length (wo_Modules wo)"
  shows "md_Report (wr_Modules w ! i) = Some (rs ! i)" and "length rs = length (wo_Modules wo)"
    and "build_report host (module_options (wo_Options wo)
        (\<lambda>path. filter (in_module c path) (Expect (Mutation (op_Config (wo_Options wo))))) (wo_Modules wo ! i)) = Inr (rs ! i)"
  using assms unfolding workspace_of_def list_all2_conv_all_nth by auto

lemma workspace_of_paths:
  assumes "workspace_of host c wo w rs t"
  shows "map md_ModulePath (wr_Modules w) = map wm_Path (wo_Modules wo)" "map md_Dir (wr_Modules w) = map wm_Dir (wo_Modules wo)"
    "length (wr_Modules w) = length (wo_Modules wo)"
  using assms unfolding workspace_of_def list_all2_conv_all_nth by (auto intro!: nth_equalityI)

lemma workspace_shard_run_modules:
  assumes "workspace_shard_run whole n k wo"
  shows "map wm_Path (wo_Modules wo) = map wm_Path (wo_Modules whole)" "map wm_Dir (wo_Modules wo) = map wm_Dir (wo_Modules whole)"
    "length (wo_Modules wo) = length (wo_Modules whole)"
    "op_Catalog (wo_Options wo) = op_Catalog (wo_Options whole)" "op_Config (wo_Options wo) = op_Config (wo_Options whole)"
    and "i < length (wo_Modules whole) \<Longrightarrow>
      shard_run (module_options (wo_Options whole) f (wo_Modules whole ! i)) n k (module_options (wo_Options wo) f (wo_Modules wo ! i))"
proof -
  show "map wm_Path (wo_Modules wo) = map wm_Path (wo_Modules whole)" "map wm_Dir (wo_Modules wo) = map wm_Dir (wo_Modules whole)"
    using assms unfolding workspace_shard_run_def list_all2_conv_all_nth by (auto intro!: nth_equalityI)
  show "length (wo_Modules wo) = length (wo_Modules whole)" "op_Catalog (wo_Options wo) = op_Catalog (wo_Options whole)"
    "op_Config (wo_Options wo) = op_Config (wo_Options whole)"
    using assms unfolding workspace_shard_run_def shard_run_def by (auto dest: list_all2_lengthD)
  show "i < length (wo_Modules whole) \<Longrightarrow>
      shard_run (module_options (wo_Options whole) f (wo_Modules whole ! i)) n k (module_options (wo_Options wo) f (wo_Modules wo ! i))"
    using assms unfolding workspace_shard_run_def list_all2_conv_all_nth by (intro shard_run_module) auto
qed

text \<open>Merging the documents of a module, one of each shard.\<close>

lemma merge_column:
  assumes w: "workspace_of host c whole w rs t" and infra: "\<not> op_InfrastructureError (wo_Options whole)"
    and free: "\<forall>r \<in> set (op_Results (wo_Options whole)). mo_NotRunReason r \<noteq> NotRunOtherShard"
    and ks: "distinct ks" "set ks = {1 .. n}" "1 \<le> n"
    and runs: "list_all2 (workspace_shard_run whole n) ks runs"
    and built: "list_all2 (\<lambda>wo d. \<exists>rs t. workspace_of host c wo d rs t) runs ds"
    and small: "sum_list (map (\<lambda>wo. op_CacheMisses (wo_Options wo)) runs) < 2 ^ 63" and runID: "run_id_ok runID"
    and i: "i < length (wo_Modules whole)"
  shows "\<exists>m. merge_shards runID (column i ds) = Inr m \<and> merged_as (rs ! i) m"
proof -
  let ?f = "\<lambda>path. filter (in_module c path) (Expect (Mutation (op_Config (wo_Options whole))))"
  let ?opts = "\<lambda>wo. module_options (wo_Options wo) ?f (wo_Modules wo ! i)"
  let ?docs = "map (\<lambda>d. the (md_Report (wr_Modules d ! i))) ds"
  have each: "md_Report (wr_Modules (ds ! j) ! i) \<noteq> None
      \<and> build_report host (?opts (runs ! j)) = Inr (the (md_Report (wr_Modules (ds ! j) ! i)))" if j: "j < length ds" for j
  proof -
    obtain xs u where x: "workspace_of host c (runs ! j) (ds ! j) xs u" using built j by (auto simp: list_all2_conv_all_nth)
    have "workspace_shard_run whole n (ks ! j) (runs ! j)"
      using runs built j by (auto simp: list_all2_conv_all_nth)
    note m = workspace_shard_run_modules [OF this]
    show ?thesis using workspace_of_module [OF x] m(3,5) i by simp
  qed
  have col: "column i ds = map Some ?docs"
    using each by (intro nth_equalityI) auto
  have a: "list_all2 (shard_run (?opts whole) n) ks (map ?opts runs)"
    using runs workspace_shard_run_modules(6) [OF _ i] by (simp add: list_all2_conv_all_nth)
  have b: "list_all2 (\<lambda>opts d. build_report host opts = Inr d) (map ?opts runs) ?docs"
    using each list_all2_lengthD [OF built] by (simp add: list_all2_conv_all_nth)
  have "map op_CacheMisses (map ?opts runs) = map (\<lambda>wo. op_CacheMisses (wo_Options wo)) runs" by simp
  then have m: "sum_list (map op_CacheMisses (map ?opts runs)) < 2 ^ 63" using small by presburger
  have "\<not> op_InfrastructureError (?opts whole)"
    "\<forall>r \<in> set (op_Results (?opts whole)). mo_NotRunReason r \<noteq> NotRunOtherShard"
    using infra free by simp_all
  from merge_run_shards [OF workspace_of_module(3) [OF w i] this ks a b m runID] show ?thesis unfolding col .
qed

lemma summary_strip:
  assumes "list_all2 merged_as rs ms"
  shows "summary_of t p infra xs (concat (map Mutants ms)) = summary_of t p infra xs (concat (map Mutants rs))"
    and "concat (map Expectations ms) = concat (map Expectations rs)" and "sum_tallies ms s = sum_tallies rs s"
proof -
  have "concat (map Mutants ms) = map strip_row (concat (map Mutants rs))"
    using assms by (induction rule: list_all2_induct) (auto simp: merged_as_def)
  then show "summary_of t p infra xs (concat (map Mutants ms)) = summary_of t p infra xs (concat (map Mutants rs))"
    by (intro same_rows(4)) simp
  show "concat (map Expectations ms) = concat (map Expectations rs)"
    using assms by (induction rule: list_all2_induct) (auto simp: merged_as_def)
  show "sum_tallies ms s = sum_tallies rs s"
    using assms by (intro sum_tallies_same) (auto elim!: list_all2_mono simp: merged_as_def report_tally_strip)
qed

lemma workspace_shard_document:
  assumes w: "workspace_of host c whole w rs t" and x: "workspace_of host c wo d xs u"
    and run: "workspace_shard_run whole n k wo"
  shows "map md_ModulePath (wr_Modules d) = map wm_Path (wo_Modules whole)"
    and "map md_Dir (wr_Modules d) = map wm_Dir (wo_Modules whole)"
    and "length (wr_Modules d) = length (wo_Modules whole)" and "wr_Expectations d = wr_Expectations w"
    and "policy_of (sm_Policy (wr_Summary d)) = Policy (op_Config (wo_Options whole))"
proof -
  note m = workspace_shard_run_modules [OF run]
  show "map md_ModulePath (wr_Modules d) = map wm_Path (wo_Modules whole)"
    "map md_Dir (wr_Modules d) = map wm_Dir (wo_Modules whole)" "length (wr_Modules d) = length (wo_Modules whole)"
    using workspace_of_paths [OF x] m(1-3) by simp_all
  show "wr_Expectations d = wr_Expectations w" using x w unfolding workspace_of_def m(5) by metis
  show "policy_of (sm_Policy (wr_Summary d)) = Policy (op_Config (wo_Options whole))"
    using x unfolding workspace_of_def m(5) by (metis policy_of_summary)
qed

lemma merge_workspace_shards:
  assumes whole: "build_workspace host whole = Inr w" and infra: "\<not> op_InfrastructureError (wo_Options whole)"
    and free: "\<forall>r \<in> set (op_Results (wo_Options whole)). mo_NotRunReason r \<noteq> NotRunOtherShard"
    and ks: "distinct ks" "set ks = {1 .. n}" "1 \<le> n"
    and runs: "list_all2 (workspace_shard_run whole n) ks runs"
    and built: "list_all2 (\<lambda>wo d. build_workspace host wo = Inr d) runs ds"
    and small: "sum_list (map (\<lambda>wo. op_CacheMisses (wo_Options wo)) runs) < 2 ^ 63" and runID: "run_id_ok runID"
  shows "\<exists>m. merge_workspaces runID (map Some ds) = Inr m \<and> merged_workspace w m"
proof -
  obtain c where c: "op_Catalog (wo_Options whole) = Some c"
    using whole by (auto simp: build_workspace_def Let_def split: option.splits)
  obtain rs t where w: "workspace_of host c whole w rs t" by (rule workspace_of_build [OF whole c])
  have len: "length ks = length runs" "length runs = length ds"
    using list_all2_lengthD [OF runs] list_all2_lengthD [OF built] by simp_all
  have run: "workspace_shard_run whole n (ks ! j) (runs ! j) \<and> build_workspace host (runs ! j) = Inr (ds ! j)"
    if "j < length ds" for j
    using that runs built by (auto simp: list_all2_conv_all_nth)
  have doc: "\<exists>xs u. workspace_of host c (runs ! j) (ds ! j) xs u" if "j < length ds" for j
    using run [OF that] workspace_of_build [of host "runs ! j" "ds ! j" c] workspace_shard_run_modules(4) c by metis
  then have docs: "list_all2 (\<lambda>wo d. \<exists>xs u. workspace_of host c wo d xs u) runs ds"
    using len by (simp add: list_all2_conv_all_nth)
  have ne: "ds \<noteq> []" using ks len by auto
  let ?first = "hd ds" and ?k = "length (wo_Modules whole)"
  have paths: "map md_ModulePath (wr_Modules d) = map wm_Path (wo_Modules whole) \<and> map md_Dir (wr_Modules d) = map wm_Dir (wo_Modules whole)
      \<and> length (wr_Modules d) = ?k \<and> wr_Expectations d = wr_Expectations w
      \<and> policy_of (sm_Policy (wr_Summary d)) = Policy (op_Config (wo_Options whole))" if "d \<in> set ds" for d
  proof -
    obtain j where j: "j < length ds" "d = ds ! j" using \<open>d \<in> set ds\<close> by (metis in_set_conv_nth)
    then obtain xs u where "workspace_of host c (runs ! j) d xs u" "workspace_shard_run whole n (ks ! j) (runs ! j)"
      using doc run by metis
    from workspace_shard_document [OF w this] show ?thesis by simp
  qed
  have first: "?first \<in> set ds" using ne by simp
  have same: "all_same_modules ?first (tl ds) = None"
    unfolding all_same_modules_None same_modules_paths using paths first ne by (metis list.set_sel(2))
  have "\<exists>m. merge_shards runID (column i ds) = Inr m \<and> merged_as (rs ! i) m" if "i < ?k" for i
    by (rule merge_column [OF w infra free ks runs docs small runID that])
  then obtain f where f: "\<And>i. i < ?k \<Longrightarrow> merge_shards runID (column i ds) = Inr (f i) \<and> merged_as (rs ! i) (f i)"
    by metis
  let ?ms = "map f [0 ..< ?k]"
  have rk: "length rs = ?k" using w unfolding workspace_of_def by (auto dest: list_all2_lengthD)
  have as: "list_all2 merged_as rs ?ms" using f rk by (simp add: list_all2_conv_all_nth)
  have "list_all2 (\<lambda>j r. merge_shards runID (column j ds) = Inr r) [0 ..< 0 + length (wr_Modules ?first)] ?ms"
    using f paths [OF first] by (simp add: list_all2_conv_all_nth)
  note modules = merge_modules_Inr [OF this, of "[]" "[]" "[]"]
  let ?merged = "?first\<lparr>wr_RunID := runID, wr_Modules := map2 merged_module (wr_Modules ?first) ?ms\<rparr>"
  have "workspace_tally ?merged = Inr t"
  proof -
    have "list_all2 (\<lambda>d r. md_Report d = Some r) (wr_Modules ?merged) ?ms"
      using paths [OF first] by (simp add: list_all2_conv_all_nth)
    from tally_modules_reports [OF this] show ?thesis
      using w summary_strip(3) [OF as] unfolding workspace_tally_def workspace_of_def by simp
  qed
  moreover have "merge_workspaces runID (map Some ds) = summarised ?merged (policy_of (sm_Policy (wr_Summary ?first))) False
      (concat (map Expectations ?ms) @ wr_Expectations ?first) (concat (map Mutants ?ms))"
    using ne same modules by (simp add: merge_workspaces_def Let_def)
  moreover have "summary_of t (policy_of (sm_Policy (wr_Summary ?first))) False
      (concat (map Expectations ?ms) @ wr_Expectations ?first) (concat (map Mutants ?ms)) = wr_Summary w"
    using w infra paths [OF first] summary_strip(1,2) [OF as]
    unfolding workspace_of_def workspace_ledger_def workspace_rows_def by simp
  ultimately have "merge_workspaces runID (map Some ds) = Inr (?merged\<lparr>wr_Summary := wr_Summary w\<rparr>)"
    by (simp add: summarised_def)
  moreover have "merged_workspace w (?merged\<lparr>wr_Summary := wr_Summary w\<rparr>)"
  proof -
    have "map md_ModulePath (wr_Modules ?first) = map md_ModulePath (wr_Modules w)"
      "map md_Dir (wr_Modules ?first) = map md_Dir (wr_Modules w)"
      using paths [OF first] workspace_of_paths [OF w] by simp_all
    then have "md_Dir (wr_Modules ?first ! i) = md_Dir (wr_Modules w ! i) \<and> md_ModulePath (wr_Modules ?first ! i) = md_ModulePath (wr_Modules w ! i)"
      if "i < ?k" for i
      using that paths [OF first] workspace_of_paths(3) [OF w] by (metis nth_map)
    then show ?thesis
      using paths [OF first] f workspace_of_module(1) [OF w] workspace_of_paths(3) [OF w]
      by (simp add: merged_workspace_def list_all2_conv_all_nth)
  qed
  ultimately show ?thesis by blast
qed

text \<open>
  C15. Sharding a run over several modules does not change its document. Take a workspace run and,
  for each shard of a complete set, a run of the same modules and settings that measured what the
  whole run measured for the mutants of that shard. Merging the documents of the shards, in any
  order, succeeds; every module has the rows, rejections, expectations and summary of the whole
  run's document of that module, and the workspace has its stale expectations and its summary.
\<close>

theorem merge_of_workspace_shards:
  assumes whole: "build_workspace host whole = Inr w" and infra: "\<not> op_InfrastructureError (wo_Options whole)"
    and free: "\<forall>r \<in> set (op_Results (wo_Options whole)). mo_NotRunReason r \<noteq> NotRunOtherShard"
    and ks: "mset ks = mset [1 .. n]" "1 \<le> n"
    and runs: "list_all2 (workspace_shard_run whole n) ks runs"
    and built: "list_all2 (\<lambda>wo d. build_workspace host wo = Inr d) runs ds"
    and small: "sum_list (map (\<lambda>wo. op_CacheMisses (wo_Options wo)) runs) < 2 ^ 63" and runID: "run_id_ok runID"
  shows "case merge_workspaces runID (map Some ds) of Inl _ \<Rightarrow> False | Inr m \<Rightarrow> merged_workspace w m"
proof -
  have "distinct ks" and "set ks = {1 .. n}"
    using ks mset_eq_imp_distinct_iff [OF ks(1)] mset_eq_setD [OF ks(1)] by simp_all
  from merge_workspace_shards [OF whole infra free this ks(2) runs built small runID] show ?thesis by auto
qed

section \<open>The workspace of two modules in two shards\<close>

definition twin_shared :: "int \<Rightarrow> bool \<Rightarrow> bool \<Rightarrow> workspace_options" where
  "twin_shared k a b = twin_workspace
     \<lparr>wo_Options := twin_options
       \<lparr>op_Mode := ModeShard, op_Shard := Some \<lparr>sh_Index = k, sh_Total = 2, sh_Assignment = ShardAssignment\<rparr>,
        op_Results :=
          [if a then example_measured (replicate 64 CHR ''a'') OutcomeKilled else elsewhere (replicate 64 CHR ''a''),
           if b then example_measured (replicate 64 CHR ''b'') OutcomeSurvived else elsewhere (replicate 64 CHR ''b'')],
        op_CacheMisses := 1, op_Finished := 63902822402000000000 + k\<rparr>\<rparr>"

definition twin_share :: "int \<Rightarrow> workspace_options" where
  "twin_share k = twin_shared k (shard_index (replicate 64 CHR ''a'') 2 = k) (shard_index (replicate 64 CHR ''b'') 2 = k)"

definition twin_document :: "workspace_options \<Rightarrow> workspace_report" where
  "twin_document wo = projr (build_workspace example_host wo)"

lemma twin_shared_parts:
  "list_all (\<lambda>k. list_all (\<lambda>a. list_all (\<lambda>b. list_all (\<lambda>m.
      isl (report_parts (module_options (wo_Options (twin_shared k a b))
        (\<lambda>path. filter (in_module twin_catalog path) (Expect (Mutation (op_Config twin_options)))) m) twin_catalog) = False)
     (wo_Modules twin_workspace)) [True, False]) [True, False]) [1, 2]"
  by code_simp

lemma twin_shared_built:
  assumes k: "k \<in> {1, 2}"
  shows "build_workspace example_host (twin_shared k a b) = Inr (twin_document (twin_shared k a b))"
proof -
  let ?wo = "twin_shared k a b"
  have same: "wo_Modules ?wo = wo_Modules twin_workspace" "op_Catalog (wo_Options ?wo) = Some twin_catalog"
    "op_Config (wo_Options ?wo) = op_Config twin_options" "check_memory (wo_Options ?wo) = None"
    using twin_options_simps(3) by (simp_all add: twin_shared_def twin_options_simps(1) check_memory_def)
  have id: "check_identity (wo_Options ?wo) = None"
    using k by (auto simp: twin_shared_def twin_options_def example_whole_def check_identity_def
        is_zero_def run_status_valid_def run_statuses_def)
  have parts: "isl (report_parts (module_options (wo_Options ?wo)
        (\<lambda>path. filter (in_module twin_catalog path) (Expect (Mutation (op_Config twin_options)))) m) twin_catalog) = False"
    if "m \<in> set (wo_Modules twin_workspace)" for m
  proof -
    have "list_all P [True, False] \<Longrightarrow> P x" for P and x :: bool by (cases x) simp_all
    moreover have "list_all (\<lambda>a. list_all (\<lambda>b. list_all (\<lambda>m.
        isl (report_parts (module_options (wo_Options (twin_shared k a b))
          (\<lambda>path. filter (in_module twin_catalog path) (Expect (Mutation (op_Config twin_options)))) m) twin_catalog) = False)
        (wo_Modules twin_workspace)) [True, False]) [True, False]"
      using twin_shared_parts k by (auto simp only: list_all_iff list.set insert_iff empty_iff)
    ultimately show ?thesis using that unfolding list_all_iff by blast
  qed
  have "\<exists>w. build_workspace example_host ?wo = Inr w"
  proof (rule build_workspace_exists [OF same(2)])
    show "wo_Modules ?wo \<noteq> []" by (simp add: same(1) twin_workspace_def)
    fix m assume "m \<in> set (wo_Modules ?wo)"
    from parts [OF this [unfolded same(1)]]
    show "\<exists>r. build_report example_host (module_options (wo_Options ?wo)
        (\<lambda>path. filter (in_module twin_catalog path) (Expect (Mutation (op_Config (wo_Options ?wo))))) m) = Inr r"
      unfolding same(3) using build_report_exists [of "module_options (wo_Options ?wo) _ m" twin_catalog example_host]
      by (auto simp: module_checks same(2,4) id)
  qed
  then show ?thesis by (auto simp: twin_document_def)
qed

theorem merge_of_workspace_shards_witness:
  "case merge_workspaces ''20260218T091500Z-3f9c'' (map Some [twin_document (twin_share 2), twin_document (twin_share 1)]) of
     Inl _ \<Rightarrow> False | Inr m \<Rightarrow> merged_workspace (twin_document twin_workspace) m"
proof (rule merge_of_workspace_shards [where n = 2 and ks = "[2, 1]" and runs = "[twin_share 2, twin_share 1]"])
  show "build_workspace example_host twin_workspace = Inr (twin_document twin_workspace)"
    using twin_built by (auto simp: twin_document_def)
  show "list_all2 (workspace_shard_run twin_workspace 2) [2, 1] [twin_share 2, twin_share 1]"
    using example_calendar(1) example_calendar(2) [of 1] example_calendar(2) [of 2]
    by (simp add: workspace_shard_run_def shard_run_def twin_share_def twin_shared_def twin_workspace_def twin_options_def
        share_result_def example_measured_def elsewhere_def example_whole_def)
  show "list_all2 (\<lambda>wo d. build_workspace example_host wo = Inr d) [twin_share 2, twin_share 1]
      [twin_document (twin_share 2), twin_document (twin_share 1)]"
    using twin_shared_built by (simp add: twin_share_def)
  show "mset [2, 1] = mset [1 .. 2 :: int]" by (simp add: upto.simps)
  show "sum_list (map (\<lambda>wo. op_CacheMisses (wo_Options wo)) [twin_share 2, twin_share 1]) < 2 ^ 63"
    by (simp add: twin_share_def twin_shared_def)
  show "\<forall>r \<in> set (op_Results (wo_Options twin_workspace)). mo_NotRunReason r \<noteq> NotRunOtherShard"
    by (simp add: twin_workspace_def twin_options_def example_measured_def elsewhere_def reason_names)
qed (simp_all add: twin_workspace_def twin_options_def example_whole_def)

end
