(* ===== verification/Diagnostics.thy ===== *)
theory Diagnostics
  imports MutantId
begin

text \<open>
  Reading what the compiler prints (\<open>internal/validate/diagnostics.go\<close>): the lines that name a
  place, the path each one names below the root of the tree, and the diagnostic that speaks of a
  mutant. \<open>strings.EqualFold\<close>, which compares paths on Windows and below a volume, is the
  parameter \<open>folds\<close>; the operating system is the parameter \<open>goos\<close>.
\<close>

section \<open>Paths\<close>

definition is_absolute_path :: "string \<Rightarrow> bool" where
  "is_absolute_path p \<longleftrightarrow> has_prefix p ''/'' \<or> has_volume p \<and> (length p = 2 \<or> p ! 2 = CHR ''/'')"

definition equal_path_on :: "(string \<Rightarrow> string \<Rightarrow> bool) \<Rightarrow> string \<Rightarrow> string \<Rightarrow> string \<Rightarrow> bool" where
  "equal_path_on folds goos a b =
     (if goos = ''windows'' \<or> has_volume a \<or> has_volume b then folds a b else a = b)"

definition under_root :: "(string \<Rightarrow> string \<Rightarrow> bool) \<Rightarrow> string \<Rightarrow> string \<Rightarrow> string \<Rightarrow> string option" where
  "under_root folds goos p base =
     (if base = [] \<or> length p \<le> length base then None
      else if p ! length base \<noteq> CHR ''/'' \<or> \<not> equal_path_on folds goos (take (length base) p) base then None
      else Some (drop (length base + 1) p))"

fun strip_dot_slash :: "string \<Rightarrow> string" where
  "strip_dot_slash (a # b # p) = (if a = CHR ''.'' \<and> b = CHR ''/'' then strip_dot_slash p else a # b # p)"
| "strip_dot_slash p = p"

text \<open>\<open>normalizePath\<close>: None is a path outside the tree.\<close>

definition inside_path :: "(string \<Rightarrow> string \<Rightarrow> bool) \<Rightarrow> string \<Rightarrow> string \<Rightarrow> string \<Rightarrow> string option" where
  "inside_path folds goos raw base =
     (let p = trim_space (to_slash raw) in
      if p = [] then None
      else
        (case (if is_absolute_path p then under_root folds goos p (trim_right (to_slash base) ''/'') else Some p) of
           None \<Rightarrow> None
         | Some rest \<Rightarrow>
             (let q = strip_dot_slash rest in
              if q = [] then None
              else
                (let clean = path_clean q in
                 if clean = ''.'' \<or> clean = ''..'' \<or> has_prefix clean ''../'' \<or> is_absolute_path clean then None
                 else Some clean))))"

section \<open>Lines\<close>

record diagnostic =
  dg_Path :: string
  dg_Inside :: bool
  dg_Line :: int
  dg_Column :: int
  dg_Text :: string

text \<open>
  The pattern \<open>^(.*?):(\d+)(?::(\d+))?:(?:[ \t](.*))?$\<close> on a line without a line feed: the
  shortest prefix before a place. Digits end at the colon that follows them, a column is preferred,
  and after the last colon the line ends or a blank follows.
\<close>

definition tail_ok :: "string \<Rightarrow> bool" where
  "tail_ok t \<longleftrightarrow> t = [] \<or> hd t = CHR '' '' \<or> hd t = tab"

definition match_digits :: "string \<Rightarrow> (string \<times> string) option" where
  "match_digits s =
     (case s of
        [] \<Rightarrow> None
      | c # r \<Rightarrow>
          (let ds = takeWhile is_digit r in
           if c = CHR '':'' \<and> ds \<noteq> [] then Some (ds, dropWhile is_digit r) else None))"

definition match_end :: "string \<Rightarrow> bool" where
  "match_end s = (case s of [] \<Rightarrow> False | c # t \<Rightarrow> c = CHR '':'' \<and> tail_ok t)"

definition match_place :: "string \<Rightarrow> (string \<times> string) option" where
  "match_place s =
     (case match_digits s of
        None \<Rightarrow> None
      | Some (line, rest) \<Rightarrow>
          (case match_digits rest of
             Some (col, rest') \<Rightarrow>
               if match_end rest' then Some (line, col)
               else if match_end rest then Some (line, []) else None
           | None \<Rightarrow> if match_end rest then Some (line, []) else None))"

fun match_line :: "string \<Rightarrow> string \<Rightarrow> (string \<times> string \<times> string) option" where
  "match_line prefix s =
     (case match_place s of
        Some (line, col) \<Rightarrow> Some (prefix, line, col)
      | None \<Rightarrow> (case s of [] \<Rightarrow> None | c # cs \<Rightarrow> match_line (prefix @ [c]) cs))"

text \<open>\<open>strconv.Atoi\<close> on digits with the error dropped: no digits are 0, a number too large is the largest \<open>int\<close>.\<close>

definition atoi_value :: "string \<Rightarrow> int" where
  "atoi_value ds =
     (if ds = [] then 0
      else case number_from 10 0 ds of None \<Rightarrow> 0 | Some n \<Rightarrow> min (int n) max_int)"

definition diagnostic_of :: "(string \<Rightarrow> string \<Rightarrow> bool) \<Rightarrow> string \<Rightarrow> string \<Rightarrow> string \<Rightarrow> diagnostic option" where
  "diagnostic_of folds goos base line =
     (case match_line [] line of
        None \<Rightarrow> None
      | Some (path, l, col) \<Rightarrow>
          (let inside = inside_path folds goos path base in
           Some \<lparr>dg_Path = (case inside of None \<Rightarrow> path | Some rel \<Rightarrow> rel), dg_Inside = (inside \<noteq> None),
             dg_Line = atoi_value l, dg_Column = atoi_value col, dg_Text = line\<rparr>))"

text \<open>
  The loop of \<open>parseDiagnostics\<close>: \<open>current\<close> says that the last diagnostic of \<open>out\<close> takes the
  indented lines that follow.
\<close>

definition append_text :: "diagnostic list \<Rightarrow> string \<Rightarrow> diagnostic list" where
  "append_text out line = (butlast out) @ [(last out)\<lparr>dg_Text := dg_Text (last out) @ [nl] @ line\<rparr>]"

fun parse_diagnostic_lines ::
  "(string \<Rightarrow> string \<Rightarrow> bool) \<Rightarrow> string \<Rightarrow> string \<Rightarrow> diagnostic list \<Rightarrow> bool \<Rightarrow> string list \<Rightarrow> diagnostic list" where
  "parse_diagnostic_lines folds goos base out current [] = out"
| "parse_diagnostic_lines folds goos base out current (raw # ls) =
     (let line = trim_suffix raw [cr] in
      if trim_space line = [] then parse_diagnostic_lines folds goos base out False ls
      else if has_prefix line ''#'' then parse_diagnostic_lines folds goos base out False ls
      else if hd line = tab \<or> hd line = CHR '' '' then
        parse_diagnostic_lines folds goos base (if current then append_text out line else out) current ls
      else
        (case diagnostic_of folds goos base line of
           None \<Rightarrow> parse_diagnostic_lines folds goos base out False ls
         | Some d \<Rightarrow> parse_diagnostic_lines folds goos base (out @ [d]) True ls))"

definition parse_diagnostics :: "(string \<Rightarrow> string \<Rightarrow> bool) \<Rightarrow> string \<Rightarrow> string \<Rightarrow> string \<Rightarrow> diagnostic list" where
  "parse_diagnostics folds goos output base =
     parse_diagnostic_lines folds goos base [] False (split_on nl output)"

section \<open>Choosing\<close>

text \<open>
  \<open>chooseDiagnostic\<close>: the texts inside the lines of the mutant, else the nearest diagnostic of
  the file, else the first one. \<open>nearest\<close> carries the index with its distance.
\<close>

fun nearest_diagnostic :: "nat \<Rightarrow> string \<Rightarrow> int \<Rightarrow> int \<Rightarrow> (nat \<times> int) option \<Rightarrow> diagnostic list \<Rightarrow> (nat \<times> int) option" where
  "nearest_diagnostic i file startLine endLine best [] = best"
| "nearest_diagnostic i file startLine endLine best (d # ds) =
     (if \<not> dg_Inside d \<or> dg_Path d \<noteq> file then nearest_diagnostic (Suc i) file startLine endLine best ds
      else if startLine \<le> dg_Line d \<and> dg_Line d \<le> endLine then nearest_diagnostic (Suc i) file startLine endLine best ds
      else
        (let distance = \<bar>dg_Line d - startLine\<bar> in
         nearest_diagnostic (Suc i) file startLine endLine
           (case best of
              None \<Rightarrow> Some (i, distance)
            | Some (j, b) \<Rightarrow> if distance < b then Some (i, distance) else best) ds))"

definition speaks_of :: "string \<Rightarrow> int \<Rightarrow> int \<Rightarrow> diagnostic \<Rightarrow> bool" where
  "speaks_of file startLine endLine d \<longleftrightarrow>
     dg_Inside d \<and> dg_Path d = file \<and> startLine \<le> dg_Line d \<and> dg_Line d \<le> endLine"

definition choose_diagnostic :: "diagnostic list \<Rightarrow> string \<Rightarrow> int \<Rightarrow> int \<Rightarrow> string" where
  "choose_diagnostic ds file startLine endLine =
     (let within = map dg_Text (filter (speaks_of file startLine endLine) ds) in
      if length within > 0 then join_with [nl] within
      else if length ds > 0 then
        dg_Text (ds ! (case nearest_diagnostic 0 file startLine endLine None ds of None \<Rightarrow> 0 | Some (i, _) \<Rightarrow> i))
      else [])"

fun blamed_from :: "string list \<Rightarrow> diagnostic list \<Rightarrow> string list" where
  "blamed_from seen [] = []"
| "blamed_from seen (d # ds) =
     (if \<not> dg_Inside d \<or> dg_Path d \<in> set seen then blamed_from seen ds
      else dg_Path d # blamed_from (dg_Path d # seen) ds)"

definition blamed_paths :: "diagnostic list \<Rightarrow> string list" where
  "blamed_paths ds = blamed_from [] ds"

section \<open>Reading what a compiler prints\<close>

text \<open>
  The ways to name a file: below the root with a number of leading \<open>./\<close>, below the root as the
  compiler spells it, elsewhere by an absolute path, and above the working directory.
\<close>

datatype printed_path = Beside nat string | Below string string | Elsewhere string | Above string

fun slash_text :: "printed_path \<Rightarrow> string" where
  "slash_text (Beside n p) = concat (replicate n ''./'') @ p"
| "slash_text (Below r p) = r @ ''/'' @ p"
| "slash_text (Elsewhere t) = t"
| "slash_text (Above p) = ''../'' @ p"

text \<open>The path of the file inside the tree, if it is in it.\<close>

fun file_inside :: "printed_path \<Rightarrow> string option" where
  "file_inside (Beside n p) = Some p"
| "file_inside (Below r p) = Some p"
| "file_inside _ = None"

record compiler_error =
  ce_Path :: printed_path
  ce_Backslashes :: bool
  ce_Line :: nat
  ce_Column :: "nat option"
  ce_Message :: string
  ce_Notes :: "string list"

text \<open>
  What \<open>go build\<close> prints: the name of a package, its errors, each with indented notes, and remarks
  that name no place.
\<close>

datatype output_block = PackageHeader string | Problem compiler_error | Remark string

definition path_text :: "compiler_error \<Rightarrow> string" where
  "path_text e =
     (if ce_Backslashes e then map (\<lambda>c. if c = CHR ''/'' then chr 92 else c) (slash_text (ce_Path e))
      else slash_text (ce_Path e))"

definition place_text :: "compiler_error \<Rightarrow> string" where
  "place_text e = CHR '':'' # digits_of (ce_Line e)
     @ (case ce_Column e of None \<Rightarrow> [] | Some col \<Rightarrow> CHR '':'' # digits_of col) @ '': '' @ ce_Message e"

definition error_line :: "compiler_error \<Rightarrow> string" where
  "error_line e = path_text e @ place_text e"

fun block_lines :: "output_block \<Rightarrow> string list" where
  "block_lines (PackageHeader p) = [''# '' @ p]"
| "block_lines (Problem e) = error_line e # map (\<lambda>n. tab # n) (ce_Notes e)"
| "block_lines (Remark l) = [l]"

definition print_blocks :: "output_block list \<Rightarrow> string" where
  "print_blocks bs = concat (map (\<lambda>l. l @ [nl]) (concat (map block_lines bs)))"

definition line_ok :: "string \<Rightarrow> bool" where
  "line_ok l \<longleftrightarrow> nl \<notin> set l \<and> (l = [] \<or> last l \<noteq> cr)"

text \<open>No colon is followed by a digit.\<close>

fun place_free :: "string \<Rightarrow> bool" where
  "place_free (a # b # s) \<longleftrightarrow> \<not> (a = CHR '':'' \<and> is_digit b) \<and> place_free (b # s)"
| "place_free s \<longleftrightarrow> True"

definition starts_line :: "string \<Rightarrow> bool" where
  "starts_line l \<longleftrightarrow> l \<noteq> [] \<and> plain_char (hd l) \<and> hd l \<noteq> CHR ''#''"

definition slashed_root :: "string \<Rightarrow> string" where
  "slashed_root base = trim_right (to_slash base) ''/''"

text \<open>
  A path inside is relative to the module; the root is spelled as the host's comparison of paths
  allows; an absolute path elsewhere does not continue the root with a separator.
\<close>

fun path_ok :: "(string \<Rightarrow> string \<Rightarrow> bool) \<Rightarrow> string \<Rightarrow> string \<Rightarrow> printed_path \<Rightarrow> bool" where
  "path_ok folds goos base (Beside n p) \<longleftrightarrow> module_relative p"
| "path_ok folds goos base (Below r p) \<longleftrightarrow>
     module_relative p \<and> is_absolute_path r \<and> length r = length (slashed_root base)
     \<and> equal_path_on folds goos r (slashed_root base)"
| "path_ok folds goos base (Elsewhere t) \<longleftrightarrow>
     is_absolute_path t
     \<and> (case drop (length (slashed_root base)) t of
          [] \<Rightarrow> True
        | c # _ \<Rightarrow> c \<noteq> CHR ''/''
            \<or> \<not> equal_path_on folds goos (take (length (slashed_root base)) t) (slashed_root base))"
| "path_ok folds goos base (Above p) \<longleftrightarrow> module_relative p"

definition error_ok :: "(string \<Rightarrow> string \<Rightarrow> bool) \<Rightarrow> string \<Rightarrow> string \<Rightarrow> compiler_error \<Rightarrow> bool" where
  "error_ok folds goos base e \<longleftrightarrow>
     path_ok folds goos base (ce_Path e)
     \<and> chr 92 \<notin> set (slash_text (ce_Path e)) \<and> nl \<notin> set (slash_text (ce_Path e))
     \<and> place_free (slash_text (ce_Path e)) \<and> starts_line (slash_text (ce_Path e))
     \<and> plain_char (last (slash_text (ce_Path e)))
     \<and> int (ce_Line e) \<le> max_int \<and> (case ce_Column e of None \<Rightarrow> True | Some col \<Rightarrow> int col \<le> max_int)
     \<and> line_ok (ce_Message e) \<and> list_all (\<lambda>n. line_ok n \<and> list_ex plain_char n) (ce_Notes e)"

fun block_ok :: "(string \<Rightarrow> string \<Rightarrow> bool) \<Rightarrow> string \<Rightarrow> string \<Rightarrow> output_block \<Rightarrow> bool" where
  "block_ok folds goos base (PackageHeader p) \<longleftrightarrow> line_ok p \<and> list_ex plain_char p"
| "block_ok folds goos base (Problem e) \<longleftrightarrow> error_ok folds goos base e"
| "block_ok folds goos base (Remark l) \<longleftrightarrow> line_ok l \<and> starts_line l \<and> place_free l"

definition diagnostic_read :: "compiler_error \<Rightarrow> diagnostic" where
  "diagnostic_read e =
     \<lparr>dg_Path = (case file_inside (ce_Path e) of None \<Rightarrow> path_text e | Some p \<Rightarrow> p),
      dg_Inside = (file_inside (ce_Path e) \<noteq> None), dg_Line = int (ce_Line e),
      dg_Column = (case ce_Column e of None \<Rightarrow> 0 | Some col \<Rightarrow> int col),
      dg_Text = error_line e @ concat (map (\<lambda>n. nl # tab # n) (ce_Notes e))\<rparr>"

fun problems :: "output_block list \<Rightarrow> compiler_error list" where
  "problems [] = []"
| "problems (PackageHeader p # bs) = problems bs"
| "problems (Problem e # bs) = e # problems bs"
| "problems (Remark l # bs) = problems bs"

declare match_line.simps [simp del]

lemma match_line_skip:
  "place_free p \<Longrightarrow> s = [] \<or> hd s = CHR '':'' \<Longrightarrow> match_line pre (p @ s) = match_line (pre @ p) s"
proof (induction p arbitrary: pre)
  case (Cons a p)
  have "match_place ((a # p) @ s) = None"
    using Cons.prems not_digit_marks(1) by (cases p; cases s) (auto simp: match_place_def match_digits_def Let_def)
  then have "match_line pre ((a # p) @ s) = match_line (pre @ [a]) (p @ s)"
    by (subst match_line.simps) simp
  moreover have "place_free p" using Cons.prems(1) by (cases p) simp_all
  ultimately show ?case using Cons by simp
qed simp

lemma match_line_None: "place_free l \<Longrightarrow> match_line pre l = None"
  using match_line_skip [of l "[]" pre]
  by (simp add: match_line.simps [of _ "[]"] match_place_def match_digits_def)

lemma take_digits: "takeWhile is_digit (digits_of n @ CHR '':'' # s) = digits_of n"
  "dropWhile is_digit (digits_of n @ CHR '':'' # s) = CHR '':'' # s"
  using digits_of_digits not_digit_marks(1) by (simp_all add: takeWhile_append2 dropWhile_append2)

lemma match_place_text:
  "match_place (place_text e) = Some (digits_of (ce_Line e), (case ce_Column e of None \<Rightarrow> [] | Some col \<Rightarrow> digits_of col))"
proof -
  have blank: "\<not> is_digit CHR '' ''" by (rule not_digit_marks)
  show ?thesis
    by (cases "ce_Column e")
      (simp_all add: place_text_def match_place_def match_digits_def match_end_def tail_ok_def Let_def take_digits
        takeWhile_append2 blank)
qed

lemma atoi_value_digits: "int n \<le> max_int \<Longrightarrow> atoi_value (digits_of n) = int n"
  by (simp add: atoi_value_def number_from_digits)

text \<open>White space is only looked for at the ends.\<close>

lemma trim_space_ends:
  assumes "s \<noteq> []" and "plain_char (hd s)" and "plain_char (last s)"
  shows "trim_space s = s"
proof -
  have left: "trim_left_by spaces t = t"
    if "\<And>w. w \<in> set spaces \<Longrightarrow> w \<noteq> [] \<and> (\<forall>c \<in> set w. \<not> plain_char c)" "t \<noteq> []" "plain_char (hd t)" for spaces t
    using that space_len_plain [of "hd t" spaces "tl t"] by (subst trim_left_by.simps) simp
  have "trim_left_by (map rev go_spaces) (rev s) = rev s"
    using assms by (intro left rev_spaces) (auto simp: hd_rev)
  moreover have "trim_left_by go_spaces s = s" using assms by (intro left space_bytes)
  ultimately show ?thesis by (simp add: trim_space_def)
qed

lemma module_relative_shape:
  assumes "module_relative p"
  shows "p \<noteq> []" and "\<not> has_prefix p ''/''" and "\<not> has_prefix p ''../''" and "p \<noteq> ''.''" and "p \<noteq> ''..''"
    and "\<not> is_absolute_path p" and "strip_dot_slash p = p" and "path_clean p = p"
proof -
  have els: "list_all plain_element (split_on CHR ''/'' p)" and vol: "\<not> has_volume p"
    using assms by (simp_all add: module_relative_def)
  show ne: "p \<noteq> []" and "p \<noteq> ''.''" "p \<noteq> ''..''" using els by (auto simp: plain_element_def)
  show head: "\<not> has_prefix p ''/''"
    using els ne by (cases p) (auto simp: plain_element_def)
  then show "\<not> is_absolute_path p" using vol by (simp add: is_absolute_path_def)
  show "strip_dot_slash p = p"
  proof (cases p rule: strip_dot_slash.cases)
    case (1 a b q)
    have "\<not> (a = CHR ''.'' \<and> b = CHR ''/'')"
    proof
      assume "a = CHR ''.'' \<and> b = CHR ''/''"
      then have "split_on CHR ''/'' p = ''.'' # split_on CHR ''/'' q" by (simp add: 1)
      then show False using els by (simp add: plain_element_def)
    qed
    then show ?thesis by (auto simp: 1)
  qed simp_all
  show "path_clean p = p" by (rule path_clean_plain [OF els])
  show "\<not> has_prefix p ''../''"
  proof
    assume "has_prefix p ''../''"
    then obtain q where "p = ''..'' @ CHR ''/'' # q" by (auto simp: has_prefix_iff)
    then have "split_on CHR ''/'' p = ''..'' # split_on CHR ''/'' q" by simp
    then show False using els by (simp add: plain_element_def)
  qed
qed

lemma strip_beside: "module_relative p \<Longrightarrow> strip_dot_slash (concat (replicate n ''./'') @ p) = p"
  by (induction n) (simp_all add: module_relative_shape(7))

lemma beside_relative:
  assumes "module_relative p" shows "\<not> is_absolute_path (concat (replicate n ''./'') @ p)"
proof (cases n)
  case 0
  then show ?thesis using module_relative_shape(6) [OF assms] by simp
next
  case (Suc m)
  then show ?thesis by (simp add: is_absolute_path_def has_volume_def has_prefix_def)
qed

lemma clean_above:
  assumes "module_relative p" shows "path_clean (''../'' @ p) = ''../'' @ p"
proof -
  let ?es = "split_on CHR ''/'' p"
  have els: "list_all (\<lambda>e. e \<noteq> [] \<and> e \<noteq> ''.'' \<and> e \<noteq> ''..'') ?es"
    using assms by (auto simp: module_relative_def plain_element_def list_all_iff)
  have "clean_step False [] ''..'' = [''..'']" by (simp add: clean_step_def)
  moreover have "join_with ''/'' (''..'' # ?es) = ''../'' @ p"
    by (simp add: join_with_Cons)
  ultimately show ?thesis
    using foldl_clean_plain [OF els, of False "[''..'']"]
    by (simp add: path_clean_def Let_def)
qed

lemma absolute_append:
  assumes "is_absolute_path r" shows "is_absolute_path (r @ ''/'' @ p)"
proof (cases "has_prefix r ''/''")
  case True
  then show ?thesis by (cases r) (simp_all add: is_absolute_path_def)
next
  case False
  with assms have r: "has_volume r" "length r = 2 \<or> r ! 2 = CHR ''/''" by (simp_all add: is_absolute_path_def)
  then obtain a b t where t: "r = a # b # t"
    by (cases r; cases "tl r") (auto simp: has_volume_def)
  with r show ?thesis by (cases t) (simp_all add: is_absolute_path_def has_volume_def)
qed

lemma under_root_below:
  assumes "b \<noteq> []" and "length r = length b" and "equal_path_on folds goos r b"
  shows "under_root folds goos (r @ ''/'' @ p) b = Some p"
  using assms by (simp add: under_root_def nth_append)

lemma under_root_elsewhere:
  assumes "case drop (length b) t of [] \<Rightarrow> True | c # _ \<Rightarrow> c \<noteq> CHR ''/'' \<or> \<not> equal_path_on folds goos (take (length b) t) b"
  shows "under_root folds goos t b = None"
proof (cases "drop (length b) t")
  case (Cons c cs)
  then have "length b < length t" "t ! length b = c"
    by (metis drop_eq_Nil list.distinct(1) not_le, metis nth_via_drop)
  then show ?thesis using assms Cons by (auto simp: under_root_def)
qed (simp add: under_root_def)

lemma to_slash_back:
  "chr 92 \<notin> set t \<Longrightarrow> to_slash (map (\<lambda>c. if c = CHR ''/'' then chr 92 else c) t) = t"
  by (induction t) (auto simp: to_slash_def)

lemma to_slash_path:
  assumes "error_ok folds goos base e"
  shows "to_slash (path_text e) = slash_text (ce_Path e)"
  using assms by (simp add: error_ok_def path_text_def to_slash_back to_slash_id)

lemma inside_printed:
  assumes "error_ok folds goos base e"
  shows "inside_path folds goos (path_text e) base = file_inside (ce_Path e)"
proof -
  let ?t = "slash_text (ce_Path e)"
  have ends: "?t \<noteq> []" "trim_space ?t = ?t"
    using assms trim_space_ends [of ?t] by (auto simp: error_ok_def starts_line_def)
  have path: "path_ok folds goos base (ce_Path e)" using assms by (simp add: error_ok_def)
  note unfolded = inside_path_def to_slash_path [OF assms] ends Let_def
  show ?thesis
  proof (cases "ce_Path e")
    case (Beside n p)
    then show ?thesis
      using path ends module_relative_shape [of p] beside_relative [of p n] strip_beside [of p n]
      by (simp add: unfolded)
  next
    case (Below r p)
    then have root: "length r = length (slashed_root base)" "equal_path_on folds goos r (slashed_root base)"
      "is_absolute_path r" and p: "module_relative p"
      using path by simp_all
    then have "slashed_root base \<noteq> []" by (auto simp: is_absolute_path_def has_volume_def has_prefix_def)
    then show ?thesis
      using Below root absolute_append [OF root(3), of p] under_root_below [OF _ root(1,2), of p]
        module_relative_shape [OF p] ends
      by (simp add: unfolded slashed_root_def)
  next
    case (Elsewhere t)
    then show ?thesis using path ends under_root_elsewhere [where b = "slashed_root base" and t = t and folds = folds and goos = goos]
      by (simp add: unfolded slashed_root_def)
  next
    case (Above p)
    have "\<not> is_absolute_path (''../'' @ p)" by (simp add: is_absolute_path_def has_volume_def has_prefix_def)
    then show ?thesis using Above path ends clean_above [of p] by (simp add: unfolded has_prefix_def)
  qed
qed

lemma map_back_free:
  "place_free t \<Longrightarrow> place_free (map (\<lambda>c. if c = CHR ''/'' then chr 92 else c) t)"
proof (induction t rule: place_free.induct)
  case (1 a b t)
  moreover have "\<not> is_digit (chr 92)" by code_simp
  moreover have "chr 92 \<noteq> CHR '':''" by code_simp
  ultimately show ?case by auto
qed simp_all

lemma path_text_shape:
  assumes "error_ok folds goos base e"
  shows "place_free (path_text e)" and "starts_line (path_text e)" and "nl \<notin> set (path_text e)"
proof -
  have c: "plain_char (chr 92)" "chr 92 \<noteq> CHR ''#''" "chr 92 \<noteq> nl" by code_simp+
  show "place_free (path_text e)" using assms by (simp add: error_ok_def path_text_def map_back_free)
  show "starts_line (path_text e)" using assms c by (auto simp: error_ok_def path_text_def starts_line_def hd_map)
  show "nl \<notin> set (path_text e)" using assms c by (auto simp: error_ok_def path_text_def)
qed

lemma diagnostic_of_error:
  assumes "error_ok folds goos base e"
  shows "diagnostic_of folds goos base (error_line e)
    = Some ((diagnostic_read e)\<lparr>dg_Text := error_line e\<rparr>)"
proof -
  have "match_line [] (error_line e) = match_line (path_text e) (place_text e)"
    using match_line_skip [OF path_text_shape(1) [OF assms], of "place_text e" "[]"]
    by (simp add: error_line_def place_text_def)
  also have "\<dots> = Some (path_text e, digits_of (ce_Line e), (case ce_Column e of None \<Rightarrow> [] | Some col \<Rightarrow> digits_of col))"
    by (subst match_line.simps) (simp add: match_place_text)
  finally show ?thesis
    using assms inside_printed [OF assms]
    by (cases "ce_Column e")
      (simp_all add: diagnostic_of_def diagnostic_read_def error_ok_def atoi_value_digits Let_def, simp_all add: atoi_value_def)
qed

lemma trim_suffix_cr: "line_ok l \<Longrightarrow> trim_suffix l [cr] = l"
  by (cases l rule: rev_cases) (auto simp: line_ok_def trim_suffix_def has_suffix_def)

lemma control_chars: "\<not> plain_char tab" "\<not> plain_char nl" "\<not> plain_char cr" "\<not> plain_char CHR '' ''" "plain_char CHR ''#''"
  "tab \<noteq> CHR ''#''" "tab \<noteq> nl" "CHR ''#'' \<noteq> nl" "CHR '' '' \<noteq> nl" "CHR '' '' \<noteq> cr" "CHR '':'' \<noteq> nl"
  by code_simp+

lemma error_line_shape:
  assumes "error_ok folds goos base e"
  obtains c cs where "error_line e = c # cs" and "plain_char c" and "c \<noteq> CHR ''#''" and "line_ok (error_line e)"
proof -
  have path: "starts_line (path_text e)" "nl \<notin> set (path_text e)" "line_ok (ce_Message e)"
    using assms path_text_shape [OF assms] by (simp_all add: error_ok_def)
  then obtain c cs where c: "path_text e = c # cs" by (cases "path_text e") (auto simp: starts_line_def)
  have nodigits: "nl \<notin> set (digits_of n)" for n
    using digits_of_digits [of nl n] plain_digit control_chars(2) by blast
  then have "nl \<notin> set (error_line e)"
    using path(2,3) control_chars by (auto simp: error_line_def place_text_def line_ok_def split: option.splits)
  moreover have "last (error_line e) \<noteq> cr"
    using path(3) control_chars by (cases "ce_Message e" rule: rev_cases) (auto simp: error_line_def place_text_def line_ok_def)
  ultimately have "line_ok (error_line e)" by (simp add: line_ok_def)
  then show ?thesis using that [of c "cs @ place_text e"] c path(1) by (simp add: error_line_def starts_line_def)
qed

lemma parse_error_line:
  assumes "error_ok folds goos base e"
  shows "parse_diagnostic_lines folds goos base out current (error_line e # ls)
    = parse_diagnostic_lines folds goos base (out @ [(diagnostic_read e)\<lparr>dg_Text := error_line e\<rparr>]) True ls"
proof -
  obtain c cs where l: "error_line e = c # cs" "plain_char c" "c \<noteq> CHR ''#''" "line_ok (error_line e)"
    by (rule error_line_shape [OF assms])
  have "trim_space (error_line e) \<noteq> []" using trim_space_keeps [OF l(2), of "error_line e"] l(1) by simp
  moreover have "\<not> (hd (error_line e) = tab \<or> hd (error_line e) = CHR '' '')" using l(1,2) control_chars by auto
  moreover have "\<not> has_prefix (error_line e) ''#''" using l(1,3) by simp
  ultimately show ?thesis
    by (simp add: trim_suffix_cr [OF l(4)] diagnostic_of_error [OF assms] Let_def)
qed

lemma parse_notes:
  assumes "list_all (\<lambda>n. line_ok n \<and> list_ex plain_char n) ns"
  shows "parse_diagnostic_lines folds goos base (out @ [d]) True (map (\<lambda>n. tab # n) ns @ ls)
    = parse_diagnostic_lines folds goos base
        (out @ [d\<lparr>dg_Text := dg_Text d @ concat (map (\<lambda>n. nl # tab # n) ns)\<rparr>]) True ls"
  using assms
proof (induction ns arbitrary: d)
  case (Cons n ns)
  then obtain c where c: "c \<in> set n" "plain_char c" by (auto simp: list_ex_iff)
  have ok: "line_ok (tab # n)" using Cons.prems c control_chars by (auto simp: line_ok_def)
  have "trim_space (tab # n) \<noteq> []" using trim_space_keeps [OF c(2), of "tab # n"] c(1) by simp
  moreover have "\<not> has_prefix (tab # n) ''#''" using control_chars by simp
  ultimately have "parse_diagnostic_lines folds goos base (out @ [d]) True ((tab # n) # map (\<lambda>n. tab # n) ns @ ls)
      = parse_diagnostic_lines folds goos base (append_text (out @ [d]) (tab # n)) True (map (\<lambda>n. tab # n) ns @ ls)"
    by (simp add: trim_suffix_cr [OF ok] Let_def)
  with Cons show ?case by (simp add: append_text_def)
qed simp

lemma parse_remark:
  assumes "line_ok l" and "starts_line l" and "place_free l"
  shows "parse_diagnostic_lines folds goos base out current (l # ls)
    = parse_diagnostic_lines folds goos base out False ls"
proof -
  obtain c cs where l: "l = c # cs" "plain_char c" "c \<noteq> CHR ''#''"
    using assms(2) by (cases l) (auto simp: starts_line_def)
  have "trim_space l \<noteq> []" using trim_space_keeps [OF l(2), of l] l(1) by simp
  moreover have "\<not> (hd l = tab \<or> hd l = CHR '' '')" using l(1,2) control_chars by auto
  moreover have "\<not> has_prefix l ''#''" using l(1,3) by simp
  ultimately show ?thesis
    by (simp add: trim_suffix_cr [OF assms(1)] diagnostic_of_def match_line_None [OF assms(3)] Let_def)
qed

lemma parse_blocks:
  "list_all (block_ok folds goos base) bs \<Longrightarrow>
   parse_diagnostic_lines folds goos base out current (concat (map block_lines bs) @ [[]])
     = out @ map diagnostic_read (problems bs)"
proof (induction bs arbitrary: out current rule: problems.induct)
  case 1
  have "trim_space [] = []" by (simp add: trim_space_plain)
  then show ?case by (simp add: trim_suffix_def has_suffix_def Let_def)
next
  case (2 p bs)
  have ok: "line_ok (''# '' @ p)" using 2(2) control_chars by (auto simp: line_ok_def)
  have "trim_space (''# '' @ p) \<noteq> []" using trim_space_keeps [OF control_chars(5), of "''# '' @ p"] by simp
  with 2 show ?case by (simp add: trim_suffix_cr [OF ok, simplified] Let_def)
next
  case (3 e bs)
  then have e: "error_ok folds goos base e" "list_all (\<lambda>n. line_ok n \<and> list_ex plain_char n) (ce_Notes e)"
    by (simp_all add: error_ok_def)
  have "dg_Text ((diagnostic_read e)\<lparr>dg_Text := error_line e\<rparr>) = error_line e" by simp
  then show ?case
    using 3 by (simp del: parse_diagnostic_lines.simps add: parse_error_line [OF e(1)] parse_notes [OF e(2)])
      (simp add: diagnostic_read_def)
next
  case (4 l bs)
  then show ?case by (simp del: parse_diagnostic_lines.simps add: parse_remark)
qed

lemma blocks_lines:
  "list_all (block_ok folds goos base) bs \<Longrightarrow> l \<in> set (concat (map block_lines bs)) \<Longrightarrow> nl \<notin> set l"
proof (induction bs rule: problems.induct)
  case (3 e bs)
  then have e: "error_ok folds goos base e" by simp
  have "line_ok (error_line e)" by (rule error_line_shape [OF e])
  with 3 e control_chars show ?case by (auto simp: line_ok_def error_ok_def list_all_iff)
qed (auto simp: line_ok_def control_chars control_chars(8,9) [THEN not_sym])

text \<open>
  C33. What a compiler prints is read back: the output of \<open>go build\<close>, with the names of packages and
  remarks between the errors and indented notes after them, gives one diagnostic per error, in
  order, with the line, the column or 0, and the text of the error with its notes. A file of the tree
  is known by its path inside, whether it was printed with any number of \<open>./\<close>, bare, or by an absolute
  path below the root as the host compares paths, with slashes or backslashes; a file elsewhere
  or above keeps the path as printed and is not inside.
\<close>

theorem parse_printed_diagnostics:
  assumes "list_all (block_ok folds goos base) bs"
  shows "parse_diagnostics folds goos (print_blocks bs) base = map diagnostic_read (problems bs)"
proof -
  have "split_on nl (print_blocks bs) = concat (map block_lines bs) @ [[]]"
    unfolding print_blocks_def using blocks_lines [OF assms] by (rule split_on_lines)
  then show ?thesis using parse_blocks [OF assms, of "[]"] by (simp add: parse_diagnostics_def)
qed

definition printed_error :: "printed_path \<Rightarrow> bool \<Rightarrow> compiler_error" where
  "printed_error path back = \<lparr>ce_Path = path, ce_Backslashes = back, ce_Line = 12, ce_Column = Some 3,
     ce_Message = ''undefined: x'', ce_Notes = [''have int'']\<rparr>"

definition printed_blocks :: "output_block list" where
  "printed_blocks = [PackageHeader ''m'', Problem (printed_error (Beside 1 ''a/b.go'') True),
     Problem (printed_error (Below ''/tmp/snap'' ''a/c.go'') False), Remark ''too many errors'',
     Problem (printed_error (Elsewhere ''/tmp/snap-2/d.go'') False), Problem (printed_error (Above ''e.go'') False)]"

theorem parse_printed_diagnostics_witness:
  "map (\<lambda>d. (dg_Path d, dg_Inside d, dg_Line d, dg_Column d))
     (parse_diagnostics (=) ''linux'' (print_blocks printed_blocks) ''/tmp/snap/'')
   = [(''a/b.go'', True, 12, 3), (''a/c.go'', True, 12, 3), (''/tmp/snap-2/d.go'', False, 12, 3),
      (''../e.go'', False, 12, 3)]"
proof -
  have "list_all (block_ok (=) ''linux'' ''/tmp/snap/'') printed_blocks" by code_simp
  from parse_printed_diagnostics [OF this]
  show ?thesis by (simp add: printed_blocks_def printed_error_def diagnostic_read_def path_text_def)
qed

end
