(* ===== verification/Validation.thy ===== *)
theory Validation
  imports Diagnostics Bisect Catalog ExecEnv
begin

text \<open>
  Finding the mutants that compile (\<open>internal/validate/validate.go\<close>): the snapshot is built with
  every mutant in place; when that fails, the files the compiler blames are isolated one after the
  other, and the rest is put back and built again. What rewrites a file and what runs the Go
  command are operations of \<open>tools\<close>; the model of the snapshot is the list of mutants that each
  file was last rewritten with. Trace records are left out.
\<close>

section \<open>Options\<close>

datatype validate_code =
    ValOptions | ValSourceUnreadable | ValBuildFailed | ValBuildTimedOut | ValInterrupted
  | ValNotMutantInduced | ValStillFailing

datatype 'e validate_error = ValError validate_code string | InstrumentError 'e

record vmodule =
  vm_Dir :: string
  vm_Path :: string

definition module_mutants :: "catalog \<Rightarrow> vmodule \<Rightarrow> string" where
  "module_mutants c m =
     (case by_index c 0 of
        Some first \<Rightarrow> if c_ModulePath (m_candidate first) = [] then [] else vm_Path m
      | None \<Rightarrow> vm_Path m)"

text \<open>The snapshot is its root; a nil pointer is None.\<close>

record validate_options =
  va_Snap :: "string option"
  va_Catalog :: "catalog option"
  va_Modules :: "vmodule list"
  va_GoBin :: string
  va_Jobs :: int
  va_BuildTimeout :: int
  va_Packages :: "string list"

definition DefaultBuildTimeout :: int where "DefaultBuildTimeout = 600000000000"

definition build_timeout :: "int \<Rightarrow> int" where
  "build_timeout configured = (if configured \<le> 0 then DefaultBuildTimeout else configured)"

definition check_options :: "validate_options \<Rightarrow> 'e validate_error option" where
  "check_options opts =
     (let bad = Some (ValError ValOptions []) in
      case va_Snap opts of
        None \<Rightarrow> bad
      | Some snap \<Rightarrow>
          if trim_space snap = [] then bad
          else
            (case va_Catalog opts of
               None \<Rightarrow> bad
             | Some c \<Rightarrow>
                 if length (va_Modules opts) = 0 then bad
                 else if trim_space (va_GoBin opts) = [] then bad
                 else if list_ex (\<lambda>m. trim_space (vm_Dir m) = [] \<or> trim_space (vm_Path m) = []) (va_Modules opts) then bad
                 else if list_ex (\<lambda>m. c_ModulePath (m_candidate m) \<notin> set (map (module_mutants c) (va_Modules opts))) (mutants c)
                 then bad
                 else None))"

definition build_args :: "int \<Rightarrow> string list \<Rightarrow> string list" where
  "build_args jobs packages =
     [''build'', ''-o'', ''/dev/null''] @ (if jobs > 0 then [''-p'', itoa jobs] else [])
     @ (if length packages = 0 then [''./...''] else packages)"

section \<open>The files of the catalogue\<close>

definition snapshot_path :: "string \<Rightarrow> string \<Rightarrow> string" where
  "snapshot_path dir rel = go_join [dir, rel]"

record file_ref =
  fr_Module :: string
  fr_Path :: string
  fr_Root :: string
  fr_RuntimeImport :: string
  fr_LoopBase :: u32

text \<open>A map filled by the loop over the modules; a module that is missing has the empty directory.\<close>

definition module_dirs :: "catalog \<Rightarrow> vmodule list \<Rightarrow> string \<Rightarrow> string" where
  "module_dirs c ms = foldl (\<lambda>dirs m. dirs(module_mutants c m := vm_Dir m)) (\<lambda>_. []) ms"

definition mutant_key :: "(string \<Rightarrow> string) \<Rightarrow> mutant \<Rightarrow> string" where
  "mutant_key dirs m = snapshot_path (dirs (c_ModulePath (m_candidate m))) (c_Path (m_candidate m))"

definition group_mutant ::
  "(string \<Rightarrow> string) \<Rightarrow> string list \<times> (string \<rightharpoonup> mutant list) \<times> (string \<rightharpoonup> file_ref) \<Rightarrow> mutant
   \<Rightarrow> string list \<times> (string \<rightharpoonup> mutant list) \<times> (string \<rightharpoonup> file_ref)" where
  "group_mutant dirs groups m =
     (case groups of (paths, byPath, files) \<Rightarrow>
       (let key = mutant_key dirs m in
        case byPath key of
          None \<Rightarrow>
            (paths @ [key], byPath(key \<mapsto> [m]),
             files(key \<mapsto> \<lparr>fr_Module = c_ModulePath (m_candidate m), fr_Path = c_Path (m_candidate m),
               fr_Root = [], fr_RuntimeImport = [], fr_LoopBase = 0\<rparr>))
        | Some ms \<Rightarrow> (paths, byPath(key \<mapsto> ms @ [m]), files)))"

definition group_mutants :: "(string \<Rightarrow> string) \<Rightarrow> mutant list \<Rightarrow> string list \<times> (string \<rightharpoonup> mutant list) \<times> (string \<rightharpoonup> file_ref)" where
  "group_mutants dirs ms = foldl (group_mutant dirs) ([], Map.empty, Map.empty) ms"

section \<open>Tools and state\<close>

text \<open>
  What a build did, as \<open>runner.Run\<close> and the context report it, and what instrumenting a module
  wrote. The tools may answer differently each time: the number of builds so far is an argument.
\<close>

record build_run =
  bd_Err :: bool
  bd_TimedOut :: bool
  bd_Cancelled :: bool
  bd_ExitCode :: int
  bd_Output :: string

record instrumented =
  in_FilesInstrumented :: "string list"
  in_GuardsByFile :: "(string \<times> int) list"
  in_RuntimeDir :: string
  in_RuntimeImport :: string
  in_LoopBase :: "(string \<times> u32) list"
  in_Loops :: int

record 'e tools =
  tl_ReadFile :: "string \<Rightarrow> string option"
  tl_Instrument :: "string \<Rightarrow> string \<Rightarrow> string \<Rightarrow> 'e + instrumented"
  tl_InstrumentFile :: "int \<Rightarrow> file_ref \<Rightarrow> string \<Rightarrow> mutant list \<Rightarrow> 'e + int"
  tl_Build :: "int \<Rightarrow> (string \<Rightarrow> mutant list) \<Rightarrow> build_run"
  tl_Folds :: "string \<Rightarrow> string \<Rightarrow> bool"
  tl_Goos :: string

record validator =
  vd_Root :: string
  vd_Catalog :: catalog
  vd_Modules :: "vmodule list"
  vd_Paths :: "string list"
  vd_ByPath :: "string \<rightharpoonup> mutant list"
  vd_Files :: "string \<rightharpoonup> file_ref"
  vd_Pristine :: "string \<rightharpoonup> string"
  vd_Runtimes :: "instrumented list"

record tree_state =
  ts_Tree :: "string \<Rightarrow> mutant list"
  ts_Guards :: "string \<rightharpoonup> int"
  ts_Builds :: int

definition mutants_at :: "validator \<Rightarrow> string \<Rightarrow> mutant list" where
  "mutants_at V path = (case vd_ByPath V path of None \<Rightarrow> [] | Some ms \<Rightarrow> ms)"

fun read_sources :: "'e tools \<Rightarrow> string \<Rightarrow> (string \<rightharpoonup> string) \<Rightarrow> string list \<Rightarrow> 'e validate_error + (string \<rightharpoonup> string)" where
  "read_sources W base pristine [] = Inr pristine"
| "read_sources W base pristine (p # ps) =
     (case tl_ReadFile W (go_join [base, p]) of
        None \<Rightarrow> Inl (ValError ValSourceUnreadable [])
      | Some src \<Rightarrow> read_sources W base (pristine(p \<mapsto> src)) ps)"

definition read_pristine :: "'e tools \<Rightarrow> string \<Rightarrow> catalog \<Rightarrow> vmodule list \<Rightarrow> 'e validate_error + validator" where
  "read_pristine W base c ms =
     (let (paths, byPath, files) = group_mutants (module_dirs c ms) (mutants c);
          sorted' = sort_by cmp_str paths in
      case read_sources W base Map.empty sorted' of
        Inl err \<Rightarrow> Inl err
      | Inr pristine \<Rightarrow>
          Inr \<lparr>vd_Root = base, vd_Catalog = c, vd_Modules = ms, vd_Paths = sorted', vd_ByPath = byPath,
            vd_Files = files, vd_Pristine = pristine, vd_Runtimes = []\<rparr>)"

section \<open>Instrumenting the modules\<close>

definition lift_instrumented :: "string \<Rightarrow> instrumented \<Rightarrow> instrumented" where
  "lift_instrumented dir r =
     r\<lparr>in_RuntimeDir := snapshot_path dir (in_RuntimeDir r),
       in_FilesInstrumented := map (snapshot_path dir) (in_FilesInstrumented r),
       in_GuardsByFile := map (\<lambda>(rel, n). (snapshot_path dir rel, n)) (in_GuardsByFile r),
       in_LoopBase := map (\<lambda>(rel, n). (snapshot_path dir rel, n)) (in_LoopBase r)\<rparr>"

definition loop_base :: "instrumented \<Rightarrow> string \<Rightarrow> u32" where
  "loop_base r key = (case map_of (in_LoopBase r) key of None \<Rightarrow> 0 | Some n \<Rightarrow> n)"

text \<open>The reference of a file that was instrumented; a file the catalogue does not have gets a fresh one.\<close>

definition settle_ref :: "string \<Rightarrow> instrumented \<Rightarrow> (string \<rightharpoonup> file_ref) \<Rightarrow> string \<Rightarrow> (string \<rightharpoonup> file_ref)" where
  "settle_ref root' r files key =
     (let ref = (case files key of
          None \<Rightarrow> \<lparr>fr_Module = [], fr_Path = [], fr_Root = [], fr_RuntimeImport = [], fr_LoopBase = 0\<rparr>
        | Some ref \<Rightarrow> ref) in
      files(key \<mapsto> ref\<lparr>fr_Root := root', fr_RuntimeImport := in_RuntimeImport r, fr_LoopBase := loop_base r key\<rparr>))"

fun instrument_each ::
  "'e tools \<Rightarrow> validator \<Rightarrow> (string \<rightharpoonup> int) \<Rightarrow> vmodule list \<Rightarrow> 'e validate_error + validator \<times> (string \<rightharpoonup> int)" where
  "instrument_each W V guards [] = Inr (V, guards)"
| "instrument_each W V guards (m # ms) =
     (let root' = go_join [vd_Root V, vm_Dir m] in
      case tl_Instrument W root' (vm_Path m) (module_mutants (vd_Catalog V) m) of
        Inl e \<Rightarrow> Inl (InstrumentError e)
      | Inr r \<Rightarrow>
          (let lifted = lift_instrumented (vm_Dir m) r in
           instrument_each W
             (V\<lparr>vd_Files := foldl (settle_ref root' lifted) (vd_Files V) (in_FilesInstrumented lifted),
                vd_Runtimes := vd_Runtimes V @ [lifted]\<rparr>)
             (foldl (\<lambda>g (key, n). g(key \<mapsto> n)) guards (in_GuardsByFile lifted)) ms))"

definition module_of :: "validator \<Rightarrow> string \<Rightarrow> vmodule option" where
  "module_of V path = find (\<lambda>m. module_mutants (vd_Catalog V) m = path) (vd_Modules V)"

definition tree_of :: "validator \<Rightarrow> vmodule \<Rightarrow> instrumented option" where
  "tree_of V m = map_option snd (find (\<lambda>(candidate, r). candidate = m) (zip (vd_Modules V) (vd_Runtimes V)))"

text \<open>The second loop, over a map: the files that no module reported. Each is on its own, so the order is open.\<close>

definition settle_rest :: "validator \<Rightarrow> 'e validate_error + validator" where
  "settle_rest V =
     (if list_ex (\<lambda>key. case vd_Files V key of None \<Rightarrow> False
           | Some ref \<Rightarrow> fr_Root ref = [] \<and> module_of V (fr_Module ref) = None) (vd_Paths V)
      then Inl (ValError ValOptions [])
      else Inr (V\<lparr>vd_Files := (\<lambda>key. case vd_Files V key of None \<Rightarrow> None
        | Some ref \<Rightarrow>
            if fr_Root ref \<noteq> [] then Some ref
            else (case module_of V (fr_Module ref) of None \<Rightarrow> Some ref
              | Some m \<Rightarrow> Some (ref\<lparr>fr_Root := go_join [vd_Root V, vm_Dir m],
                  fr_RuntimeImport := (case tree_of V m of None \<Rightarrow> [] | Some r \<Rightarrow> in_RuntimeImport r),
                  fr_LoopBase := (case tree_of V m of None \<Rightarrow> 0 | Some r \<Rightarrow> loop_base r key)\<rparr>)))\<rparr>))"

text \<open>Instrumenting a module leaves every file of the catalogue with all its mutants.\<close>

definition instrument_modules :: "'e tools \<Rightarrow> validator \<Rightarrow> 'e validate_error + validator \<times> tree_state" where
  "instrument_modules W V =
     (case instrument_each W V Map.empty (vd_Modules V) of
        Inl err \<Rightarrow> Inl err
      | Inr (V, guards) \<Rightarrow>
          (case settle_rest V of
             Inl err \<Rightarrow> Inl err
           | Inr V \<Rightarrow> Inr (V, \<lparr>ts_Tree = mutants_at V, ts_Guards = guards, ts_Builds = 0\<rparr>)))"

section \<open>Building\<close>

definition apply_file :: "'e tools \<Rightarrow> validator \<Rightarrow> string \<Rightarrow> mutant list \<Rightarrow> tree_state \<Rightarrow> 'e validate_error option \<times> tree_state" where
  "apply_file W V path subset' s =
     (let ref = (case vd_Files V path of
          None \<Rightarrow> \<lparr>fr_Module = [], fr_Path = [], fr_Root = [], fr_RuntimeImport = [], fr_LoopBase = 0\<rparr>
        | Some ref \<Rightarrow> ref);
          src = (case vd_Pristine V path of None \<Rightarrow> [] | Some src \<Rightarrow> src) in
      case tl_InstrumentFile W (ts_Builds s) ref src subset' of
        Inl e \<Rightarrow> (Some (InstrumentError e), s)
      | Inr guards \<Rightarrow>
          (None, s\<lparr>ts_Tree := (ts_Tree s)(path := subset'),
             ts_Guards := (ts_Guards s)(path := (if guards = 0 then None else Some guards))\<rparr>))"

definition build_snapshot :: "build_run \<Rightarrow> 'e validate_error + string Bisect.verdict" where
  "build_snapshot r =
     (if bd_Err r then Inl (ValError ValBuildFailed (bd_Output r))
      else if bd_TimedOut r then Inl (ValError ValBuildTimedOut (bd_Output r))
      else if bd_Cancelled r then Inl (ValError ValInterrupted [])
      else Inr \<lparr>failed = (bd_ExitCode r \<noteq> 0), build_output = bd_Output r\<rparr>)"

definition blame :: "'e tools \<Rightarrow> validator \<Rightarrow> string \<Rightarrow> string list \<Rightarrow> string list" where
  "blame W V output pending =
     (let named = set (blamed_paths (parse_diagnostics (tl_Folds W) (tl_Goos W) output (vd_Root V)));
          blamed = filter (\<lambda>p. p \<in> named) pending in
      if length blamed = 0 then pending else blamed)"

text \<open>\<open>compile\<close>: the verdict with the files it blames.\<close>

definition compile_tree :: "'e tools \<Rightarrow> validator \<Rightarrow> string list \<Rightarrow> tree_state
    \<Rightarrow> ('e validate_error + string Bisect.verdict \<times> string list) \<times> tree_state" where
  "compile_tree W V pending s =
     (let s = s\<lparr>ts_Builds := ts_Builds s + 1\<rparr> in
      case build_snapshot (tl_Build W (ts_Builds s) (ts_Tree s)) of
        Inl err \<Rightarrow> (Inl err, s)
      | Inr v \<Rightarrow>
          (Inr (v, if failed v \<and> length pending > 0 then blame W V (build_output v) pending else []), s))"

definition probe_file :: "'e tools \<Rightarrow> validator \<Rightarrow> string \<Rightarrow> (tree_state, mutant, string, 'e validate_error) probe" where
  "probe_file W V path s subset' =
     (case apply_file W V path subset' s of
        (Some err, s) \<Rightarrow> (Inl err, s)
      | (None, s) \<Rightarrow>
          (case compile_tree W V [] s of
             (Inl err, s) \<Rightarrow> (Inl err, s)
           | (Inr (v, _), s) \<Rightarrow> (Inr v, s)))"

fun restore_files :: "'e tools \<Rightarrow> validator \<Rightarrow> string list \<Rightarrow> tree_state \<Rightarrow> 'e validate_error option \<times> tree_state" where
  "restore_files W V [] s = (None, s)"
| "restore_files W V (p # ps) s =
     (case apply_file W V p [] s of (Some err, s) \<Rightarrow> (Some err, s) | (None, s) \<Rightarrow> restore_files W V ps s)"

fun reinstate_files :: "'e tools \<Rightarrow> validator \<Rightarrow> string list \<Rightarrow> tree_state \<Rightarrow> 'e validate_error option \<times> tree_state" where
  "reinstate_files W V [] s = (None, s)"
| "reinstate_files W V (p # ps) s =
     (case apply_file W V p (mutants_at V p) s of
        (Some err, s) \<Rightarrow> (Some err, s)
      | (None, s) \<Rightarrow> reinstate_files W V ps s)"

section \<open>The search\<close>

type_synonym condemned_list = "(mutant, string) condemned list"

text \<open>The blamed files one after the other; an error keeps what was condemned before it.\<close>

fun isolate_files :: "'e tools \<Rightarrow> validator \<Rightarrow> string list \<Rightarrow> string list \<Rightarrow> condemned_list \<Rightarrow> tree_state
    \<Rightarrow> ('e validate_error \<times> condemned_list + string list \<times> condemned_list) \<times> tree_state" where
  "isolate_files W V [] pending rejected s = (Inr (pending, rejected), s)"
| "isolate_files W V (p # ps) pending rejected s =
     (case isolate (probe_file W V p) (mutants_at V p) s of
        (Inl err, s) \<Rightarrow> (Inl (err, rejected), s)
      | (Inr (accepted, condemnedHere), s) \<Rightarrow>
          (case apply_file W V p accepted s of
             (Some err, s) \<Rightarrow> (Inl (err, rejected), s)
           | (None, s) \<Rightarrow>
               isolate_files W V ps (filter (\<lambda>q. q \<noteq> p) pending) (rejected @ condemnedHere) s))"

text \<open>The rounds of \<open>bisect\<close>, at most \<open>n\<close> of them.\<close>

fun bisect_rounds :: "'e tools \<Rightarrow> validator \<Rightarrow> nat \<Rightarrow> string list \<Rightarrow> string list \<Rightarrow> condemned_list \<Rightarrow> tree_state
    \<Rightarrow> (condemned_list \<times> 'e validate_error option) \<times> tree_state" where
  "bisect_rounds W V 0 blamed pending rejected s = ((rejected, Some (ValError ValStillFailing [])), s)"
| "bisect_rounds W V (Suc n) blamed pending rejected s =
     (case isolate_files W V blamed pending rejected s of
        (Inl (err, rejected), s) \<Rightarrow> ((rejected, Some err), s)
      | (Inr (pending, rejected), s) \<Rightarrow>
          (case reinstate_files W V pending s of
             (Some err, s) \<Rightarrow> ((rejected, Some err), s)
           | (None, s) \<Rightarrow>
               (case compile_tree W V pending s of
                  (Inl err, s) \<Rightarrow> ((rejected, Some err), s)
                | (Inr (v, blamed), s) \<Rightarrow>
                    if \<not> failed v then ((rejected, None), s)
                    else if length pending = 0 then ((rejected, Some (ValError ValStillFailing (build_output v))), s)
                    else
                      (case restore_files W V pending s of
                         (Some err, s) \<Rightarrow> ((rejected, Some err), s)
                       | (None, s) \<Rightarrow> bisect_rounds W V n blamed pending rejected s))))"

definition bisect_tree :: "'e tools \<Rightarrow> validator \<Rightarrow> tree_state \<Rightarrow> (condemned_list \<times> 'e validate_error option) \<times> tree_state" where
  "bisect_tree W V s =
     (let pending = vd_Paths V in
      case compile_tree W V pending s of
        (Inl err, s) \<Rightarrow> (([], Some err), s)
      | (Inr (v, blamed), s) \<Rightarrow>
          if \<not> failed v then (([], None), s)
          else
            (case restore_files W V pending s of
               (Some err, s) \<Rightarrow> (([], Some err), s)
             | (None, s) \<Rightarrow>
                 (case compile_tree W V [] s of
                    (Inl err, s) \<Rightarrow> (([], Some err), s)
                  | (Inr (gate, _), s) \<Rightarrow>
                      if failed gate then (([], Some (ValError ValNotMutantInduced (build_output gate))), s)
                      else bisect_rounds W V (length pending + 1) blamed pending [] s)))"

section \<open>The report\<close>

definition source_position :: "string \<Rightarrow> u32 \<Rightarrow> int \<times> int" where
  "source_position src offset =
     (let end' = min (unat offset) (length src);
          before = take end' src;
          line = 1 + int (count_byte before nl);
          newline = (case last_index_byte before nl of None \<Rightarrow> -1 | Some i \<Rightarrow> int i) in
      (line, int end' - (newline + 1) + 1))"

definition first_line :: "string \<Rightarrow> string" where
  "first_line s = (case filter (\<lambda>t. t \<noteq> []) (map trim_space (split_on nl s)) of [] \<Rightarrow> [] | t # _ \<Rightarrow> t)"

definition no_diagnostic :: string where
  "no_diagnostic = ''the build failed without printing a diagnostic''"

record validation_rejection =
  vj_ID :: string
  vj_DisplayID :: string
  vj_Path :: string
  vj_Line :: int
  vj_Column :: int
  vj_Rule :: string
  vj_Diagnostic :: string

definition validation_rejection_of :: "'e tools \<Rightarrow> validator \<Rightarrow> mutant \<Rightarrow> string \<Rightarrow> validation_rejection" where
  "validation_rejection_of W V m output =
     (let c = m_candidate m;
          src = (case vd_Pristine V (c_Path c) of None \<Rightarrow> [] | Some src \<Rightarrow> src);
          (startLine, column) = source_position src (StartByte (c_Span c));
          (endLine, _) = source_position src (EndByte (c_Span c));
          chosen' = choose_diagnostic (parse_diagnostics (tl_Folds W) (tl_Goos W) output (vd_Root V)) (c_Path c) startLine endLine;
          printed = (if chosen' = [] then first_line output else chosen') in
      \<lparr>vj_ID = ID m, vj_DisplayID = DisplayID m, vj_Path = c_Path c, vj_Line = startLine, vj_Column = column,
       vj_Rule = Name (c_Rule c), vj_Diagnostic = (if printed = [] then no_diagnostic else printed)\<rparr>)"

text \<open>The map of the condemned by identifier: a later one replaces an earlier one.\<close>

definition condemned_by :: "condemned_list \<Rightarrow> (string \<rightharpoonup> mutant \<times> string)" where
  "condemned_by rejected = foldl (\<lambda>f c. f(ID (fst c) \<mapsto> c)) Map.empty rejected"

fun report_mutants :: "'e tools \<Rightarrow> validator \<Rightarrow> (string \<rightharpoonup> mutant \<times> string) \<Rightarrow> mutant list \<Rightarrow> validation_rejection list \<times> string list" where
  "report_mutants W V by [] = ([], [])"
| "report_mutants W V by (m # ms) =
     (let (rejections, accepted) = report_mutants W V by ms in
      case by (ID m) of
        None \<Rightarrow> (rejections, ID m # accepted)
      | Some c \<Rightarrow> (validation_rejection_of W V m (snd c) # rejections, accepted))"

record validation_result =
  vr_AcceptedIDs :: "string list"
  vr_Rejected :: "validation_rejection list"
  vr_Instrumented :: instrumented
  vr_Runtimes :: "instrumented list"
  vr_Builds :: int

definition empty_instrumented :: instrumented where
  "empty_instrumented = \<lparr>in_FilesInstrumented = [], in_GuardsByFile = [], in_RuntimeDir = [],
     in_RuntimeImport = [], in_LoopBase = [], in_Loops = 0\<rparr>"

definition merged_instrumented :: "validator \<Rightarrow> tree_state \<Rightarrow> instrumented" where
  "merged_instrumented V s =
     (let files = filter (\<lambda>p. ts_Guards s p \<noteq> None) (vd_Paths V);
          merged = empty_instrumented
            \<lparr>in_FilesInstrumented := files, in_GuardsByFile := map (\<lambda>p. (p, the (ts_Guards s p))) files\<rparr> in
      case vd_Runtimes V of
        [r] \<Rightarrow> merged\<lparr>in_RuntimeDir := in_RuntimeDir r, in_RuntimeImport := in_RuntimeImport r\<rparr>
      | _ \<Rightarrow> merged)"

definition validation_result_of :: "'e tools \<Rightarrow> validator \<Rightarrow> tree_state \<Rightarrow> condemned_list \<Rightarrow> validation_result" where
  "validation_result_of W V s rejected =
     (let (rejections, accepted) = report_mutants W V (condemned_by rejected) (mutants (vd_Catalog V)) in
      \<lparr>vr_AcceptedIDs = accepted, vr_Rejected = rejections, vr_Instrumented = merged_instrumented V s,
       vr_Runtimes = vd_Runtimes V, vr_Builds = ts_Builds s\<rparr>)"

definition result_loops :: "validation_result \<Rightarrow> int" where
  "result_loops r = sum_list (map in_Loops (vr_Runtimes r))"

definition runtime_dirs :: "validation_result \<Rightarrow> string list" where
  "runtime_dirs r = filter (\<lambda>d. d \<noteq> []) (map in_RuntimeDir (vr_Runtimes r))"

text \<open>
  \<open>Validate\<close>: the result, with the error that broke off the search when there is one, and the
  state of the tree; None for both when nothing was instrumented.
\<close>

definition run_validation :: "'e tools \<Rightarrow> validate_options
    \<Rightarrow> 'e validate_error + validation_result \<times> 'e validate_error option \<times> validator \<times> tree_state" where
  "run_validation W opts =
     (case check_options opts of
        Some err \<Rightarrow> Inl err
      | None \<Rightarrow>
          (case read_pristine W (the (va_Snap opts)) (the (va_Catalog opts)) (va_Modules opts) of
             Inl err \<Rightarrow> Inl err
           | Inr V \<Rightarrow>
               (case instrument_modules W V of
                  Inl err \<Rightarrow> Inl err
                | Inr (V, s) \<Rightarrow>
                    (case bisect_tree W V s of
                       ((rejected, err), s) \<Rightarrow> Inr (validation_result_of W V s rejected, err, V, s)))))"

end
