(* ===== verification/ValidateFacts.thy ===== *)
theory ValidateFacts
  imports Validation
begin

text \<open>
  What validation promises: the tree it leaves holds exactly the accepted mutants and was the last
  one built, with success; accepted and rejected mutants together are the catalogue; the bound on
  the rounds is never what ends the search; and for mutants that fail on their own the result is
  exact, whatever the compiler prints.
\<close>

section \<open>The files of the catalogue\<close>

lemma group_mutants_from:
  "foldl (group_mutant dirs) (paths, byPath, files) ms = (paths', byPath', files') \<Longrightarrow>
   distinct paths \<Longrightarrow> set paths = dom byPath \<Longrightarrow>
   distinct paths' \<and> set paths' = dom byPath' \<and> set paths' = set paths \<union> mutant_key dirs ` set ms
   \<and> (\<forall>p. (case byPath' p of None \<Rightarrow> [] | Some xs \<Rightarrow> xs)
         = (case byPath p of None \<Rightarrow> [] | Some xs \<Rightarrow> xs) @ filter (\<lambda>m. mutant_key dirs m = p) ms)"
proof (induction ms arbitrary: paths byPath files)
  case Nil
  then show ?case by simp
next
  case (Cons m ms)
  let ?k = "mutant_key dirs m"
  obtain paths1 byPath1 files1 where g: "group_mutant dirs (paths, byPath, files) m = (paths1, byPath1, files1)"
    by (metis prod_cases3)
  have d1: "distinct paths1 \<and> set paths1 = dom byPath1 \<and> set paths1 = insert ?k (set paths)
      \<and> (\<forall>p. (case byPath1 p of None \<Rightarrow> [] | Some xs \<Rightarrow> xs)
            = (case byPath p of None \<Rightarrow> [] | Some xs \<Rightarrow> xs) @ (if ?k = p then [m] else []))"
    using g Cons.prems(2,3) by (cases "byPath ?k") (auto simp: group_mutant_def Let_def domIff split: if_splits)
  have "foldl (group_mutant dirs) (paths1, byPath1, files1) ms = (paths', byPath', files')"
    using Cons.prems(1) by (simp add: g)
  note ih = Cons.IH [OF this conjunct1 [OF d1] conjunct1 [OF conjunct2 [OF d1]]]
  have "set paths' = set paths \<union> mutant_key dirs ` set (m # ms)"
    unfolding ih [THEN conjunct2, THEN conjunct2, THEN conjunct1] d1 [THEN conjunct2, THEN conjunct2, THEN conjunct1]
    by simp
  moreover have "(case byPath' p of None \<Rightarrow> [] | Some xs \<Rightarrow> xs)
      = (case byPath p of None \<Rightarrow> [] | Some xs \<Rightarrow> xs) @ filter (\<lambda>m. mutant_key dirs m = p) (m # ms)" for p
    using ih d1 by simp
  ultimately show ?case using ih by metis
qed

lemma read_pristine_Inr:
  assumes "read_pristine W base c ms = Inr V"
  shows "vd_Catalog V = c" and "distinct (vd_Paths V)"
    and "mutants_at V p = filter (\<lambda>m. mutant_key (module_dirs c ms) m = p) (mutants c)"
    and "set (vd_Paths V) = mutant_key (module_dirs c ms) ` set (mutants c)"
proof -
  obtain paths byPath files where g: "group_mutants (module_dirs c ms) (mutants c) = (paths, byPath, files)"
    by (metis prod_cases3)
  note f = group_mutants_from [OF g [unfolded group_mutants_def]]
  have V: "vd_Catalog V = c" "vd_Paths V = sort_by cmp_str paths" "vd_ByPath V = byPath"
    using assms g by (auto simp: read_pristine_def Let_def split: sum.splits)
  show "vd_Catalog V = c" by (rule V)
  show "distinct (vd_Paths V)" using f by (simp add: V)
  have "set paths = mutant_key (module_dirs c ms) ` set (mutants c)" using f by (metis Un_empty_left dom_empty distinct.simps(1) list.set(1))
  then show "set (vd_Paths V) = mutant_key (module_dirs c ms) ` set (mutants c)" by (simp add: V)
  show "mutants_at V p = filter (\<lambda>m. mutant_key (module_dirs c ms) m = p) (mutants c)"
    using f by (simp add: mutants_at_def V)
qed

lemma instrument_each_Inr:
  "instrument_each W V guards ms = Inr (V', guards') \<Longrightarrow>
   vd_Catalog V' = vd_Catalog V \<and> vd_Paths V' = vd_Paths V \<and> vd_ByPath V' = vd_ByPath V
   \<and> vd_Pristine V' = vd_Pristine V \<and> vd_Root V' = vd_Root V \<and> vd_Modules V' = vd_Modules V"
  by (induction W V guards ms rule: instrument_each.induct) (auto simp: Let_def split: sum.splits)

lemma instrument_modules_Inr:
  fixes W :: "'e tools"
  assumes "instrument_modules W V = Inr (V', s)"
  shows "vd_Catalog V' = vd_Catalog V" "vd_Paths V' = vd_Paths V" "mutants_at V' = mutants_at V"
    "vd_Pristine V' = vd_Pristine V" "vd_Root V' = vd_Root V"
    and "ts_Tree s = mutants_at V'" "ts_Builds s = 0"
proof -
  obtain V1 guards where i: "instrument_each W V Map.empty (vd_Modules V) = Inr (V1, guards)"
    and r: "(settle_rest V1 :: 'e validate_error + validator) = Inr V'" and s: "ts_Tree s = mutants_at V'" "ts_Builds s = 0"
    using assms by (auto simp: instrument_modules_def split: sum.splits)
  have "vd_Catalog V' = vd_Catalog V1 \<and> vd_Paths V' = vd_Paths V1 \<and> vd_ByPath V' = vd_ByPath V1
      \<and> vd_Pristine V' = vd_Pristine V1 \<and> vd_Root V' = vd_Root V1"
    using r by (auto simp: settle_rest_def split: if_splits)
  with instrument_each_Inr [OF i] s show "vd_Catalog V' = vd_Catalog V" "vd_Paths V' = vd_Paths V"
    "mutants_at V' = mutants_at V" "vd_Pristine V' = vd_Pristine V" "vd_Root V' = vd_Root V"
    "ts_Tree s = mutants_at V'" "ts_Builds s = 0"
    by (auto simp: mutants_at_def)
qed

section \<open>One build\<close>

lemma apply_file_None:
  "apply_file W V p ms s = (None, s') \<Longrightarrow> ts_Tree s' = (ts_Tree s)(p := ms) \<and> ts_Builds s' = ts_Builds s"
  by (auto simp: apply_file_def Let_def split: sum.splits)

lemma apply_file_others: "q \<noteq> p \<Longrightarrow> ts_Tree (snd (apply_file W V p ms s)) q = ts_Tree s q"
  by (auto simp: apply_file_def Let_def split: sum.splits)

lemma blame_pending:
  assumes "pending \<noteq> []"
  shows "blame W V out pending \<noteq> []" and "set (blame W V out pending) \<subseteq> set pending"
    and "distinct pending \<Longrightarrow> distinct (blame W V out pending)"
  using assms by (auto simp: blame_def Let_def)

definition build_ran :: "build_run \<Rightarrow> string Bisect.verdict \<Rightarrow> bool" where
  "build_ran r v \<longleftrightarrow> \<not> bd_Err r \<and> \<not> bd_TimedOut r \<and> \<not> bd_Cancelled r
     \<and> v = \<lparr>failed = (bd_ExitCode r \<noteq> 0), build_output = bd_Output r\<rparr>"

lemma build_snapshot_Inr: "build_snapshot r = Inr v \<longleftrightarrow> build_ran r v"
  by (auto simp: build_snapshot_def build_ran_def)

lemma compile_tree_Inr:
  assumes "compile_tree W V pending s = (Inr (v, blamed), s')"
  shows "build_ran (tl_Build W (ts_Builds s') (ts_Tree s')) v" and "ts_Tree s' = ts_Tree s"
    and "set blamed \<subseteq> set pending" and "failed v \<Longrightarrow> pending \<noteq> [] \<Longrightarrow> blamed \<noteq> []"
    and "distinct pending \<Longrightarrow> distinct blamed"
  using assms blame_pending [of pending W V]
  by (auto simp: compile_tree_def Let_def build_snapshot_Inr split: sum.splits if_splits)

lemma compile_tree_tree: "ts_Tree (snd (compile_tree W V pending s)) = ts_Tree s"
  by (auto simp: compile_tree_def Let_def split: sum.splits)

lemma probe_file_others:
  assumes "q \<noteq> p"
  shows "ts_Tree (snd (probe_file W V p s ms)) q = ts_Tree s q"
  using apply_file_others [OF assms, of W V ms s] compile_tree_tree [of W V "[]"]
  by (auto simp: probe_file_def split: prod.splits option.splits sum.splits) (metis snd_conv)+

lemma isolate_others:
  assumes "q \<noteq> p" and "isolate (probe_file W V p) cands s = (r, s')"
  shows "ts_Tree s' q = ts_Tree s q"
  using isolate_keeps [of "\<lambda>t. ts_Tree t q = ts_Tree s q" "probe_file W V p" s cands]
    probe_file_others [OF assms(1), of W V] assms(2) by simp

lemma restore_files_None:
  "restore_files W V ps s = (None, s') \<Longrightarrow>
   ts_Tree s' = (\<lambda>q. if q \<in> set ps then [] else ts_Tree s q) \<and> ts_Builds s' = ts_Builds s"
proof (induction ps arbitrary: s)
  case (Cons p ps)
  then obtain s1 where "apply_file W V p [] s = (None, s1)" "restore_files W V ps s1 = (None, s')"
    by (auto split: prod.splits option.splits)
  with Cons.IH [of s1] apply_file_None [of W V p "[]" s s1] show ?case by auto
qed simp

lemma reinstate_files_None:
  "reinstate_files W V ps s = (None, s') \<Longrightarrow>
   ts_Tree s' = (\<lambda>q. if q \<in> set ps then mutants_at V q else ts_Tree s q) \<and> ts_Builds s' = ts_Builds s"
proof (induction ps arbitrary: s)
  case (Cons p ps)
  then obtain s1 where "apply_file W V p (mutants_at V p) s = (None, s1)" "reinstate_files W V ps s1 = (None, s')"
    by (auto split: prod.splits option.splits)
  with Cons.IH [of s1] apply_file_None [of W V p "mutants_at V p" s s1] show ?case by auto
qed simp

section \<open>The rounds\<close>

definition well_grouped :: "validator \<Rightarrow> bool" where
  "well_grouped V \<longleftrightarrow> distinct (vd_Paths V) \<and> (\<forall>p. distinct (mutants_at V p))
     \<and> (\<forall>p. p \<notin> set (vd_Paths V) \<longrightarrow> mutants_at V p = [])
     \<and> (\<forall>p q m. m \<in> set (mutants_at V p) \<longrightarrow> m \<in> set (mutants_at V q) \<longrightarrow> p = q)"

text \<open>The mutants of a file that were not condemned.\<close>

definition keep_mutants :: "condemned_list \<Rightarrow> mutant list \<Rightarrow> mutant list" where
  "keep_mutants rejected ms = filter (\<lambda>m. m \<notin> fst ` set rejected) ms"

definition condemned_in :: "validator \<Rightarrow> condemned_list \<Rightarrow> string set \<Rightarrow> bool" where
  "condemned_in V rejected ps \<longleftrightarrow> (\<forall>c \<in> set rejected. \<exists>p \<in> ps. fst c \<in> set (mutants_at V p))"

lemma condemned_in_append: "condemned_in V (xs @ ys) ps \<longleftrightarrow> condemned_in V xs ps \<and> condemned_in V ys ps"
  by (auto simp: condemned_in_def)

lemma condemned_in_mono: "condemned_in V xs ps \<Longrightarrow> ps \<subseteq> qs \<Longrightarrow> condemned_in V xs qs"
  by (auto simp: condemned_in_def)

lemma keep_mutants_append: "keep_mutants (xs @ ys) ms = keep_mutants xs (keep_mutants ys ms)"
  unfolding keep_mutants_def filter_filter by (rule filter_cong) auto

lemma keep_other_files:
  assumes "well_grouped V" and "condemned_in V rejected ps" and "q \<notin> ps"
  shows "keep_mutants rejected (mutants_at V q) = mutants_at V q"
proof -
  have "m \<notin> fst ` set rejected" if m: "m \<in> set (mutants_at V q)" for m
  proof
    assume "m \<in> fst ` set rejected"
    then obtain p where "p \<in> ps" "m \<in> set (mutants_at V p)" using assms(2) by (auto simp: condemned_in_def)
    then have "p = q" using assms(1) m unfolding well_grouped_def by blast
    with \<open>p \<in> ps\<close> assms(3) show False by simp
  qed
  then show ?thesis by (simp add: keep_mutants_def filter_id_conv)
qed

lemma subseq_subset: "subseq xs ys \<Longrightarrow> set xs \<subseteq> set ys"
  by (induction rule: list_emb.induct) auto

lemma subseq_filter_mset:
  assumes "subseq a cands" and "mset a + mset r = mset cands" and "distinct cands"
  shows "a = filter (\<lambda>m. m \<notin> set r) cands" and "set r \<subseteq> set cands"
proof -
  have "distinct (a @ r)" using assms(2,3) by (metis mset_append mset_eq_imp_distinct_iff)
  then have disj: "set a \<inter> set r = {}" by simp
  have set: "set a \<union> set r = set cands" using assms(2) by (metis set_mset_mset set_mset_union)
  show "set r \<subseteq> set cands" using set by blast
  have "a = filter (\<lambda>m. m \<in> set a) cands"
    using assms(1,3)
  proof (induction a cands)
    case (list_emb_Nil ys)
    then show ?case by simp
  next
    case (list_emb_Cons xs ys y)
    moreover have "set xs \<subseteq> set ys" using list_emb_Cons.hyps(1) by (rule subseq_subset)
    ultimately show ?case by auto
  next
    case (list_emb_Cons2 x y xs ys)
    then have "x = y" "xs = filter (\<lambda>m. m \<in> set xs) ys" "y \<notin> set ys" by simp_all
    moreover have "filter (\<lambda>m. m = y \<or> m \<in> set xs) ys = filter (\<lambda>m. m \<in> set xs) ys"
      using \<open>y \<notin> set ys\<close> by (intro filter_cong) auto
    ultimately show ?case by simp
  qed
  also have "\<dots> = filter (\<lambda>m. m \<notin> set r) cands" using disj set by (intro filter_cong) auto
  finally show "a = filter (\<lambda>m. m \<notin> set r) cands" .
qed

lemma isolate_accepts:
  assumes "isolate p cands s = (Inr (a, r), s')" and "distinct cands"
  shows "a = filter (\<lambda>m. m \<notin> fst ` set r) cands" and "fst ` set r \<subseteq> set cands"
  using isolate_partition [where p = p and cands = cands and s = s] subseq_filter_mset [of a cands "map fst r"] assms by simp_all

lemma isolate_files_Inr:
  assumes V: "well_grouped V"
  shows "isolate_files W V ps pending rejected s = (Inr (pending', rejected'), s') \<Longrightarrow> distinct ps \<Longrightarrow>
    \<exists>new. rejected' = rejected @ new \<and> pending' = filter (\<lambda>q. q \<notin> set ps) pending \<and> condemned_in V new (set ps)
      \<and> ts_Tree s' = (\<lambda>q. if q \<in> set ps then keep_mutants new (mutants_at V q) else ts_Tree s q)"
proof (induction ps arbitrary: pending rejected s)
  case Nil
  then show ?case by (simp add: condemned_in_def)
next
  case (Cons p ps)
  obtain a r s1 s2 where i: "isolate (probe_file W V p) (mutants_at V p) s = (Inr (a, r), s1)"
    and ap: "apply_file W V p a s1 = (None, s2)"
    and rest: "isolate_files W V ps (filter (\<lambda>q. q \<noteq> p) pending) (rejected @ r) s2 = (Inr (pending', rejected'), s')"
    using Cons.prems(1) by (auto split: prod.splits sum.splits option.splits)
  obtain new where new: "rejected' = (rejected @ r) @ new" "pending' = filter (\<lambda>q. q \<notin> set ps) (filter (\<lambda>q. q \<noteq> p) pending)"
    "condemned_in V new (set ps)"
    "ts_Tree s' = (\<lambda>q. if q \<in> set ps then keep_mutants new (mutants_at V q) else ts_Tree s2 q)"
    using Cons.IH [OF rest] Cons.prems(2) by auto
  have "distinct (mutants_at V p)" using V by (simp add: well_grouped_def)
  note acc = isolate_accepts [OF i this]
  have r: "condemned_in V r {p}" using acc(2) by (auto simp: condemned_in_def)
  have p: "p \<notin> set ps" using Cons.prems(2) by simp
  have "ts_Tree s' q = (if q \<in> set (p # ps) then keep_mutants (r @ new) (mutants_at V q) else ts_Tree s q)" for q
  proof -
    consider "q = p" | "q \<noteq> p" "q \<in> set ps" | "q \<noteq> p" "q \<notin> set ps" by blast
    then show ?thesis
    proof cases
      case 1
      then have "ts_Tree s' q = a" using new(4) p apply_file_None [OF ap] by simp
      then show ?thesis
        using 1 acc(1) keep_other_files [OF V new(3) p] by (simp add: keep_mutants_append) (simp add: keep_mutants_def)
    next
      case 2
      have "keep_mutants (r @ new) (mutants_at V q) = keep_mutants (new @ r) (mutants_at V q)"
        by (simp add: keep_mutants_def Un_commute)
      then show ?thesis
        using 2 new(4) keep_other_files [OF V r, of q] by (simp add: keep_mutants_append)
    next
      case 3
      then show ?thesis
        using new(4) apply_file_None [OF ap] isolate_others [OF _ i, of q] by simp
    qed
  qed
  moreover have "condemned_in V (r @ new) (set (p # ps))"
    using r new(3) by (auto simp: condemned_in_def)
  moreover have "pending' = filter (\<lambda>q. q \<notin> set (p # ps)) pending" using new(2) by (simp add: conj_commute)
  ultimately show ?case using new(1) by (intro exI [of _ "r @ new"]) (simp add: fun_eq_iff)
qed

text \<open>Between the rounds the pending files are free of mutants and every other file holds what was accepted.\<close>

definition between_rounds :: "validator \<Rightarrow> string list \<Rightarrow> condemned_list \<Rightarrow> tree_state \<Rightarrow> bool" where
  "between_rounds V pending rejected s \<longleftrightarrow>
     distinct pending \<and> condemned_in V rejected (- set pending)
     \<and> ts_Tree s = (\<lambda>q. if q \<in> set pending then [] else keep_mutants rejected (mutants_at V q))"

definition holds_accepted :: "validator \<Rightarrow> condemned_list \<Rightarrow> tree_state \<Rightarrow> bool" where
  "holds_accepted V rejected s \<longleftrightarrow> ts_Tree s = (\<lambda>q. keep_mutants rejected (mutants_at V q))"

lemma round_step:
  assumes V: "well_grouped V" and inv: "between_rounds V pending rejected s"
    and blamed: "distinct blamed" "set blamed \<subseteq> set pending"
    and i: "isolate_files W V blamed pending rejected s = (Inr (pending', rejected'), s1)"
    and r: "reinstate_files W V pending' s1 = (None, s2)"
  shows "holds_accepted V rejected' s2" and "pending' = filter (\<lambda>q. q \<notin> set blamed) pending"
    and "condemned_in V rejected' (- set pending')" and "distinct pending'"
proof -
  obtain new where new: "rejected' = rejected @ new" "pending' = filter (\<lambda>q. q \<notin> set blamed) pending"
    "condemned_in V new (set blamed)"
    "ts_Tree s1 = (\<lambda>q. if q \<in> set blamed then keep_mutants new (mutants_at V q) else ts_Tree s q)"
    using isolate_files_Inr [OF V i blamed(1)] by blast
  have old: "condemned_in V rejected (- set pending)" using inv by (simp add: between_rounds_def)
  show "pending' = filter (\<lambda>q. q \<notin> set blamed) pending" by (rule new)
  show "distinct pending'" using inv by (simp add: new(2) between_rounds_def)
  show "condemned_in V rejected' (- set pending')"
    unfolding new(1) condemned_in_append
    using condemned_in_mono [OF old, of "- set pending'"] condemned_in_mono [OF new(3), of "- set pending'"] new(2) by auto
  have "ts_Tree s2 q = keep_mutants rejected' (mutants_at V q)" for q
  proof -
    have t: "ts_Tree s2 q = (if q \<in> set pending' then mutants_at V q else ts_Tree s1 q)"
      using reinstate_files_None [OF r] by simp
    consider "q \<in> set pending'" | "q \<in> set blamed" | "q \<notin> set pending" using new(2) by auto
    then show ?thesis
    proof cases
      case 1
      then have "q \<notin> set blamed" "q \<notin> - set pending" using new(2) by auto
      then show ?thesis
        using 1 t keep_other_files [OF V new(3)] keep_other_files [OF V old] by (simp add: new(1) keep_mutants_append)
    next
      case 2
      then have "q \<notin> set pending'" "q \<notin> - set pending" using new(2) blamed(2) by auto
      moreover have "keep_mutants rejected' (mutants_at V q) = keep_mutants (new @ rejected) (mutants_at V q)"
        by (simp add: new(1) keep_mutants_def Un_commute)
      ultimately show ?thesis
        using 2 t new(4) keep_other_files [OF V old] by (simp add: keep_mutants_append)
    next
      case 3
      then have "q \<notin> set pending'" "q \<notin> set blamed" using new(2) blamed(2) by auto
      then show ?thesis
        using 3 t new(4) inv keep_other_files [OF V new(3)] by (simp add: new(1) keep_mutants_append between_rounds_def)
    qed
  qed
  then show "holds_accepted V rejected' s2" by (simp add: holds_accepted_def fun_eq_iff)
qed

lemma holds_accepted_compile:
  "compile_tree W V pending s = (x, s') \<Longrightarrow> holds_accepted V rejected s \<Longrightarrow> holds_accepted V rejected s'"
  using compile_tree_tree [of W V pending s] by (simp add: holds_accepted_def)

lemma between_rounds_restore:
  assumes "holds_accepted V rejected s" and "restore_files W V pending s = (None, s')"
    and "distinct pending" and "condemned_in V rejected (- set pending)"
  shows "between_rounds V pending rejected s'"
  using assms restore_files_None [OF assms(2)] by (auto simp: between_rounds_def holds_accepted_def)

definition tree_passed :: "'e tools \<Rightarrow> tree_state \<Rightarrow> bool" where
  "tree_passed W s \<longleftrightarrow> (\<exists>v. build_ran (tl_Build W (ts_Builds s) (ts_Tree s)) v \<and> \<not> failed v)"

lemma bisect_rounds_accepted:
  assumes V: "well_grouped V"
  shows "bisect_rounds W V n blamed pending rejected s = ((rejected', None), s') \<Longrightarrow>
    between_rounds V pending rejected s \<Longrightarrow> distinct blamed \<Longrightarrow> set blamed \<subseteq> set pending \<Longrightarrow>
    holds_accepted V rejected' s' \<and> tree_passed W s' \<and> condemned_in V rejected' UNIV"
proof (induction n arbitrary: blamed pending rejected s)
  case (Suc n)
  obtain pending1 rejected1 s1 s2 v blamed1 s3 where
    i: "isolate_files W V blamed pending rejected s = (Inr (pending1, rejected1), s1)"
    and r: "reinstate_files W V pending1 s1 = (None, s2)"
    and c: "compile_tree W V pending1 s2 = (Inr (v, blamed1), s3)"
    using Suc.prems(1) by (auto split: prod.splits sum.splits option.splits)
  note step = round_step [OF V Suc.prems(2-4) i r]
  have h: "holds_accepted V rejected1 s3" by (rule holds_accepted_compile [OF c step(1)])
  show ?case
  proof (cases "failed v")
    case False
    then have "rejected' = rejected1" "s' = s3" using Suc.prems(1) i r c by simp_all
    with h False compile_tree_Inr(1) [OF c] condemned_in_mono [OF step(3)] show ?thesis by (auto simp: tree_passed_def)
  next
    case True
    then obtain s4 where re: "restore_files W V pending1 s3 = (None, s4)"
      and again: "bisect_rounds W V n blamed1 pending1 rejected1 s4 = ((rejected', None), s')"
      using Suc.prems(1) i r c by (auto split: prod.splits option.splits if_splits)
    have "between_rounds V pending1 rejected1 s4"
      by (rule between_rounds_restore [OF h re step(4,3)])
    with Suc.IH [OF again] compile_tree_Inr [OF c] step(4) show ?thesis by blast
  qed
qed simp

lemma keep_mutants_Nil [simp]: "keep_mutants [] ms = ms"
  by (simp add: keep_mutants_def)

lemma bisect_tree_accepted:
  assumes V: "well_grouped V" and b: "bisect_tree W V s = ((rejected, None), s')" and s: "ts_Tree s = mutants_at V"
  shows "holds_accepted V rejected s' \<and> tree_passed W s' \<and> condemned_in V rejected UNIV"
proof -
  obtain v blamed s1 where c: "compile_tree W V (vd_Paths V) s = (Inr (v, blamed), s1)"
    using b by (auto simp: bisect_tree_def Let_def split: prod.splits sum.splits)
  have h: "holds_accepted V [] s1" using compile_tree_Inr(2) [OF c] s by (simp add: holds_accepted_def)
  have d: "distinct (vd_Paths V)" using V by (simp add: well_grouped_def)
  show ?thesis
  proof (cases "failed v")
    case False
    then show ?thesis
      using b c h compile_tree_Inr(1) [OF c] by (auto simp: bisect_tree_def tree_passed_def condemned_in_def)
  next
    case True
    then obtain s2 gate gated s3 where re: "restore_files W V (vd_Paths V) s1 = (None, s2)"
      and g: "compile_tree W V [] s2 = (Inr (gate, gated), s3)"
      and again: "bisect_rounds W V (length (vd_Paths V) + 1) blamed (vd_Paths V) [] s3 = ((rejected, None), s')"
      using b c by (auto simp: bisect_tree_def Let_def split: prod.splits sum.splits option.splits if_splits)
    have "between_rounds V (vd_Paths V) [] s2"
      by (rule between_rounds_restore [OF h re d]) (simp add: condemned_in_def)
    then have "between_rounds V (vd_Paths V) [] s3"
      using compile_tree_Inr(2) [OF g] by (simp add: between_rounds_def)
    with bisect_rounds_accepted [OF V again] compile_tree_Inr(3,5) [OF c] d show ?thesis by blast
  qed
qed

section \<open>What validation returns\<close>

lemma condemned_by_None: "condemned_by rejected i = None \<longleftrightarrow> i \<notin> ID ` fst ` set rejected"
proof -
  have "foldl (\<lambda>f c. f(ID (fst c) \<mapsto> c)) f0 rejected i = None \<longleftrightarrow> f0 i = None \<and> i \<notin> ID ` fst ` set rejected" for f0
    by (induction rejected arbitrary: f0) auto
  then show ?thesis by (simp add: condemned_by_def)
qed

lemma report_mutants_simp:
  "report_mutants W V by ms =
     (map (\<lambda>m. validation_rejection_of W V m (snd (the (by (ID m))))) (filter (\<lambda>m. by (ID m) \<noteq> None) ms),
      map ID (filter (\<lambda>m. by (ID m) = None) ms))"
  by (induction ms) (auto split: option.splits)

lemma vj_ID_of [simp]: "vj_ID (validation_rejection_of W V m out) = ID m"
  by (simp add: validation_rejection_of_def Let_def case_prod_beta)

definition validation_accounts :: "catalog \<Rightarrow> validation_result \<Rightarrow> bool" where
  "validation_accounts c r \<longleftrightarrow>
     map vj_ID (vr_Rejected r) = map ID (filter (\<lambda>m. ID m \<in> set (map vj_ID (vr_Rejected r))) (mutants c))
     \<and> vr_AcceptedIDs r = map ID (filter (\<lambda>m. ID m \<notin> set (map vj_ID (vr_Rejected r))) (mutants c))"

lemma validation_result_accounts:
  assumes "vd_Catalog V = c"
  shows "validation_accounts c (validation_result_of W V s rejected)"
    and "vr_AcceptedIDs (validation_result_of W V s rejected)
      = map ID (filter (\<lambda>m. ID m \<notin> ID ` fst ` set rejected) (mutants c))"
    and "vr_Builds (validation_result_of W V s rejected) = ts_Builds s"
proof -
  let ?r = "validation_result_of W V s rejected" and ?gone = "\<lambda>m. ID m \<in> ID ` fst ` set rejected"
  have r: "map vj_ID (vr_Rejected ?r) = map ID (filter ?gone (mutants c))"
    by (simp add: validation_result_of_def report_mutants_simp assms condemned_by_None comp_def)
  show a: "vr_AcceptedIDs ?r = map ID (filter (\<lambda>m. \<not> ?gone m) (mutants c))" "vr_Builds ?r = ts_Builds s"
    by (simp_all add: validation_result_of_def report_mutants_simp assms condemned_by_None)
  have "ID m \<in> set (map vj_ID (vr_Rejected ?r)) \<longleftrightarrow> ?gone m" if "m \<in> set (mutants c)" for m
    unfolding r using that by force
  then show "validation_accounts c ?r"
    unfolding validation_accounts_def a(1) using r by (auto cong: filter_cong)
qed

lemma run_validation_Inr:
  assumes "run_validation W opts = Inr (r, err, V, s)"
  obtains c s0 rejected where "va_Catalog opts = Some c" and "vd_Catalog V = c"
    and "distinct (vd_Paths V)" and "set (vd_Paths V) = mutant_key (module_dirs c (va_Modules opts)) ` set (mutants c)"
    and "mutants_at V = (\<lambda>p. filter (\<lambda>m. mutant_key (module_dirs c (va_Modules opts)) m = p) (mutants c))"
    and "ts_Tree s0 = mutants_at V" and "bisect_tree W V s0 = ((rejected, err), s)"
    and "r = validation_result_of W V s rejected"
proof -
  obtain V0 s0 rejected where co: "(check_options opts :: 'a validate_error option) = None"
    and p: "read_pristine W (the (va_Snap opts)) (the (va_Catalog opts)) (va_Modules opts) = Inr V0"
    and i: "instrument_modules W V0 = Inr (V, s0)" and b: "bisect_tree W V s0 = ((rejected, err), s)"
    and r: "r = validation_result_of W V s rejected"
    using assms by (auto simp: run_validation_def split: option.splits sum.splits prod.splits)
  obtain c where c: "va_Catalog opts = Some c"
    using co by (auto simp: check_options_def Let_def split: option.splits if_splits)
  note p' = read_pristine_Inr [OF p] and i' = instrument_modules_Inr [OF i]
  show ?thesis
  proof (rule that [OF c _ _ _ _ i'(6) b r])
    show "vd_Catalog V = c" "distinct (vd_Paths V)"
      "set (vd_Paths V) = mutant_key (module_dirs c (va_Modules opts)) ` set (mutants c)"
      using p' i' c by simp_all
    show "mutants_at V = (\<lambda>p. filter (\<lambda>m. mutant_key (module_dirs c (va_Modules opts)) m = p) (mutants c))"
      unfolding i'(3) using p'(3) c by (simp add: fun_eq_iff)
  qed
qed

lemma grouped_validator:
  assumes "distinct (vd_Paths V)" and "set (vd_Paths V) = key ` set (mutants c)"
    and "mutants_at V = (\<lambda>p. filter (\<lambda>m. key m = p) (mutants c))" and "catalog_ok c"
  shows "well_grouped V"
  using assms by (auto simp: well_grouped_def catalog_ok_def distinct_map filter_empty_conv)

lemma keep_accepted:
  assumes ok: "catalog_ok c" and at: "mutants_at V = (\<lambda>p. filter (\<lambda>m. key m = p) (mutants c))"
    and in': "condemned_in V rejected UNIV"
  shows "keep_mutants rejected (mutants_at V p)
    = filter (\<lambda>m. ID m \<in> set (map ID (filter (\<lambda>m. ID m \<notin> ID ` fst ` set rejected) (mutants c))) \<and> key m = p) (mutants c)"
proof -
  have d: "inj_on ID (set (mutants c))" using ok by (simp add: catalog_ok_def distinct_map)
  have sub: "fst ` set rejected \<subseteq> set (mutants c)" using in' by (auto simp: condemned_in_def at)
  have "ID m \<in> set (map ID (filter (\<lambda>m. ID m \<notin> ID ` fst ` set rejected) (mutants c))) \<longleftrightarrow> m \<notin> fst ` set rejected"
    if m: "m \<in> set (mutants c)" for m
  proof -
    have "ID m \<in> ID ` fst ` set rejected \<longleftrightarrow> m \<in> fst ` set rejected"
      using inj_on_image_mem_iff [OF d m sub] .
    moreover have "ID m \<in> set (map ID (filter (\<lambda>m. ID m \<notin> X) (mutants c))) \<longleftrightarrow> ID m \<notin> X" for X
      using m by force
    ultimately show ?thesis by simp
  qed
  then show ?thesis unfolding keep_mutants_def at filter_filter by (intro filter_cong) auto
qed

text \<open>
  The sources are kept under the paths of the snapshot and a mutant is looked up under its path in
  the module: where the two differ, a rejection has no source and says line 1, column 1.
\<close>

lemma rejection_without_source:
  assumes "vd_Pristine V (c_Path (m_candidate m)) = None"
  shows "vj_Line (validation_rejection_of W V m out) = 1" and "vj_Column (validation_rejection_of W V m out) = 1"
  using assms by (simp_all add: validation_rejection_of_def source_position_def count_byte_def Let_def)

text \<open>
  C21. Validation keeps its promise. For any catalogue that was built and whatever the tools do,
  the rejections and the accepted mutants are the two parts of the catalogue, each in its order;
  and when the search ends without an error, every file holds exactly its accepted mutants and the
  last build was of that very tree and passed.
\<close>

theorem validated_tree_builds:
  "(case builder_build b of Inl _ \<Rightarrow> True | Inr c \<Rightarrow>
     (case run_validation W (opts\<lparr>va_Catalog := Some c\<rparr>) of Inl _ \<Rightarrow> True | Inr (r, err, V, s) \<Rightarrow>
        validation_accounts c r
        \<and> (case err of Some _ \<Rightarrow> True | None \<Rightarrow>
             ts_Tree s = (\<lambda>path. filter (\<lambda>m. ID m \<in> set (vr_AcceptedIDs r)
               \<and> mutant_key (module_dirs c (va_Modules opts)) m = path) (mutants c))
             \<and> tree_passed W s \<and> vr_Builds r = ts_Builds s)))"
proof -
  have "validation_accounts c r
        \<and> (case err of Some _ \<Rightarrow> True | None \<Rightarrow>
             ts_Tree s = (\<lambda>path. filter (\<lambda>m. ID m \<in> set (vr_AcceptedIDs r)
               \<and> mutant_key (module_dirs c (va_Modules opts)) m = path) (mutants c))
             \<and> tree_passed W s \<and> vr_Builds r = ts_Builds s)"
    if c: "builder_build b = Inr c" and run: "run_validation W (opts\<lparr>va_Catalog := Some c\<rparr>) = Inr (r, err, V, s)"
    for c r err V s
  proof -
    have ok: "catalog_ok c" by (rule build_catalog_ok [OF c])
    obtain s0 rejected where V: "vd_Catalog V = c" "distinct (vd_Paths V)"
        "set (vd_Paths V) = mutant_key (module_dirs c (va_Modules opts)) ` set (mutants c)"
      and at: "mutants_at V = (\<lambda>p. filter (\<lambda>m. mutant_key (module_dirs c (va_Modules opts)) m = p) (mutants c))"
      and s0: "ts_Tree s0 = mutants_at V" and bi: "bisect_tree W V s0 = ((rejected, err), s)"
      and r: "r = validation_result_of W V s rejected"
      by (rule run_validation_Inr [OF run]) simp
    note a = validation_result_accounts [OF V(1), of W s rejected, folded r]
    show ?thesis
    proof (cases err)
      case None
      with bisect_tree_accepted [OF grouped_validator [OF V(2,3) at ok] _ s0] bi
      have h: "holds_accepted V rejected s" "tree_passed W s" "condemned_in V rejected UNIV" by auto
      then show ?thesis
        using a None keep_accepted [OF ok at h(3)] by (simp add: holds_accepted_def a(2))
    qed (use a in simp)
  qed
  then show ?thesis by (auto split: sum.split prod.split)
qed

section \<open>The bound on the rounds\<close>

lemma isolate_files_pending:
  "isolate_files W V ps pending rejected s = (Inr (pending', rejected'), s') \<Longrightarrow>
   pending' = filter (\<lambda>q. q \<notin> set ps) pending"
proof (induction ps arbitrary: pending rejected s)
  case (Cons p ps)
  then obtain rejected1 s1 where
    "isolate_files W V ps (filter (\<lambda>q. q \<noteq> p) pending) rejected1 s1 = (Inr (pending', rejected'), s')"
    by (auto split: prod.splits sum.splits option.splits)
  from Cons.IH [OF this] show ?case by simp
qed simp

lemma fewer_pending:
  assumes "set ps \<subseteq> set qs" and "qs \<noteq> [] \<Longrightarrow> ps \<noteq> []" and "filter (\<lambda>q. q \<notin> set ps) qs \<noteq> []"
  shows "length (filter (\<lambda>q. q \<notin> set ps) qs) < length qs"
proof -
  have "ps \<noteq> []" using assms(2,3) by auto
  then have "hd ps \<in> set qs" "\<not> hd ps \<notin> set ps" using assms(1) by (auto simp: subset_iff)
  then show ?thesis by (rule length_filter_less)
qed

lemma bisect_rounds_enough:
  assumes "length pending < n" and "length pending < k"
    and "set blamed \<subseteq> set pending" and "pending \<noteq> [] \<Longrightarrow> blamed \<noteq> []"
  shows "bisect_rounds W V n blamed pending rejected s = bisect_rounds W V k blamed pending rejected s"
  using assms
proof (induction n arbitrary: k blamed pending rejected s)
  case (Suc n)
  then obtain j where k: "k = Suc j" by (cases k) auto
  obtain x s1 where i: "isolate_files W V blamed pending rejected s = (x, s1)" by fastforce
  show ?case
  proof (cases x)
    case (Inr y)
    obtain pending1 rejected1 where y: "y = (pending1, rejected1)" by fastforce
    obtain o2 s2 where r: "reinstate_files W V pending1 s1 = (o2, s2)" by fastforce
    obtain z s3 where c: "compile_tree W V pending1 s2 = (z, s3)" by fastforce
    have p1: "pending1 = filter (\<lambda>q. q \<notin> set blamed) pending"
      using isolate_files_pending [of W V blamed pending rejected s pending1 rejected1 s1] i by (simp add: Inr y)
    have "bisect_rounds W V n blamed1 pending1 rejected1 s4 = bisect_rounds W V j blamed1 pending1 rejected1 s4"
      if z: "z = Inr (v, blamed1)" "failed v" "pending1 \<noteq> []" for v blamed1 s4
    proof -
      have "length pending1 < length pending"
        unfolding p1 using fewer_pending Suc.prems(3,4) z(3) p1 by metis
      then have "length pending1 < n" "length pending1 < j" using Suc.prems(1,2) k by simp_all
      with Suc.IH [OF this] compile_tree_Inr(3,4) [OF c [unfolded z(1)]] z(2) show ?thesis by blast
    qed
    then show ?thesis
      using i r c by (auto simp: k Inr y split: option.splits sum.splits prod.splits)
  qed (simp add: k i)
qed simp

text \<open>
  C23. The bound on the rounds never ends the search. Once a build of all pending files has failed
  and named the files to isolate, one round more than there are pending files is as good as any
  larger number of rounds: the error after the last round is never returned, whatever the tools do.
\<close>

theorem bisect_rounds_bound:
  "(case compile_tree W V pending s0 of (Inl _, _) \<Rightarrow> True | (Inr (v, blamed), _) \<Rightarrow>
     if failed v then bisect_rounds W V (length pending + 1) blamed pending rejected s
       = bisect_rounds W V (length pending + 1 + extra) blamed pending rejected s
     else True)"
proof -
  have "bisect_rounds W V (length pending + 1) blamed pending rejected s
       = bisect_rounds W V (length pending + 1 + extra) blamed pending rejected s"
    if "compile_tree W V pending s0 = (Inr (v, blamed), s1)" "failed v" for v blamed s1
    using compile_tree_Inr(3,4) [OF that(1)] that(2) by (intro bisect_rounds_enough) auto
  then show ?thesis by (simp del: bisect_rounds.simps split: prod.split sum.split, blast)
qed

section \<open>Mutants that fail on their own\<close>

text \<open>Tools that always answer, and builds that fail exactly for a faulty mutant in a file of the catalogue.\<close>

definition faithful_tools :: "'e tools \<Rightarrow> string list \<Rightarrow> (mutant \<Rightarrow> bool) \<Rightarrow> bool" where
  "faithful_tools W paths faulty \<longleftrightarrow>
     (\<forall>n ref src ms. \<not> isl (tl_InstrumentFile W n ref src ms))
     \<and> (\<forall>n tree. \<not> bd_Err (tl_Build W n tree) \<and> \<not> bd_TimedOut (tl_Build W n tree) \<and> \<not> bd_Cancelled (tl_Build W n tree)
          \<and> (bd_ExitCode (tl_Build W n tree) \<noteq> 0 \<longleftrightarrow> list_ex (\<lambda>p. list_ex faulty (tree p)) paths))"

definition clean_tree :: "(mutant \<Rightarrow> bool) \<Rightarrow> string set \<Rightarrow> tree_state \<Rightarrow> bool" where
  "clean_tree faulty ps s \<longleftrightarrow> (\<forall>p \<in> ps. \<not> list_ex faulty (ts_Tree s p))"

lemma faithful_apply:
  assumes "faithful_tools W paths faulty"
  obtains s' where "apply_file W V p ms s = (None, s')" and "ts_Tree s' = (ts_Tree s)(p := ms)"
proof -
  have "fst (apply_file W V p ms s) = None"
    using assms by (auto simp: faithful_tools_def apply_file_def Let_def split: sum.split) (metis sum.disc(1))
  then obtain s' where "apply_file W V p ms s = (None, s')" by (metis prod.collapse)
  then show ?thesis using that apply_file_None by metis
qed

lemma faithful_compile:
  assumes "faithful_tools W paths faulty"
  obtains v blamed s' where "compile_tree W V pending s = (Inr (v, blamed), s')" and "ts_Tree s' = ts_Tree s"
    and "failed v \<longleftrightarrow> \<not> clean_tree faulty (set paths) s"
proof -
  let ?r = "tl_Build W (ts_Builds s + 1) (ts_Tree s)"
  have r: "\<not> bd_Err ?r" "\<not> bd_TimedOut ?r" "\<not> bd_Cancelled ?r"
    "bd_ExitCode ?r \<noteq> 0 \<longleftrightarrow> \<not> clean_tree faulty (set paths) s"
    using assms by (auto simp: faithful_tools_def clean_tree_def list_ex_iff)
  let ?v = "\<lparr>failed = (bd_ExitCode ?r \<noteq> 0), build_output = bd_Output ?r\<rparr>"
  have "compile_tree W V pending s = (Inr (?v, if failed ?v \<and> length pending > 0 then blame W V (bd_Output ?r) pending else []),
      s\<lparr>ts_Builds := ts_Builds s + 1\<rparr>)"
    using r by (simp add: compile_tree_def build_snapshot_def)
  then show ?thesis using that r(4) by simp
qed

lemma faithful_never_fails:
  assumes "faithful_tools W paths faulty"
  shows "fst (apply_file W V p ms s) = None" and "fst (restore_files W V ps s) = None"
    and "fst (reinstate_files W V ps s) = None"
proof -
  show a: "fst (apply_file W V p ms s) = None" for p ms s
    by (rule faithful_apply [OF assms, of V p ms s]) simp
  have split: "fst (case x of (None, s) \<Rightarrow> f s | (Some err, s) \<Rightarrow> (Some err, s)) = None"
    if "fst x = None" "\<And>s. fst (f s) = None" for x :: "'b option \<times> 'c" and f :: "'c \<Rightarrow> 'b option \<times> 'c"
    using that by (cases x) simp
  show "fst (restore_files W V ps s) = None"
    by (induction ps arbitrary: s) (simp_all add: split a)
  show "fst (reinstate_files W V ps s) = None"
    by (induction ps arbitrary: s) (simp_all add: split a)
qed

lemma faithful_restore:
  assumes "faithful_tools W paths faulty"
  obtains s' where "restore_files W V ps s = (None, s')"
    and "ts_Tree s' = (\<lambda>q. if q \<in> set ps then [] else ts_Tree s q)"
  using faithful_never_fails(2) [OF assms] restore_files_None by (metis prod.collapse)

lemma faithful_reinstate:
  assumes "faithful_tools W paths faulty"
  obtains s' where "reinstate_files W V ps s = (None, s')"
    and "ts_Tree s' = (\<lambda>q. if q \<in> set ps then mutants_at V q else ts_Tree s q)"
  using faithful_never_fails(3) [OF assms] reinstate_files_None by (metis prod.collapse)

text \<open>Isolating a file of a tree that is clean elsewhere.\<close>

lemma faithful_isolate:
  assumes W: "faithful_tools W paths faulty" and p: "p \<in> set paths"
    and s: "clean_tree faulty (set paths - {p}) s"
  shows "\<exists>r s'. isolate (probe_file W V p) cands s = (Inr (filter (\<lambda>m. \<not> faulty m) cands, r), s')
    \<and> map fst r = filter faulty cands \<and> clean_tree faulty (set paths - {p}) s'"
proof (rule isolate_exact [where I = "clean_tree faulty (set paths - {p})"])
  fix t ms assume t: "clean_tree faulty (set paths - {p}) t"
  obtain t1 where a: "apply_file W V p ms t = (None, t1)" "ts_Tree t1 = (ts_Tree t)(p := ms)"
    by (rule faithful_apply [OF W])
  obtain v blamed t2 where c: "compile_tree W V [] t1 = (Inr (v, blamed), t2)" "ts_Tree t2 = ts_Tree t1"
    "failed v \<longleftrightarrow> \<not> clean_tree faulty (set paths) t1" by (rule faithful_compile [OF W])
  have "clean_tree faulty (set paths) t1 \<longleftrightarrow> \<not> list_ex faulty ms"
    using t p a(2) by (auto simp: clean_tree_def)
  moreover have "clean_tree faulty (set paths - {p}) t2" using t a(2) c(2) by (simp add: clean_tree_def)
  ultimately show "\<exists>v t'. probe_file W V p t ms = (Inr v, t') \<and> failed v = list_ex faulty ms \<and> clean_tree faulty (set paths - {p}) t'"
    using a(1) c(1,3) by (simp add: probe_file_def)
qed (rule s)

lemma faithful_files:
  assumes W: "faithful_tools W paths faulty"
  shows "set ps \<subseteq> set paths \<Longrightarrow> clean_tree faulty (set paths) s \<Longrightarrow> (\<forall>c \<in> set rejected. faulty (fst c)) \<Longrightarrow>
    \<exists>pending' rejected' s'. isolate_files W V ps pending rejected s = (Inr (pending', rejected'), s')
      \<and> clean_tree faulty (set paths) s' \<and> (\<forall>c \<in> set rejected'. faulty (fst c))"
proof (induction ps arbitrary: pending rejected s)
  case (Cons p ps)
  have p: "p \<in> set paths" and "clean_tree faulty (set paths - {p}) s" using Cons.prems by (auto simp: clean_tree_def)
  from faithful_isolate [OF W this] obtain r s1 where
    i: "isolate (probe_file W V p) (mutants_at V p) s = (Inr (filter (\<lambda>m. \<not> faulty m) (mutants_at V p), r), s1)"
    "map fst r = filter faulty (mutants_at V p)" "clean_tree faulty (set paths - {p}) s1" by blast
  obtain s2 where a: "apply_file W V p (filter (\<lambda>m. \<not> faulty m) (mutants_at V p)) s1 = (None, s2)"
    "ts_Tree s2 = (ts_Tree s1)(p := filter (\<lambda>m. \<not> faulty m) (mutants_at V p))" by (rule faithful_apply [OF W])
  have "clean_tree faulty (set paths) s2" using i(3) a(2) by (auto simp: clean_tree_def list_ex_iff)
  moreover have "list_all faulty (map fst r)" unfolding i(2) by (simp add: list_all_iff)
  then have "(\<forall>c \<in> set (rejected @ r). faulty (fst c))" using Cons.prems(3) by (auto simp: list_all_iff)
  ultimately show ?case using Cons.IH [of s2 "rejected @ r"] Cons.prems(1) i(1) a(1) by simp
qed simp

lemma faithful_rounds:
  assumes W: "faithful_tools W paths faulty"
  shows "length pending < n \<Longrightarrow> set pending \<subseteq> set paths \<Longrightarrow> set blamed \<subseteq> set pending \<Longrightarrow> (pending \<noteq> [] \<Longrightarrow> blamed \<noteq> []) \<Longrightarrow>
    clean_tree faulty (set paths) s \<Longrightarrow> (\<forall>c \<in> set rejected. faulty (fst c)) \<Longrightarrow>
    \<exists>rejected' s'. bisect_rounds W V n blamed pending rejected s = ((rejected', None), s')
      \<and> (\<forall>c \<in> set rejected'. faulty (fst c)) \<and> clean_tree faulty (set paths) s'"
proof (induction n arbitrary: blamed pending rejected s)
  case (Suc n)
  from faithful_files [OF W _ Suc.prems(5,6), of blamed V pending] Suc.prems(2,3)
  obtain pending1 rejected1 s1 where
    i: "isolate_files W V blamed pending rejected s = (Inr (pending1, rejected1), s1)"
    "clean_tree faulty (set paths) s1" "(\<forall>c \<in> set rejected1. faulty (fst c))" by blast
  obtain s2 where r: "reinstate_files W V pending1 s1 = (None, s2)"
    "ts_Tree s2 = (\<lambda>q. if q \<in> set pending1 then mutants_at V q else ts_Tree s1 q)" by (rule faithful_reinstate [OF W])
  obtain v blamed1 s3 where c: "compile_tree W V pending1 s2 = (Inr (v, blamed1), s3)" "ts_Tree s3 = ts_Tree s2"
    "failed v \<longleftrightarrow> \<not> clean_tree faulty (set paths) s2" by (rule faithful_compile [OF W])
  have p1: "pending1 = filter (\<lambda>q. q \<notin> set blamed) pending" by (rule isolate_files_pending [OF i(1)])
  show ?case
  proof (cases "failed v")
    case False
    then have "clean_tree faulty (set paths) s3" using c by (simp add: clean_tree_def)
    with False i r c show ?thesis by simp
  next
    case True
    have ne: "pending1 \<noteq> []"
    proof
      assume "pending1 = []"
      then have "ts_Tree s2 = ts_Tree s1" using r(2) by simp
      then show False using True c(3) i(2) by (simp add: clean_tree_def)
    qed
    obtain s4 where re: "restore_files W V pending1 s3 = (None, s4)"
      "ts_Tree s4 = (\<lambda>q. if q \<in> set pending1 then [] else ts_Tree s3 q)" by (rule faithful_restore [OF W])
    have "clean_tree faulty (set paths) s4" using i(2) r(2) c(2) re(2) by (auto simp: clean_tree_def)
    moreover have "length pending1 < n"
      using fewer_pending [OF Suc.prems(3,4)] ne Suc.prems(1) unfolding p1 by fastforce
    moreover have "set pending1 \<subseteq> set paths" using Suc.prems(2) by (auto simp: p1)
    ultimately show ?thesis
      using Suc.IH [of pending1 blamed1 s4 rejected1] compile_tree_Inr(3,4) [OF c(1)] True ne i r c re by simp
  qed
qed simp

lemma faithful_bisect:
  assumes W: "faithful_tools W (vd_Paths V) faulty" and s: "ts_Tree s = mutants_at V"
  obtains rejected s' where "bisect_tree W V s = ((rejected, None), s')" and "(\<forall>c \<in> set rejected. faulty (fst c))"
    and "clean_tree faulty (set (vd_Paths V)) s'"
proof -
  let ?paths = "vd_Paths V"
  obtain v blamed s1 where c: "compile_tree W V ?paths s = (Inr (v, blamed), s1)" "ts_Tree s1 = ts_Tree s"
    "failed v \<longleftrightarrow> \<not> clean_tree faulty (set ?paths) s" by (rule faithful_compile [OF W])
  have "\<exists>rejected s'. bisect_tree W V s = ((rejected, None), s') \<and> (\<forall>c \<in> set rejected. faulty (fst c))
      \<and> clean_tree faulty (set ?paths) s'"
  proof (cases "failed v")
    case False
    then show ?thesis using c by (simp add: bisect_tree_def clean_tree_def)
  next
    case True
    obtain s2 where re: "restore_files W V ?paths s1 = (None, s2)"
      "ts_Tree s2 = (\<lambda>q. if q \<in> set ?paths then [] else ts_Tree s1 q)" by (rule faithful_restore [OF W])
    obtain gate gated s3 where g: "compile_tree W V [] s2 = (Inr (gate, gated), s3)" "ts_Tree s3 = ts_Tree s2"
      "failed gate \<longleftrightarrow> \<not> clean_tree faulty (set ?paths) s2" by (rule faithful_compile [OF W])
    have clean: "clean_tree faulty (set ?paths) s2" "clean_tree faulty (set ?paths) s3"
      using re(2) g(2) by (simp_all add: clean_tree_def)
    obtain rejected s' where "bisect_rounds W V (length ?paths + 1) blamed ?paths [] s3 = ((rejected, None), s')"
      "(\<forall>c \<in> set rejected. faulty (fst c))" "clean_tree faulty (set ?paths) s'"
      using faithful_rounds [OF W _ subset_refl _ _ clean(2), where n = "length ?paths + 1" and blamed = blamed and V = V and rejected = "[]"]
        compile_tree_Inr(3,4) [OF c(1)] True by auto
    then show ?thesis using c(1) True re(1) g(1,3) clean(1) by (simp add: bisect_tree_def)
  qed
  then show ?thesis using that by blast
qed

lemma keep_faulty:
  assumes "(\<forall>c \<in> set rejected. faulty (fst c))" and "\<not> list_ex faulty (keep_mutants rejected ms)"
  shows "keep_mutants rejected ms = filter (\<lambda>m. \<not> faulty m) ms"
  unfolding keep_mutants_def using assms by (intro filter_cong) (auto simp: keep_mutants_def list_ex_iff)

lemma validation_exact:
  assumes ok: "catalog_ok c" and c: "va_Catalog opts = Some c"
    and W: "faithful_tools W (map (mutant_key (module_dirs c (va_Modules opts))) (mutants c)) faulty"
    and run: "run_validation W opts = Inr (r, err, V, s)"
  shows "err = None \<and> vr_AcceptedIDs r = map ID (filter (\<lambda>m. \<not> faulty m) (mutants c))"
proof -
  let ?key = "mutant_key (module_dirs c (va_Modules opts))"
  obtain s0 rejected where V: "vd_Catalog V = c" "distinct (vd_Paths V)" "set (vd_Paths V) = ?key ` set (mutants c)"
    and at: "mutants_at V = (\<lambda>p. filter (\<lambda>m. ?key m = p) (mutants c))"
    and s0: "ts_Tree s0 = mutants_at V" and bi: "bisect_tree W V s0 = ((rejected, err), s)"
    and r: "r = validation_result_of W V s rejected"
    by (rule run_validation_Inr [OF run]) (use c in simp)
  have W': "faithful_tools W (vd_Paths V) faulty"
    using W V(3) by (simp add: faithful_tools_def list_ex_iff)
  obtain rejected1 s1 where b1: "bisect_tree W V s0 = ((rejected1, None), s1)" "\<forall>c \<in> set rejected1. faulty (fst c)"
    "clean_tree faulty (set (vd_Paths V)) s1" by (rule faithful_bisect [OF W' s0])
  have err: "err = None" and faulty: "\<forall>c \<in> set rejected. faulty (fst c)" and clean: "clean_tree faulty (set (vd_Paths V)) s"
    using b1 bi by simp_all
  have "bisect_tree W V s0 = ((rejected, None), s)" using bi err by simp
  from bisect_tree_accepted [OF grouped_validator [OF V(2,3) at ok] this s0]
  have h: "holds_accepted V rejected s" "condemned_in V rejected UNIV" by simp_all
  have "ID m \<notin> ID ` fst ` set rejected \<longleftrightarrow> \<not> faulty m" if m: "m \<in> set (mutants c)" for m
  proof -
    have in': "m \<in> set (mutants_at V (?key m))" using m by (simp add: at)
    have "\<not> list_ex faulty (keep_mutants rejected (mutants_at V (?key m)))"
      using clean h(1) m V(3) by (simp add: clean_tree_def holds_accepted_def)
    have "m \<in> set (keep_mutants rejected (mutants_at V (?key m))) \<longleftrightarrow> m \<notin> fst ` set rejected"
      using in' by (simp add: keep_mutants_def)
    then have "m \<notin> fst ` set rejected \<longleftrightarrow> \<not> faulty m"
      unfolding keep_faulty [OF faulty \<open>\<not> list_ex faulty (keep_mutants rejected (mutants_at V (?key m)))\<close>] using in' by simp
    moreover have "fst ` set rejected \<subseteq> set (mutants c)" using h(2) by (auto simp: condemned_in_def at)
    ultimately show ?thesis
      using inj_on_image_mem_iff [of ID "set (mutants c)" m "fst ` set rejected"] ok m by (simp add: catalog_ok_def distinct_map)
  qed
  then have "filter (\<lambda>m. ID m \<notin> ID ` fst ` set rejected) (mutants c) = filter (\<lambda>m. \<not> faulty m) (mutants c)"
    by (intro filter_cong refl) blast
  then show ?thesis using err validation_result_accounts(2) [OF V(1), of W s rejected] by (simp add: r)
qed

text \<open>
  C22. For mutants that fail on their own validation is exact: with tools that always answer and
  builds that fail exactly when some file holds a faulty mutant, the search ends without an error
  and accepts the mutants without a fault, whatever the compiler prints and whichever files it
  blames.
\<close>

theorem validation_exact_independent:
  assumes "catalog_ok c" and "va_Catalog opts = Some c"
    and "faithful_tools W (map (mutant_key (module_dirs c (va_Modules opts))) (mutants c)) faulty"
  shows "case run_validation W opts of Inl _ \<Rightarrow> True | Inr (r, err, V, s) \<Rightarrow>
    err = None \<and> vr_AcceptedIDs r = map ID (filter (\<lambda>m. \<not> faulty m) (mutants c))"
  using validation_exact [OF assms] by (auto split: sum.split prod.split)

definition trial_mutant :: "nat \<Rightarrow> char \<Rightarrow> string \<Rightarrow> mutant" where
  "trial_mutant n ch replacement =
     \<lparr>Index = of_nat n, ID = replicate 64 ch, DisplayID = [ch],
      m_candidate = \<lparr>c_ModulePath = ''m'', c_Path = ''a.go'',
        c_Rule = \<lparr>Family = ''f'', Name = ''r'', Version = 1, Tier = TierBalanced\<rparr>,
        c_Span = \<lparr>StartByte = 0, EndByte = 1\<rparr>, c_Original = ''x'', c_Replacement = replacement, c_SourceDigest = []\<rparr>\<rparr>"

definition trial_catalog :: catalog where
  "trial_catalog =
     (let ms = [trial_mutant 0 CHR ''a'' ''good'', trial_mutant 1 CHR ''b'' ''bad''] in
      \<lparr>mutants = ms, duplicates = [], byID = index_by ID ms, byDisplayID = index_by DisplayID ms,
       displayLen = 1, cat_digest = []\<rparr>)"

definition trial_faulty :: "mutant \<Rightarrow> bool" where
  "trial_faulty m \<longleftrightarrow> c_Replacement (m_candidate m) = ''bad''"

definition trial_options :: validate_options where
  "trial_options = \<lparr>va_Snap = Some ''s'', va_Catalog = Some trial_catalog, va_Modules = [\<lparr>vm_Dir = ''d'', vm_Path = ''m''\<rparr>],
     va_GoBin = ''go'', va_Jobs = 1, va_BuildTimeout = 0, va_Packages = []\<rparr>"

definition trial_tools :: "unit tools" where
  "trial_tools =
     \<lparr>tl_ReadFile = (\<lambda>_. Some []), tl_Instrument = (\<lambda>_ _ _. Inr empty_instrumented),
      tl_InstrumentFile = (\<lambda>_ _ _ ms. Inr (int (length ms))),
      tl_Build = (\<lambda>_ tree. \<lparr>bd_Err = False, bd_TimedOut = False, bd_Cancelled = False,
        bd_ExitCode = (if list_ex trial_faulty (tree ''d/a.go'') then 1 else 0), bd_Output = ''d/a.go:1:1: broken''\<rparr>),
      tl_Folds = (\<lambda>a b. a = b), tl_Goos = ''linux''\<rparr>"

lemma trial_catalog_ok: "catalog_ok trial_catalog"
  using sample_letters
  by (auto simp: catalog_ok_def trial_catalog_def trial_mutant_def Let_def upt_rec replicate_eq_replicate)

lemma trial_path [simp]: "snapshot_path ''d'' ''a.go'' = ''d/a.go''"
  by code_simp

lemma trial_modules [simp]: "module_mutants trial_catalog \<lparr>vm_Dir = ''d'', vm_Path = ''m''\<rparr> = ''m''"
  by (simp add: module_mutants_def by_index_def trial_catalog_def trial_mutant_def Let_def)

lemma trial_keys: "map (mutant_key (module_dirs trial_catalog (va_Modules trial_options))) (mutants trial_catalog) = [''d/a.go'', ''d/a.go'']"
  by (simp add: mutant_key_def module_dirs_def trial_options_def) (simp add: trial_catalog_def trial_mutant_def Let_def mutant_key_def)

lemma trial_checks: "(check_options trial_options :: unit validate_error option) = None"
proof -
  have "plain_char CHR ''s''" "plain_char CHR ''g''" "plain_char CHR ''d''" "plain_char CHR ''m''" by code_simp+
  then have "trim_space ''s'' \<noteq> []" "trim_space ''go'' \<noteq> []" "trim_space ''d'' \<noteq> []" "trim_space ''m'' \<noteq> []"
    using trim_space_keeps [of "CHR ''s''" "''s''"] trim_space_keeps [of "CHR ''g''" "''go''"]
      trim_space_keeps [of "CHR ''d''" "''d''"] trim_space_keeps [of "CHR ''m''" "''m''"] by simp_all
  then show ?thesis
    by (simp add: check_options_def trial_options_def) (simp add: trial_catalog_def trial_mutant_def Let_def)
qed

lemma trial_runs: "\<exists>x. run_validation trial_tools trial_options = Inr x"
proof -
  have "\<exists>V. read_pristine trial_tools ''s'' trial_catalog [\<lparr>vm_Dir = ''d'', vm_Path = ''m''\<rparr>] = Inr V
      \<and> vd_Catalog V = trial_catalog \<and> vd_Modules V = [\<lparr>vm_Dir = ''d'', vm_Path = ''m''\<rparr>] \<and> vd_Paths V = [''d/a.go'']
      \<and> map_option fr_Module (vd_Files V ''d/a.go'') = Some ''m''"
    by (simp add: read_pristine_def module_dirs_def group_mutants_def group_mutant_def Let_def mutant_key_def trial_tools_def)
      (simp add: trial_catalog_def trial_mutant_def Let_def group_mutant_def mutant_key_def)
  then obtain V where V: "read_pristine trial_tools ''s'' trial_catalog [\<lparr>vm_Dir = ''d'', vm_Path = ''m''\<rparr>] = Inr V"
    "vd_Catalog V = trial_catalog" "vd_Modules V = [\<lparr>vm_Dir = ''d'', vm_Path = ''m''\<rparr>]" "vd_Paths V = [''d/a.go'']"
    "map_option fr_Module (vd_Files V ''d/a.go'') = Some ''m''" by blast
  have "\<exists>y. instrument_modules trial_tools V = Inr y"
    using V(2-5)
    by (auto simp: instrument_modules_def trial_tools_def Let_def lift_instrumented_def empty_instrumented_def
        settle_rest_def module_of_def)
  then obtain y where "instrument_modules trial_tools V = Inr y" by blast
  moreover have "va_Snap trial_options = Some ''s''" "va_Catalog trial_options = Some trial_catalog"
    "va_Modules trial_options = [\<lparr>vm_Dir = ''d'', vm_Path = ''m''\<rparr>]" by (simp_all add: trial_options_def)
  ultimately show ?thesis
    using V(1) trial_checks by (cases y) (simp add: run_validation_def split: prod.split)
qed

theorem validation_exact_independent_witness:
  "case run_validation trial_tools trial_options of Inl _ \<Rightarrow> False | Inr (r, err, V, s) \<Rightarrow>
    err = None \<and> vr_AcceptedIDs r = [replicate 64 CHR ''a'']"
proof -
  have "faithful_tools trial_tools (map (mutant_key (module_dirs trial_catalog (va_Modules trial_options))) (mutants trial_catalog)) trial_faulty"
    unfolding trial_keys by (simp add: faithful_tools_def trial_tools_def)
  moreover have "va_Catalog trial_options = Some trial_catalog" by (simp add: trial_options_def)
  ultimately have "case run_validation trial_tools trial_options of Inl _ \<Rightarrow> True | Inr (r, err, V, s) \<Rightarrow>
      err = None \<and> vr_AcceptedIDs r = map ID (filter (\<lambda>m. \<not> trial_faulty m) (mutants trial_catalog))"
    by (intro validation_exact_independent [OF trial_catalog_ok])
  moreover have "map ID (filter (\<lambda>m. \<not> trial_faulty m) (mutants trial_catalog)) = [replicate 64 CHR ''a'']"
    by (simp add: trial_faulty_def trial_catalog_def trial_mutant_def Let_def)
  ultimately show ?thesis using trial_runs by auto
qed

end
