(* ===== verification/Spec2Isabelle.thy ===== *)
theory Spec2Isabelle
  imports Spans IntervalForest Glob Outcomes Rules OperatorSelect MutantId Catalog
    Coverage GitDiff Schedule Control Bisect Splices ConfigCheck EngineReport WorkspaceMerge ValidateFacts
begin

text \<open>
  A verification development for go-mutants, a mutation tester for Go modules.

  \<^bold>\<open>The program.\<close> A run discovers candidate mutations in the sources of a module, gives them
  identifiers and collects them in a catalog (\<open>internal/mutation\<close>), rewrites the files so that
  every mutant can be switched on by an environment variable (\<open>internal/instrument\<close>), finds
  out which of them do not compile (\<open>internal/validate\<close>), selects mutants by operator, path,
  shard, changed lines and covering tests (\<open>internal/operatorselect\<close>, \<open>internal/glob\<close>,
  \<open>internal/gitdiff\<close>, \<open>internal/coverage\<close>), runs the test binaries against each one
  (\<open>internal/execute\<close>) and reports outcomes, score and exit code. Modelled is the logic
  between the sources, the Go command and the reports; what starts processes, walks syntax
  trees or prints is left to parameters.

  \<^bold>\<open>Common ground.\<close> \<open>GoPrelude\<close> has 64-bit wrap-around (\<open>wrap64\<close>), comparators and sorting in
  the style of \<open>cmp.Compare\<close> and \<open>slices.SortFunc\<close> (locales \<open>comparator\<close> and
  \<open>linear_comparator\<close>) and \<open>sort.Search\<close>. \<open>GoStrings\<close> has the functions of \<open>strings\<close> and
  \<open>strconv\<close> that the code calls, on strings as lists of bytes. A Go map is a list of entries or
  a HOL map; where Go leaves the order of a map open, the results do not depend on it or the
  model keeps the order of insertion and a lemma speaks of lookups only. Errors are
  constructors of a sum; texts of messages are left out.

  \<^bold>\<open>Mutants.\<close> \<open>Spans\<close> (\<open>mutation/span.go\<close>), \<open>Rules\<close> (\<open>rule.go\<close>, with the canonical
  table), \<open>MutantId\<close> (\<open>id.go\<close>, \<open>shard.go\<close>; \<open>Sha256\<close> is written out and its constants are
  computed as roots of primes) and \<open>Catalog\<close> (\<open>catalog.go\<close>): building a catalog is order
  independent and exact, identifiers are unique up to collisions of the hash, lookups invert the
  catalog. \<open>Outcomes\<close> (\<open>outcome.go\<close>, \<open>score.go\<close>, \<open>exitpolicy.go\<close>; \<open>Float64\<close> has IEEE double
  division): tally, score and exit code.

  \<^bold>\<open>Selection and sites.\<close> \<open>OperatorSelect\<close>, \<open>Glob\<close> (a dynamic program against its declarative
  meaning), \<open>IntervalForest\<close> (\<open>interval\<close>: the forest is well nested, loses nothing and evicts
  only what conflicts).

  \<^bold>\<open>Lines.\<close> \<open>LineRanges\<close> holds inclusive ranges with the locale \<open>range_joins\<close>, which states what
  a test for joining ranges must do; \<open>Coverage\<close> (\<open>coverage/map.go\<close>, \<open>tests.go\<close>) and \<open>GitDiff\<close>
  (\<open>gitdiff/parse.go\<close>, \<open>gitdiff.go\<close>) interpret it on the ranges their 64-bit tests can handle.
  \<open>CoverProfile\<close> (\<open>textfmt.go\<close>): what the parser accepts is well formed and printing inverts it.
  \<open>Coverage\<close>: both maps are exact. \<open>GitDiff\<close>: parsing a diff, counting the lines of untracked
  files and the sequence of git commands are exact up to \<open>Touches\<close>; git is a state transformer
  \<open>'s runner\<close> and the file system a function to \<open>file_entry\<close>.

  \<^bold>\<open>Execution.\<close> \<open>TestLog\<close> (\<open>testflag\<close>, \<open>testlog\<close>, \<open>execute/narrow.go\<close>), \<open>ExecEnv\<close>
  (\<open>execute/env.go\<close>, on a system other than Windows), \<open>RunMutant\<close> (\<open>execute/run.go\<close>,
  \<open>testlog.go\<close>): a \<open>world\<close> delivers what processes, files and the context answer, and the
  theorems hold for every world, so that an outcome is traced back to the results it rests on.
  \<open>Control\<close> (\<open>control.go\<close>) does the same without a mutant. \<open>Schedule\<close> (\<open>schedule.go\<close>): the
  workers are a step relation \<open>sched_step\<close> with one action of one worker per step; the
  invariant \<open>sched_inv\<close> holds in every reachable state, a run has at most three steps per
  mutant and one per worker, and the results are justified by their attempts.

  \<^bold>\<open>Validation.\<close> \<open>Bisect\<close> (\<open>validate/bisect.go\<close>): the search for mutants that do not compile
  among those of one file, with the build as a parameter. \<open>Diagnostics\<close> (\<open>diagnostics.go\<close>): reading
  what the compiler prints, which inverts printing for every way to name a file. \<open>Validation\<close> (\<open>validate.go\<close>): the rounds over the
  files that the compiler blames. The snapshot is the record \<open>tree_state\<close>, which says for each file
  which mutants it was last rewritten with; rewriting and building are operations of \<open>tools\<close>.
  \<open>ValidateFacts\<close>: the tree that validation leaves behind is the one that built, the bound on the
  rounds is enough, and mutants that fail on their own are found exactly.

  \<^bold>\<open>Instrumentation.\<close> \<open>Splices\<close> (\<open>instrument/splice.go\<close>): replacing spans
  with 32-bit offsets and the map between the offsets of source and output.

  \<^bold>\<open>Configuration.\<close> \<open>Config\<close> (\<open>config/config.go\<close>, \<open>set.go\<close>, \<open>overlay.go\<close>): the settings, an overlay
  as a record of options, and the merge of defaults, file and flags. \<open>ConfigCheck\<close>
  (\<open>validate.go\<close>, \<open>errors.go\<close>, \<open>LoadFile\<close>, \<open>Parse\<close> and \<open>Load\<close>): the checks with the code, key and
  place of each problem.
  Checks accept exactly the settings in range, and loading succeeds exactly on well-formed layers,
  taking each setting from the highest one that has it. The decoded file is a parameter.

  \<^bold>\<open>Reports.\<close> \<open>RunReport\<close> (\<open>report/report.go\<close>, \<open>expect.go\<close>): the document and its vocabulary.
  \<open>BuildReport\<close> (\<open>build.go\<close>): building it from a catalogue and results; \<open>ReportFacts\<close>: it accounts
  for the catalogue, its summary can be recomputed and no row contradicts it. \<open>MergeReports\<close>
  (\<open>merge.go\<close>): merging the documents of shards; \<open>MergeFacts\<close>: every row comes from its owner,
  and the documents of a sharded run merge into the document of the run without shards.
  \<open>WorkspaceReport\<close> (\<open>workspace.go\<close>): one document for several modules; \<open>WorkspaceFacts\<close>: dividing a
  run among its modules loses nothing and the verdict is the same for all views; \<open>WorkspaceMerge\<close>:
  sharded runs of a workspace merge module by module.
  \<open>GoTime\<close> has the calendar and the RFC 3339 format of package \<open>time\<close>, with the round trip of
  printing and parsing for years of four digits.

  \<^bold>\<open>Engine.\<close> \<open>OutcomeCache\<close> (\<open>cache/key.go\<close>, \<open>mode.go\<close>, \<open>store.go\<close>): the key of a context, what may
  be reused and what is stored; \<open>ProbeSettle\<close> (\<open>probe/settle.go\<close>): what infection logs prove.
  \<open>EngineRun\<close> (\<open>engine/selection.go\<close>, \<open>coverage.go\<close>, \<open>testcoverage.go\<close>, \<open>probe.go\<close>, \<open>cache.go\<close>,
  \<open>scope.go\<close> and parts of \<open>engine.go\<close>) has the \<open>state\<close> of a run as the record \<open>engine_state\<close> and one
  function per phase from validation on, composed in the order of \<open>mutate\<close>; the record
  \<open>engine_world\<close> holds the answers of everything outside, each of which may be a \<open>fault\<close>: an
  interruption or an error with its code. A phase gives back the fault that ends the run together
  with the state it leaves. \<open>EngineFacts\<close>: each phase keeps \<open>phase_inv\<close> (no mutant is both
  settled and still to run, and every result can be published), also when it ends the run.
  \<open>EngineReport\<close>: what a complete or interrupted run hands over is accepted by \<open>Build\<close>, and every
  other end is an error of the outside, of the prefix or of the scope of the tests; its hypothesis
  on the scheduler is what \<open>Schedule\<close> proves of the results (\<open>justified\<close>) and \<open>run_one_ok\<close> of the
  attempts.

  \<^bold>\<open>Bounds and fuel.\<close> No definition has fuel: the loops are structural recursions or have
  a measure (the length of the text or list left). \<open>bisect_rounds\<close> counts the rounds as the code
  does, and \<open>bisect_rounds_bound\<close> shows that its bound is never what ends it. Machine integers keep
  their width: 32-bit offsets are words, \<open>int\<close> sums wrap through \<open>wrap64\<close>. Where a theorem
  excludes overflow it says so in its hypothesis, and \<open>merge_wraps_at_max_int\<close> shows what happens without it.

  \<^bold>\<open>Not modelled.\<close> Discovery (\<open>discover\<close>) and the rewriting of syntax trees rest on \<open>go/ast\<close> and
  \<open>go/types\<close>; \<open>runner\<close>, \<open>snapshot\<close>, \<open>gocmd\<close>, the rest of \<open>engine\<close>, the command line, the terminal
  interface, \<open>trace\<close> and the module \<open>goatest\<close> are processes, files and text output. Of the
  configuration, the TOML decoder, positions in the file and the parsing of sizes are left out;
  of the reports, JSON, the HTML and Stryker projections and the history. Trace records are left
  out everywhere. Parallel controls (\<open>execute/controls.go\<close>) are logic that is not modelled yet.
\<close>

end
